(* ===== verification/Prelude.thy ===== *)
theory Prelude
  imports "HOL-Library.Word" "HOL-Library.Monad_Syntax"
begin

text \<open>
  The part of the C machine that every component of the firmware uses: bytes, buffers that
  are written inside their bounds or not at all, NUL-terminated strings, the string and
  conversion functions of the C library that the sources call, and little-endian words
  (the target is compiled with \<open>-EL -mips32\<close>, where plain \<open>char\<close> is signed).

  A computation that may leave the buffer it works on returns an option: \<open>None\<close> is an
  access outside the object, which C leaves undefined. Return codes of the program are
  ordinary values beside it.
\<close>

unbundle bit_operations_syntax

named_theorems buf_simps and str_simps and word_layout

type_synonym byte = "8 word"
type_synonym u16 = "16 word"
type_synonym u32 = "32 word"
type_synonym bytes = "byte list"

section \<open>Literals\<close>

definition lit :: "string \<Rightarrow> bytes" where
  "lit s = map of_char s"

lemma lit_simps [simp]: "lit [] = []" "lit (c # cs) = of_char c # lit cs"
  by (simp_all add: lit_def)

lemma length_lit [simp]: "length (lit s) = length s"
  by (simp add: lit_def)

lemma lit_eq_iff: "lit s = lit t \<longleftrightarrow> s = t"
proof -
  have "inj (of_char :: char \<Rightarrow> byte)"
  proof (rule injI)
    fix c d :: char
    assume eq: "(of_char c :: byte) = of_char d"
    have unat: "unat (of_char e :: byte) = of_char e" for e
      using unat_of_nat [where 'a = 8, of "of_char e :: nat"] nat_of_char_less_256 [of e]
      by (simp add: of_nat_of_char)
    have "(of_char c :: nat) = of_char d" using eq by (simp flip: unat)
    then show "c = d" by simp
  qed
  then show ?thesis by (simp add: lit_def inj_map_eq_map)
qed

lemma snoc_not_Nil: "xs @ [x] \<noteq> []"
  by simp

section \<open>Buffers\<close>

text \<open>\<open>poke i xs m\<close> overwrites \<open>m\<close> from index \<open>i\<close>; it is used directly where the
  source writes a member at a fixed offset, and through the guarded \<open>mem_put\<close> where the
  amount written depends on data.\<close>

definition poke :: "nat \<Rightarrow> 'a list \<Rightarrow> 'a list \<Rightarrow> 'a list" where
  "poke i xs m = take i m @ xs @ drop (i + length xs) m"

definition mem_put :: "nat \<Rightarrow> 'a list \<Rightarrow> 'a list \<Rightarrow> 'a list option" where
  "mem_put i xs m = (if i + length xs \<le> length m then Some (poke i xs m) else None)"

definition mem_get :: "nat \<Rightarrow> nat \<Rightarrow> 'a list \<Rightarrow> 'a list option" where
  "mem_get i n m = (if i + n \<le> length m then Some (take n (drop i m)) else None)"

lemma length_poke [simp, buf_simps]:
  "i + length xs \<le> length m \<Longrightarrow> length (poke i xs m) = length m"
  by (simp add: poke_def)

lemma nth_poke [buf_simps]:
  assumes "i + length xs \<le> length m" and "j < length m"
  shows "poke i xs m ! j = (if i \<le> j \<and> j < i + length xs then xs ! (j - i) else m ! j)"
  using assms by (auto simp: poke_def nth_append min_def)

lemma take_poke_before [buf_simps]:
  "j \<le> i \<Longrightarrow> i \<le> length m \<Longrightarrow> take j (poke i xs m) = take j m"
  by (simp add: poke_def min_def)

lemma drop_poke_after [buf_simps]:
  assumes "i + length xs \<le> j" and "i + length xs \<le> length m"
  shows "drop j (poke i xs m) = drop j m"
proof -
  have "drop j (poke i xs m) = drop (j - i - length xs) (drop (i + length xs) m)"
    using assms by (simp add: poke_def)
  then show ?thesis using assms by simp
qed

lemma drop_poke_before:
  assumes "j \<le> i" and "i \<le> length m"
  shows "drop j (poke i xs m) = drop j (take i m) @ xs @ drop (i + length xs) m"
  using assms by (simp add: poke_def)

lemma peek_poke_same [buf_simps]:
  "i \<le> length m \<Longrightarrow> take (length xs) (drop i (poke i xs m)) = xs"
  by (simp add: poke_def)

lemma peek_poke_disjoint [buf_simps]:
  assumes "j + n \<le> i \<or> i + length xs \<le> j" and "i + length xs \<le> length m"
  shows "take n (drop j (poke i xs m)) = take n (drop j m)"
proof (cases "i + length xs \<le> j")
  case True
  with assms show ?thesis by (simp add: drop_poke_after)
next
  case False
  with assms have "j + n \<le> i" by simp
  with assms have "take (j + n) (poke i xs m) = take (j + n) m"
    by (simp add: take_poke_before)
  then have "drop j (take (j + n) (poke i xs m)) = drop j (take (j + n) m)"
    by simp
  then show ?thesis by (simp add: drop_take)
qed

lemma mem_put_eq_Some [simp]:
  "mem_put i xs m = Some m' \<longleftrightarrow> i + length xs \<le> length m \<and> m' = poke i xs m"
  by (auto simp: mem_put_def)

lemma mem_put_eq_None [simp]: "mem_put i xs m = None \<longleftrightarrow> length m < i + length xs"
  by (auto simp: mem_put_def)

lemma mem_get_eq_Some [simp]:
  "mem_get i n m = Some xs \<longleftrightarrow> i + n \<le> length m \<and> xs = take n (drop i m)"
  by (auto simp: mem_get_def)

lemma mem_get_eq_None [simp]: "mem_get i n m = None \<longleftrightarrow> length m < i + n"
  by (auto simp: mem_get_def)

section \<open>C strings\<close>

text \<open>A string value is the list of bytes before the terminator. \<open>c_str m\<close> reads the
  string that starts at the head of \<open>m\<close>; without a terminator the read leaves \<open>m\<close>.\<close>

fun c_str :: "bytes \<Rightarrow> bytes option" where
  "c_str [] = None"
| "c_str (b # m) = (if b = 0 then Some [] else map_option (Cons b) (c_str m))"

definition str_at :: "bytes \<Rightarrow> nat \<Rightarrow> bytes option" where
  "str_at m i = c_str (drop i m)"

definition is_cstr :: "bytes \<Rightarrow> bool" where
  "is_cstr s \<longleftrightarrow> 0 \<notin> set s"

lemma is_cstr_simps [simp]:
  "is_cstr []" "is_cstr (b # s) \<longleftrightarrow> b \<noteq> 0 \<and> is_cstr s" "is_cstr (s @ t) \<longleftrightarrow> is_cstr s \<and> is_cstr t"
  by (auto simp: is_cstr_def)

lemma is_cstr_take [simp, intro]: "is_cstr s \<Longrightarrow> is_cstr (take n s)"
  by (auto simp: is_cstr_def dest: in_set_takeD)

lemma c_str_terminated [simp]: "is_cstr s \<Longrightarrow> c_str (s @ 0 # r) = Some s"
  by (induction s) auto

lemma c_str_Some_iff: "c_str m = Some s \<longleftrightarrow> is_cstr s \<and> (\<exists>r. m = s @ 0 # r)"
proof (induction m arbitrary: s)
  case Nil
  then show ?case by simp
next
  case (Cons b m)
  show ?case
  proof (cases s)
    case Nil
    then show ?thesis by (auto split: if_splits)
  next
    case (Cons c t)
    with Cons.IH [of t] show ?thesis by auto
  qed
qed

lemma c_str_cstr: "c_str m = Some s \<Longrightarrow> is_cstr s"
  by (simp add: c_str_Some_iff)

lemma c_str_take:
  assumes "c_str m = Some s" and "length s < n"
  shows "c_str (take n m) = Some s"
proof -
  from assms(1) obtain r where s: "is_cstr s" and m: "m = s @ 0 # r"
    by (auto simp: c_str_Some_iff)
  from assms(2) obtain k where "n = length s + Suc k"
    by (metis add_Suc_right less_imp_Suc_add)
  with s m show ?thesis by simp
qed

lemma c_str_of_take:
  assumes "c_str (take n m) = Some s"
  shows "c_str m = Some s \<and> length s < n"
proof -
  from assms obtain r where s: "is_cstr s" and t: "take n m = s @ 0 # r"
    by (auto simp: c_str_Some_iff)
  have "m = s @ 0 # (r @ drop n m)"
    using t append_take_drop_id [of n m] by simp
  then have "c_str m = Some s" using s by (metis c_str_terminated)
  moreover have "length s < length (take n m)" using t by simp
  ultimately show ?thesis by simp
qed

text \<open>\<open>strcpy\<close>, \<open>sprintf (d, "%s", s)\<close> and \<open>snprintf (d, n, "%s", s)\<close> into a buffer.\<close>

definition put_str :: "nat \<Rightarrow> bytes \<Rightarrow> bytes \<Rightarrow> bytes option" where
  "put_str i s m = mem_put i (s @ [0]) m"

definition put_strn :: "nat \<Rightarrow> nat \<Rightarrow> bytes \<Rightarrow> bytes \<Rightarrow> bytes option" where
  "put_strn i n s m = mem_put i (take (n - 1) s @ [0]) m"

lemma put_str_eq_Some [simp]:
  "put_str i s m = Some m' \<longleftrightarrow> i + length s < length m \<and> m' = poke i (s @ [0]) m"
  by (auto simp: put_str_def)

lemma put_strn_eq_Some [simp]:
  "put_strn i n s m = Some m' \<longleftrightarrow>
     i + min (length s) (n - 1) < length m \<and> m' = poke i (take (n - 1) s @ [0]) m"
  by (auto simp: put_strn_def min.commute)

lemma str_at_poke_same [str_simps]:
  assumes "i + length s < length m" and "is_cstr s"
  shows "str_at (poke i (s @ [0]) m) i = Some s"
  using assms by (simp add: str_at_def drop_poke_before)

lemma str_at_poke_after [str_simps]:
  assumes "i + length xs \<le> j" and "i + length xs \<le> length m"
  shows "str_at (poke i xs m) j = str_at m j"
  using assms by (simp add: str_at_def drop_poke_after)

text \<open>A string that ends before a written region is not changed by the write.\<close>

lemma str_at_poke_before [str_simps]:
  assumes s: "str_at m j = Some s" and "j + length s < i" and "i + length xs \<le> length m"
  shows "str_at (poke i xs m) j = Some s"
proof -
  have "c_str (take (Suc (length s)) (drop j m)) = Some s"
    using s by (simp add: str_at_def c_str_take)
  moreover have "take (Suc (length s)) (drop j (poke i xs m)) = take (Suc (length s)) (drop j m)"
    using assms by (intro peek_poke_disjoint) auto
  ultimately have "c_str (take (Suc (length s)) (drop j (poke i xs m))) = Some s" by (simp only:)
  from c_str_of_take [OF this] show ?thesis by (simp add: str_at_def)
qed

lemma str_at_cstr: "str_at m j = Some s \<Longrightarrow> is_cstr s"
  by (simp add: str_at_def c_str_cstr)

section \<open>String functions of the C library\<close>

fun strcmp :: "bytes \<Rightarrow> bytes \<Rightarrow> int" where
  "strcmp [] [] = 0"
| "strcmp [] (y # ys) = -1"
| "strcmp (x # xs) [] = 1"
| "strcmp (x # xs) (y # ys) = (if x = y then strcmp xs ys else if x < y then -1 else 1)"

lemma strcmp_eq_0 [simp]: "strcmp xs ys = 0 \<longleftrightarrow> xs = ys"
  by (induction xs ys rule: strcmp.induct) auto

lemma strcmp_antisym: "strcmp ys xs = - strcmp xs ys"
  by (induction xs ys rule: strcmp.induct) auto

lemma strcmp_le_trans:
  "strcmp xs ys \<le> 0 \<Longrightarrow> strcmp ys zs \<le> 0 \<Longrightarrow> strcmp xs zs \<le> 0"
proof (induction xs ys arbitrary: zs rule: strcmp.induct)
  case (1 zs)
  then show ?case by simp
next
  case (2 y ys zs)
  then show ?case by (cases zs) simp_all
next
  case (3 x xs zs)
  then show ?case by simp
next
  case (4 x xs y ys zs)
  note IH = "4.IH" and prems = "4.prems"
  have xy: "x = y \<and> strcmp xs ys \<le> 0 \<or> x < y"
    using prems(1) by (cases "x = y"; cases "x < y") simp_all
  show ?case
  proof (cases zs)
    case Nil
    with prems show ?thesis by simp
  next
    case (Cons z zs')
    have yz: "y = z \<and> strcmp ys zs' \<le> 0 \<or> y < z"
      using prems(2) Cons by (cases "y = z"; cases "y < z") simp_all
    show ?thesis
    proof (cases "x = y \<and> y = z")
      case True
      with xy yz IH [of zs'] Cons show ?thesis by simp
    next
      case False
      with xy yz have "x < z" by (metis order_less_trans)
      then have "x \<noteq> z" by simp
      with \<open>x < z\<close> show ?thesis using Cons by simp
    qed
  qed
qed

fun strchr :: "byte \<Rightarrow> bytes \<Rightarrow> nat option" where
  "strchr c [] = None"
| "strchr c (b # s) = (if b = c then Some 0 else map_option Suc (strchr c s))"

definition is_prefix :: "bytes \<Rightarrow> bytes \<Rightarrow> bool" where
  "is_prefix p s \<longleftrightarrow> take (length p) s = p"

fun strstr :: "bytes \<Rightarrow> bytes \<Rightarrow> nat option" where
  "strstr [] p = (if p = [] then Some 0 else None)"
| "strstr (b # s) p = (if is_prefix p (b # s) then Some 0 else map_option Suc (strstr s p))"

definition has_sub :: "bytes \<Rightarrow> bytes \<Rightarrow> bool" where
  "has_sub s p \<longleftrightarrow> strstr s p \<noteq> None"

lemma strchr_Some:
  "strchr c s = Some i \<Longrightarrow> i < length s \<and> s ! i = c \<and> c \<notin> set (take i s)"
  by (induction s arbitrary: i) (auto split: if_splits)

lemma strchr_None [simp]: "strchr c s = None \<longleftrightarrow> c \<notin> set s"
  by (induction s) auto

lemma strchr_append [simp]: "c \<notin> set s \<Longrightarrow> strchr c (s @ c # t) = Some (length s)"
  by (induction s) auto

section \<open>Numbers and text\<close>

definition is_space :: "byte \<Rightarrow> bool" where
  "is_space b \<longleftrightarrow> b = 32 \<or> (9 \<le> b \<and> b \<le> 13)"

definition is_digit :: "byte \<Rightarrow> bool" where
  "is_digit b \<longleftrightarrow> 48 \<le> b \<and> b \<le> 57"

fun digits_val :: "int \<Rightarrow> bytes \<Rightarrow> int" where
  "digits_val a [] = a"
| "digits_val a (b # s) = (if is_digit b then digits_val (10 * a + (uint b - 48)) s else a)"

text \<open>\<open>atoi\<close> of the target's C library is \<open>strtol\<close> in base ten, which skips white space,
  takes a sign and the longest run of digits, and saturates at the ends of the 32-bit range.\<close>

definition clamp32 :: "int \<Rightarrow> int" where
  "clamp32 i = max (- (2 ^ 31)) (min (2 ^ 31 - 1) i)"

definition atoi :: "bytes \<Rightarrow> int" where
  "atoi s = (case dropWhile is_space s of
       [] \<Rightarrow> 0
     | b # t \<Rightarrow> clamp32 (if b = 45 then - digits_val 0 t
                         else if b = 43 then digits_val 0 t
                         else digits_val 0 (b # t)))"

text \<open>\<open>%d\<close> and \<open>%u\<close> conversions.\<close>

fun dec_nat :: "nat \<Rightarrow> bytes" where
  "dec_nat n = (if n < 10 then [word_of_nat (48 + n)]
                else dec_nat (n div 10) @ [word_of_nat (48 + n mod 10)])"

declare dec_nat.simps [simp del]

definition dec_int :: "int \<Rightarrow> bytes" where
  "dec_int i = (if i < 0 then 45 # dec_nat (nat (- i)) else dec_nat (nat i))"

lemma digits_val_append:
  "list_all is_digit s \<Longrightarrow> digits_val a (s @ t) = digits_val (digits_val a s) t"
  by (induction s arbitrary: a) auto

lemma small_byte: "n < 256 \<Longrightarrow> uint (word_of_nat n :: byte) = int n"
  by (simp add: uint_nat unat_of_nat)

lemma dec_digit: "n < 10 \<Longrightarrow> is_digit (word_of_nat (48 + n)) \<and> uint (word_of_nat (48 + n) :: byte) = 48 + int n"
  by (simp add: is_digit_def word_le_def small_byte del: of_nat_add)

lemma dec_nat_digits: "list_all is_digit (dec_nat n)"
proof (induction n rule: dec_nat.induct)
  case (1 n)
  then show ?case
    using dec_digit [of n] dec_digit [of "n mod 10"]
    by (subst dec_nat.simps) auto
qed

lemma digits_val_dec_nat: "digits_val 0 (dec_nat n) = int n"
proof (induction n rule: dec_nat.induct)
  case (1 n)
  show ?case
  proof (cases "n < 10")
    case True
    with dec_digit [of n] show ?thesis by (subst dec_nat.simps) simp
  next
    case False
    have "10 * int (n div 10) + int (n mod 10) = int n"
      by (metis mult_div_mod_eq of_nat_add of_nat_mult of_nat_numeral)
    with False "1.IH" dec_digit [of "n mod 10"] dec_nat_digits [of "n div 10"] show ?thesis
      by (subst dec_nat.simps) (simp add: digits_val_append)
  qed
qed

lemma dec_nat_not_Nil [simp]: "dec_nat n \<noteq> []"
  by (subst dec_nat.simps) simp

lemma digit_facts:
  assumes "is_digit b"
  shows "\<not> is_space b" and "b \<noteq> 45" and "b \<noteq> 43" and "b \<noteq> 0" and "b \<noteq> 37"
  using assms by (auto simp: is_digit_def is_space_def word_le_def)

lemma dec_nat_cstr [simp]: "is_cstr (dec_nat n)"
  using dec_nat_digits [of n] by (auto simp: is_cstr_def list_all_iff dest: digit_facts)

lemma atoi_dec_nat: "int n < 2 ^ 31 \<Longrightarrow> atoi (dec_nat n) = int n"
proof -
  assume n: "int n < 2 ^ 31"
  obtain b t where bt: "dec_nat n = b # t"
    using dec_nat_not_Nil by (metis neq_Nil_conv)
  have b: "is_digit b" using dec_nat_digits [of n] bt by simp
  have "atoi (dec_nat n) = clamp32 (digits_val 0 (b # t))"
    using digit_facts [OF b] by (simp add: atoi_def bt)
  also have "digits_val 0 (b # t) = int n"
    using digits_val_dec_nat [of n] bt by simp
  finally show ?thesis using n by (simp add: clamp32_def)
qed

lemma dec_nat_length: "0 < k \<Longrightarrow> n < 10 ^ k \<Longrightarrow> length (dec_nat n) \<le> k"
proof (induction k arbitrary: n)
  case 0
  then show ?case by simp
next
  case (Suc k)
  show ?case
  proof (cases "n < 10")
    case True
    then show ?thesis by (subst dec_nat.simps) simp
  next
    case False
    then have "0 < k" using Suc.prems by (cases k) auto
    moreover have "n div 10 < 10 ^ k" using Suc.prems by (simp add: div_less_iff_less_mult mult.commute)
    ultimately have "length (dec_nat (n div 10)) \<le> k" using Suc.IH by blast
    then show ?thesis using False by (subst dec_nat.simps) simp
  qed
qed

section \<open>Characters and words\<close>

text \<open>A plain \<open>char\<close> used as a number is sign-extended.\<close>

definition schar :: "byte \<Rightarrow> int" where
  "schar b = (if uint b < 128 then uint b else uint b - 256)"

lemma schar_bounds: "-128 \<le> schar b \<and> schar b < 128"
proof -
  have "uint b < 256" using uint_lt2p [of b] by simp
  moreover have "- 128 \<le> uint b" by (rule order_trans [of _ 0]) simp_all
  ultimately show ?thesis by (cases "uint b < 128") (simp_all add: schar_def)
qed

lemma schar_eq_uint [simp]: "schar b = uint b \<longleftrightarrow> uint b < 128"
  by (simp add: schar_def)

definition htons :: "u16 \<Rightarrow> u16" where
  "htons w = push_bit 8 w OR drop_bit 8 w"

definition le16 :: "u16 \<Rightarrow> bytes" where
  "le16 w = [ucast w, ucast (drop_bit 8 w)]"

definition le32 :: "u32 \<Rightarrow> bytes" where
  "le32 w = [ucast w, ucast (drop_bit 8 w), ucast (drop_bit 16 w), ucast (drop_bit 24 w)]"

definition ld16 :: "bytes \<Rightarrow> nat \<Rightarrow> u16" where
  "ld16 m i = ucast (m ! i) OR push_bit 8 (ucast (m ! Suc i))"

definition ld32 :: "bytes \<Rightarrow> nat \<Rightarrow> u32" where
  "ld32 m i = ucast (m ! i) OR push_bit 8 (ucast (m ! (i + 1)))
     OR push_bit 16 (ucast (m ! (i + 2))) OR push_bit 24 (ucast (m ! (i + 3)))"

definition htonl :: "u32 \<Rightarrow> u32" where
  "htonl w = push_bit 24 w OR push_bit 16 (take_bit 8 (drop_bit 8 w))
     OR push_bit 8 (take_bit 8 (drop_bit 16 w)) OR drop_bit 24 w"

lemma length_le [simp]: "length (le16 w) = 2" "length (le32 v) = 4"
  by (simp_all add: le16_def le32_def)

section \<open>Network byte order\<close>

lemma byte_high_bit [simp]: "8 \<le> n \<Longrightarrow> \<not> bit (b :: byte) n"
  using bit_imp_le_length [of b n] by auto

definition be32 :: "bytes \<Rightarrow> nat \<Rightarrow> u32" where
  "be32 m i = push_bit 24 (ucast (m ! i)) OR push_bit 16 (ucast (m ! (i + 1)))
    OR push_bit 8 (ucast (m ! (i + 2))) OR ucast (m ! (i + 3))"

lemma quarters:
  assumes "(n::nat) < 32"
  obtains k where "k < 8" "n = k" | k where "k < 8" "n = 8 + k"
    | k where "k < 8" "n = 16 + k" | k where "k < 8" "n = 24 + k"
proof -
  have "n < 8 \<or> (\<exists>k<8. n = 8 + k) \<or> (\<exists>k<8. n = 16 + k) \<or> (\<exists>k<8. n = 24 + k)"
    using assms by presburger
  then show thesis using that by blast
qed

lemma htons_ld16: "htons (ld16 m i) = push_bit 8 (ucast (m ! i)) OR ucast (m ! Suc i)"
  by (auto intro!: bit_word_eqI simp: htons_def ld16_def bit_simps not_less)

lemma htons_ld16_eq:
  "htons (ld16 m i) = w \<longleftrightarrow> m ! i = ucast (drop_bit 8 w) \<and> m ! Suc i = ucast w"
  unfolding htons_ld16
  by (auto intro!: bit_word_eqI simp: bit_simps not_less)

lemma htons_htons [simp]: "htons (htons w) = w"
  by (auto intro!: bit_word_eqI simp: htons_def bit_simps)

lemma le16_htons [simp]: "le16 (htons w) = [ucast (drop_bit 8 w), ucast w]"
  by (auto intro!: bit_word_eqI simp: le16_def htons_def bit_simps)

lemma le32_htonl [simp]:
  "le32 (htonl w) = [ucast (drop_bit 24 w), ucast (drop_bit 16 w), ucast (drop_bit 8 w), ucast w]"
  unfolding le32_def htonl_def list.inject
  by (intro conjI refl bit_word_eqI) (auto simp: bit_simps)


lemma htonl_ld32: "htonl (ld32 m i) = be32 m i"
proof (rule bit_word_eqI)
  fix n assume "n < LENGTH(32)"
  then have "n < 32" by simp
  then show "bit (htonl (ld32 m i)) n = bit (be32 m i) n"
    by (cases rule: quarters) (simp_all add: htonl_def ld32_def be32_def bit_simps)
qed

lemma be32_eq: "be32 m i = w \<longleftrightarrow> m ! i = ucast (drop_bit 24 w) \<and> m ! (i + 1) = ucast (drop_bit 16 w)
   \<and> m ! (i + 2) = ucast (drop_bit 8 w) \<and> m ! (i + 3) = ucast w"
proof
  assume "be32 m i = w"
  then have w: "w = be32 m i" by simp
  show "m ! i = ucast (drop_bit 24 w) \<and> m ! (i + 1) = ucast (drop_bit 16 w)
   \<and> m ! (i + 2) = ucast (drop_bit 8 w) \<and> m ! (i + 3) = ucast w"
    unfolding w by (intro conjI bit_word_eqI) (simp_all add: be32_def bit_simps)
next
  assume a: "m ! i = ucast (drop_bit 24 w) \<and> m ! (i + 1) = ucast (drop_bit 16 w)
   \<and> m ! (i + 2) = ucast (drop_bit 8 w) \<and> m ! (i + 3) = ucast w"
  show "be32 m i = w"
  proof (rule bit_word_eqI)
    fix n assume "n < LENGTH(32)"
    then have "n < 32" by simp
    then show "bit (be32 m i) n = bit w n"
      unfolding be32_def a [THEN conjunct1] a [THEN conjunct2, THEN conjunct1] 
        a [THEN conjunct2, THEN conjunct2, THEN conjunct1] a [THEN conjunct2, THEN conjunct2, THEN conjunct2]
      by (cases rule: quarters) (simp_all add: bit_simps)
  qed
qed

lemma htonl_ld32_eq:
  "htonl (ld32 m i) = w \<longleftrightarrow> m ! i = ucast (drop_bit 24 w) \<and> m ! (i + 1) = ucast (drop_bit 16 w) \<and>
     m ! (i + 2) = ucast (drop_bit 8 w) \<and> m ! (i + 3) = ucast w"
  by (simp only: htonl_ld32 be32_eq)

section \<open>Members of a packed structure\<close>

text \<open>\<open>has_bytes p (i, xs)\<close>: the bytes \<open>xs\<close> stand at offset \<open>i\<close>. \<open>pokes\<close> fills a structure member by
  member; \<open>regions\<close> checks that the members come in order, do not overlap and lie inside.\<close>

definition has_bytes :: "bytes \<Rightarrow> nat \<times> bytes \<Rightarrow> bool" where
  "has_bytes p = (\<lambda>(i, xs). take (length xs) (drop i p) = xs)"

lemma has_bytes_Nil: "has_bytes p (i, [])"
  by (simp add: has_bytes_def)

lemma has_bytes_Cons:
  "i < length p \<Longrightarrow> has_bytes p (i, x # xs) \<longleftrightarrow> p ! i = x \<and> has_bytes p (Suc i, xs)"
  by (simp add: has_bytes_def flip: Cons_nth_drop_Suc)

lemma be16_has:
  "i + 2 \<le> length p \<Longrightarrow> htons (ld16 p i) = w \<longleftrightarrow> has_bytes p (i, [ucast (drop_bit 8 w), ucast w])"
  by (simp add: htons_ld16_eq has_bytes_Cons has_bytes_Nil)

lemma be32_has:
  "i + 4 \<le> length p \<Longrightarrow> htonl (ld32 p i) = w \<longleftrightarrow> has_bytes p (i,
     [ucast (drop_bit 24 w), ucast (drop_bit 16 w), ucast (drop_bit 8 w), ucast w])"
  by (simp add: htonl_ld32_eq has_bytes_Cons has_bytes_Nil eval_nat_numeral)

lemma byte_has: "i < length p \<Longrightarrow> p ! i = b \<longleftrightarrow> has_bytes p (i, [b])"
  by (simp add: has_bytes_Cons has_bytes_Nil)

lemma has_bytes_poke_same: "i \<le> length p \<Longrightarrow> has_bytes (poke i xs p) (i, xs)"
  by (simp add: has_bytes_def peek_poke_same)

lemma has_bytes_poke_other:
  "j + length ys \<le> i \<or> i + length xs \<le> j \<Longrightarrow> i + length xs \<le> length p \<Longrightarrow>
     has_bytes (poke i xs p) (j, ys) = has_bytes p (j, ys)"
  by (simp add: has_bytes_def peek_poke_disjoint)

lemma has_bytes_zero:
  "i + length ys \<le> n \<Longrightarrow> set ys \<subseteq> {0} \<Longrightarrow> has_bytes (replicate n 0) (i, ys)"
proof -
  assume a: "i + length ys \<le> n" "set ys \<subseteq> {0}"
  then have "ys = replicate (length ys) 0" by (intro replicate_eqI) auto
  then obtain k where "ys = replicate k 0" by blast
  with a(1) show ?thesis by (simp add: has_bytes_def)
qed

fun pokes :: "(nat \<times> bytes) list \<Rightarrow> bytes \<Rightarrow> bytes" where
  "pokes [] p = p"
| "pokes ((i, xs) # ws) p = pokes ws (poke i xs p)"

fun regions :: "nat \<Rightarrow> (nat \<times> bytes) list \<Rightarrow> nat \<Rightarrow> bool" where
  "regions lo [] n \<longleftrightarrow> lo \<le> n"
| "regions lo ((i, xs) # ws) n \<longleftrightarrow> lo \<le> i \<and> regions (i + length xs) ws n"

lemma regions_le: "regions lo ws n \<Longrightarrow> lo \<le> n"
  by (induction lo ws n rule: regions.induct) auto

lemma length_pokes: "regions lo ws (length p) \<Longrightarrow> length (pokes ws p) = length p"
proof (induction ws arbitrary: lo p)
  case (Cons w ws)
  obtain i xs where w: "w = (i, xs)" by (cases w)
  have r: "regions (i + length xs) ws (length p)" using Cons.prems w by simp
  have len: "length (poke i xs p) = length p" using regions_le [OF r] by simp
  show ?case using Cons.IH [of "i + length xs" "poke i xs p"] r len w by simp
qed simp

lemma pokes_other:
  assumes "regions lo ws (length p)"
    and "\<And>i xs. (i, xs) \<in> set ws \<Longrightarrow> j + length ys \<le> i \<or> i + length xs \<le> j"
  shows "has_bytes (pokes ws p) (j, ys) = has_bytes p (j, ys)"
  using assms
proof (induction ws arbitrary: lo p)
  case (Cons w ws)
  obtain i xs where w: "w = (i, xs)" by (cases w)
  have r: "regions (i + length xs) ws (length p)" using Cons.prems(1) w by simp
  have len: "length (poke i xs p) = length p" using regions_le [OF r] by simp
  have "has_bytes (pokes ws (poke i xs p)) (j, ys) = has_bytes (poke i xs p) (j, ys)"
    using Cons.IH [of "i + length xs" "poke i xs p"] r len Cons.prems(2) w by simp
  also have "\<dots> = has_bytes p (j, ys)"
    using Cons.prems(2) [of i xs] regions_le [OF r] w by (intro has_bytes_poke_other) simp_all
  finally show ?case using w by simp
qed simp

lemma regions_after: "regions lo ws n \<Longrightarrow> (i, xs) \<in> set ws \<Longrightarrow> lo \<le> i"
  by (induction lo ws n arbitrary: i xs rule: regions.induct) fastforce+

lemma pokes_has_bytes: "regions lo ws (length p) \<Longrightarrow> list_all (has_bytes (pokes ws p)) ws"
proof (induction ws arbitrary: lo p)
  case (Cons w ws)
  obtain i xs where w: "w = (i, xs)" by (cases w)
  have r: "regions (i + length xs) ws (length p)" using Cons.prems w by simp
  have len: "length (poke i xs p) = length p" using regions_le [OF r] by simp
  then have r': "regions (i + length xs) ws (length (poke i xs p))" using r by simp
  have "has_bytes (pokes ws (poke i xs p)) (i, xs) = has_bytes (poke i xs p) (i, xs)"
    using regions_after [OF r] by (intro pokes_other [OF r']) blast
  also have "\<dots>" using regions_le [OF r] by (intro has_bytes_poke_same) simp
  finally show ?case using Cons.IH [OF r'] w by simp
qed simp

lemma has_bytes_str: "has_bytes m (i, v @ [0]) \<Longrightarrow> is_cstr v \<Longrightarrow> str_at m i = Some v"
proof -
  assume "has_bytes m (i, v @ [0])" and v: "is_cstr v"
  then have "take (length (v @ [0])) (drop i m) = v @ [0]" by (simp only: has_bytes_def prod.case)
  moreover have "c_str (v @ [0]) = Some v" using c_str_terminated [OF v, of "[]"] by simp
  ultimately have "c_str (take (length (v @ [0])) (drop i m)) = Some v" by (simp only:)
  from c_str_of_take [OF this] show ?thesis by (simp add: str_at_def)
qed

end
