(* ===== verification/Checksums.thy ===== *)
theory Checksums
  imports Prelude
begin

text \<open>
  The contract that the checksums of the repository share: the XOR over the bytes of the stored configuration and the
  wrapping sum over the words of a flash image. Each is the fold of a cancellative commutative operation; the facts proved
  here are used through the interpretations in the theories of the code that computes them.
\<close>

locale checksum_alg =
  fixes add :: "'a \<Rightarrow> 'a \<Rightarrow> 'a" and zero :: "'a"
  assumes assoc: "add (add a b) c = add a (add b c)"
    and commute: "add a b = add b a"
    and zero_left: "add zero a = a"
    and cancel: "add a b = add a c \<Longrightarrow> b = c"
begin

lemma zero_right: "add a zero = a"
  using commute [of a zero] zero_left by simp

lemma fold_start: "foldl add (add a b) xs = add a (foldl add b xs)"
  by (induction xs arbitrary: b) (simp_all add: assoc)

lemma fold_acc: "foldl add a xs = add a (foldl add zero xs)"
  using fold_start [of a zero xs] by (simp add: zero_right)

lemma sum_Cons: "foldl add zero (x # xs) = add x (foldl add zero xs)"
  using fold_acc [of x xs] by (simp add: zero_left)

lemma sum_append: "foldl add zero (xs @ ys) = add (foldl add zero xs) (foldl add zero ys)"
  using fold_acc [of "foldl add zero xs" ys] by simp

lemma sum_inj: "add a (add x b) = add a (add y b) \<Longrightarrow> x = y"
  by (metis cancel commute)

lemma sum_update_neq:
  assumes "i < length xs" and "y \<noteq> xs ! i"
  shows "foldl add zero (xs[i := y]) \<noteq> foldl add zero xs"
proof
  let ?s = "foldl add zero"
  assume "?s (xs[i := y]) = ?s xs"
  moreover have "xs[i := y] = take i xs @ y # drop (Suc i) xs"
    using assms(1) by (rule upd_conv_take_nth_drop)
  moreover have "xs = take i xs @ xs ! i # drop (Suc i) xs"
    using assms(1) by (rule id_take_nth_drop)
  ultimately have "?s (take i xs @ y # drop (Suc i) xs) = ?s (take i xs @ xs ! i # drop (Suc i) xs)"
    by simp
  then have "add (?s (take i xs)) (add y (?s (drop (Suc i) xs)))
      = add (?s (take i xs)) (add (xs ! i) (?s (drop (Suc i) xs)))"
    by (simp only: sum_append sum_Cons)
  then have "y = xs ! i" by (rule sum_inj)
  with assms(2) show False by simp
qed

text \<open>Replacing one element by another exchanges their contributions.\<close>

lemma sum_replace:
  assumes "i < length xs"
  shows "add (xs ! i) (foldl add zero (xs[i := y])) = add y (foldl add zero xs)"
proof -
  let ?s = "foldl add zero"
  have "?s (xs[i := y]) = add (?s (take i xs)) (add y (?s (drop (Suc i) xs)))"
    using assms by (simp only: upd_conv_take_nth_drop sum_append sum_Cons)
  moreover have "?s xs = add (?s (take i xs)) (add (xs ! i) (?s (drop (Suc i) xs)))"
    using id_take_nth_drop [OF assms] by (metis sum_append sum_Cons)
  ultimately show ?thesis by (metis assoc commute)
qed

lemma sum_swap: "foldl add zero (x # y # xs) = foldl add zero (y # x # xs)"
  by (metis sum_Cons assoc commute)

end

end
