(* ===== verification/SettingStore.thy ===== *)
theory SettingStore
  imports Main
begin

text \<open>
  The contract between the configuration store and its clients (the AT commands, the web
  interface, the DMX forwarding): a value that fits a key can be stored, the store stays
  well-formed, the key then reads back the value, and no other key changes.
\<close>

text \<open>Several settings stored one after the other.\<close>

fun put_all :: "('k \<Rightarrow> 'v \<Rightarrow> 'c \<Rightarrow> 'c option) \<Rightarrow> ('k \<times> 'v) list \<Rightarrow> 'c \<Rightarrow> 'c option" where
  "put_all put [] c = Some c"
| "put_all put ((k, v) # kvs) c = (case put k v c of None \<Rightarrow> None | Some c' \<Rightarrow> put_all put kvs c')"

locale setting_store =
  fixes get :: "'k \<Rightarrow> 'c \<Rightarrow> 'v" and put :: "'k \<Rightarrow> 'v \<Rightarrow> 'c \<Rightarrow> 'c option"
    and ok :: "'c \<Rightarrow> bool" and key :: "'k \<Rightarrow> bool" and fits :: "'k \<Rightarrow> 'v \<Rightarrow> bool"
  assumes put_total: "ok c \<Longrightarrow> key k \<Longrightarrow> fits k v \<Longrightarrow> \<exists>c'. put k v c = Some c'"
    and put_ok: "ok c \<Longrightarrow> key k \<Longrightarrow> fits k v \<Longrightarrow> put k v c = Some c' \<Longrightarrow> ok c'"
    and get_put_same: "ok c \<Longrightarrow> key k \<Longrightarrow> fits k v \<Longrightarrow> put k v c = Some c' \<Longrightarrow> get k c' = v"
    and get_put_other: "ok c \<Longrightarrow> key k \<Longrightarrow> fits k v \<Longrightarrow> put k v c = Some c' \<Longrightarrow>
      key k' \<Longrightarrow> k' \<noteq> k \<Longrightarrow> get k' c' = get k' c"
begin

lemma put_view:
  assumes "ok c" "key k" "fits k v"
  obtains c' where "put k v c = Some c'" "ok c'" "get k c' = v"
    "\<And>k'. key k' \<Longrightarrow> k' \<noteq> k \<Longrightarrow> get k' c' = get k' c"
  using put_total [OF assms] put_ok [OF assms] get_put_same [OF assms] get_put_other [OF assms]
  by blast

lemma put_all_view:
  assumes "ok c" and "\<And>k v. (k, v) \<in> set kvs \<Longrightarrow> key k \<and> fits k v"
  shows "\<exists>c'. put_all put kvs c = Some c' \<and> ok c' \<and>
    (\<forall>k. key k \<longrightarrow> get k c' = (case map_of (rev kvs) k of Some v \<Rightarrow> v | None \<Rightarrow> get k c))"
  using assms
proof (induction kvs arbitrary: c)
  case Nil
  then show ?case by simp
next
  case (Cons kv kvs)
  obtain k v where kv: "kv = (k, v)" by (cases kv)
  have "key k" and "fits k v" using Cons.prems(2) [of k v] kv by simp_all
  then obtain c1 where c1: "put k v c = Some c1" "ok c1" "get k c1 = v"
    "\<And>k'. key k' \<Longrightarrow> k' \<noteq> k \<Longrightarrow> get k' c1 = get k' c"
    using put_view Cons.prems(1) by blast
  obtain c2 where c2: "put_all put kvs c1 = Some c2" "ok c2"
    "\<forall>k. key k \<longrightarrow> get k c2 = (case map_of (rev kvs) k of Some v \<Rightarrow> v | None \<Rightarrow> get k c1)"
    using Cons.IH [OF c1(2)] Cons.prems(2) by auto
  have "get k' c2 = (case map_of (rev (kv # kvs)) k' of Some v \<Rightarrow> v | None \<Rightarrow> get k' c)" if "key k'" for k'
    using c2(3) that c1(3,4) kv by (auto simp: map_add_def split: option.splits)
  then show ?case using c1(1) c2(1,2) kv by auto
qed

lemma put_commute:
  assumes "ok c" "key k" "key k'" "k \<noteq> k'" "fits k v" "fits k' v'"
    and "put k v c = Some c1" "put k' v' c1 = Some c2"
    and "put k' v' c = Some d1" "put k v d1 = Some d2" and "key j"
  shows "get j c2 = get j d2"
  using assms by (metis get_put_other get_put_same put_ok)

end

end
