(* ===== verification/PackedRecord.thy ===== *)
theory PackedRecord
  imports Prelude SettingStore
begin

text \<open>
  Structures of character arrays without padding (the configuration record, an entry of the client
  list), modelled as their bytes: \<open>off\<close> and \<open>siz\<close> give the place of each member. A string that
  fits its member can be stored and read back without touching the other members, so every such
  structure is a \<open>setting_store\<close>.
\<close>

definition packed_ok :: "('f \<Rightarrow> nat) \<Rightarrow> ('f \<Rightarrow> nat) \<Rightarrow> 'f list \<Rightarrow> nat \<Rightarrow> bytes \<Rightarrow> bool" where
  "packed_ok off siz members bound m \<longleftrightarrow> length m = bound \<and>
     list_all (\<lambda>f. case str_at m (off f) of None \<Rightarrow> False | Some s \<Rightarrow> length s < siz f) members"

definition packed_str :: "('f \<Rightarrow> nat) \<Rightarrow> 'f \<Rightarrow> bytes \<Rightarrow> bytes" where
  "packed_str off f m = the (str_at m (off f))"

definition packed_fits :: "('f \<Rightarrow> nat) \<Rightarrow> 'f \<Rightarrow> bytes \<Rightarrow> bool" where
  "packed_fits siz f v \<longleftrightarrow> is_cstr v \<and> length v < siz f"

lemma packed_okD:
  assumes "packed_ok off siz members bound m" and "f \<in> set members"
  obtains s where "str_at m (off f) = Some s" "length s < siz f" "is_cstr s" "packed_str off f m = s"
  using assms str_at_cstr by (auto simp: packed_ok_def list_all_iff packed_str_def split: option.splits)

text \<open>\<open>arrays\<close> are all members, \<open>members\<close> the ones that hold strings.\<close>

locale packed_record =
  fixes off :: "'f \<Rightarrow> nat" and siz :: "'f \<Rightarrow> nat" and arrays :: "'f set" and members :: "'f list"
    and bound :: nat
  assumes strings: "set members \<subseteq> arrays"
    and inside: "f \<in> arrays \<Longrightarrow> off f + siz f \<le> bound"
    and disjoint: "f \<in> arrays \<Longrightarrow> g \<in> arrays \<Longrightarrow> f \<noteq> g \<Longrightarrow>
      off f + siz f \<le> off g \<or> off g + siz g \<le> off f"
begin

text \<open>Writing inside one member leaves the strings of the others as they are.\<close>

lemma str_at_other:
  assumes ok: "packed_ok off siz members bound m" and f: "f \<in> arrays" and g: "g \<in> set members"
    and "f \<noteq> g" and xs: "length xs \<le> siz f"
  shows "str_at (poke (off f) xs m) (off g) = str_at m (off g)"
proof -
  obtain s where s: "str_at m (off g) = Some s" "length s < siz g"
    using packed_okD [OF ok g] .
  have room: "off f + length xs \<le> length m"
    using inside [OF f] xs ok by (simp add: packed_ok_def)
  show ?thesis
  proof (cases "off f + siz f \<le> off g")
    case True
    then show ?thesis using room xs by (intro str_at_poke_after) simp_all
  next
    case False
    then have "off g + siz g \<le> off f" using disjoint [OF f _ \<open>f \<noteq> g\<close>] strings g by auto
    then show ?thesis using s room by (simp add: str_at_poke_before)
  qed
qed

lemma poke_member:
  assumes ok: "packed_ok off siz members bound m" and f: "f \<in> set members" and v: "packed_fits siz f v"
  defines "m' \<equiv> poke (off f) (v @ [0]) m"
  shows "put_str (off f) v m = Some m'" and "packed_ok off siz members bound m'"
    and "str_at m' (off f) = Some v"
    and "g \<in> set members \<Longrightarrow> g \<noteq> f \<Longrightarrow> str_at m' (off g) = str_at m (off g)"
proof -
  have fa: "f \<in> arrays" using f strings by blast
  have v': "is_cstr v" "length v < siz f" using v by (simp_all add: packed_fits_def)
  have room: "off f + length v < length m" using inside [OF fa] v' ok by (simp add: packed_ok_def)
  then show "put_str (off f) v m = Some m'" by (simp add: m'_def)
  have len: "length m' = bound" using room ok by (simp add: m'_def packed_ok_def)
  show same: "str_at m' (off f) = Some v" using room v' by (simp add: m'_def str_at_poke_same)
  have other: "str_at m' (off g) = str_at m (off g)" if "g \<in> set members" "g \<noteq> f" for g
    using str_at_other [OF ok fa that(1), of "v @ [0]"] that v' by (simp add: m'_def)
  then show "g \<in> set members \<Longrightarrow> g \<noteq> f \<Longrightarrow> str_at m' (off g) = str_at m (off g)" .
  have "case str_at m' (off g) of None \<Rightarrow> False | Some s \<Rightarrow> length s < siz g"
    if g: "g \<in> set members" for g
  proof -
    obtain s where "str_at m (off g) = Some s" "length s < siz g" using packed_okD [OF ok g] .
    then show ?thesis using same v' other [OF g] by (cases "g = f") simp_all
  qed
  then show "packed_ok off siz members bound m'" using len by (simp add: packed_ok_def list_all_iff)
qed

end

sublocale packed_record \<subseteq> setting_store "packed_str off" "\<lambda>f. put_str (off f)" "packed_ok off siz members bound"
  "\<lambda>f. f \<in> set members" "packed_fits siz"
proof unfold_locales
  fix c f v
  assume "packed_ok off siz members bound c" and "f \<in> set members" and "packed_fits siz f v"
  note poke = poke_member [OF this]
  show "\<exists>c'. put_str (off f) v c = Some c'" using poke(1) by blast
  fix c' assume "put_str (off f) v c = Some c'"
  then have c': "c' = poke (off f) (v @ [0]) c" by simp
  show "packed_ok off siz members bound c'" using poke(2) c' by simp
  show "packed_str off f c' = v" using poke(3) c' by (simp add: packed_str_def)
  fix g assume "g \<in> set members" "g \<noteq> f"
  then show "packed_str off g c' = packed_str off g c" using poke(4) [of g] c' by (simp add: packed_str_def)
qed

end
