(* ===== verification/WebConfig.thy ===== *)
theory WebConfig
  imports Checksums PackedRecord
begin

text \<open>
  The configuration store of \<^verbatim>\<open>src/user/UserMain.c\<close>: the packed record \<open>g_web_config\<close>, its
  copy in the user flash, and \<open>ratpac_get_str\<close> / \<open>ratpac_set_str\<close>, the interface every
  other part of the firmware reads and writes it through.

  All members of \<open>WEB_DATA_T\<close> are arrays of \<open>unsigned char\<close>, so the record has no padding
  and is modelled as its 101 bytes: \<open>sprintf\<close> into a member that is too small writes into the
  members behind it, and the checksum is taken over the raw bytes.
\<close>

section \<open>The record and its members\<close>

datatype wfield =
    W_initFlag | W_name | W_universe | W_subnet | W_timopower | W_channelWidth
  | W_secondChannel | W_bitSetting | W_gaffer_enb | W_gaffer_sub | W_gaffer_univ
  | W_gaffer_lower | W_gaffer_upper | W_sacn_enb | W_sacn_universe | W_protname
  | W_led_color | W_led_g | W_led_b | W_use_xlr | W_main_xlr | W_sort_by | W_magic

definition wfields :: "wfield list" where
  "wfields = [W_initFlag, W_name, W_universe, W_subnet, W_timopower, W_channelWidth,
     W_secondChannel, W_bitSetting, W_gaffer_enb, W_gaffer_sub, W_gaffer_univ,
     W_gaffer_lower, W_gaffer_upper, W_sacn_enb, W_sacn_universe, W_protname,
     W_led_color, W_led_g, W_led_b, W_use_xlr, W_main_xlr, W_sort_by, W_magic]"

fun fsize :: "wfield \<Rightarrow> nat" where
  "fsize W_initFlag = 1"
| "fsize W_name = 20"
| "fsize W_universe = 3"
| "fsize W_subnet = 3"
| "fsize W_timopower = 3"
| "fsize W_channelWidth = 3"
| "fsize W_secondChannel = 3"
| "fsize W_bitSetting = 3"
| "fsize W_gaffer_enb = 2"
| "fsize W_gaffer_sub = 3"
| "fsize W_gaffer_univ = 3"
| "fsize W_gaffer_lower = 4"
| "fsize W_gaffer_upper = 4"
| "fsize W_sacn_enb = 2"
| "fsize W_sacn_universe = 8"
| "fsize W_protname = 2"
| "fsize W_led_color = 8"
| "fsize W_led_g = 8"
| "fsize W_led_b = 8"
| "fsize W_use_xlr = 2"
| "fsize W_main_xlr = 2"
| "fsize W_sort_by = 4"
| "fsize W_magic = 2"

text \<open>The offset of a member is the sum of the sizes of the members before it.\<close>

fun foff :: "wfield \<Rightarrow> nat" where
  "foff W_initFlag = 0"
| "foff W_name = 1"
| "foff W_universe = 21"
| "foff W_subnet = 24"
| "foff W_timopower = 27"
| "foff W_channelWidth = 30"
| "foff W_secondChannel = 33"
| "foff W_bitSetting = 36"
| "foff W_gaffer_enb = 39"
| "foff W_gaffer_sub = 41"
| "foff W_gaffer_univ = 44"
| "foff W_gaffer_lower = 47"
| "foff W_gaffer_upper = 51"
| "foff W_sacn_enb = 55"
| "foff W_sacn_universe = 57"
| "foff W_protname = 65"
| "foff W_led_color = 67"
| "foff W_led_g = 75"
| "foff W_led_b = 83"
| "foff W_use_xlr = 91"
| "foff W_main_xlr = 93"
| "foff W_sort_by = 95"
| "foff W_magic = 99"

definition sizeof_WEB_DATA_T :: nat where
  "sizeof_WEB_DATA_T = 101"

definition MAGIC0 :: byte where "MAGIC0 = 0x55"
definition MAGIC1 :: byte where "MAGIC1 = 0x35"

lemma foff_sums: "foff f = sum_list (map fsize (takeWhile (\<lambda>g. g \<noteq> f) wfields))"
  by (cases f) (simp_all add: wfields_def)

lemma sizeof_sums: "sizeof_WEB_DATA_T = sum_list (map fsize wfields)"
  by (simp add: wfields_def sizeof_WEB_DATA_T_def)

lemma field_inside: "foff f + fsize f \<le> sizeof_WEB_DATA_T"
  by (cases f) (simp_all add: sizeof_WEB_DATA_T_def)

lemma fields_disjoint: "f \<noteq> g \<Longrightarrow> foff f + fsize f \<le> foff g \<or> foff g + fsize g \<le> foff f"
  by (cases f; cases g) simp_all

section \<open>Configuration identifiers\<close>

text \<open>The identifiers of \<^verbatim>\<open>src/include/cfg_id.h\<close> that this code uses.\<close>

definition CFG_ID :: "int \<Rightarrow> int \<Rightarrow> int \<Rightarrow> int \<Rightarrow> int" where
  "CFG_ID mod' sub type i =
     push_bit 24 (mod' AND 0xff) OR push_bit 16 (sub AND 0xff) OR push_bit 8 (type AND 0xff) OR (i AND 0xff)"

definition CFG_USER :: "int \<Rightarrow> int \<Rightarrow> int" where
  "CFG_USER idx type = CFG_ID 18 idx type 0"

definition CFG_TYPE_INT :: int where "CFG_TYPE_INT = 1"
definition CFG_TYPE_STR :: int where "CFG_TYPE_STR = 2"
definition CFG_AKS_NAME :: int where "CFG_AKS_NAME = CFG_USER 1 CFG_TYPE_STR"
definition CFG_AKS_UNIVERSE :: int where "CFG_AKS_UNIVERSE = CFG_USER 2 CFG_TYPE_INT"
definition CFG_AKS_SUBNET :: int where "CFG_AKS_SUBNET = CFG_USER 3 CFG_TYPE_INT"
definition CFG_TIMO_POWER :: int where "CFG_TIMO_POWER = CFG_USER 4 CFG_TYPE_INT"
definition CFG_AKS_CHANNEL_WIDTH :: int where "CFG_AKS_CHANNEL_WIDTH = CFG_USER 6 CFG_TYPE_INT"
definition CFG_AKS_SECOND_CHANNEL :: int where "CFG_AKS_SECOND_CHANNEL = CFG_USER 7 CFG_TYPE_INT"
definition CFG_GAFFER_UNIVERSE :: int where "CFG_GAFFER_UNIVERSE = CFG_USER 43 CFG_TYPE_INT"
definition CFG_GAFFER_SUBNET :: int where "CFG_GAFFER_SUBNET = CFG_USER 44 CFG_TYPE_INT"
definition CFG_GAFFER_ENABLE :: int where "CFG_GAFFER_ENABLE = CFG_USER 45 CFG_TYPE_INT"
definition CFG_GAFFER_LOWER :: int where "CFG_GAFFER_LOWER = CFG_USER 46 CFG_TYPE_INT"
definition CFG_GAFFER_UPPER :: int where "CFG_GAFFER_UPPER = CFG_USER 47 CFG_TYPE_INT"
definition CFG_SACN_OUTPUT :: int where "CFG_SACN_OUTPUT = CFG_USER 65 CFG_TYPE_STR"
definition CFG_SACN_UNIV :: int where "CFG_SACN_UNIV = CFG_USER 66 CFG_TYPE_STR"
definition CFG_LED_COLOR :: int where "CFG_LED_COLOR = CFG_USER 67 CFG_TYPE_STR"
definition CFG_PROTNAME :: int where "CFG_PROTNAME = CFG_USER 69 CFG_TYPE_INT"
definition CFG_AKS_USE_XLR :: int where "CFG_AKS_USE_XLR = CFG_USER 70 CFG_TYPE_STR"
definition CFG_AKS_MAIN_XLR :: int where "CFG_AKS_MAIN_XLR = CFG_USER 71 CFG_TYPE_STR"
definition CFG_LED_G :: int where "CFG_LED_G = CFG_USER 72 CFG_TYPE_STR"
definition CFG_LED_B :: int where "CFG_LED_B = CFG_USER 73 CFG_TYPE_STR"
definition CFG_AKS_CONS_NUM :: int where "CFG_AKS_CONS_NUM = CFG_USER 74 CFG_TYPE_STR"
definition CFG_SORT_BY :: int where "CFG_SORT_BY = CFG_USER 107 CFG_TYPE_STR"

named_theorems cfg_ids

lemma cfg_id_values [cfg_ids]:
  "CFG_AKS_NAME = 0x12010200" "CFG_AKS_UNIVERSE = 0x12020100" "CFG_AKS_SUBNET = 0x12030100"
  "CFG_TIMO_POWER = 0x12040100" "CFG_AKS_CHANNEL_WIDTH = 0x12060100"
  "CFG_AKS_SECOND_CHANNEL = 0x12070100" "CFG_GAFFER_UNIVERSE = 0x122b0100"
  "CFG_GAFFER_SUBNET = 0x122c0100" "CFG_GAFFER_ENABLE = 0x122d0100"
  "CFG_GAFFER_LOWER = 0x122e0100" "CFG_GAFFER_UPPER = 0x122f0100"
  "CFG_SACN_OUTPUT = 0x12410200" "CFG_SACN_UNIV = 0x12420200" "CFG_LED_COLOR = 0x12430200"
  "CFG_PROTNAME = 0x12450100" "CFG_AKS_USE_XLR = 0x12460200" "CFG_AKS_MAIN_XLR = 0x12470200"
  "CFG_LED_G = 0x12480200" "CFG_LED_B = 0x12490200" "CFG_AKS_CONS_NUM = 0x124a0200"
  "CFG_SORT_BY = 0x126b0200"
  by (simp_all add: CFG_AKS_NAME_def CFG_AKS_UNIVERSE_def CFG_AKS_SUBNET_def CFG_TIMO_POWER_def
      CFG_AKS_CHANNEL_WIDTH_def CFG_AKS_SECOND_CHANNEL_def CFG_GAFFER_UNIVERSE_def
      CFG_GAFFER_SUBNET_def CFG_GAFFER_ENABLE_def CFG_GAFFER_LOWER_def CFG_GAFFER_UPPER_def
      CFG_SACN_OUTPUT_def CFG_SACN_UNIV_def CFG_LED_COLOR_def CFG_PROTNAME_def
      CFG_AKS_USE_XLR_def CFG_AKS_MAIN_XLR_def CFG_LED_G_def CFG_LED_B_def CFG_AKS_CONS_NUM_def
      CFG_SORT_BY_def CFG_USER_def CFG_ID_def CFG_TYPE_INT_def CFG_TYPE_STR_def)

section \<open>Reading and writing one setting\<close>

text \<open>The arms of the two \<open>switch\<close> statements in their order: the case label, the member the
  case reads or writes and, where the source bounds the copy with \<open>snprintf\<close>, its bound.\<close>

definition get_cases :: "(int \<times> wfield \<times> nat option) list" where
  "get_cases =
    [(CFG_AKS_NAME, W_name, None),
     (CFG_AKS_UNIVERSE, W_universe, None),
     (CFG_AKS_SUBNET, W_subnet, None),
     (CFG_GAFFER_ENABLE, W_gaffer_enb, Some 2),
     (CFG_GAFFER_UNIVERSE, W_gaffer_univ, None),
     (CFG_GAFFER_SUBNET, W_gaffer_sub, None),
     (CFG_GAFFER_LOWER, W_gaffer_lower, None),
     (CFG_GAFFER_UPPER, W_gaffer_upper, None),
     (CFG_TIMO_POWER, W_timopower, None),
     (CFG_AKS_CHANNEL_WIDTH, W_channelWidth, None),
     (CFG_AKS_SECOND_CHANNEL, W_secondChannel, None),
     (CFG_SACN_OUTPUT, W_sacn_enb, None),
     (CFG_SACN_UNIV, W_sacn_universe, None),
     (CFG_PROTNAME, W_protname, Some 2),
     (CFG_LED_COLOR, W_led_color, Some 16),
     (CFG_LED_G, W_led_g, Some 16),
     (CFG_LED_B, W_led_b, Some 16),
     (CFG_AKS_USE_XLR, W_use_xlr, Some 2),
     (CFG_AKS_MAIN_XLR, W_main_xlr, Some 2),
     (CFG_SORT_BY, W_sort_by, Some 2)]"

definition get_switch :: "int \<Rightarrow> (wfield \<times> nat option) option" where
  "get_switch cid = map_of get_cases cid"

definition set_cases :: "(int \<times> wfield \<times> nat option) list" where
  "set_cases =
    [(CFG_AKS_NAME, W_name, Some 16),
     (CFG_AKS_UNIVERSE, W_universe, None),
     (CFG_AKS_SUBNET, W_subnet, None),
     (CFG_GAFFER_ENABLE, W_gaffer_enb, None),
     (CFG_GAFFER_UNIVERSE, W_gaffer_univ, None),
     (CFG_GAFFER_SUBNET, W_gaffer_sub, None),
     (CFG_GAFFER_LOWER, W_gaffer_lower, None),
     (CFG_GAFFER_UPPER, W_gaffer_upper, None),
     (CFG_TIMO_POWER, W_timopower, None),
     (CFG_AKS_CHANNEL_WIDTH, W_channelWidth, None),
     (CFG_AKS_SECOND_CHANNEL, W_secondChannel, None),
     (CFG_SACN_OUTPUT, W_sacn_enb, None),
     (CFG_SACN_UNIV, W_sacn_universe, None),
     (CFG_PROTNAME, W_protname, None),
     (CFG_LED_COLOR, W_led_color, None),
     (CFG_LED_G, W_led_g, None),
     (CFG_LED_B, W_led_b, None),
     (CFG_AKS_USE_XLR, W_use_xlr, Some 2),
     (CFG_AKS_MAIN_XLR, W_main_xlr, Some 2),
     (CFG_SORT_BY, W_sort_by, Some 2)]"

definition set_switch :: "int \<Rightarrow> (wfield \<times> nat option) option" where
  "set_switch cid = map_of set_cases cid"

definition cut :: "nat option \<Rightarrow> bytes \<Rightarrow> bytes" where
  "cut b s = (case b of None \<Rightarrow> s | Some n \<Rightarrow> take (n - 1) s)"

text \<open>\<open>ratpac_get_str id val\<close>: the return code and the string left in \<open>val\<close>. The number of
  known clients is the only setting that is not in the record.\<close>

definition ratpac_get_str :: "int \<Rightarrow> bytes \<Rightarrow> int \<Rightarrow> (int \<times> bytes) option" where
  "ratpac_get_str cid cfg client_valid_num =
    (let default0 = (\<lambda>s. (0, if s = [] then lit ''0'' else s)) in
     case get_switch cid of
       Some (f, bound) \<Rightarrow> map_option (\<lambda>s. default0 (cut bound s)) (str_at cfg (foff f))
     | None \<Rightarrow>
         if cid = CFG_AKS_CONS_NUM then Some (default0 (take 1 (dec_int client_valid_num)))
         else Some (-1, []))"

definition ratpac_set_str :: "int \<Rightarrow> bytes \<Rightarrow> bytes \<Rightarrow> (int \<times> bytes) option" where
  "ratpac_set_str cid val cfg =
    (case set_switch cid of
       Some (f, bound) \<Rightarrow> map_option (Pair 0) (put_str (foff f) (cut bound val) cfg)
     | None \<Rightarrow> Some (-1, cfg))"

section \<open>Well-formed stores and the abstract view\<close>

text \<open>Every string member holds a terminated string inside its own array.\<close>

definition str_fields :: "wfield list" where
  "str_fields = filter (\<lambda>f. f \<noteq> W_initFlag \<and> f \<noteq> W_magic) wfields"

definition web_ok :: "bytes \<Rightarrow> bool" where
  "web_ok cfg \<longleftrightarrow> length cfg = sizeof_WEB_DATA_T \<and>
     list_all (\<lambda>f. case str_at cfg (foff f) of None \<Rightarrow> False | Some s \<Rightarrow> length s < fsize f) str_fields"

definition field_str :: "bytes \<Rightarrow> wfield \<Rightarrow> bytes" where
  "field_str cfg f = the (str_at cfg (foff f))"

lemma set_str_fields: "f \<in> set str_fields \<longleftrightarrow> f \<noteq> W_initFlag \<and> f \<noteq> W_magic"
  by (cases f) (simp_all add: str_fields_def wfields_def)

lemma web_okD:
  assumes "web_ok cfg" and "f \<in> set str_fields"
  obtains s where "str_at cfg (foff f) = Some s" "length s < fsize f" "is_cstr s" "field_str cfg f = s"
  using assms str_at_cstr by (auto simp: web_ok_def list_all_iff field_str_def split: option.splits)

lemma web_ok_length: "web_ok cfg \<Longrightarrow> length cfg = sizeof_WEB_DATA_T"
  by (simp add: web_ok_def)

definition field_fits :: "wfield \<Rightarrow> bytes \<Rightarrow> bool" where
  "field_fits f v \<longleftrightarrow> is_cstr v \<and> length v < fsize f"

lemma web_packed:
  "web_ok = packed_ok foff fsize str_fields sizeof_WEB_DATA_T"
  "(\<lambda>f cfg. field_str cfg f) = packed_str foff" "field_fits = packed_fits fsize"
  by (simp_all add: fun_eq_iff web_ok_def packed_ok_def field_str_def packed_str_def field_fits_def packed_fits_def)

interpretation web_record: packed_record foff fsize UNIV str_fields sizeof_WEB_DATA_T
  using field_inside fields_disjoint by unfold_locales blast+

lemmas str_at_other_field = web_record.str_at_other [folded web_packed, OF _ UNIV_I]

lemma poke_field:
  assumes ok: "web_ok cfg" and f: "f \<in> set str_fields" and v: "is_cstr v" "length v < fsize f"
  defines "cfg' \<equiv> poke (foff f) (v @ [0]) cfg"
  shows "put_str (foff f) v cfg = Some cfg'" and "web_ok cfg'"
    and "field_str cfg' g = (if g \<in> set str_fields then (field_str cfg)(f := v) else field_str cfg') g"
proof -
  have "packed_fits fsize f v" using v by (simp add: packed_fits_def)
  note poke = web_record.poke_member [folded web_packed(1), OF ok f this]
  show "put_str (foff f) v cfg = Some cfg'" "web_ok cfg'" using poke(1,2) by (simp_all add: cfg'_def)
  show "field_str cfg' g = (if g \<in> set str_fields then (field_str cfg)(f := v) else field_str cfg') g"
    using poke(3) poke(4) [of g] by (cases "g = f") (simp_all add: cfg'_def field_str_def)
qed

interpretation field_store:
  setting_store "\<lambda>f cfg. field_str cfg f" "\<lambda>f. put_str (foff f)" web_ok
    "\<lambda>f. f \<in> set str_fields" field_fits
  unfolding web_packed by unfold_locales

text \<open>The longest string an identifier keeps unchanged, from \<open>set\<close> to \<open>get\<close>.\<close>

definition setting_limit :: "int \<Rightarrow> nat" where
  "setting_limit cid = (case set_switch cid of
       None \<Rightarrow> 0
     | Some (f, b) \<Rightarrow> (case b of None \<Rightarrow> fsize f | Some n \<Rightarrow> min n (fsize f)))"

definition setting_key :: "int \<Rightarrow> bool" where
  "setting_key cid \<longleftrightarrow> set_switch cid \<noteq> None"

definition setting_fits :: "int \<Rightarrow> bytes \<Rightarrow> bool" where
  "setting_fits cid v \<longleftrightarrow> is_cstr v \<and> v \<noteq> [] \<and> length v < setting_limit cid"

definition get_setting :: "int \<Rightarrow> bytes \<Rightarrow> bytes" where
  "get_setting cid cfg = snd (the (ratpac_get_str cid cfg 0))"

definition put_setting :: "int \<Rightarrow> bytes \<Rightarrow> bytes \<Rightarrow> bytes option" where
  "put_setting cid v cfg = map_option snd (ratpac_set_str cid v cfg)"

lemma switches_agree:
  assumes "set_switch cid = Some (f, b)"
  shows "\<exists>b'. get_switch cid = Some (f, b') \<and> f \<in> set str_fields \<and>
       (case b' of None \<Rightarrow> True | Some n \<Rightarrow> setting_limit cid \<le> n)"
proof -
  let ?P = "\<lambda>(cid, f, b). case get_switch cid of None \<Rightarrow> False
      | Some (f', b') \<Rightarrow> f' = f \<and> f \<in> set str_fields \<and>
          (case b' of None \<Rightarrow> True | Some n \<Rightarrow> setting_limit cid \<le> n)"
  have "list_all ?P set_cases"
    by (simp add: set_cases_def get_switch_def get_cases_def setting_limit_def set_switch_def
        cfg_ids set_str_fields)
  then have all: "\<forall>x\<in>set set_cases. ?P x" by (simp only: list_all_iff)
  have "(cid, f, b) \<in> set set_cases" using assms by (simp add: set_switch_def map_of_SomeD)
  from bspec [OF all this] show ?thesis by (cases "get_switch cid") auto
qed

lemma switch_inj:
  assumes "set_switch cid = Some (f, b)" and "set_switch cid' = Some (f, b')"
  shows "cid = cid'"
proof -
  have "distinct (map (fst \<circ> snd) set_cases)" by (simp add: set_cases_def)
  then have "inj_on (fst \<circ> snd) (set set_cases)" by (simp add: distinct_map)
  moreover have "(cid, f, b) \<in> set set_cases" "(cid', f, b') \<in> set set_cases"
    using assms by (simp_all add: set_switch_def map_of_SomeD)
  ultimately have "(cid, f, b) = (cid', f, b')" by (intro inj_onD [of "fst \<circ> snd"]) simp_all
  then show ?thesis by simp
qed

lemma cut_short: "(case b of None \<Rightarrow> True | Some n \<Rightarrow> length v < n) \<Longrightarrow> cut b v = v"
  by (auto simp: cut_def split: option.splits)

lemma setting_fitsD:
  assumes "setting_fits cid v"
  obtains f b where "set_switch cid = Some (f, b)" "cut b v = v" "length v < fsize f"
    "is_cstr v" "v \<noteq> []" "f \<in> set str_fields"
proof -
  from assms obtain f b where fb: "set_switch cid = Some (f, b)"
    by (auto simp: setting_fits_def setting_limit_def split: option.splits)
  have "cut b v = v"
    using assms fb by (intro cut_short) (auto simp: setting_fits_def setting_limit_def split: option.splits)
  moreover have "length v < fsize f"
    using assms fb by (auto simp: setting_fits_def setting_limit_def split: option.splits)
  ultimately show thesis using that fb assms switches_agree [OF fb] by (auto simp: setting_fits_def)
qed

lemma ratpac_set_str_fits:
  assumes "web_ok cfg" and "setting_fits cid v" and "set_switch cid = Some (f, b)"
  shows "ratpac_set_str cid v cfg = Some (0, poke (foff f) (v @ [0]) cfg)"
  using assms by (auto elim!: setting_fitsD simp: ratpac_set_str_def poke_field(1) simp del: put_str_eq_Some)

lemma ratpac_get_str_field:
  assumes "web_ok cfg" and "set_switch cid = Some (f, b)"
  obtains b' where "ratpac_get_str cid cfg n =
      Some (0, if cut b' (field_str cfg f) = [] then lit ''0'' else cut b' (field_str cfg f))"
    "\<And>v. length v < setting_limit cid \<Longrightarrow> cut b' v = v"
proof -
  from switches_agree [OF assms(2)] obtain b' where b': "get_switch cid = Some (f, b')"
    "f \<in> set str_fields" "case b' of None \<Rightarrow> True | Some n \<Rightarrow> setting_limit cid \<le> n" by blast
  obtain s where "str_at cfg (foff f) = Some s" "field_str cfg f = s"
    using web_okD [OF assms(1) b'(2)] by blast
  then have "ratpac_get_str cid cfg n =
      Some (0, if cut b' (field_str cfg f) = [] then lit ''0'' else cut b' (field_str cfg f))"
    using b'(1) by (simp add: ratpac_get_str_def)
  moreover have "cut b' v = v" if "length v < setting_limit cid" for v
    using b'(3) that by (intro cut_short) (auto split: option.splits)
  ultimately show thesis using that by blast
qed

interpretation web_store: setting_store get_setting put_setting web_ok setting_key setting_fits
proof unfold_locales
  fix c cid v
  assume ok: "web_ok c" and key: "setting_key cid" and fits: "setting_fits cid v"
  from fits obtain f b where fb: "set_switch cid = Some (f, b)" "length v < fsize f"
    "is_cstr v" "v \<noteq> []" "f \<in> set str_fields" by (auto elim: setting_fitsD)
  let ?c' = "poke (foff f) (v @ [0]) c"
  have put: "put_setting cid v c = Some ?c'"
    using ratpac_set_str_fits [OF ok fits fb(1)] by (simp add: put_setting_def)
  have ok': "web_ok ?c'" by (rule poke_field(2) [OF ok fb(5,3,2)])
  show "\<exists>c'. put_setting cid v c = Some c'" using put by blast
  fix c' assume "put_setting cid v c = Some c'"
  then have c': "c' = ?c'" using put by simp
  show "web_ok c'" using ok' c' by simp
  have view: "field_str c' f = v" using poke_field(3) [OF ok fb(5,3,2), of f] c' fb(5) by simp
  show "get_setting cid c' = v"
  proof -
    have "length v < setting_limit cid" using fits by (simp add: setting_fits_def)
    moreover obtain b' where "ratpac_get_str cid ?c' 0 = Some (0, if cut b' (field_str ?c' f) = []
        then lit ''0'' else cut b' (field_str ?c' f))"
      "\<And>v. length v < setting_limit cid \<Longrightarrow> cut b' v = v"
      by (rule ratpac_get_str_field [OF ok' fb(1), of 0]) blast
    ultimately show ?thesis using view fb(4) c' by (simp add: get_setting_def)
  qed
  fix cid' assume "setting_key cid'" and neq: "cid' \<noteq> cid"
  then obtain f' b' where f': "set_switch cid' = Some (f', b')" by (auto simp: setting_key_def)
  have "f' \<noteq> f" using switch_inj [OF f'] fb(1) neq by blast
  moreover from switches_agree [OF f'] obtain b'' where "get_switch cid' = Some (f', b'')"
    "f' \<in> set str_fields" by blast
  ultimately show "get_setting cid' c' = get_setting cid' c"
    using str_at_other_field [OF ok _ _, of f' f "v @ [0]"] fb(2) c'
    by (simp add: get_setting_def ratpac_get_str_def)
qed

lemma str_at_poke_end [str_simps]:
  assumes "i + length s < length m"
  shows "str_at (poke i (s @ [0]) m) (i + length s) = Some []"
  using assms by (simp add: str_at_def poke_def)

lemma get_same_string:
  assumes "str_at cfg' (foff f) = str_at cfg (foff f)" and "set_switch cid = Some (f, b)"
  shows "ratpac_get_str cid cfg' n = ratpac_get_str cid cfg n"
  using switches_agree [OF assms(2)] assms(1) by (auto simp: ratpac_get_str_def)

lemma set_get_facts:
  assumes ok: "web_ok cfg" and fits: "setting_fits cid v"
  obtains f b where "set_switch cid = Some (f, b)"
    "ratpac_set_str cid v cfg = Some (0, poke (foff f) (v @ [0]) cfg)"
    "web_ok (poke (foff f) (v @ [0]) cfg)"
    "ratpac_get_str cid (poke (foff f) (v @ [0]) cfg) n = Some (0, v)"
    "\<And>cid'. setting_key cid' \<Longrightarrow> cid' \<noteq> cid \<Longrightarrow>
       ratpac_get_str cid' (poke (foff f) (v @ [0]) cfg) n = ratpac_get_str cid' cfg n"
proof -
  from fits obtain f b where fb: "set_switch cid = Some (f, b)" "length v < fsize f"
    "is_cstr v" "v \<noteq> []" "f \<in> set str_fields" by (auto elim: setting_fitsD)
  let ?c' = "poke (foff f) (v @ [0]) cfg"
  have ok': "web_ok ?c'" by (rule poke_field(2) [OF ok fb(5,3,2)])
  have view: "field_str ?c' f = v" using poke_field(3) [OF ok fb(5,3,2), of f] fb(5) by simp
  obtain b' where "ratpac_get_str cid ?c' n = Some (0, if cut b' (field_str ?c' f) = []
      then lit ''0'' else cut b' (field_str ?c' f))"
    "\<And>v. length v < setting_limit cid \<Longrightarrow> cut b' v = v"
    by (rule ratpac_get_str_field [OF ok' fb(1), of n]) blast
  then have get: "ratpac_get_str cid ?c' n = Some (0, v)"
    using view fb(4) fits by (simp add: setting_fits_def)
  have other: "ratpac_get_str cid' ?c' n = ratpac_get_str cid' cfg n"
    if key: "setting_key cid'" "cid' \<noteq> cid" for cid'
  proof -
    from key(1) obtain f' b' where f': "set_switch cid' = Some (f', b')" by (auto simp: setting_key_def)
    have "f' \<noteq> f" using switch_inj [OF f'] fb(1) key(2) by blast
    moreover have "f' \<in> set str_fields" using switches_agree [OF f'] by blast
    ultimately have "str_at ?c' (foff f') = str_at cfg (foff f')"
      using str_at_other_field [OF ok, of f' f "v @ [0]"] fb(2) by simp
    then show ?thesis using f' by (rule get_same_string)
  qed
  show thesis
    by (rule that [OF fb(1) ratpac_set_str_fits [OF ok fits fb(1)] ok' get other])
qed

lemma set_get_facts':
  assumes ok: "web_ok cfg" and fits: "setting_fits cid v"
  obtains cfg' where "ratpac_set_str cid v cfg = Some (0, cfg')" "web_ok cfg'"
    "\<forall>n. ratpac_get_str cid cfg' n = Some (0, v)"
    "\<forall>cid' n. setting_key cid' \<longrightarrow> cid' \<noteq> cid \<longrightarrow>
       ratpac_get_str cid' cfg' n = ratpac_get_str cid' cfg n"
proof -
  obtain f b where fb: "set_switch cid = Some (f, b)" using fits by (auto elim: setting_fitsD)
  let ?c' = "poke (foff f) (v @ [0]) cfg"
  have set: "ratpac_set_str cid v cfg = Some (0, ?c')" by (rule ratpac_set_str_fits [OF ok fits fb])
  have all: "web_ok ?c' \<and> ratpac_get_str cid ?c' n = Some (0, v) \<and> (\<forall>cid'. setting_key cid' \<longrightarrow>
      cid' \<noteq> cid \<longrightarrow> ratpac_get_str cid' ?c' n = ratpac_get_str cid' cfg n)" for n
    by (rule set_get_facts [OF ok fits, of n]) (simp add: fb)
  show thesis by (rule that [OF set]) (use all in blast)+
qed

lemma overlong_facts:
  assumes "web_ok cfg" and "set_switch cid = Some (f, None)" and "is_cstr v" and "length v = fsize f"
    and "g \<in> set str_fields" and "foff g = foff f + fsize f"
  obtains cfg' where "ratpac_set_str cid v cfg = Some (0, cfg')" "\<not> web_ok cfg'"
    "str_at cfg' (foff f) = Some v" "str_at cfg' (foff g) = Some []"
proof -
  let ?cfg' = "poke (foff f) (v @ [0]) cfg"
  have len: "foff f + length v < length cfg"
    using field_inside [of g] assms(4,6) web_ok_length [OF assms(1)]
    by (cases g rule: wfield.exhaust) auto
  have f: "str_at ?cfg' (foff f) = Some v" using len assms(3) by (simp add: str_at_poke_same)
  have g: "str_at ?cfg' (foff g) = Some []" using str_at_poke_end [OF len] assms(4,6) by simp
  have "f \<in> set str_fields" using switches_agree [OF assms(2)] by blast
  then have "\<not> web_ok ?cfg'" using f assms(4) by (auto elim: web_okD)
  moreover have "ratpac_set_str cid v cfg = Some (0, ?cfg')"
    using assms(2) len by (simp add: ratpac_set_str_def cut_def put_str_def mem_put_def)
  ultimately show thesis using f g that by blast
qed

section \<open>Properties\<close>

text \<open>
  C2. A value that fits a setting survives the store: \<open>ratpac_set_str\<close> accepts it, leaves the
  record well-formed, \<open>ratpac_get_str\<close> returns exactly it, and every other setting still reads
  as before.
\<close>

theorem setting_round_trip:
  assumes "web_ok cfg" and "setting_fits cid v"
  shows "\<exists>cfg'. ratpac_set_str cid v cfg = Some (0, cfg') \<and> web_ok cfg' \<and>
    ratpac_get_str cid cfg' n = Some (0, v) \<and>
    (\<forall>cid'. setting_key cid' \<longrightarrow> cid' \<noteq> cid \<longrightarrow>
       ratpac_get_str cid' cfg' n = ratpac_get_str cid' cfg n)"
  by (rule set_get_facts [OF assms, of n]) blast

lemma zero_record_ok: "web_ok (replicate sizeof_WEB_DATA_T 0)"
proof -
  have "str_at (replicate sizeof_WEB_DATA_T 0) (foff f) = Some [] \<and> 0 < fsize f" for f
    by (cases f) (simp_all add: str_at_def sizeof_WEB_DATA_T_def numeral_eq_Suc)
  then show ?thesis by (simp add: web_ok_def list_all_iff)
qed

theorem setting_round_trip_witness:
  "\<exists>cfg'. ratpac_set_str CFG_SACN_UNIV (lit ''63999'') (replicate sizeof_WEB_DATA_T 0) = Some (0, cfg') \<and>
     web_ok cfg' \<and> ratpac_get_str CFG_SACN_UNIV cfg' 1 = Some (0, lit ''63999'')"
proof -
  have "setting_fits CFG_SACN_UNIV (lit ''63999'')"
    by (simp add: setting_fits_def setting_limit_def set_switch_def set_cases_def cfg_ids)
  from setting_round_trip [OF zero_record_ok this, of 1] show ?thesis by blast
qed

text \<open>
  The unbounded copies of \<open>ratpac_set_str\<close>: a value exactly as long as its member's array
  leaves that member without a terminator of its own and empties the member behind it.
\<close>

theorem overlong_setting_clears_next:
  assumes "web_ok cfg" and "set_switch cid = Some (f, None)" and "is_cstr v" and "length v = fsize f"
    and "g \<in> set str_fields" and "foff g = foff f + fsize f"
  shows "\<exists>cfg'. ratpac_set_str cid v cfg = Some (0, cfg') \<and> \<not> web_ok cfg' \<and>
    str_at cfg' (foff f) = Some v \<and> str_at cfg' (foff g) = Some []"
  by (rule overlong_facts [OF assms]) blast

theorem overlong_setting_clears_next_witness:
  "\<exists>cfg'. ratpac_set_str CFG_AKS_UNIVERSE (lit ''123'') (replicate sizeof_WEB_DATA_T 0) = Some (0, cfg') \<and>
     \<not> web_ok cfg' \<and> str_at cfg' (foff W_universe) = Some (lit ''123'') \<and> str_at cfg' (foff W_subnet) = Some []"
proof -
  have s: "set_switch CFG_AKS_UNIVERSE = Some (W_universe, None)"
    by (simp add: set_switch_def set_cases_def cfg_ids)
  show ?thesis
    by (rule overlong_setting_clears_next [OF zero_record_ok s]) (simp_all add: set_str_fields)
qed

text \<open>
  The number of constellation rows given to the web page is cut to its first digit.
\<close>

theorem cons_num_first_digit:
  assumes "0 \<le> k"
  shows "ratpac_get_str CFG_AKS_CONS_NUM cfg k = Some (0, [hd (dec_int k)])"
  using dec_nat_not_Nil [of "nat k"] assms
  by (simp add: ratpac_get_str_def get_switch_def get_cases_def cfg_ids dec_int_def take_Suc)

theorem cons_num_first_digit_witness:
  "ratpac_get_str CFG_AKS_CONS_NUM [] 12 = Some (0, lit ''1'') \<and> dec_int 12 = lit ''12''"
proof -
  have "dec_int 12 = lit ''12''" by (simp add: dec_int_def dec_nat.simps)
  then show ?thesis using cons_num_first_digit [of 12 "[]"] by simp
qed

end
