(* ===== verification/ConfigFlash.thy ===== *)
theory ConfigFlash
  imports WebConfig
begin

text \<open>
  The copy of the configuration in the user flash: \<open>write_data_to_flash\<close> and
  \<open>web_flash_data_init\<close> of \<^verbatim>\<open>src/user/UserMain.c\<close>.

  The flash driver (\<open>hfuflash_erase_page\<close>, \<open>hfuflash_write\<close>, \<open>hfuflash_read\<close>, declared in
  \<^verbatim>\<open>src/include/hsf_hf/hfflash.h\<close> and linked from a binary library) is a parameter; \<open>flash_ok\<close>
  states what the code relies on. The debug output of the functions is not modelled.
\<close>

record 'fl flash_ops =
  hfuflash_erase_page :: "nat \<Rightarrow> nat \<Rightarrow> 'fl \<Rightarrow> 'fl"
  hfuflash_write :: "nat \<Rightarrow> bytes \<Rightarrow> 'fl \<Rightarrow> 'fl"
  hfuflash_read :: "nat \<Rightarrow> nat \<Rightarrow> 'fl \<Rightarrow> bytes"

text \<open>Data of at most one page, written at the start of an erased page, reads back.\<close>

definition flash_ok :: "('fl, 'e) flash_ops_scheme \<Rightarrow> bool" where
  "flash_ok ops \<longleftrightarrow> (\<forall>data fl. length data \<le> 4096 \<longrightarrow>
     hfuflash_read ops 0 (length data)
       (hfuflash_write ops 0 data (hfuflash_erase_page ops 0 1 fl)) = data)"

record 'fl cfg_state =
  g_web_config :: bytes
  user_flash :: "'fl"

definition WEB_DATA_FLASH_ADDR :: nat where "WEB_DATA_FLASH_ADDR = 0"
definition WEB_DATA_FLASH_PAGE :: nat where "WEB_DATA_FLASH_PAGE = 1"

section \<open>Saving\<close>

text \<open>The checksum loop of the writer leaves out the bytes that are \<open>0xff\<close>.\<close>

fun ck_sum_write :: "byte \<Rightarrow> bytes \<Rightarrow> byte" where
  "ck_sum_write ck [] = ck"
| "ck_sum_write ck (b # m) = (if 0xff = b then ck_sum_write ck m else ck_sum_write (ck XOR b) m)"

definition write_data_to_flash ::
    "('fl, 'e) flash_ops_scheme \<Rightarrow> ('fl, 'z) cfg_state_scheme \<Rightarrow> ('fl, 'z) cfg_state_scheme" where
  "write_data_to_flash ops s =
    (let m = (g_web_config s)[0 := ck_sum_write 0 (drop 1 (g_web_config s))];
         fl = hfuflash_erase_page ops WEB_DATA_FLASH_ADDR WEB_DATA_FLASH_PAGE (user_flash s)
     in s\<lparr>g_web_config := m, user_flash := hfuflash_write ops WEB_DATA_FLASH_ADDR m fl\<rparr>)"

section \<open>Loading at boot\<close>

text \<open>The checksum loop of the reader stops at a byte \<open>0xff\<close> with the checksum 0.\<close>

fun ck_sum_read :: "byte \<Rightarrow> bytes \<Rightarrow> byte" where
  "ck_sum_read ck [] = ck"
| "ck_sum_read ck (b # m) = (if 0xff = b then 0 else ck_sum_read (ck XOR b) m)"

text \<open>The settings stored when the flash holds no valid record. \<open>build_img\<close> is the image name
  the build passes with \<open>-DBUILD_IMG\<close>.\<close>

definition default_settings :: "bytes \<Rightarrow> (wfield \<times> bytes) list" where
  "default_settings build_img =
    (if strcmp build_img (lit ''AKS'') = 0
     then [(W_name, lit ''Ratpac AKS''), (W_led_color, lit ''EEEEEE'')]
     else [(W_name, lit ''Satellite''), (W_led_color, lit ''1EE7E8'')]) @
    [(W_universe, lit ''0''), (W_subnet, lit ''0''), (W_gaffer_enb, lit ''1''),
     (W_protname, lit ''0''), (W_gaffer_sub, lit ''0''), (W_gaffer_univ, lit ''0''),
     (W_gaffer_lower, lit ''1''), (W_gaffer_upper, lit ''1''), (W_sacn_enb, lit ''1''),
     (W_sacn_universe, lit ''1''), (W_timopower, lit ''3''), (W_channelWidth, lit ''16''),
     (W_secondChannel, lit ''0''), (W_bitSetting, lit ''0''), (W_led_g, lit ''112''),
     (W_led_b, lit ''102''), (W_use_xlr, lit ''0''), (W_main_xlr, lit ''0''), (W_sort_by, lit ''0'')]"

definition default_config :: "bytes \<Rightarrow> bytes option" where
  "default_config build_img = do {
     m \<leftarrow> put_all (\<lambda>f. put_str (foff f)) (default_settings build_img) (replicate sizeof_WEB_DATA_T 0);
     Some (poke (foff W_magic) [MAGIC0, MAGIC1] m) }"

definition web_flash_data_init ::
    "('fl, 'e) flash_ops_scheme \<Rightarrow> bytes \<Rightarrow> int \<Rightarrow> ('fl, 'z) cfg_state_scheme \<Rightarrow> ('fl, 'z) cfg_state_scheme option" where
  "web_flash_data_init ops build_img flag s = do {
     m \<leftarrow> mem_put 0 (hfuflash_read ops WEB_DATA_FLASH_ADDR sizeof_WEB_DATA_T (user_flash s))
            (replicate sizeof_WEB_DATA_T 0);
     let ck = ck_sum_read 0 (drop 1 m);
     let m = (if 1 = flag then m[0 := 1] else m);
     let ck = (if 1 = flag then 0x55 else ck);
     if m ! 0 \<noteq> ck \<or> m ! foff W_magic \<noteq> MAGIC0 \<or> m ! Suc (foff W_magic) \<noteq> MAGIC1
     then do {
       d \<leftarrow> default_config build_img;
       Some (write_data_to_flash ops (s\<lparr>g_web_config := d\<rparr>)) }
     else Some (s\<lparr>g_web_config := m\<rparr>) }"

section \<open>The checksum\<close>

interpretation ck8: checksum_alg "(XOR) :: byte \<Rightarrow> byte \<Rightarrow> byte" 0
proof unfold_locales
  fix a b c :: byte
  show "(a XOR b) XOR c = a XOR (b XOR c)" by (rule xor.assoc)
  show "a XOR b = b XOR a" by (rule xor.commute)
  show "0 XOR a = a" by simp
  assume "a XOR b = a XOR c"
  then have "a XOR (a XOR b) = a XOR (a XOR c)" by simp
  then show "b = c" by (simp flip: xor.assoc)
qed

lemma ck_sum_read_plain: "0xff \<notin> set m \<Longrightarrow> ck_sum_read ck m = foldl (XOR) ck m"
  by (induction m arbitrary: ck) auto

lemma ck_sum_read_ff: "0xff \<in> set m \<Longrightarrow> ck_sum_read ck m = 0"
  by (induction m arbitrary: ck) auto

lemma ck_sum_write_plain: "0xff \<notin> set m \<Longrightarrow> ck_sum_write ck m = foldl (XOR) ck m"
  by (induction m arbitrary: ck) auto

lemma ck_sum_write_filter: "ck_sum_write ck m = foldl (XOR) ck (filter (\<lambda>b. b \<noteq> 0xff) m)"
  by (induction m arbitrary: ck) auto

section \<open>What is loaded\<close>

definition cfg_valid :: "bytes \<Rightarrow> bool" where
  "cfg_valid m \<longleftrightarrow> length m = sizeof_WEB_DATA_T \<and> m ! 0 = ck_sum_read 0 (drop 1 m) \<and>
     m ! foff W_magic = MAGIC0 \<and> m ! Suc (foff W_magic) = MAGIC1"

lemma poke_all: "length xs = length m \<Longrightarrow> poke 0 xs m = xs"
  by (simp add: poke_def)

lemma init_valid:
  assumes "hfuflash_read ops WEB_DATA_FLASH_ADDR sizeof_WEB_DATA_T (user_flash s) = m"
    and "cfg_valid m" and "flag \<noteq> 1"
  shows "web_flash_data_init ops img flag s = Some (s\<lparr>g_web_config := m\<rparr>)"
  using assms by (simp add: web_flash_data_init_def cfg_valid_def poke_all mem_put_def)

lemma init_invalid:
  assumes "hfuflash_read ops WEB_DATA_FLASH_ADDR sizeof_WEB_DATA_T (user_flash s) = m"
    and "length m = sizeof_WEB_DATA_T" and "\<not> cfg_valid m \<or> flag = 1"
    and "default_config img = Some d"
  shows "web_flash_data_init ops img flag s = Some (write_data_to_flash ops (s\<lparr>g_web_config := d\<rparr>))"
  using assms
  by (auto simp: web_flash_data_init_def cfg_valid_def poke_all mem_put_def sizeof_WEB_DATA_T_def)

lemma default_settings_fit: "(f, v) \<in> set (default_settings img) \<Longrightarrow> f \<in> set str_fields \<and> field_fits f v"
  by (auto simp: default_settings_def set_str_fields field_fits_def split: if_splits)

lemma default_config_view:
  obtains d where "default_config img = Some d" "web_ok d"
    "d ! foff W_magic = MAGIC0" "d ! Suc (foff W_magic) = MAGIC1"
    "\<And>f. f \<in> set str_fields \<Longrightarrow> map_of (rev (default_settings img)) f = Some (field_str d f)"
proof -
  obtain m where m: "put_all (\<lambda>f. put_str (foff f)) (default_settings img) (replicate sizeof_WEB_DATA_T 0) = Some m"
      "web_ok m"
    and view: "\<forall>f. f \<in> set str_fields \<longrightarrow> field_str m f = (case map_of (rev (default_settings img)) f of
        Some v \<Rightarrow> v | None \<Rightarrow> field_str (replicate sizeof_WEB_DATA_T 0) f)"
    using field_store.put_all_view [OF zero_record_ok, of "default_settings img"] default_settings_fit
    by blast
  let ?d = "poke (foff W_magic) [MAGIC0, MAGIC1] m"
  have len: "length m = 101" using web_ok_length [OF m(2)] by (simp add: sizeof_WEB_DATA_T_def)
  have same: "str_at ?d (foff f) = str_at m (foff f)" if "f \<in> set str_fields" for f
    using that by (intro str_at_other_field [OF m(2)]) (auto simp: set_str_fields)
  have "web_ok ?d" using m(2) len same by (simp add: web_ok_def list_all_iff)
  moreover have "?d ! foff W_magic = MAGIC0" "?d ! Suc (foff W_magic) = MAGIC1"
    using len by (simp_all add: nth_poke)
  moreover have "map_of (rev (default_settings img)) f = Some (field_str ?d f)"
    if "f \<in> set str_fields" for f
  proof -
    have "f \<in> fst ` set (rev (default_settings img))"
      using that by (cases f rule: wfield.exhaust) (simp_all add: default_settings_def set_str_fields image_iff)
    then obtain v where v: "map_of (rev (default_settings img)) f = Some v" by (metis map_of_eq_None_iff not_None_eq)
    moreover have "field_str m f = v" using view that v by (simp only: option.case)
    moreover have "field_str ?d f = field_str m f" using same [OF that] by (simp only: field_str_def)
    ultimately show ?thesis by (simp only:)
  qed
  moreover have "default_config img = Some ?d" using m(1) by (simp add: default_config_def)
  ultimately show thesis using that by blast
qed

section \<open>The stored record\<close>

lemma write_data_simps:
  "g_web_config (write_data_to_flash ops s) =
     (g_web_config s)[0 := ck_sum_write 0 (drop 1 (g_web_config s))]"
  "user_flash (write_data_to_flash ops s) =
     hfuflash_write ops 0 (g_web_config (write_data_to_flash ops s))
       (hfuflash_erase_page ops 0 1 (user_flash s))"
  by (simp_all add: write_data_to_flash_def Let_def WEB_DATA_FLASH_ADDR_def WEB_DATA_FLASH_PAGE_def)

lemma str_at_ck_byte: "f \<in> set str_fields \<Longrightarrow> str_at (m[0 := b]) (foff f) = str_at m (foff f)"
  unfolding str_at_def set_str_fields
  by (cases f rule: wfield.exhaust) (simp_all add: drop_update_cancel)

lemma write_data_web_ok:
  "web_ok (g_web_config (write_data_to_flash ops s)) = web_ok (g_web_config s)"
  using str_at_ck_byte by (simp add: web_ok_def list_all_iff write_data_simps(1))

lemma write_data_get:
  "ratpac_get_str cid (g_web_config (write_data_to_flash ops s)) n = ratpac_get_str cid (g_web_config s) n"
proof (cases "get_switch cid")
  case None
  then show ?thesis by (simp add: ratpac_get_str_def)
next
  case (Some fb)
  moreover obtain f b where fb: "fb = (f, b)" by (cases fb)
  moreover have "list_all (\<lambda>(cid, f, b). f \<in> set str_fields) get_cases"
    by (simp add: get_cases_def set_str_fields)
  then have "f \<in> set str_fields"
    using Some fb by (auto simp: list_all_iff get_switch_def dest!: map_of_SomeD)
  ultimately show ?thesis
    by (simp add: ratpac_get_str_def write_data_simps(1) str_at_ck_byte)
qed

lemma read_back:
  assumes "flash_ok ops" and "length (g_web_config s) = sizeof_WEB_DATA_T"
  shows "hfuflash_read ops WEB_DATA_FLASH_ADDR sizeof_WEB_DATA_T
      (user_flash (write_data_to_flash ops s)) = g_web_config (write_data_to_flash ops s)"
proof -
  let ?m = "g_web_config (write_data_to_flash ops s)"
  have len: "length ?m = sizeof_WEB_DATA_T" using assms(2) by (simp add: write_data_simps)
  have "length ?m \<le> 4096" using len by (simp add: sizeof_WEB_DATA_T_def)
  then have "hfuflash_read ops 0 (length ?m) (hfuflash_write ops 0 ?m
      (hfuflash_erase_page ops 0 1 (user_flash s))) = ?m"
    using assms(1) unfolding flash_ok_def by blast
  then show ?thesis by (simp only: len write_data_simps(2) WEB_DATA_FLASH_ADDR_def)
qed

lemma drop1_update0: "drop 1 (m[0 := b]) = drop 1 m"
  by (cases m) simp_all

lemma written_valid:
  assumes "length (g_web_config s) = sizeof_WEB_DATA_T"
    and "g_web_config s ! foff W_magic = MAGIC0" and "g_web_config s ! Suc (foff W_magic) = MAGIC1"
  shows "cfg_valid (g_web_config (write_data_to_flash ops s)) \<longleftrightarrow>
    0xff \<notin> set (drop 1 (g_web_config s)) \<or> ck_sum_write 0 (drop 1 (g_web_config s)) = 0"
proof -
  let ?c = "g_web_config s"
  have "0 < length ?c" using assms(1) by (simp add: sizeof_WEB_DATA_T_def)
  then have "cfg_valid (g_web_config (write_data_to_flash ops s)) \<longleftrightarrow>
      ck_sum_write 0 (drop 1 ?c) = ck_sum_read 0 (drop 1 ?c)"
    using assms by (simp add: cfg_valid_def write_data_simps(1) drop1_update0 nth_list_update
        del: One_nat_def drop_0 drop_Suc)
  then show ?thesis
    by (cases "0xff \<in> set (drop 1 ?c)")
       (simp_all add: ck_sum_read_ff ck_sum_read_plain ck_sum_write_plain del: One_nat_def)
qed

lemma corrupt_invalid:
  assumes valid: "cfg_valid m" and plain: "0xff \<notin> set (drop 1 m)"
    and i: "i < length m" and b: "b \<noteq> m ! i" "b \<noteq> 0xff"
  shows "\<not> cfg_valid (m[i := b])"
proof (cases i)
  case 0
  then show ?thesis using valid b i
    by (simp add: cfg_valid_def drop1_update0 del: One_nat_def)
next
  case (Suc j)
  let ?t = "drop 1 m"
  have t: "drop 1 (m[i := b]) = ?t[j := b]" using Suc i by (cases m) simp_all
  have j: "j < length ?t" "b \<noteq> ?t ! j" using Suc i b by simp_all
  have plain': "0xff \<notin> set (?t[j := b])"
    using plain b(2) set_update_subset_insert [of ?t j b] by auto
  have "foldl (XOR) 0 (?t[j := b]) \<noteq> foldl (XOR) 0 ?t" by (rule ck8.sum_update_neq [OF j])
  then have "ck_sum_read 0 (?t[j := b]) \<noteq> ck_sum_read 0 ?t"
    using plain plain' by (simp add: ck_sum_read_plain)
  moreover have "m[i := b] ! 0 = m ! 0" using Suc by simp
  ultimately show ?thesis using valid t by (simp add: cfg_valid_def del: One_nat_def)
qed

lemma corrupt_valid_iff:
  assumes valid: "cfg_valid m" and plain: "0xff \<notin> set (drop 1 m)" and i: "i < length m" and b: "b \<noteq> m ! i"
  shows "cfg_valid (m[i := b]) \<longleftrightarrow> b = 0xff \<and> 0 < i \<and> i < foff W_magic \<and> m ! 0 = 0"
proof (cases "b = 0xff \<and> 0 < i")
  case False
  show ?thesis
  proof (cases i)
    case 0
    then show ?thesis using valid b i by (simp add: cfg_valid_def drop1_update0 del: One_nat_def)
  next
    case (Suc j)
    then show ?thesis using False corrupt_invalid [OF valid plain i b] by auto
  qed
next
  case True
  then obtain j where j: "i = Suc j" by (cases i) auto
  have len: "length m = 101" using valid by (simp add: cfg_valid_def sizeof_WEB_DATA_T_def)
  have "drop 1 (m[i := b]) = (drop 1 m)[j := b]" using j i by (cases m) simp_all
  then have "0xff \<in> set (drop 1 (m[i := b]))" using True i j by (auto intro!: set_update_memI)
  then have "ck_sum_read 0 (drop 1 (m[i := b])) = 0" by (rule ck_sum_read_ff)
  moreover have "MAGIC0 \<noteq> 0xff" "MAGIC1 \<noteq> 0xff" by (simp_all add: MAGIC0_def MAGIC1_def)
  ultimately show ?thesis
    using valid True i len by (auto simp: cfg_valid_def nth_list_update sizeof_WEB_DATA_T_def simp del: One_nat_def)
qed

section \<open>Properties\<close>

text \<open>
  C7. A well-formed configuration without a byte \<open>0xff\<close> that is saved with
  \<open>write_data_to_flash\<close> is the configuration of the next boot: \<open>web_flash_data_init\<close> accepts
  the record, every byte behind the checksum is the saved one, and the flash is not rewritten.
\<close>

theorem config_survives_reboot:
  assumes "flash_ok ops" and "length (g_web_config s) = sizeof_WEB_DATA_T"
    and "g_web_config s ! foff W_magic = MAGIC0" and "g_web_config s ! Suc (foff W_magic) = MAGIC1"
    and "0xff \<notin> set (drop 1 (g_web_config s))" and "user_flash t = user_flash (write_data_to_flash ops s)"
  shows "\<exists>m. web_flash_data_init ops img 0 t = Some (t\<lparr>g_web_config := m\<rparr>) \<and>
    drop 1 m = drop 1 (g_web_config s)"
proof -
  let ?m = "g_web_config (write_data_to_flash ops s)"
  have "cfg_valid ?m" using written_valid [OF assms(2,3,4)] assms(5) by simp
  moreover have "hfuflash_read ops WEB_DATA_FLASH_ADDR sizeof_WEB_DATA_T (user_flash t) = ?m"
    using read_back [OF assms(1,2)] assms(6) by simp
  ultimately have "web_flash_data_init ops img 0 t = Some (t\<lparr>g_web_config := ?m\<rparr>)"
    by (intro init_valid) simp_all
  moreover have "drop 1 ?m = drop 1 (g_web_config s)" by (simp only: write_data_simps drop1_update0)
  ultimately show ?thesis by blast
qed

text \<open>
  A saved configuration that contains a byte \<open>0xff\<close> is thrown away at the next boot and
  replaced by the factory settings, unless its checksum happens to be 0: the writer leaves
  such bytes out of the checksum while the reader gives up on them.
\<close>

theorem config_with_ff_is_lost:
  assumes "flash_ok ops" and "length (g_web_config s) = sizeof_WEB_DATA_T"
    and "g_web_config s ! foff W_magic = MAGIC0" and "g_web_config s ! Suc (foff W_magic) = MAGIC1"
    and "0xff \<in> set (drop 1 (g_web_config s))" and "ck_sum_write 0 (drop 1 (g_web_config s)) \<noteq> 0"
    and "user_flash t = user_flash (write_data_to_flash ops s)"
  shows "\<exists>d. default_config img = Some d \<and>
    web_flash_data_init ops img 0 t = Some (write_data_to_flash ops (t\<lparr>g_web_config := d\<rparr>))"
proof -
  let ?m = "g_web_config (write_data_to_flash ops s)"
  obtain d where d: "default_config img = Some d" by (rule default_config_view [of img])
  have "\<not> cfg_valid ?m" using written_valid [OF assms(2,3,4)] assms(5,6) by simp
  moreover have "hfuflash_read ops WEB_DATA_FLASH_ADDR sizeof_WEB_DATA_T (user_flash t) = ?m"
    using read_back [OF assms(1,2)] assms(7) by simp
  moreover have "length ?m = sizeof_WEB_DATA_T" using assms(2) by (simp add: write_data_simps)
  ultimately have "web_flash_data_init ops img 0 t = Some (write_data_to_flash ops (t\<lparr>g_web_config := d\<rparr>))"
    using d by (intro init_invalid) simp_all
  with d show ?thesis by blast
qed

text \<open>
  C8. In a valid stored record without \<open>0xff\<close> bytes behind the checksum, a single corrupted byte is noticed at boot,
  and the factory settings are loaded and stored, in every case but one: a byte of the settings that has become
  \<open>0xff\<close> while the checksum is 0 is taken over.
\<close>

theorem corrupt_byte_restores_defaults:
  assumes "cfg_valid m" and "0xff \<notin> set (drop 1 m)" and "i < length m" and "b \<noteq> m ! i"
    and "hfuflash_read ops WEB_DATA_FLASH_ADDR sizeof_WEB_DATA_T (user_flash s) = m[i := b]"
  shows "\<exists>d. default_config img = Some d \<and> web_flash_data_init ops img 0 s =
    Some (if b = 0xff \<and> 0 < i \<and> i < foff W_magic \<and> m ! 0 = 0 then s\<lparr>g_web_config := m[i := b]\<rparr>
      else write_data_to_flash ops (s\<lparr>g_web_config := d\<rparr>))"
proof -
  obtain d where d: "default_config img = Some d" by (rule default_config_view [of img])
  note iff = corrupt_valid_iff [OF assms(1-4)]
  have len: "length (m[i := b]) = sizeof_WEB_DATA_T" using assms(1) by (simp add: cfg_valid_def)
  have "web_flash_data_init ops img 0 s =
      Some (if cfg_valid (m[i := b]) then s\<lparr>g_web_config := m[i := b]\<rparr>
        else write_data_to_flash ops (s\<lparr>g_web_config := d\<rparr>))"
    using init_valid [OF assms(5), of 0 img] init_invalid [OF assms(5) len _ d, of 0] by simp
  with d iff show ?thesis by auto
qed

text \<open>
  C9. The factory reset (\<open>AT+DEFAULT\<close>, flag 1) succeeds whatever the flash holds: the record is
  then well-formed, carries the magic bytes, and every setting reads its factory value.
\<close>

theorem factory_reset:
  assumes "length (hfuflash_read ops WEB_DATA_FLASH_ADDR sizeof_WEB_DATA_T (user_flash s)) = sizeof_WEB_DATA_T"
  shows "\<exists>s'. web_flash_data_init ops img 1 s = Some s' \<and> web_ok (g_web_config s') \<and>
    g_web_config s' ! foff W_magic = MAGIC0 \<and> g_web_config s' ! Suc (foff W_magic) = MAGIC1 \<and>
    (\<forall>f. f \<in> set str_fields \<longrightarrow>
       map_of (rev (default_settings img)) f = Some (field_str (g_web_config s') f))"
proof -
  obtain d where d: "default_config img = Some d" "web_ok d"
    "d ! foff W_magic = MAGIC0" "d ! Suc (foff W_magic) = MAGIC1"
    "\<And>f. f \<in> set str_fields \<Longrightarrow> map_of (rev (default_settings img)) f = Some (field_str d f)"
    by (rule default_config_view [of img]) blast
  let ?s = "write_data_to_flash ops (s\<lparr>g_web_config := d\<rparr>)"
  have init: "web_flash_data_init ops img 1 s = Some ?s"
    using assms d(1) by (intro init_invalid) simp_all
  have g: "g_web_config ?s = d[0 := ck_sum_write 0 (drop 1 d)]" by (simp add: write_data_simps)
  have len: "length d = 101" using web_ok_length [OF d(2)] by (simp add: sizeof_WEB_DATA_T_def)
  have "web_ok (g_web_config ?s)" using write_data_web_ok [of ops "s\<lparr>g_web_config := d\<rparr>"] d(2) by simp
  moreover have "field_str (g_web_config ?s) f = field_str d f" if "f \<in> set str_fields" for f
    using str_at_ck_byte [OF that] g by (simp add: field_str_def)
  ultimately show ?thesis using init d(3-5) g len by auto
qed

section \<open>Witnesses\<close>

text \<open>A flash of one page as the driver's documentation describes it: erasing sets every byte to
  \<open>0xff\<close>, programming clears bits.\<close>

definition nor_flash :: "bytes flash_ops" where
  "nor_flash = \<lparr>
     hfuflash_erase_page = (\<lambda>addr pages fl. replicate 4096 0xff),
     hfuflash_write = (\<lambda>addr data fl. poke addr (map2 (AND) data (drop addr fl)) fl),
     hfuflash_read = (\<lambda>addr n fl. take n (drop addr fl))\<rparr>"

lemma byte_all_ones: "(- 1 :: byte) = 0xff"
  by simp

lemma program_erased: "length data \<le> n \<Longrightarrow> map2 (AND) data (replicate n (0xff :: byte)) = data"
proof (induction data arbitrary: n)
  case (Cons b data)
  have "b AND - 1 = b" by simp
  then have "b AND 0xff = b" by (simp only: byte_all_ones)
  with Cons show ?case by (cases n) simp_all
qed simp

lemma nor_flash_ok: "flash_ok nor_flash"
  by (simp add: flash_ok_def nor_flash_def program_erased poke_def)

definition sample_cfg :: bytes where
  "sample_cfg = poke (foff W_magic) [MAGIC0, MAGIC1] (replicate sizeof_WEB_DATA_T 0)"

definition sample_state :: "bytes cfg_state" where
  "sample_state = \<lparr>g_web_config = sample_cfg, user_flash = []\<rparr>"

definition sample_ff_state :: "bytes cfg_state" where
  "sample_ff_state = \<lparr>g_web_config = poke (foff W_name) [0xff] sample_cfg, user_flash = []\<rparr>"

lemma sample_length: "length sample_cfg = sizeof_WEB_DATA_T"
  by (simp add: sample_cfg_def sizeof_WEB_DATA_T_def)

lemma sample_magic:
  "sample_cfg ! foff W_magic = MAGIC0" "sample_cfg ! Suc (foff W_magic) = MAGIC1"
  by (simp_all add: sample_cfg_def sizeof_WEB_DATA_T_def nth_poke)

lemma sample_eval: "sample_cfg = replicate 99 0 @ [0x55, 0x35]"
  by (simp add: sample_cfg_def sizeof_WEB_DATA_T_def poke_def MAGIC0_def MAGIC1_def)

theorem config_survives_reboot_witness:
  "\<exists>m. web_flash_data_init nor_flash (lit ''AKS'') 0 (write_data_to_flash nor_flash sample_state) =
     Some ((write_data_to_flash nor_flash sample_state)\<lparr>g_web_config := m\<rparr>) \<and> drop 1 m = drop 1 sample_cfg"
proof -
  have "0xff \<notin> set (drop 1 (g_web_config sample_state))"
    by (simp add: sample_state_def sample_eval)
  moreover have g: "g_web_config sample_state = sample_cfg" by (simp add: sample_state_def)
  ultimately show ?thesis
    using config_survives_reboot [OF nor_flash_ok, of sample_state "write_data_to_flash nor_flash sample_state"
        "lit ''AKS''"]
    unfolding g using sample_length sample_magic by blast
qed

theorem config_with_ff_is_lost_witness:
  "\<exists>d. default_config (lit ''AKS'') = Some d \<and>
     web_flash_data_init nor_flash (lit ''AKS'') 0 (write_data_to_flash nor_flash sample_ff_state) =
     Some (write_data_to_flash nor_flash ((write_data_to_flash nor_flash sample_ff_state)\<lparr>g_web_config := d\<rparr>))"
proof -
  have g: "g_web_config sample_ff_state = [0, 0xff] @ replicate 97 0 @ [0x55, 0x35]"
    by (simp add: sample_ff_state_def sample_eval poke_def numeral_eq_Suc)
  have ck: "ck_sum_write 0 (replicate k 0 @ m) = ck_sum_write 0 m" for k m
    by (induction k) simp_all
  show ?thesis
    by (rule config_with_ff_is_lost [OF nor_flash_ok _ _ _ _ _ refl])
       (simp_all add: g ck nth_append sizeof_WEB_DATA_T_def MAGIC0_def MAGIC1_def)
qed

theorem corrupt_byte_restores_defaults_witness:
  "\<exists>d. default_config (lit ''AKS'') = Some d \<and>
     web_flash_data_init nor_flash (lit ''AKS'') 0
       \<lparr>g_web_config = [], user_flash = (0x60 # replicate 98 0 @ [0x55, 0x35])[7 := 1]\<rparr> =
     Some (write_data_to_flash nor_flash
       \<lparr>g_web_config = d, user_flash = (0x60 # replicate 98 0 @ [0x55, 0x35])[7 := 1]\<rparr>)"
proof -
  let ?m = "0x60 # replicate 98 0 @ [0x55, 0x35] :: bytes"
  have ck: "ck_sum_read 0 (replicate k 0 @ m) = ck_sum_read 0 m" for k m
    by (induction k) simp_all
  have valid: "cfg_valid ?m"
    by (simp add: cfg_valid_def ck nth_append sizeof_WEB_DATA_T_def MAGIC0_def MAGIC1_def)
  have "?m ! 7 = 0" by (simp add: nth_append)
  then show ?thesis
    using corrupt_byte_restores_defaults [OF valid, of 7 1 nor_flash
        "\<lparr>g_web_config = [], user_flash = ?m[7 := 1]\<rparr>" "lit ''AKS''"]
    by (simp add: nor_flash_def WEB_DATA_FLASH_ADDR_def sizeof_WEB_DATA_T_def)
qed

theorem factory_reset_witness:
  "\<exists>s'. web_flash_data_init nor_flash (lit ''AKS'') 1 \<lparr>g_web_config = [], user_flash = replicate 4096 0xff\<rparr> = Some s' \<and>
     web_ok (g_web_config s')"
proof -
  have "length (hfuflash_read nor_flash WEB_DATA_FLASH_ADDR sizeof_WEB_DATA_T
      (user_flash \<lparr>g_web_config = [], user_flash = replicate 4096 0xff\<rparr>)) = sizeof_WEB_DATA_T"
    by (simp add: nor_flash_def sizeof_WEB_DATA_T_def WEB_DATA_FLASH_ADDR_def)
  from factory_reset [OF this, of "lit ''AKS''"] show ?thesis by blast
qed

end
