(* ===== verification/AtCommands.thy ===== *)
theory AtCommands
  imports ConfigFlash
begin

text \<open>
  The AT commands of \<^verbatim>\<open>src/user/UserMain.c\<close>: \<open>cmd_web_para_*\<close>, \<open>reload_cmd_web_para_*\<close> and
  the table \<open>user_define_at_cmds_table\<close> that the SDK's command interpreter looks them up in.

  A handler gets the argument list (\<open>argv\<close>, whose length is \<open>argc\<close>) and returns its return
  code, the response it wrote (\<open>None\<close>: nothing written) and the new state. The SDK's
  \<open>CFG_str2id\<close>, the image name of the build, the memory \<open>AT+RD\<close> peeks at and the radio driver are
  parameters. The messages printed on the debug console are not modelled.
\<close>

record 'fl at_env = "'fl flash_ops" +
  CFG_str2id :: "bytes \<Rightarrow> int"
  BUILD_IMG :: bytes
  word_at :: "u32 \<Rightarrow> u32"
  rt28xx_get_wifi_channel :: "u32 \<Rightarrow> int"

record 'fl at_state = "'fl cfg_state" +
  artnet_enable :: int
  client_valid_num :: int

type_synonym 'fl at_result = "(int \<times> bytes option \<times> 'fl at_state) option"

text \<open>The entries the firmware adds to the SDK's table of identifier names, and what the
  SDK promises for them.\<close>

definition cfg_userid_str_table :: "(int \<times> bytes) list" where
  "cfg_userid_str_table =
    [(CFG_AKS_NAME, lit ''AKS_NAME''),
     (CFG_AKS_UNIVERSE, lit ''AKS_UNIVERSE''),
     (CFG_AKS_SUBNET, lit ''AKS_SUBNET''),
     (CFG_TIMO_POWER, lit ''TIMO_POWER''),
     (CFG_USER 5 CFG_TYPE_STR, lit ''AKS_SETTINGS''),
     (CFG_AKS_CHANNEL_WIDTH, lit ''AKS_CHANNEL_WIDTH''),
     (CFG_AKS_SECOND_CHANNEL, lit ''AKS_SECOND_CHANNEL''),
     (CFG_GAFFER_ENABLE, lit ''GAFFER_ENABLE''),
     (CFG_GAFFER_SUBNET, lit ''GAFFER_SUBNET''),
     (CFG_GAFFER_UNIVERSE, lit ''GAFFER_UNIVERSE''),
     (CFG_GAFFER_LOWER, lit ''GAFFER_LOWER''),
     (CFG_GAFFER_UPPER, lit ''GAFFER_UPPER'')]"

definition str2id_ok :: "('fl, 'e) at_env_scheme \<Rightarrow> bool" where
  "str2id_ok env \<longleftrightarrow> list_all (\<lambda>(cid, name). CFG_str2id env name = cid) cfg_userid_str_table"

section \<open>The two shapes of a handler\<close>

text \<open>Read a setting: \<open>temp_buf\<close> is zeroed first, so an unknown identifier gives an empty string.\<close>

definition at_get :: "('fl, 'e) at_env_scheme \<Rightarrow> bytes \<Rightarrow> 'fl at_state \<Rightarrow> 'fl at_result" where
  "at_get env name s = do {
     (_, temp_buf) \<leftarrow> ratpac_get_str (CFG_str2id env name) (g_web_config s) (client_valid_num s);
     Some (0, Some (lit ''='' @ temp_buf), s) }"

definition at_set :: "('fl, 'e) at_env_scheme \<Rightarrow> bytes \<Rightarrow> bytes \<Rightarrow> 'fl at_state \<Rightarrow> 'fl at_result" where
  "at_set env name arg s = do {
     (_, cfg) \<leftarrow> ratpac_set_str (CFG_str2id env name) arg (g_web_config s);
     Some (0, None, write_data_to_flash env (s\<lparr>g_web_config := cfg\<rparr>)) }"

fun at_numeric ::
    "('fl, 'e) at_env_scheme \<Rightarrow> bytes \<Rightarrow> int \<Rightarrow> int \<Rightarrow> bytes list \<Rightarrow> 'fl at_state \<Rightarrow> 'fl at_result" where
  "at_numeric env name lo hi [] s = at_get env name s"
| "at_numeric env name lo hi [arg] s =
     (let temp_value = atoi arg in
      if lo \<le> temp_value \<and> temp_value \<le> hi then at_set env name arg s else Some (-1, None, s))"
| "at_numeric env name lo hi (_ # _ # _) s = Some (-1, None, s)"

text \<open>The \<open>reload_\<close> handlers work on a member of the record directly.\<close>

definition reload_get :: "wfield \<Rightarrow> 'fl at_state \<Rightarrow> 'fl at_result" where
  "reload_get f s = do {
     v \<leftarrow> str_at (g_web_config s) (foff f);
     Some (0, Some (lit ''='' @ v), s) }"

definition reload_set :: "('fl, 'e) at_env_scheme \<Rightarrow> wfield \<Rightarrow> bytes \<Rightarrow> 'fl at_state \<Rightarrow> 'fl at_result" where
  "reload_set env f arg s = do {
     cfg \<leftarrow> put_str (foff f) arg (g_web_config s);
     Some (0, None, write_data_to_flash env (s\<lparr>g_web_config := cfg\<rparr>)) }"

fun reload_numeric ::
    "('fl, 'e) at_env_scheme \<Rightarrow> wfield \<Rightarrow> int \<Rightarrow> int \<Rightarrow> bytes list \<Rightarrow> 'fl at_state \<Rightarrow> 'fl at_result" where
  "reload_numeric env f lo hi [] s = reload_get f s"
| "reload_numeric env f lo hi [arg] s =
     (let temp_value = atoi arg in
      if lo \<le> temp_value \<and> temp_value \<le> hi then reload_set env f arg s else Some (-1, None, s))"
| "reload_numeric env f lo hi (_ # _ # _) s = Some (-1, None, s)"

section \<open>The handlers\<close>

fun cmd_web_para_node_name ::
    "('fl, 'e) at_env_scheme \<Rightarrow> bytes list \<Rightarrow> 'fl at_state \<Rightarrow> 'fl at_result" where
  "cmd_web_para_node_name env [] s = at_get env (lit ''AKS_NAME'') s"
| "cmd_web_para_node_name env [arg] s = at_set env (lit ''AKS_NAME'') arg s"
| "cmd_web_para_node_name env (_ # _ # _) s = Some (-1, None, s)"

text \<open>\<open>input[0]\<close> of an empty argument is its terminator.\<close>

fun cmd_web_para_artnet :: "bytes list \<Rightarrow> 'fl at_state \<Rightarrow> 'fl at_result" where
  "cmd_web_para_artnet [] s = Some (0, Some (lit ''='' @ dec_int (artnet_enable s)), s)"
| "cmd_web_para_artnet [input] s =
     Some (0, None, s\<lparr>artnet_enable := schar (hd (input @ [0])) - 48\<rparr>)"
| "cmd_web_para_artnet (_ # _ # _) s = Some (-1, None, s)"

definition cmd_web_para_universe where
  "cmd_web_para_universe env = at_numeric env (lit ''AKS_UNIVERSE'') 0 9"
definition cmd_web_para_timopower where
  "cmd_web_para_timopower env = at_numeric env (lit ''TIMO_POWER'') 0 5"
definition cmd_web_para_channelwidth where
  "cmd_web_para_channelwidth env = at_numeric env (lit ''AKS_CHANNEL_WIDTH'') 9 18"
definition cmd_web_para_secondchannel where
  "cmd_web_para_secondchannel env = at_numeric env (lit ''AKS_SECOND_CHANNEL'') 0 11"
definition cmd_web_para_bitsetting where
  "cmd_web_para_bitsetting env = at_numeric env (lit ''AKS_BIT_SETTINGS'') 0 1"

definition cmd_web_para_default ::
    "('fl, 'e) at_env_scheme \<Rightarrow> bytes list \<Rightarrow> 'fl at_state \<Rightarrow> 'fl at_result" where
  "cmd_web_para_default env argv s =
    (if length argv \<noteq> 1 then Some (-1, None, s)
     else do { s' \<leftarrow> web_flash_data_init env (BUILD_IMG env) 1 s; Some (0, None, s') })"

fun reload_cmd_web_para_node_name ::
    "('fl, 'e) at_env_scheme \<Rightarrow> bytes list \<Rightarrow> 'fl at_state \<Rightarrow> 'fl at_result" where
  "reload_cmd_web_para_node_name env [] s = reload_get W_name s"
| "reload_cmd_web_para_node_name env [arg] s = reload_set env W_name arg s"
| "reload_cmd_web_para_node_name env (_ # _ # _) s = Some (-1, None, s)"

definition reload_cmd_web_para_universe where
  "reload_cmd_web_para_universe env = reload_numeric env W_universe 0 9"
definition reload_cmd_web_para_timopower where
  "reload_cmd_web_para_timopower env = reload_numeric env W_timopower 0 5"
definition reload_cmd_web_para_channelwidth where
  "reload_cmd_web_para_channelwidth env = reload_numeric env W_channelWidth 9 18"
definition reload_cmd_web_para_secondchannel where
  "reload_cmd_web_para_secondchannel env = reload_numeric env W_secondChannel 0 11"
definition reload_cmd_web_para_bitsetting where
  "reload_cmd_web_para_bitsetting env = reload_numeric env W_bitSetting 0 1"

section \<open>Peeking at memory\<close>

definition hex_digit :: "byte \<Rightarrow> int option" where
  "hex_digit b = (if is_digit b then Some (uint b - 48)
     else if 97 \<le> b \<and> b \<le> 102 then Some (uint b - 87)
     else if 65 \<le> b \<and> b \<le> 70 then Some (uint b - 55) else None)"

fun hex_val :: "int \<Rightarrow> bytes \<Rightarrow> int" where
  "hex_val a [] = a"
| "hex_val a (b # s) = (case hex_digit b of None \<Rightarrow> a | Some d \<Rightarrow> hex_val (16 * a + d) s)"

datatype scanned = Scan_eof | Scan_nothing | Scan_value int

text \<open>\<open>sscanf (s, "%x", &v)\<close>: blanks, a sign, an optional \<open>0x\<close>, then digits; the value saturates
  like that of \<open>strtoul\<close>.\<close>

definition scan_hex :: "bytes \<Rightarrow> scanned" where
  "scan_hex s = (case dropWhile is_space s of
       [] \<Rightarrow> Scan_eof
     | b # t \<Rightarrow>
        let neg = (b = 45);
            u = (if b = 45 \<or> b = 43 then t else b # t);
            digits = (if length u \<ge> 2 \<and> u ! 0 = 48 \<and> (u ! 1 = 120 \<or> u ! 1 = 88) then drop 2 u else u);
            n = hex_val 0 digits
        in if digits = u \<and> (u = [] \<or> hex_digit (u ! 0) = None) then Scan_nothing
           else Scan_value (if n \<ge> 2 ^ 32 then 2 ^ 32 - 1 else if neg then - n else n))"

fun hex_nat :: "nat \<Rightarrow> nat \<Rightarrow> bytes" where
  "hex_nat 0 n = []"
| "hex_nat (Suc k) n = hex_nat k (n div 16) @
     [word_of_nat (if n mod 16 < 10 then 48 + n mod 16 else 87 + n mod 16)]"

fun cmd_web_para_rd ::
    "('fl, 'e) at_env_scheme \<Rightarrow> bytes list \<Rightarrow> 'fl at_state \<Rightarrow> 'fl at_result" where
  "cmd_web_para_rd env [] s = Some (0, Some (lit ''='' @ dec_int (artnet_enable s)), s)"
| "cmd_web_para_rd env [arg] s = (case scan_hex arg of
       Scan_nothing \<Rightarrow> Some (-1, None, s)
     | Scan_eof \<Rightarrow> None
     | Scan_value v \<Rightarrow>
        let addr = word_of_int v;
            chn = rt28xx_get_wifi_channel env addr
        in Some (0, Some (lit ''val = '' @ hex_nat 8 (unat (word_at env addr)) @ lit '', val1 = '' @
             hex_nat 8 (unat (word_at env (addr + 4))) @ lit '', AP Channel = '' @ dec_int chn @ [10]), s))"
| "cmd_web_para_rd env (_ # _ # _) s = Some (-1, None, s)"

section \<open>The command table\<close>

definition user_define_at_cmds_table ::
    "('fl, 'e) at_env_scheme \<Rightarrow> (bytes \<times> (bytes list \<Rightarrow> 'fl at_state \<Rightarrow> 'fl at_result)) list" where
  "user_define_at_cmds_table env =
    [(lit ''NODENAME'', cmd_web_para_node_name env),
     (lit ''UNIVERSE'', cmd_web_para_universe env),
     (lit ''TIMOPOWER'', cmd_web_para_timopower env),
     (lit ''CHANNELWIDTH'', cmd_web_para_channelwidth env),
     (lit ''SECONDCHANNEL'', cmd_web_para_secondchannel env),
     (lit ''BITSETTING'', cmd_web_para_bitsetting env),
     (lit ''ARTNET'', cmd_web_para_artnet),
     (lit ''RD'', cmd_web_para_rd env),
     (lit ''DEFAULT'', cmd_web_para_default env),
     (lit ''WNODENAME'', reload_cmd_web_para_node_name env),
     (lit ''WUNIVERSE'', reload_cmd_web_para_universe env),
     (lit ''WTIMOPOWER'', reload_cmd_web_para_timopower env),
     (lit ''WCHANNELWIDTH'', reload_cmd_web_para_channelwidth env),
     (lit ''WSECONDCHANNEL'', reload_cmd_web_para_secondchannel env),
     (lit ''WBITSETTING'', reload_cmd_web_para_bitsetting env)]"

section \<open>Facts about the handlers\<close>

text \<open>The commands that store a number: name, identifier, member, and the range accepted.\<close>

definition at_specs :: "(bytes \<times> int \<times> wfield \<times> int \<times> int) list" where
  "at_specs =
    [(lit ''UNIVERSE'', CFG_AKS_UNIVERSE, W_universe, 0, 9),
     (lit ''TIMOPOWER'', CFG_TIMO_POWER, W_timopower, 0, 5),
     (lit ''CHANNELWIDTH'', CFG_AKS_CHANNEL_WIDTH, W_channelWidth, 9, 18),
     (lit ''SECONDCHANNEL'', CFG_AKS_SECOND_CHANNEL, W_secondChannel, 0, 11)]"

lemma str2idD:
  assumes "str2id_ok env"
  shows "CFG_str2id env (lit ''AKS_NAME'') = CFG_AKS_NAME"
    "CFG_str2id env (lit ''AKS_UNIVERSE'') = CFG_AKS_UNIVERSE"
    "CFG_str2id env (lit ''TIMO_POWER'') = CFG_TIMO_POWER"
    "CFG_str2id env (lit ''AKS_CHANNEL_WIDTH'') = CFG_AKS_CHANNEL_WIDTH"
    "CFG_str2id env (lit ''AKS_SECOND_CHANNEL'') = CFG_AKS_SECOND_CHANNEL"
  using assms by (simp_all add: str2id_ok_def cfg_userid_str_table_def)

lemmas numeric_handlers =
  cmd_web_para_universe_def cmd_web_para_timopower_def cmd_web_para_channelwidth_def
  cmd_web_para_secondchannel_def cmd_web_para_bitsetting_def

lemmas reload_handlers =
  reload_cmd_web_para_universe_def reload_cmd_web_para_timopower_def
  reload_cmd_web_para_channelwidth_def reload_cmd_web_para_secondchannel_def
  reload_cmd_web_para_bitsetting_def

text \<open>Names are compared as HOL strings, which the simplifier does quickly.\<close>

lemma table_handlers:
  assumes "(name, h) \<in> set (user_define_at_cmds_table env)"
  shows "name = lit ''UNIVERSE'' \<Longrightarrow> h = cmd_web_para_universe env"
    "name = lit ''TIMOPOWER'' \<Longrightarrow> h = cmd_web_para_timopower env"
    "name = lit ''CHANNELWIDTH'' \<Longrightarrow> h = cmd_web_para_channelwidth env"
    "name = lit ''SECONDCHANNEL'' \<Longrightarrow> h = cmd_web_para_secondchannel env"
    "name = lit ''WUNIVERSE'' \<Longrightarrow> h = reload_cmd_web_para_universe env"
    "name = lit ''WTIMOPOWER'' \<Longrightarrow> h = reload_cmd_web_para_timopower env"
    "name = lit ''WCHANNELWIDTH'' \<Longrightarrow> h = reload_cmd_web_para_channelwidth env"
    "name = lit ''WSECONDCHANNEL'' \<Longrightarrow> h = reload_cmd_web_para_secondchannel env"
  using assms by (simp_all add: user_define_at_cmds_table_def lit_eq_iff del: lit_simps)

lemma spec_cases:
  assumes "(name, cid, f, lo, hi) \<in> set at_specs"
  obtains "name = lit ''UNIVERSE''" "cid = CFG_AKS_UNIVERSE" "f = W_universe" "lo = 0" "hi = 9"
    | "name = lit ''TIMOPOWER''" "cid = CFG_TIMO_POWER" "f = W_timopower" "lo = 0" "hi = 5"
    | "name = lit ''CHANNELWIDTH''" "cid = CFG_AKS_CHANNEL_WIDTH" "f = W_channelWidth" "lo = 9" "hi = 18"
    | "name = lit ''SECONDCHANNEL''" "cid = CFG_AKS_SECOND_CHANNEL" "f = W_secondChannel" "lo = 0" "hi = 11"
  using assms by (auto simp: at_specs_def simp del: lit_simps)

lemma spec_switch:
  "(name, cid, f, lo, hi) \<in> set at_specs \<Longrightarrow> set_switch cid = Some (f, None) \<and> fsize f = 3 \<and> hi < 100"
  by (erule spec_cases) (simp_all add: set_switch_def set_cases_def cfg_ids)

lemma spec_handler:
  assumes "(name, cid, f, lo, hi) \<in> set at_specs" and "(name, h) \<in> set (user_define_at_cmds_table env)"
    and "str2id_ok env"
  obtains idn where "h = at_numeric env idn lo hi" "CFG_str2id env idn = cid"
  using assms(1)
proof (cases rule: spec_cases)
  case 1
  with that table_handlers(1) [OF assms(2)] str2idD(2) [OF assms(3)] show ?thesis
    by (simp only: cmd_web_para_universe_def)
next
  case 2
  with that table_handlers(2) [OF assms(2)] str2idD(3) [OF assms(3)] show ?thesis
    by (simp only: cmd_web_para_timopower_def)
next
  case 3
  with that table_handlers(3) [OF assms(2)] str2idD(4) [OF assms(3)] show ?thesis
    by (simp only: cmd_web_para_channelwidth_def)
next
  case 4
  with that table_handlers(4) [OF assms(2)] str2idD(5) [OF assms(3)] show ?thesis
    by (simp only: cmd_web_para_secondchannel_def)
qed

lemma lit_append: "lit s @ lit t = lit (s @ t)"
  by (simp add: lit_def)

lemma spec_reload_handler:
  assumes "(name, cid, f, lo, hi) \<in> set at_specs"
    and "(lit ''W'' @ name, h) \<in> set (user_define_at_cmds_table env)"
  shows "h = reload_numeric env f lo hi"
  using assms(1)
  by (cases rule: spec_cases)
    (use table_handlers(5-8) [OF assms(2)] in \<open>simp_all add: lit_append lit_eq_iff reload_handlers del: lit_simps\<close>)

lemma at_set_switch:
  assumes "CFG_str2id env idn = cid" and "set_switch cid = Some (f, None)"
  shows "at_set env idn arg s = reload_set env f arg s"
  using assms by (cases "put_str (foff f) arg (g_web_config s)")
    (simp_all add: at_set_def reload_set_def ratpac_set_str_def cut_def del: put_str_eq_Some)

text \<open>What the two kinds of number commands do: the range check, the store, and the query.\<close>

lemma number_handler:
  assumes "(name, cid, f, lo, hi) \<in> set at_specs" and "name' = name \<or> name' = lit ''W'' @ name"
    and "(name', h) \<in> set (user_define_at_cmds_table env)" and "str2id_ok env"
  shows "h [arg] s = (if lo \<le> atoi arg \<and> atoi arg \<le> hi then reload_set env f arg s else Some (-1, None, s))"
    and "h [] s = reload_get f s \<or> (\<exists>idn. CFG_str2id env idn = cid \<and> h [] s = at_get env idn s)"
proof -
  have "(h [arg] s = (if lo \<le> atoi arg \<and> atoi arg \<le> hi then reload_set env f arg s else Some (-1, None, s))) \<and>
    (h [] s = reload_get f s \<or> (\<exists>idn. CFG_str2id env idn = cid \<and> h [] s = at_get env idn s))"
    using assms(2)
  proof
    assume n: "name' = name"
    obtain idn where h: "h = at_numeric env idn lo hi" "CFG_str2id env idn = cid"
      by (rule spec_handler [OF assms(1) assms(3) [unfolded n] assms(4)])
    have "set_switch cid = Some (f, None)" using spec_switch [OF assms(1)] by simp
    from at_set_switch [OF h(2) this] show ?thesis using h by auto
  next
    assume n: "name' = lit ''W'' @ name"
    have "h = reload_numeric env f lo hi" by (rule spec_reload_handler [OF assms(1) assms(3) [unfolded n]])
    then show ?thesis by (auto simp: Let_def)
  qed
  then show "h [arg] s = (if lo \<le> atoi arg \<and> atoi arg \<le> hi then reload_set env f arg s else Some (-1, None, s))"
    "h [] s = reload_get f s \<or> (\<exists>idn. CFG_str2id env idn = cid \<and> h [] s = at_get env idn s)" by simp_all
qed

section \<open>Properties\<close>


text \<open>
  The \<open>AT+W...\<close> commands, which write the record directly, and the commands that go through
  \<open>ratpac_set_str\<close> do the same to the state for every argument list but the empty one.
\<close>

theorem reload_commands_agree:
  assumes "str2id_ok env" and "(name, cid, f, lo, hi) \<in> set at_specs"
    and "(name, h) \<in> set (user_define_at_cmds_table env)"
    and "(lit ''W'' @ name, h') \<in> set (user_define_at_cmds_table env)" and "argv \<noteq> []"
  shows "h argv s = h' argv s"
proof -
  obtain idn where h: "h = at_numeric env idn lo hi" "CFG_str2id env idn = cid"
    by (rule spec_handler [OF assms(2,3,1)])
  have sw: "set_switch cid = Some (f, None)" using spec_switch [OF assms(2)] by simp
  have h': "h' = reload_numeric env f lo hi" by (rule spec_reload_handler [OF assms(2,4)])
  obtain a r where argv: "argv = a # r" using assms(5) by (cases argv) auto
  show ?thesis
    using at_set_switch [OF h(2) sw] by (cases r) (simp_all add: argv h(1) h' Let_def)
qed

text \<open>
  C35. A command that answers with an error has no effect: whatever handler of the table returns
  \<open>-1\<close> wrote no response and changed neither the configuration nor the flash.
\<close>

theorem at_error_no_effect:
  assumes "(name, h) \<in> set (user_define_at_cmds_table env)" and "h argv s = Some (-1, rsp, s')"
  shows "rsp = None \<and> s' = s"
proof -
  have numeric: "rsp = None \<and> s' = s" if "at_numeric env idn lo hi argv s = Some (-1, rsp, s')" for idn lo hi
    using that by (cases "(env, idn, lo, hi, argv, s)" rule: at_numeric.cases)
      (auto simp: at_get_def at_set_def Let_def split: if_splits bind_splits)
  have reload: "rsp = None \<and> s' = s" if "reload_numeric env f lo hi argv s = Some (-1, rsp, s')" for f lo hi
    using that by (cases "(env, f, lo, hi, argv, s)" rule: reload_numeric.cases)
      (auto simp: reload_get_def reload_set_def Let_def split: if_splits bind_splits)
  have name: "rsp = None \<and> s' = s" if "cmd_web_para_node_name env argv s = Some (-1, rsp, s')"
    using that by (cases "(env, argv, s)" rule: cmd_web_para_node_name.cases)
      (auto simp: at_get_def at_set_def split: bind_splits)
  have wname: "rsp = None \<and> s' = s" if "reload_cmd_web_para_node_name env argv s = Some (-1, rsp, s')"
    using that by (cases "(env, argv, s)" rule: reload_cmd_web_para_node_name.cases)
      (auto simp: reload_get_def reload_set_def split: bind_splits)
  have artnet: "rsp = None \<and> s' = s" if "cmd_web_para_artnet argv s = Some (-1, rsp, s')"
    using that by (cases "(argv, s)" rule: cmd_web_para_artnet.cases) auto
  have rd: "rsp = None \<and> s' = s" if "cmd_web_para_rd env argv s = Some (-1, rsp, s')"
    using that by (cases "(env, argv, s)" rule: cmd_web_para_rd.cases)
      (auto simp: Let_def split: scanned.splits)
  have default: "rsp = None \<and> s' = s" if "cmd_web_para_default env argv s = Some (-1, rsp, s')"
    using that by (auto simp: cmd_web_para_default_def split: if_splits bind_splits)
  have "h \<in> set (map snd (user_define_at_cmds_table env))" using assms(1) by force
  then show ?thesis
    using assms(2) numeric reload name wname artnet rd default
    by (auto simp: user_define_at_cmds_table_def numeric_handlers reload_handlers)
qed

text \<open>
  The range check looks at the number only, not at the length of the text: \<open>AT+UNIVERSE=009\<close> is
  answered with OK, leaves the record ill-formed and erases the subnet.
\<close>

theorem at_leading_zeros_damage:
  assumes "str2id_ok env" and "web_ok (g_web_config s)"
  shows "\<exists>s'. cmd_web_para_universe env [lit ''009''] s = Some (0, None, s') \<and>
    \<not> web_ok (g_web_config s') \<and> str_at (g_web_config s') (foff W_subnet) = Some []"
proof -
  have sw: "set_switch CFG_AKS_UNIVERSE = Some (W_universe, None)"
    by (simp add: set_switch_def set_cases_def cfg_ids)
  have id: "CFG_str2id env (lit ''AKS_UNIVERSE'') = CFG_AKS_UNIVERSE"
    using str2idD [OF assms(1)] by blast
  obtain cfg where cfg: "ratpac_set_str CFG_AKS_UNIVERSE (lit ''009'') (g_web_config s) = Some (0, cfg)"
    "\<not> web_ok cfg" "str_at cfg (foff W_subnet) = Some []"
    by (rule overlong_facts [OF assms(2) sw, of "lit ''009''" W_subnet]) (simp_all add: set_str_fields)
  let ?s' = "write_data_to_flash env (s\<lparr>g_web_config := cfg\<rparr>)"
  have "atoi (lit ''009'') = 9" by (simp add: atoi_def is_space_def is_digit_def clamp32_def)
  then have "cmd_web_para_universe env [lit ''009''] s = Some (0, None, ?s')"
    using cfg(1) id by (simp add: cmd_web_para_universe_def at_set_def)
  moreover have "\<not> web_ok (g_web_config ?s')" using cfg(2) by (simp add: write_data_web_ok)
  moreover have "str_at (g_web_config ?s') (foff W_subnet) = Some []"
    using cfg(3) str_at_ck_byte [of W_subnet] by (simp add: write_data_simps(1) set_str_fields)
  ultimately show ?thesis by blast
qed

section \<open>Witnesses\<close>

definition sample_env :: "bytes at_env" where
  "sample_env = \<lparr>
     hfuflash_erase_page = hfuflash_erase_page nor_flash,
     hfuflash_write = hfuflash_write nor_flash,
     hfuflash_read = hfuflash_read nor_flash,
     CFG_str2id = (\<lambda>name. case map_of (map prod.swap cfg_userid_str_table) name of Some i \<Rightarrow> i | None \<Rightarrow> 0),
     BUILD_IMG = lit ''AKS'', word_at = (\<lambda>a. a), rt28xx_get_wifi_channel = (\<lambda>a. 6)\<rparr>"

definition sample_at_state :: "bytes at_state" where
  "sample_at_state = \<lparr>g_web_config = replicate sizeof_WEB_DATA_T 0, user_flash = [],
     artnet_enable = 0, client_valid_num = 0\<rparr>"

lemma sample_env_ok: "flash_ok sample_env" "str2id_ok sample_env" "web_ok (g_web_config sample_at_state)"
proof -
  show "flash_ok sample_env" using nor_flash_ok by (simp add: flash_ok_def sample_env_def)
  show "str2id_ok sample_env"
    by (simp add: str2id_ok_def sample_env_def cfg_userid_str_table_def lit_eq_iff del: lit_simps)
  show "web_ok (g_web_config sample_at_state)" by (simp add: sample_at_state_def zero_record_ok)
qed

lemma sample_table:
  "(lit ''UNIVERSE'', cmd_web_para_universe env) \<in> set (user_define_at_cmds_table env)"
  "(lit ''WUNIVERSE'', reload_cmd_web_para_universe env) \<in> set (user_define_at_cmds_table env)"
  "(lit ''UNIVERSE'', CFG_AKS_UNIVERSE, W_universe, 0, 9) \<in> set at_specs"
  by (simp_all add: user_define_at_cmds_table_def at_specs_def del: lit_simps)


theorem reload_commands_agree_witness:
  "cmd_web_para_universe sample_env [lit ''4''] sample_at_state =
     reload_cmd_web_para_universe sample_env [lit ''4''] sample_at_state"
  by (rule reload_commands_agree [OF sample_env_ok(2) sample_table(3,1)])
    (use sample_table(2) [of sample_env] in \<open>simp_all\<close>)

theorem at_error_no_effect_witness:
  "cmd_web_para_universe sample_env [lit ''12''] sample_at_state = Some (-1, None, sample_at_state)"
proof -
  have "atoi (lit ''12'') = 12" by (simp add: atoi_def is_space_def is_digit_def clamp32_def)
  then obtain rsp s' where r: "cmd_web_para_universe sample_env [lit ''12''] sample_at_state = Some (-1, rsp, s')"
    by (simp add: cmd_web_para_universe_def)
  from at_error_no_effect [OF sample_table(1) r] r show ?thesis by simp
qed

theorem at_leading_zeros_damage_witness:
  "\<exists>s'. cmd_web_para_universe sample_env [lit ''009''] sample_at_state = Some (0, None, s') \<and>
     \<not> web_ok (g_web_config s')"
  using at_leading_zeros_damage [OF sample_env_ok(2,3)] by blast

end
