(* ===== verification/E131.thy ===== *)
theory E131
  imports Prelude SettingStore
begin

text \<open>
  The E1.31 (sACN) packet library of \<^verbatim>\<open>src/user/e131.c\<close> and \<^verbatim>\<open>src/user/e131.h\<close>.

  A packet is its \<open>raw\<close> view, the 638 bytes of the union; the members of the three layers are
  reached by their offsets. A pointer argument is an option, \<open>None\<close> being \<open>NULL\<close>. A function that
  returns \<open>-1\<close> and sets \<open>errno\<close> returns \<open>Inl\<close> of the error number. The socket calls of the
  operating system are parameters. \<open>e131_pkt_dump\<close> is compiled out in the source.
\<close>

section \<open>The packet\<close>

definition sizeof_packet :: nat where "sizeof_packet = 638"
definition sizeof_frame :: nat where "sizeof_frame = 77"
definition sizeof_dmp :: nat where "sizeof_dmp = 523"
definition sizeof_prop_val :: nat where "sizeof_prop_val = 513"

definition root_preamble_size :: nat where "root_preamble_size = 0"
definition root_postamble_size :: nat where "root_postamble_size = 2"
definition root_acn_pid :: nat where "root_acn_pid = 4"
definition root_flength :: nat where "root_flength = 16"
definition root_vector :: nat where "root_vector = 18"
definition frame_flength :: nat where "frame_flength = 38"
definition frame_vector :: nat where "frame_vector = 40"
definition frame_priority :: nat where "frame_priority = 108"
definition frame_seq_number :: nat where "frame_seq_number = 111"
definition frame_options :: nat where "frame_options = 112"
definition frame_universe :: nat where "frame_universe = 113"
definition dmp_flength :: nat where "dmp_flength = 115"
definition dmp_vector :: nat where "dmp_vector = 117"
definition dmp_type :: nat where "dmp_type = 118"
definition dmp_first_addr :: nat where "dmp_first_addr = 119"
definition dmp_addr_inc :: nat where "dmp_addr_inc = 121"
definition dmp_prop_val_cnt :: nat where "dmp_prop_val_cnt = 123"
definition dmp_prop_val :: nat where "dmp_prop_val = 125"

lemmas e131_layout [word_layout] =
  sizeof_packet_def sizeof_frame_def sizeof_dmp_def sizeof_prop_val_def
  root_preamble_size_def root_postamble_size_def root_acn_pid_def root_flength_def root_vector_def
  frame_flength_def frame_vector_def frame_priority_def frame_seq_number_def frame_options_def
  frame_universe_def dmp_flength_def dmp_vector_def dmp_type_def dmp_first_addr_def
  dmp_addr_inc_def dmp_prop_val_cnt_def dmp_prop_val_def

definition E131_PREAMBLE_SIZE :: u16 where "E131_PREAMBLE_SIZE = 0x0010"
definition E131_POSTAMBLE_SIZE :: u16 where "E131_POSTAMBLE_SIZE = 0x0000"
definition E131_ACN_PID :: bytes where
  "E131_ACN_PID = [0x41, 0x53, 0x43, 0x2d, 0x45, 0x31, 0x2e, 0x31, 0x37, 0x00, 0x00, 0x00]"
definition E131_ROOT_VECTOR :: u32 where "E131_ROOT_VECTOR = 0x00000004"
definition E131_FRAME_VECTOR :: u32 where "E131_FRAME_VECTOR = 0x00000002"
definition E131_DMP_VECTOR :: byte where "E131_DMP_VECTOR = 0x02"
definition E131_DMP_TYPE :: byte where "E131_DMP_TYPE = 0xa1"
definition E131_DMP_FIRST_ADDR :: u16 where "E131_DMP_FIRST_ADDR = 0x0000"
definition E131_DMP_ADDR_INC :: u16 where "E131_DMP_ADDR_INC = 0x0001"
definition E131_DEFAULT_PRIORITY :: byte where "E131_DEFAULT_PRIORITY = 0x64"
definition E131_DEFAULT_PORT :: u16 where "E131_DEFAULT_PORT = 5568"

lemmas e131_consts =
  E131_PREAMBLE_SIZE_def E131_POSTAMBLE_SIZE_def E131_ACN_PID_def E131_ROOT_VECTOR_def
  E131_FRAME_VECTOR_def E131_DMP_VECTOR_def E131_DMP_TYPE_def E131_DMP_FIRST_ADDR_def
  E131_DMP_ADDR_INC_def E131_DEFAULT_PRIORITY_def

datatype errno = EINVAL | EADDRNOTAVAIL

datatype e131_option = E131_OPT_TERMINATED | E131_OPT_PREVIEW

fun option_value :: "e131_option \<Rightarrow> nat" where
  "option_value E131_OPT_TERMINATED = 6"
| "option_value E131_OPT_PREVIEW = 7"

datatype e131_error =
    E131_ERR_NONE | E131_ERR_NULLPTR | E131_ERR_PREAMBLE_SIZE | E131_ERR_POSTAMBLE_SIZE
  | E131_ERR_ACN_PID | E131_ERR_VECTOR_ROOT | E131_ERR_VECTOR_FRAME | E131_ERR_VECTOR_DMP
  | E131_ERR_TYPE_DMP | E131_ERR_FIRST_ADDR_DMP | E131_ERR_ADDR_INC_DMP

section \<open>Addresses\<close>

definition AF_INET :: u16 where "AF_INET = 2"

record sockaddr_in =
  sin_family :: u16
  sin_port :: u16
  sin_addr :: u32
  sin_zero :: bytes

definition zero_sockaddr :: sockaddr_in where
  "zero_sockaddr = \<lparr>sin_family = 0, sin_port = 0, sin_addr = 0, sin_zero = replicate 8 0\<rparr>"

text \<open>The result of \<open>bind\<close>, and the text that is printed when it is negative (\<open>aks_printf\<close> sends it to the UART).\<close>

definition e131_bind :: "(int \<Rightarrow> sockaddr_in \<Rightarrow> int) \<Rightarrow> int \<Rightarrow> u16 \<Rightarrow> int \<times> bytes list" where
  "e131_bind os_bind sockfd port =
    (let rc = os_bind sockfd (zero_sockaddr\<lparr>sin_family := AF_INET, sin_port := htons port, sin_addr := htonl 0\<rparr>)
     in (rc, if rc < 0 then [lit ''cannot bind port number '' @ dec_nat (unat port) @ lit '', error='' @ dec_int rc @ lit '' '' @ [10]]
        else []))"

definition e131_unicast_dest ::
    "(bytes \<Rightarrow> u32 option) \<Rightarrow> sockaddr_in option \<Rightarrow> bytes option \<Rightarrow> u16 \<Rightarrow> errno + sockaddr_in" where
  "e131_unicast_dest gethostbyname dest host port =
    (case (dest, host) of
       (Some d, Some h) \<Rightarrow>
         (case gethostbyname h of
            None \<Rightarrow> Inl EADDRNOTAVAIL
          | Some a \<Rightarrow> Inr (d\<lparr>sin_family := AF_INET, sin_addr := a, sin_port := htons port,
                           sin_zero := replicate 8 0\<rparr>))
     | _ \<Rightarrow> Inl EINVAL)"

definition e131_multicast_dest :: "sockaddr_in option \<Rightarrow> u16 \<Rightarrow> u16 \<Rightarrow> errno + sockaddr_in" where
  "e131_multicast_dest dest universe port =
    (case dest of
       None \<Rightarrow> Inl EINVAL
     | Some d \<Rightarrow>
         if universe < 1 \<or> universe > 63999 then Inl EINVAL
         else Inr (d\<lparr>sin_family := AF_INET, sin_addr := htonl (0xefff0000 OR ucast universe),
                     sin_port := htons port, sin_zero := replicate 8 0\<rparr>))"

text \<open>\<open>inet_ntoa\<close>: the bytes of the address in memory order.\<close>

definition inet_ntoa :: "u32 \<Rightarrow> bytes" where
  "inet_ntoa a = (case map (\<lambda>b. dec_nat (unat b)) (le32 a) of
     [w, x, y, z] \<Rightarrow> w @ lit ''.'' @ x @ lit ''.'' @ y @ lit ''.'' @ z)"

definition e131_dest_str :: "sockaddr_in option \<Rightarrow> errno + bytes" where
  "e131_dest_str dest = (case dest of
     None \<Rightarrow> Inl EINVAL
   | Some d \<Rightarrow> Inr (inet_ntoa (sin_addr d) @ lit '':'' @ dec_nat (unat (htons (sin_port d)))))"

text \<open>\<open>ipAddress\<close> is an array of plain \<open>char\<close>: its elements are sign-extended to \<open>int\<close> before they
  are combined. The result is the request handed to \<open>setsockopt\<close>: group and interface.\<close>

definition interface_word :: "bytes \<Rightarrow> u32" where
  "interface_word ip = word_of_int (schar (ip ! 0)) OR push_bit 8 (word_of_int (schar (ip ! 1)))
     OR push_bit 16 (word_of_int (schar (ip ! 2))) OR push_bit 24 (word_of_int (schar (ip ! 3)))"

definition e131_multicast_join :: "(u32 \<Rightarrow> u32 \<Rightarrow> int) \<Rightarrow> bytes \<Rightarrow> u16 \<Rightarrow> errno + int" where
  "e131_multicast_join setsockopt ipAddress universe =
    (if universe < 1 \<or> universe > 63999 then Inl EINVAL
     else Inr (setsockopt (htonl (0xefff0000 OR ucast universe)) (interface_word ipAddress)))"

section \<open>Building a packet\<close>

definition e131_pkt_init :: "bytes option \<Rightarrow> u16 \<Rightarrow> u16 \<Rightarrow> errno + bytes" where
  "e131_pkt_init packet universe num_slots =
    (if packet = None \<or> universe < 1 \<or> universe > 63999 \<or> num_slots < 1 \<or> num_slots > 512 then Inl EINVAL
     else
       let prop_val_cnt = num_slots + 1;
           dmp_length = prop_val_cnt + of_nat sizeof_dmp - of_nat sizeof_prop_val;
           frame_length = of_nat sizeof_frame + dmp_length;
           root_length = 2 + 4 + 16 + frame_length;
           p = replicate sizeof_packet 0;
           p = poke root_preamble_size (le16 (htons E131_PREAMBLE_SIZE)) p;
           p = poke root_postamble_size (le16 (htons E131_POSTAMBLE_SIZE)) p;
           p = poke root_acn_pid E131_ACN_PID p;
           p = poke root_flength (le16 (htons (0x7000 OR root_length))) p;
           p = poke root_vector (le32 (htonl E131_ROOT_VECTOR)) p;
           p = poke frame_flength (le16 (htons (0x7000 OR frame_length))) p;
           p = poke frame_vector (le32 (htonl E131_FRAME_VECTOR)) p;
           p = poke frame_priority [E131_DEFAULT_PRIORITY] p;
           p = poke frame_universe (le16 (htons universe)) p;
           p = poke dmp_flength (le16 (htons (0x7000 OR dmp_length))) p;
           p = poke dmp_vector [E131_DMP_VECTOR] p;
           p = poke dmp_type [E131_DMP_TYPE] p;
           p = poke dmp_first_addr (le16 (htons E131_DMP_FIRST_ADDR)) p;
           p = poke dmp_addr_inc (le16 (htons E131_DMP_ADDR_INC)) p;
           p = poke dmp_prop_val_cnt (le16 (htons prop_val_cnt)) p
       in Inr p)"

section \<open>Options\<close>

definition e131_get_option :: "bytes option \<Rightarrow> e131_option \<Rightarrow> bool" where
  "e131_get_option packet opt = (case packet of
     None \<Rightarrow> False
   | Some p \<Rightarrow> (p ! frame_options) AND push_bit (option_value opt mod 8) 1 \<noteq> 0)"

definition e131_set_option :: "bytes option \<Rightarrow> e131_option \<Rightarrow> bool \<Rightarrow> errno + bytes" where
  "e131_set_option packet opt state = (case packet of
     None \<Rightarrow> Inl EINVAL
   | Some p \<Rightarrow>
       let v = p ! frame_options
       in Inr (p[frame_options := v XOR ((- of_bool state XOR v) AND push_bit (option_value opt mod 8) 1)]))"

section \<open>Sending and receiving\<close>

text \<open>The bytes handed to \<open>sendto\<close> with their destination; \<open>None\<close> when the length taken from the
  packet reaches behind the packet.\<close>

definition e131_send :: "bytes option \<Rightarrow> sockaddr_in option \<Rightarrow> (errno + bytes \<times> sockaddr_in) option" where
  "e131_send packet dest = (case (packet, dest) of
     (Some p, Some d) \<Rightarrow>
       let packet_length = sizeof_packet - sizeof_prop_val + unat (htons (ld16 p dmp_prop_val_cnt))
       in map_option (\<lambda>b. Inr (b, d)) (mem_get 0 packet_length p)
   | _ \<Rightarrow> Some (Inl EINVAL))"

text \<open>A datagram that is longer than the buffer is cut, a shorter one leaves the rest of the buffer
  as it was. \<open>Inl\<close> is an error of \<open>recvfrom\<close>, whose negative value is passed on.\<close>

definition e131_recv :: "int + bytes \<Rightarrow> bytes option \<Rightarrow> errno + int \<times> bytes" where
  "e131_recv recvfrom packet = (case packet of
     None \<Rightarrow> Inl EINVAL
   | Some p \<Rightarrow> (case recvfrom of
       Inl rc \<Rightarrow> Inr (rc, p)
     | Inr d \<Rightarrow> let got = take sizeof_packet d in Inr (int (length got), poke 0 got p)))"

section \<open>Validation\<close>

definition e131_pkt_validate :: "bytes option \<Rightarrow> e131_error" where
  "e131_pkt_validate packet = (case packet of
     None \<Rightarrow> E131_ERR_NULLPTR
   | Some p \<Rightarrow>
       if htons (ld16 p root_preamble_size) \<noteq> E131_PREAMBLE_SIZE then E131_ERR_PREAMBLE_SIZE
       else if htons (ld16 p root_postamble_size) \<noteq> E131_POSTAMBLE_SIZE then E131_ERR_POSTAMBLE_SIZE
       else if take 12 (drop root_acn_pid p) \<noteq> E131_ACN_PID then E131_ERR_ACN_PID
       else if htonl (ld32 p root_vector) \<noteq> E131_ROOT_VECTOR then E131_ERR_VECTOR_ROOT
       else if htonl (ld32 p frame_vector) \<noteq> E131_FRAME_VECTOR then E131_ERR_VECTOR_FRAME
       else if p ! dmp_vector \<noteq> E131_DMP_VECTOR then E131_ERR_VECTOR_DMP
       else if p ! dmp_type \<noteq> E131_DMP_TYPE then E131_ERR_TYPE_DMP
       else if htons (ld16 p dmp_first_addr) \<noteq> E131_DMP_FIRST_ADDR then E131_ERR_FIRST_ADDR_DMP
       else if htons (ld16 p dmp_addr_inc) \<noteq> E131_DMP_ADDR_INC then E131_ERR_ADDR_INC_DMP
       else E131_ERR_NONE)"

text \<open>The difference of the sequence numbers is narrowed to \<open>int8_t\<close>.\<close>

definition e131_pkt_discard :: "bytes option \<Rightarrow> byte \<Rightarrow> bool" where
  "e131_pkt_discard packet last_seq_number = (case packet of
     None \<Rightarrow> True
   | Some p \<Rightarrow> let seq_num_diff = sint (p ! frame_seq_number - last_seq_number)
               in seq_num_diff > -20 \<and> seq_num_diff \<le> 0)"

fun e131_strerror :: "e131_error \<Rightarrow> bytes" where
  "e131_strerror E131_ERR_NONE = lit ''Success''"
| "e131_strerror E131_ERR_PREAMBLE_SIZE = lit ''Invalid Preamble Size''"
| "e131_strerror E131_ERR_POSTAMBLE_SIZE = lit ''Invalid Post-amble Size''"
| "e131_strerror E131_ERR_ACN_PID = lit ''Invalid ACN Packet Identifier''"
| "e131_strerror E131_ERR_VECTOR_ROOT = lit ''Invalid Root Layer Vector''"
| "e131_strerror E131_ERR_VECTOR_FRAME = lit ''Invalid Framing Layer Vector''"
| "e131_strerror E131_ERR_VECTOR_DMP = lit ''Invalid Device Management Protocol (DMP) Layer Vector''"
| "e131_strerror E131_ERR_TYPE_DMP = lit ''Invalid DMP Address & Data Type''"
| "e131_strerror E131_ERR_FIRST_ADDR_DMP = lit ''Invalid DMP First Address''"
| "e131_strerror E131_ERR_ADDR_INC_DMP = lit ''Invalid DMP Address Increment''"
| "e131_strerror _ = lit ''Unknown error''"

section \<open>What the functions do\<close>

text \<open>The bytes of a packet that E1.31 fixes, by offset.\<close>

definition e131_header :: "(nat \<times> bytes) list" where
  "e131_header =
    [(0, [0x00, 0x10]), (2, [0x00, 0x00]),
     (4, [0x41, 0x53, 0x43, 0x2d, 0x45, 0x31, 0x2e, 0x31, 0x37, 0x00, 0x00, 0x00]),
     (18, [0, 0, 0, 4]), (40, [0, 0, 0, 2]), (117, [0x02]), (118, [0xa1]),
     (119, [0x00, 0x00]), (121, [0x00, 0x01])]"

lemma length_pid: "length E131_ACN_PID = 12"
  by (simp add: E131_ACN_PID_def)

lemma validate_None:
  assumes "length p = sizeof_packet"
  shows "e131_pkt_validate (Some p) = E131_ERR_NONE \<longleftrightarrow> list_all (has_bytes p) e131_header"
proof -
  have len: "length p = 638" using assms by (simp add: word_layout)
  have acn: "take 12 (drop 4 p) = E131_ACN_PID \<longleftrightarrow> has_bytes p (4, E131_ACN_PID)"
    using length_pid by (simp only: has_bytes_def prod.case)
  have "e131_pkt_validate (Some p) = E131_ERR_NONE \<longleftrightarrow>
      htons (ld16 p 0) = 0x10 \<and> htons (ld16 p 2) = 0 \<and> take 12 (drop 4 p) = E131_ACN_PID \<and>
      htonl (ld32 p 18) = 4 \<and> htonl (ld32 p 40) = 2 \<and> p ! 117 = 2 \<and> p ! 118 = 0xa1 \<and>
      htons (ld16 p 119) = 0 \<and> htons (ld16 p 121) = 1"
    by (simp add: e131_pkt_validate_def word_layout e131_consts)
  also have "\<dots> \<longleftrightarrow> list_all (has_bytes p) e131_header"
    using acn by (simp add: be16_has be32_has byte_has len e131_header_def E131_ACN_PID_def)
  finally show ?thesis .
qed

lemma pkt_init_facts:
  assumes "1 \<le> universe" "universe \<le> 63999" "1 \<le> num_slots" "num_slots \<le> 512"
  obtains q where "e131_pkt_init (Some p) universe num_slots = Inr q" "length q = sizeof_packet"
    "list_all (has_bytes q) e131_header"
    "has_bytes q (frame_universe, [ucast (drop_bit 8 universe), ucast universe])"
    "has_bytes q (dmp_prop_val_cnt, [ucast (drop_bit 8 (num_slots + 1)), ucast (num_slots + 1)])"
    "has_bytes q (dmp_prop_val, replicate sizeof_prop_val 0)"
proof -
  have ok: "\<not> (Some p = None \<or> universe < 1 \<or> universe > 63999 \<or> num_slots < 1 \<or> num_slots > 512)"
    using assms by (auto simp: not_less)
  obtain root_len frame_len dmp_len ws q where
    ws: "ws = [(root_preamble_size, le16 (htons E131_PREAMBLE_SIZE)),
      (root_postamble_size, le16 (htons E131_POSTAMBLE_SIZE)), (root_acn_pid, E131_ACN_PID),
      (root_flength, le16 (htons root_len)), (root_vector, le32 (htonl E131_ROOT_VECTOR)),
      (frame_flength, le16 (htons frame_len)), (frame_vector, le32 (htonl E131_FRAME_VECTOR)),
      (frame_priority, [E131_DEFAULT_PRIORITY]), (frame_universe, le16 (htons universe)),
      (dmp_flength, le16 (htons dmp_len)), (dmp_vector, [E131_DMP_VECTOR]), (dmp_type, [E131_DMP_TYPE]),
      (dmp_first_addr, le16 (htons E131_DMP_FIRST_ADDR)), (dmp_addr_inc, le16 (htons E131_DMP_ADDR_INC)),
      (dmp_prop_val_cnt, le16 (htons (num_slots + 1)))]"
    and q: "q = pokes ws (replicate sizeof_packet 0)"
    and init: "e131_pkt_init (Some p) universe num_slots = Inr q"
    by (simp only: e131_pkt_init_def ok if_False Let_def pokes.simps)
  have r: "regions 0 ws (length (replicate sizeof_packet (0 :: byte)))"
    unfolding ws by (simp add: word_layout length_pid)
  have all: "list_all (has_bytes q) ws" unfolding q by (rule pokes_has_bytes [OF r])
  have "has_bytes q (dmp_prop_val, replicate sizeof_prop_val 0)"
    unfolding q by (subst pokes_other [OF r])
      (auto simp: ws word_layout length_pid has_bytes_zero)
  moreover have "list_all (has_bytes q) e131_header"
    using all by (simp add: ws e131_header_def word_layout e131_consts)
  moreover have "length q = sizeof_packet" unfolding q using length_pokes [OF r] by simp
  ultimately show thesis using all init by (intro that [of q]) (simp_all add: ws)
qed

lemma discard_window:
  fixes d :: byte
  shows "- 20 < sint d \<and> sint d \<le> 0 \<longleftrightarrow> (\<exists>k<20. d = - of_nat k)"
proof
  assume a: "- 20 < sint d \<and> sint d \<le> 0"
  have "d = of_int (sint d)" by simp
  also have "\<dots> = - of_nat (nat (- sint d))" using a by (simp add: of_nat_nat)
  finally show "\<exists>k<20. d = - of_nat k" using a by (intro exI [of _ "nat (- sint d)"]) auto
next
  assume "\<exists>k<20. d = - of_nat k"
  then obtain k where "k < 20" "d = - of_nat k" by blast
  moreover have "\<forall>k\<in>{..<20}. - 20 < sint (- of_nat k :: byte) \<and> sint (- of_nat k :: byte) \<le> 0"
    by (simp add: lessThan_nat_numeral lessThan_Suc)
  ultimately show "- 20 < sint d \<and> sint d \<le> 0" by blast
qed

lemma option_value_mod: "option_value opt mod 8 = option_value opt"
  by (cases opt) simp_all

lemma get_option_bit: "e131_get_option (Some p) opt = bit (p ! frame_options) (option_value opt)"
proof -
  have "v AND push_bit n 1 \<noteq> 0 \<longleftrightarrow> bit v n" for v :: byte and n
    by (simp add: push_bit_of_1 and_exp_eq_0_iff_not_bit)
  then show ?thesis by (simp only: e131_get_option_def option.case option_value_mod)
qed

lemma set_option_bit:
  "bit (v XOR ((- of_bool b XOR v) AND push_bit (option_value opt mod 8) 1)) i =
     (if i = option_value opt then b else bit (v :: byte) i)"
proof -
  have "bit (v XOR ((- of_bool b XOR v) AND push_bit n 1)) i = (if i = n then b else bit v i)" if "n < 8" for n
    using that by (cases b) (auto simp: bit_simps)
  moreover have "option_value opt < 8" by (cases opt) simp_all
  ultimately show ?thesis by (simp only: option_value_mod)
qed

definition option_ok :: "bytes \<Rightarrow> bool" where
  "option_ok p \<longleftrightarrow> length p = sizeof_packet"

definition put_option :: "e131_option \<Rightarrow> bool \<Rightarrow> bytes \<Rightarrow> bytes option" where
  "put_option opt b p = (case e131_set_option (Some p) opt b of Inl _ \<Rightarrow> None | Inr q \<Rightarrow> Some q)"

interpretation option_store: setting_store
  "\<lambda>opt p. e131_get_option (Some p) opt" put_option option_ok "\<lambda>opt. True" "\<lambda>opt b. True"
proof unfold_locales
  fix p opt b q
  assume ok: "option_ok p" and put: "put_option opt b p = Some q"
  have q: "q = p[frame_options := p ! frame_options XOR
      ((- of_bool b XOR p ! frame_options) AND push_bit (option_value opt mod 8) 1)]"
    using put by (simp add: put_option_def e131_set_option_def Let_def)
  have i: "frame_options < length p" using ok by (simp add: option_ok_def word_layout)
  show "option_ok q" using ok q by (simp add: option_ok_def)
  have bits: "bit (q ! frame_options) j =
      (if j = option_value opt then b else bit (p ! frame_options) j)" for j
    using i by (simp only: q nth_list_update_eq set_option_bit)
  show "e131_get_option (Some q) opt = b" by (simp add: get_option_bit bits)
  fix opt' :: e131_option assume "opt' \<noteq> opt"
  then have "option_value opt' \<noteq> option_value opt" by (cases opt; cases opt') simp_all
  then show "e131_get_option (Some q) opt' = e131_get_option (Some p) opt'"
    by (simp add: get_option_bit bits)
qed (simp add: put_option_def e131_set_option_def Let_def)

lemma schar_sint: "schar b = sint b"
proof -
  have "sint b = (if uint b < 128 then uint b else uint b - 256)"
  proof -
    have "0 \<le> uint b" "uint b < 256" using uint_lt2p [of b] by simp_all
    moreover have "sint b = (uint b + 128) mod 256 - 128"
      by (simp add: sint_uint signed_take_bit_eq_take_bit_shift take_bit_eq_mod)
    moreover have "(uint b + 128) mod 256 = (uint b - 128) mod 256"
      using mod_add_self2 [of "uint b - 128" "256 :: int"] by (simp add: add.commute)
    ultimately show ?thesis by (cases "uint b < 128") simp_all
  qed
  then show ?thesis by (simp add: schar_def)
qed

lemma sign_bit: "bit b 7 \<longleftrightarrow> 128 \<le> (b :: byte)"
proof -
  have u: "0 \<le> uint b" "uint b < 256" using uint_lt2p [of b] by simp_all
  have "bit b 7 = bit (uint b) 7" by (simp add: bit_uint_iff)
  also have "\<dots> = odd (uint b div 2 ^ 7)" by (rule bit_iff_odd)
  also have "\<dots> \<longleftrightarrow> 128 \<le> uint b"
  proof (cases "128 \<le> uint b")
    case True
    then have "uint b div 2 ^ 7 = 1" using u by (simp add: int_div_pos_eq [of _ _ 1 "uint b - 128"])
    then show ?thesis using True by simp
  qed simp
  finally show ?thesis by (simp add: word_le_def)
qed

lemma interface_word_scast:
  "interface_word [w, x, y, z] = scast w OR push_bit 8 (scast x) OR push_bit 16 (scast y) OR push_bit 24 (scast z)"
  by (simp add: interface_word_def schar_sint numeral_3_eq_3 numeral_2_eq_2)

lemma interface_word_low:
  assumes "w < 128" "x < 128" "y < 128" "z < 128"
  shows "le32 (interface_word [w, x, y, z]) = [w, x, y, z]"
proof -
  have "\<not> bit w 7" "\<not> bit x 7" "\<not> bit y 7" "\<not> bit z 7" using assms by (simp_all add: sign_bit not_le)
  then show ?thesis
    unfolding interface_word_scast le32_def list.inject
    by (intro conjI refl bit_word_eqI) (auto simp: bit_simps)
qed

lemma interface_word_high:
  assumes "128 \<le> w"
  shows "le32 (interface_word [w, x, y, z]) = [w, 0xff, 0xff, 0xff]"
proof -
  have w: "bit w 7" using assms by (simp add: sign_bit)
  have ff: "(0xff :: byte) = - 1" by simp
  show ?thesis
    unfolding interface_word_scast le32_def list.inject ff
    using w by (intro conjI refl bit_word_eqI) (auto simp: bit_simps)
qed

section \<open>Properties\<close>

text \<open>
  C11. \<open>e131_pkt_validate\<close> accepts a packet exactly when the fields E1.31 fixes (preamble sizes, ACN
  identifier, the three layer vectors, address type, first address, increment) have their values.
\<close>

theorem validate_accepts_header:
  assumes "length p = sizeof_packet"
  shows "e131_pkt_validate (Some p) = E131_ERR_NONE \<longleftrightarrow> list_all (has_bytes p) e131_header"
  by (rule validate_None [OF assms])

text \<open>
  A packet built by \<open>e131_pkt_init\<close> for a universe in 1..63999 and 1..512 slots passes
  \<open>e131_pkt_validate\<close>, carries the universe, and \<open>e131_send\<close> sends exactly its used part: the
  126 bytes up to the start code and the slots.
\<close>

theorem init_packet_valid:
  assumes "1 \<le> universe" "universe \<le> 63999" "1 \<le> num_slots" "num_slots \<le> 512"
  shows "\<exists>q. e131_pkt_init (Some p) universe num_slots = Inr q \<and>
    e131_pkt_validate (Some q) = E131_ERR_NONE \<and> htons (ld16 q frame_universe) = universe \<and>
    e131_send (Some q) (Some d) = Some (Inr (take (126 + unat num_slots) q, d)) \<and>
    (\<forall>i < sizeof_prop_val. q ! (dmp_prop_val + i) = 0)"
proof -
  obtain q where q: "e131_pkt_init (Some p) universe num_slots = Inr q" "length q = sizeof_packet"
    "list_all (has_bytes q) e131_header"
    "has_bytes q (frame_universe, [ucast (drop_bit 8 universe), ucast universe])"
    "has_bytes q (dmp_prop_val_cnt, [ucast (drop_bit 8 (num_slots + 1)), ucast (num_slots + 1)])"
    "has_bytes q (dmp_prop_val, replicate sizeof_prop_val 0)"
    by (rule pkt_init_facts [OF assms, of p]) blast
  have univ: "htons (ld16 q frame_universe) = universe"
    and cnt: "htons (ld16 q dmp_prop_val_cnt) = num_slots + 1"
    using q(4,5) be16_has [of frame_universe q] be16_has [of dmp_prop_val_cnt q] q(2)
    by (simp_all add: word_layout)
  have n: "unat num_slots \<le> 512" using assms(4) by (simp add: word_le_nat_alt)
  then have "unat (num_slots + 1) = unat num_slots + 1" by (simp add: unat_word_ariths)
  then have send: "e131_send (Some q) (Some d) = Some (Inr (take (126 + unat num_slots) q, d))"
    using n q(2) by (simp add: e131_send_def cnt [unfolded word_layout] Let_def mem_get_def word_layout)
  have "q ! (dmp_prop_val + i) = 0" if i: "i < sizeof_prop_val" for i
  proof -
    have "take sizeof_prop_val (drop dmp_prop_val q) ! i = replicate sizeof_prop_val 0 ! i"
      using q(6) by (simp add: has_bytes_def)
    then show ?thesis using i q(2) by (simp add: word_layout)
  qed
  with q univ send show ?thesis using validate_None [OF q(2)] by blast
qed

text \<open>
  C12. \<open>e131_pkt_discard\<close> discards a packet exactly when its sequence number is the last one or
  at most 19 behind it, modulo 256.
\<close>

theorem discard_last_twenty:
  "e131_pkt_discard (Some p) last_seq \<longleftrightarrow> (\<exists>k<20. p ! frame_seq_number = last_seq - of_nat k)"
proof -
  have "e131_pkt_discard (Some p) last_seq \<longleftrightarrow> (\<exists>k<20. p ! frame_seq_number - last_seq = - of_nat k)"
    using discard_window by (simp add: e131_pkt_discard_def Let_def)
  also have "\<dots> \<longleftrightarrow> (\<exists>k<20. p ! frame_seq_number = last_seq - of_nat k)"
    by (simp add: diff_eq_eq)
  finally show ?thesis .
qed

text \<open>
  Setting a framing option is read back by \<open>e131_get_option\<close>, leaves the other option as it
  was and changes no byte but the options byte.
\<close>

theorem set_option_get:
  assumes "length p = sizeof_packet"
  shows "\<exists>q. e131_set_option (Some p) opt b = Inr q \<and> e131_get_option (Some q) opt = b \<and>
    (\<forall>opt'. opt' \<noteq> opt \<longrightarrow> e131_get_option (Some q) opt' = e131_get_option (Some p) opt') \<and>
    (\<forall>i. i \<noteq> frame_options \<longrightarrow> q ! i = p ! i)"
proof -
  obtain q where q: "put_option opt b p = Some q" "e131_get_option (Some q) opt = b"
    "\<forall>opt'. opt' \<noteq> opt \<longrightarrow> e131_get_option (Some q) opt' = e131_get_option (Some p) opt'"
    using option_store.put_view [of p opt b] assms by (auto simp: option_ok_def)
  from q(1) have "e131_set_option (Some p) opt b = Inr q" "\<forall>i. i \<noteq> frame_options \<longrightarrow> q ! i = p ! i"
    by (auto simp: put_option_def e131_set_option_def Let_def split: sum.splits)
  with q(2,3) show ?thesis by blast
qed

text \<open>
  \<open>e131_send\<close> reads behind the packet exactly when the property value count of the packet is
  more than 513: the count is trusted.
\<close>

theorem send_trusts_count:
  assumes "length p = sizeof_packet"
  shows "e131_send (Some p) (Some d) = None \<longleftrightarrow> 513 < unat (htons (ld16 p dmp_prop_val_cnt))"
  using assms by (auto simp: e131_send_def Let_def word_layout)

text \<open>
  The interface address that \<open>e131_multicast_join\<close> builds is the node's own address when no
  octet is above 127. When the first octet is above 127 (any class B or C address, such as
  192.168.1.10), sign extension turns the other three octets into 255.
\<close>

theorem join_interface_address:
  assumes "length ip = 4"
  shows "((\<forall>b\<in>set ip. b < 128) \<longrightarrow> le32 (interface_word ip) = ip) \<and>
    (128 \<le> ip ! 0 \<longrightarrow> le32 (interface_word ip) = [ip ! 0, 0xff, 0xff, 0xff])"
proof -
  obtain w x y z where ip: "ip = [w, x, y, z]"
    using assms by (auto simp: numeral_eq_Suc length_Suc_conv)
  show ?thesis using interface_word_low [of w x y z] interface_word_high [of w x y z] by (simp add: ip)
qed

section \<open>Witnesses\<close>

theorem validate_accepts_header_witness:
  "e131_pkt_validate (Some (replicate 638 0)) \<noteq> E131_ERR_NONE"
proof -
  have "length (replicate 638 (0 :: byte)) = sizeof_packet" by (simp add: word_layout)
  from validate_accepts_header [OF this] show ?thesis by (simp add: e131_header_def has_bytes_def)
qed

theorem init_packet_valid_witness:
  "\<exists>q. e131_pkt_init (Some []) 1 512 = Inr q \<and> e131_pkt_validate (Some q) = E131_ERR_NONE \<and>
     e131_send (Some q) (Some zero_sockaddr) = Some (Inr (take 638 q, zero_sockaddr))"
  using init_packet_valid [of 1 512 "[]" zero_sockaddr] by auto

theorem set_option_get_witness:
  "\<exists>q. e131_set_option (Some (replicate 638 0)) E131_OPT_TERMINATED True = Inr q \<and>
     e131_get_option (Some q) E131_OPT_TERMINATED"
proof -
  have "length (replicate 638 (0 :: byte)) = sizeof_packet" by (simp add: word_layout)
  from set_option_get [OF this, of E131_OPT_TERMINATED True] show ?thesis by blast
qed

theorem send_trusts_count_witness:
  "e131_send (Some (replicate 638 0xff)) (Some zero_sockaddr) = None"
proof -
  have "length (replicate 638 (0xff :: byte)) = sizeof_packet" by (simp add: word_layout)
  moreover have "htons (ld16 (replicate 638 0xff) dmp_prop_val_cnt) = 0xffff"
    by (simp add: htons_ld16_eq word_layout)
  ultimately show ?thesis using send_trusts_count [of "replicate 638 0xff" zero_sockaddr] by simp
qed

theorem join_interface_address_witness:
  "le32 (interface_word [10, 10, 100, 126]) = [10, 10, 100, 126] \<and>
   le32 (interface_word [192, 168, 1, 10]) = [192, 255, 255, 255]"
  using join_interface_address [of "[10, 10, 100, 126]"] join_interface_address [of "[192, 168, 1, 10]"]
  by simp

end
