(* ===== verification/ArtNet.thy ===== *)
theory ArtNet
  imports AtCommands E131
begin

text \<open>
  Art-Net: the answer to a poll, the filter for DMX packets and the gaffer channels that are merged
  into them (\<^verbatim>\<open>src/user/ArtPollReply.c\<close>; \<open>check_gaffer_packet\<close> and \<open>replace_channel_data\<close> of
  \<^verbatim>\<open>src/user/UserMain.c\<close>).

  What the node sends is kept as a list of outputs: datagrams with their destination and the
  byte strings handed to \<open>hfuart_send\<close>. How many bytes that function reports as sent is a parameter.
\<close>

declare lit_simps [simp del]

datatype node_output = Udp sockaddr_in bytes | Uart bytes

record 'fl node_env = "'fl at_env" +
  hfuart_send :: "bytes \<Rightarrow> int"

record 'fl node_state = "'fl at_state" +
  ipAddress :: bytes
  gaffer_data :: bytes
  artpollreply_msg :: bytes
  artnet_hdr_msg :: bytes
  dmx_count :: u32
  outputs :: "node_output list"

definition sizeof_gaffer_data :: nat where "sizeof_gaffer_data = 514"

section \<open>The messages\<close>

definition sizeof_artnet_hdr :: nat where "sizeof_artnet_hdr = 18"
definition hdr_OpCode :: nat where "hdr_OpCode = 8"
definition hdr_ProtVer :: nat where "hdr_ProtVer = 10"
definition hdr_Sequence :: nat where "hdr_Sequence = 12"
definition hdr_SubUni :: nat where "hdr_SubUni = 14"
definition hdr_Length :: nat where "hdr_Length = 16"

definition sizeof_artpollreply :: nat where "sizeof_artpollreply = 239"
definition apr_OpCode :: nat where "apr_OpCode = 8"
definition apr_IP_Address :: nat where "apr_IP_Address = 10"
definition apr_Port :: nat where "apr_Port = 14"
definition apr_VersInfoH :: nat where "apr_VersInfoH = 16"
definition apr_VersInfoL :: nat where "apr_VersInfoL = 17"
definition apr_OemLo :: nat where "apr_OemLo = 21"
definition apr_EstaManLo :: nat where "apr_EstaManLo = 24"
definition apr_EstaManHi :: nat where "apr_EstaManHi = 25"
definition apr_ShortName :: nat where "apr_ShortName = 26"
definition apr_LongName :: nat where "apr_LongName = 44"
definition apr_NumPortsLo :: nat where "apr_NumPortsLo = 173"
definition apr_PortTypes :: nat where "apr_PortTypes = 174"
definition apr_GoodInput :: nat where "apr_GoodInput = 178"
definition apr_GoodOutput :: nat where "apr_GoodOutput = 182"
definition apr_Status2 :: nat where "apr_Status2 = 212"

lemmas artnet_layout [word_layout] =
  sizeof_gaffer_data_def sizeof_artnet_hdr_def hdr_OpCode_def hdr_ProtVer_def hdr_Sequence_def
  hdr_SubUni_def hdr_Length_def sizeof_artpollreply_def apr_OpCode_def apr_IP_Address_def
  apr_Port_def apr_VersInfoH_def apr_VersInfoL_def apr_OemLo_def apr_EstaManLo_def
  apr_EstaManHi_def apr_ShortName_def apr_LongName_def apr_NumPortsLo_def apr_PortTypes_def
  apr_GoodInput_def apr_GoodOutput_def apr_Status2_def

definition ARTNET_DEFAULT_PORT :: u16 where "ARTNET_DEFAULT_PORT = 6454"

text \<open>Writing the reply member by member, as the source does; \<open>EstaManLo\<close> is assigned twice.\<close>

definition init_artpollreply_msg ::
    "('fl, 'e) at_env_scheme \<Rightarrow> ('fl, 'z) node_state_scheme \<Rightarrow> ('fl, 'z) node_state_scheme option" where
  "init_artpollreply_msg env s = do {
     let m = replicate sizeof_artpollreply 0;
     m \<leftarrow> put_str 0 (lit ''Art-Net'') m;
     let m = poke apr_OpCode [0x00, 0x21] m;
     let m = poke apr_IP_Address (ipAddress s) m;
     let m = poke apr_Port [0x36, 0x19] m;
     let m = poke apr_VersInfoH [12] m;
     let m = poke apr_VersInfoL [18] m;
     let m = poke apr_OemLo [0xff] m;
     let m = poke apr_EstaManLo [0xD7] m;
     let m = poke apr_EstaManLo [0x51] m;
     (_, name) \<leftarrow> ratpac_get_str (CFG_str2id env (lit ''AKS_NAME'')) (g_web_config s) (client_valid_num s);
     m \<leftarrow> put_str apr_ShortName name m;
     m \<leftarrow> put_str apr_LongName (lit ''Ratpac AKS - Designed by Ratpac Dimmers'') m;
     let m = poke apr_NumPortsLo [1] m;
     let m = poke apr_PortTypes [0x80] m;
     let m = poke apr_GoodInput [0x80, 0x08, 0x08, 0x08] m;
     let m = poke apr_GoodOutput [0x80] m;
     let m = poke apr_Status2 [15] m;
     let h = replicate sizeof_artnet_hdr 0;
     h \<leftarrow> put_str 0 (lit ''Art-Net'') h;
     let h = poke hdr_OpCode [0, 0x50] h;
     let h = poke hdr_ProtVer [0, 0xe] h;
     let h = poke hdr_Length [2, 0] h;
     Some (s\<lparr>artpollreply_msg := m, artnet_hdr_msg := h\<rparr>) }"

section \<open>Reading the configuration into a small buffer\<close>

text \<open>\<open>ratpac_get_str (CFG_str2id name) buf\<close> with a buffer of \<open>n\<close> bytes.\<close>

definition cfg_buf ::
    "('fl, 'e) at_env_scheme \<Rightarrow> nat \<Rightarrow> bytes \<Rightarrow> ('fl, 'z) node_state_scheme \<Rightarrow> bytes option" where
  "cfg_buf env n name s = do {
     (_, v) \<leftarrow> ratpac_get_str (CFG_str2id env name) (g_web_config s) (client_valid_num s);
     if length v < n then Some v else None }"

definition artnet_universe ::
    "('fl, 'e) at_env_scheme \<Rightarrow> bytes \<Rightarrow> bytes \<Rightarrow> ('fl, 'z) node_state_scheme \<Rightarrow> int option" where
  "artnet_universe env uni_name sub_name s = do {
     u \<leftarrow> cfg_buf env 4 uni_name s;
     a \<leftarrow> cfg_buf env 4 sub_name s;
     Some ((atoi u OR push_bit 4 (atoi a)) AND 0xff) }"

section \<open>Gaffer channels\<close>

text \<open>\<open>memmove (&dst[d], &src[i], n)\<close>: a negative length is a huge \<open>size_t\<close>.\<close>

definition memmove_at :: "int \<Rightarrow> bytes \<Rightarrow> int \<Rightarrow> bytes \<Rightarrow> int \<Rightarrow> bytes option" where
  "memmove_at d dst i src n =
    (if n = 0 then Some dst
     else if n < 0 \<or> d < 0 \<or> i < 0 then None
     else do { xs \<leftarrow> mem_get (nat i) (nat n) src; mem_put (nat d) xs dst })"

definition gaffer_disabled ::
    "('fl, 'e) at_env_scheme \<Rightarrow> ('fl, 'z) node_state_scheme \<Rightarrow> bool option" where
  "gaffer_disabled env s = do {
     en \<leftarrow> cfg_buf env 4 (lit ''GAFFER_ENABLE'') s;
     Some (hd (en @ [0]) = 49) }"

definition gaffer_bounds ::
    "('fl, 'e) at_env_scheme \<Rightarrow> ('fl, 'z) node_state_scheme \<Rightarrow> (int \<times> int) option" where
  "gaffer_bounds env s = do {
     lower \<leftarrow> cfg_buf env 4 (lit ''GAFFER_LOWER'') s;
     upper \<leftarrow> cfg_buf env 4 (lit ''GAFFER_UPPER'') s;
     Some (atoi lower, atoi upper) }"

definition check_gaffer_packet ::
    "('fl, 'e) at_env_scheme \<Rightarrow> bytes \<Rightarrow> int \<Rightarrow> ('fl, 'z) node_state_scheme \<Rightarrow> ('fl, 'z) node_state_scheme option" where
  "check_gaffer_packet env data len s =
    (if len < 50 then Some s
     else do {
       disabled \<leftarrow> gaffer_disabled env s;
       if disabled then Some s
       else do {
         uni_num \<leftarrow> artnet_universe env (lit ''GAFFER_UNIVERSE'') (lit ''GAFFER_SUBNET'') s;
         if uni_num = schar (data ! hdr_SubUni)
         then do {
           (lower, upper) \<leftarrow> gaffer_bounds env s;
           g \<leftarrow> memmove_at lower (gaffer_data s) (17 + lower) data (upper - lower + 1);
           Some (s\<lparr>gaffer_data := g\<rparr>) }
         else Some s } })"

definition replace_channel_data ::
    "('fl, 'e) at_env_scheme \<Rightarrow> bytes \<Rightarrow> ('fl, 'z) node_state_scheme \<Rightarrow> bytes option" where
  "replace_channel_data env data s = do {
     disabled \<leftarrow> gaffer_disabled env s;
     if disabled then Some data
     else do {
       (lower, upper) \<leftarrow> gaffer_bounds env s;
       memmove_at (17 + lower) data lower (gaffer_data s) (upper - lower + 1) } }"

section \<open>A received datagram\<close>

text \<open>The receive buffer is modified in place, so it is part of the result.\<close>

definition process_artnet_msg ::
    "('fl, 'e) at_env_scheme \<Rightarrow> bytes \<Rightarrow> int \<Rightarrow> sockaddr_in \<Rightarrow> ('fl, 'z) node_state_scheme \<Rightarrow>
     (bytes \<times> ('fl, 'z) node_state_scheme) option" where
  "process_artnet_msg env raw0 len from' s = do {
     let raw = raw0[7 := 0];
     ident \<leftarrow> c_str raw;
     if strcmp ident (lit ''Art-Net'') \<noteq> 0 then Some (raw, s)
     else
       let dest = zero_sockaddr\<lparr>sin_family := AF_INET, sin_addr := sin_addr from',
                    sin_port := htons ARTNET_DEFAULT_PORT\<rparr>
       in if len \<le> 50
          then
            if raw ! 9 \<noteq> 0x20 then Some (raw, s)
            else
              let msg = poke apr_IP_Address (ipAddress s) (artpollreply_msg s)
              in Some (raw, s\<lparr>artpollreply_msg := msg, outputs := outputs s @ [Udp dest msg]\<rparr>)
          else
            if raw ! 9 \<noteq> 0x50 \<or> artnet_enable s = 0 then Some (raw, s)
            else do {
              s \<leftarrow> check_gaffer_packet env raw len s;
              uni_num \<leftarrow> artnet_universe env (lit ''AKS_UNIVERSE'') (lit ''AKS_SUBNET'') s;
              if uni_num = uint (raw ! hdr_SubUni)
              then do {
                raw \<leftarrow> replace_channel_data env raw s;
                sent \<leftarrow> mem_get 0 (nat len) raw;
                Some (raw, s\<lparr>outputs := outputs s @ [Uart sent], dmx_count := dmx_count s + 1\<rparr>) }
              else Some (raw, s) } }"

text \<open>The slots of an sACN packet are sent with an Art-Net header that is written over the 18 bytes
  before them (\<open>dmx_slot\<close> is the offset of the first slot in the packet buffer).\<close>

definition send_artnet_header ::
    "('fl, 'e) node_env_scheme \<Rightarrow> byte \<Rightarrow> bytes \<Rightarrow> nat \<Rightarrow> int \<Rightarrow> ('fl, 'z) node_state_scheme \<Rightarrow>
     (bytes \<times> ('fl, 'z) node_state_scheme) option" where
  "send_artnet_header env seq pkt dmx_slot slot_cnt s =
    (let hdr = (artnet_hdr_msg s)[hdr_Sequence := seq];
         s = s\<lparr>artnet_hdr_msg := hdr\<rparr>;
         dmx_data = dmx_slot - sizeof_artnet_hdr;
         len = int sizeof_artnet_hdr + slot_cnt
     in do {
       pkt \<leftarrow> mem_put dmx_data hdr pkt;
       sent \<leftarrow> mem_get dmx_data (nat len) pkt;
       let s = s\<lparr>outputs := outputs s @ [Uart sent]\<rparr>;
       Some (pkt, if hfuart_send env sent = len then s\<lparr>dmx_count := dmx_count s + 1\<rparr> else s) })"

section \<open>Well-formed nodes\<close>

definition node_ok :: "('fl, 'z) node_state_scheme \<Rightarrow> bool" where
  "node_ok s \<longleftrightarrow> web_ok (g_web_config s) \<and> length (ipAddress s) = 4 \<and>
     length (gaffer_data s) = sizeof_gaffer_data \<and>
     length (artpollreply_msg s) = sizeof_artpollreply \<and> length (artnet_hdr_msg s) = sizeof_artnet_hdr"

text \<open>The gaffer is switched off or its channel range lies inside a DMX universe.\<close>

definition gaffer_ok :: "('fl, 'e) at_env_scheme \<Rightarrow> ('fl, 'z) node_state_scheme \<Rightarrow> bool" where
  "gaffer_ok env s \<longleftrightarrow> gaffer_disabled env s = Some True \<or>
     (case gaffer_bounds env s of None \<Rightarrow> False
      | Some (l, u) \<Rightarrow> 0 \<le> l \<and> l \<le> u + 1 \<and> u \<le> 512)"

lemma get_small:
  assumes "web_ok cfg" and "get_switch cid = Some (f, b)" and "f \<in> set str_fields" and "fsize f \<le> 4"
  shows "\<exists>v. ratpac_get_str cid cfg n = Some (0, v) \<and> length v < 4 \<and> v \<noteq> []"
proof -
  obtain t where t: "str_at cfg (foff f) = Some t" "length t < fsize f" by (rule web_okD [OF assms(1,3)])
  have "length (cut b t) \<le> length t" by (simp add: cut_def split: option.split)
  then show ?thesis using t assms(2,4) by (auto simp: ratpac_get_str_def lit_simps)
qed

definition small_names :: "bytes list" where
  "small_names = [lit ''AKS_UNIVERSE'', lit ''AKS_SUBNET'', lit ''GAFFER_ENABLE'', lit ''GAFFER_SUBNET'',
     lit ''GAFFER_UNIVERSE'', lit ''GAFFER_LOWER'', lit ''GAFFER_UPPER'']"

lemma small_ids:
  assumes "str2id_ok env"
  shows "list_all (\<lambda>name. CFG_str2id env name \<in> {CFG_AKS_UNIVERSE, CFG_AKS_SUBNET, CFG_GAFFER_ENABLE,
     CFG_GAFFER_SUBNET, CFG_GAFFER_UNIVERSE, CFG_GAFFER_LOWER, CFG_GAFFER_UPPER}) small_names"
  using assms by (simp add: str2id_ok_def cfg_userid_str_table_def small_names_def del: lit_simps)

lemma small_switch:
  "cid \<in> {CFG_AKS_UNIVERSE, CFG_AKS_SUBNET, CFG_GAFFER_ENABLE, CFG_GAFFER_SUBNET, CFG_GAFFER_UNIVERSE,
     CFG_GAFFER_LOWER, CFG_GAFFER_UPPER} \<Longrightarrow>
   \<exists>f b. get_switch cid = Some (f, b) \<and> f \<in> set str_fields \<and> fsize f \<le> 4"
  by (auto simp: get_switch_def get_cases_def cfg_ids set_str_fields)

lemma cfg_buf_total:
  assumes "str2id_ok env" and "web_ok (g_web_config s)" and "name \<in> set small_names"
  obtains v where "cfg_buf env 4 name s = Some v" "v \<noteq> []"
proof -
  have "CFG_str2id env name \<in> {CFG_AKS_UNIVERSE, CFG_AKS_SUBNET, CFG_GAFFER_ENABLE, CFG_GAFFER_SUBNET,
      CFG_GAFFER_UNIVERSE, CFG_GAFFER_LOWER, CFG_GAFFER_UPPER}"
    using small_ids [OF assms(1)] assms(3) by (simp only: list_all_iff)
  from small_switch [OF this] obtain f b where "get_switch (CFG_str2id env name) = Some (f, b)"
    "f \<in> set str_fields" "fsize f \<le> 4" by blast
  from get_small [OF assms(2) this, of "client_valid_num s"] show thesis
    using that by (auto simp: cfg_buf_def)
qed

lemma names_small [simp]:
  "lit ''AKS_UNIVERSE'' \<in> set small_names" "lit ''AKS_SUBNET'' \<in> set small_names"
  "lit ''GAFFER_ENABLE'' \<in> set small_names" "lit ''GAFFER_SUBNET'' \<in> set small_names"
  "lit ''GAFFER_UNIVERSE'' \<in> set small_names" "lit ''GAFFER_LOWER'' \<in> set small_names"
  "lit ''GAFFER_UPPER'' \<in> set small_names"
  by (simp_all add: small_names_def del: lit_simps)

lemma artnet_universe_total:
  assumes "str2id_ok env" and "web_ok (g_web_config s)" and "a \<in> set small_names" and "b \<in> set small_names"
  obtains n where "artnet_universe env a b s = Some n" "0 \<le> n" "n < 256"
proof -
  obtain u v where "cfg_buf env 4 a s = Some u" "cfg_buf env 4 b s = Some v"
    using cfg_buf_total [OF assms(1,2)] assms(3,4) by metis
  moreover have "0 \<le> (k AND 0xff :: int)" "k AND 0xff < (256 :: int)" for k
    using AND_upper2 [of 255 k] by simp_all
  ultimately show thesis using that by (simp add: artnet_universe_def)
qed

lemma gaffer_disabled_total:
  assumes "str2id_ok env" and "web_ok (g_web_config s)"
  obtains b where "gaffer_disabled env s = Some b"
proof -
  obtain v where "cfg_buf env 4 (lit ''GAFFER_ENABLE'') s = Some v"
    by (rule cfg_buf_total [OF assms names_small(3)])
  then show thesis using that by (simp add: gaffer_disabled_def)
qed

lemma artnet_frame:
  assumes "g_web_config t = g_web_config s" and "client_valid_num t = client_valid_num s"
  shows "cfg_buf env n name t = cfg_buf env n name s"
    and "artnet_universe env a b t = artnet_universe env a b s"
    and "gaffer_disabled env t = gaffer_disabled env s"
    and "gaffer_bounds env t = gaffer_bounds env s"
proof -
  show cfg: "cfg_buf env n name t = cfg_buf env n name s" for n name using assms by (simp add: cfg_buf_def)
  show "artnet_universe env a b t = artnet_universe env a b s"
    "gaffer_disabled env t = gaffer_disabled env s" "gaffer_bounds env t = gaffer_bounds env s"
    by (simp_all add: artnet_universe_def gaffer_disabled_def gaffer_bounds_def cfg)
qed

lemma memmove_at_total:
  assumes "0 \<le> d" "0 \<le> i" "0 \<le> n" "d + n \<le> int (length dst)" "i + n \<le> int (length src)"
  shows "memmove_at d dst i src n = Some (poke (nat d) (take (nat n) (drop (nat i) src)) dst) \<and>
    length (poke (nat d) (take (nat n) (drop (nat i) src)) dst) = length dst"
proof -
  have le: "nat i + nat n \<le> length src" "nat d + nat n \<le> length dst" using assms by linarith+
  then have len: "length (take (nat n) (drop (nat i) src)) = nat n" by simp
  have "poke (nat d) [] dst = dst" using le by (simp add: poke_def)
  then show ?thesis using assms le len
    by (cases "n = 0") (auto simp: memmove_at_def mem_get_def mem_put_def)
qed

section \<open>The two gaffer operations\<close>

lemma check_gaffer_step:
  assumes "str2id_ok env" and "node_ok s" and "gaffer_ok env s" and "length data = sizeof_packet"
  shows "\<exists>g. check_gaffer_packet env data len s = Some (s\<lparr>gaffer_data := g\<rparr>) \<and> length g = sizeof_gaffer_data"
proof -
  have web: "web_ok (g_web_config s)" and g: "length (gaffer_data s) = sizeof_gaffer_data"
    using assms(2) by (simp_all add: node_ok_def)
  have same: "s = s\<lparr>gaffer_data := gaffer_data s\<rparr>" by simp
  obtain d where d: "gaffer_disabled env s = Some d" by (rule gaffer_disabled_total [OF assms(1) web])
  obtain n where n: "artnet_universe env (lit ''GAFFER_UNIVERSE'') (lit ''GAFFER_SUBNET'') s = Some n"
    by (rule artnet_universe_total [OF assms(1) web names_small(5,4)])
  show ?thesis
  proof (cases "len < 50 \<or> d \<or> n \<noteq> schar (data ! hdr_SubUni)")
    case True
    then have "check_gaffer_packet env data len s = Some s"
      using d n by (auto simp: check_gaffer_packet_def)
    then show ?thesis using same g by metis
  next
    case False
    then obtain l u where lu: "gaffer_bounds env s = Some (l, u)" "0 \<le> l" "l \<le> u + 1" "u \<le> 512"
      using assms(3) d by (auto simp: gaffer_ok_def split: option.splits)
    let ?g = "poke (nat l) (take (nat (u - l + 1)) (drop (nat (17 + l)) data)) (gaffer_data s)"
    have "memmove_at l (gaffer_data s) (17 + l) data (u - l + 1) = Some ?g \<and>
      length ?g = length (gaffer_data s)"
      using lu g assms(4) by (intro memmove_at_total) (simp_all add: word_layout)
    then show ?thesis using False d n lu g
      by (intro exI [of _ ?g]) (simp add: check_gaffer_packet_def)
  qed
qed

lemma replace_channel_step:
  assumes "str2id_ok env" and "node_ok s" and "gaffer_ok env s" and "length data = sizeof_packet"
  obtains data' where "replace_channel_data env data s = Some data'" "length data' = sizeof_packet"
    "gaffer_disabled env s = Some True \<Longrightarrow> data' = data"
    "\<And>l u j. gaffer_disabled env s = Some False \<Longrightarrow> gaffer_bounds env s = Some (l, u) \<Longrightarrow> j < sizeof_packet \<Longrightarrow>
       data' ! j = (if 17 + l \<le> int j \<and> int j \<le> 17 + u then gaffer_data s ! (j - 17) else data ! j)"
proof -
  have web: "web_ok (g_web_config s)" and g: "length (gaffer_data s) = sizeof_gaffer_data"
    using assms(2) by (simp_all add: node_ok_def)
  obtain d where d: "gaffer_disabled env s = Some d" by (rule gaffer_disabled_total [OF assms(1) web])
  show thesis
  proof (cases d)
    case True
    then show thesis using d assms(4) by (intro that [of data]) (simp_all add: replace_channel_data_def)
  next
    case False
    then obtain l u where lu: "gaffer_bounds env s = Some (l, u)" "0 \<le> l" "l \<le> u + 1" "u \<le> 512"
      using assms(3) d by (auto simp: gaffer_ok_def split: option.splits)
    let ?xs = "take (nat (u - l + 1)) (drop (nat l) (gaffer_data s))"
    have m: "memmove_at (17 + l) data l (gaffer_data s) (u - l + 1) = Some (poke (nat (17 + l)) ?xs data) \<and>
      length (poke (nat (17 + l)) ?xs data) = length data"
      using lu g assms(4) by (intro memmove_at_total) (simp_all add: word_layout)
    have xs: "length ?xs = nat (u - l + 1)" using lu g by (simp add: word_layout)
    have "poke (nat (17 + l)) ?xs data ! j =
        (if 17 + l \<le> int j \<and> int j \<le> 17 + u then gaffer_data s ! (j - 17) else data ! j)"
      if j: "j < sizeof_packet" for j
    proof -
      have in_range: "nat (17 + l) + length ?xs \<le> length data" using xs lu assms(4) by (simp add: word_layout)
      have iff: "nat (17 + l) \<le> j \<and> j < nat (17 + l) + length ?xs \<longleftrightarrow> 17 + l \<le> int j \<and> int j \<le> 17 + u"
        using xs lu by (auto simp: nat_le_iff) 
      have "?xs ! (j - nat (17 + l)) = gaffer_data s ! (j - 17)" if "nat (17 + l) \<le> j \<and> j < nat (17 + l) + length ?xs"
      proof -
        have pre: "nat (17 + l) \<le> j" "j < nat (17 + l) + length ?xs" using that by simp_all
        obtain t where jt: "j = nat (17 + l) + t" using le_Suc_ex [OF pre(1)] by blast
        then have t: "j = nat (17 + l) + t" "t < length ?xs" using pre(2) by linarith+
        have "j - 17 = nat l + t" using t(1) lu(2) by (simp add: nat_add_distrib)
        moreover have "nat l + t < length (gaffer_data s)" using t(2) by (simp add: less_diff_conv add.commute)
        ultimately show ?thesis using t by simp
      qed
      then show ?thesis using nth_poke [OF in_range, of j] iff j assms(4) by auto
    qed
    then show thesis using m d lu False assms(4)
      by (intro that [of "poke (nat (17 + l)) ?xs data"]) (simp_all add: replace_channel_data_def)
  qed
qed

section \<open>Facts about the receive function\<close>

text \<open>The identification the receive function looks for, in the buffer with byte 7 cleared.\<close>

definition is_artnet :: "bytes \<Rightarrow> bool" where
  "is_artnet raw \<longleftrightarrow> c_str (raw[7 := 0]) = Some (lit ''Art-Net'')"

lemma artnet_ident_total:
  assumes "length raw = sizeof_packet"
  obtains ident where "c_str (raw[7 := 0]) = Some ident"
proof -
  have "0 \<in> set (raw[7 := 0])" using assms by (intro set_update_memI) (simp add: word_layout)
  moreover have "0 \<in> set m \<Longrightarrow> \<exists>t. c_str m = Some t" for m by (induction m) auto
  ultimately show thesis using that by blast
qed

definition reply_address :: "sockaddr_in \<Rightarrow> sockaddr_in" where
  "reply_address from' = zero_sockaddr\<lparr>sin_family := AF_INET, sin_addr := sin_addr from',
     sin_port := htons ARTNET_DEFAULT_PORT\<rparr>"

text \<open>The DMX branch, once the packet is known to be an Art-Net DMX packet.\<close>

lemma process_dmx:
  assumes "is_artnet raw" and "50 < len" and "raw ! 9 = 0x50" and "artnet_enable s \<noteq> 0"
  shows "process_artnet_msg env raw len from' s = do {
     s \<leftarrow> check_gaffer_packet env (raw[7 := 0]) len s;
     uni_num \<leftarrow> artnet_universe env (lit ''AKS_UNIVERSE'') (lit ''AKS_SUBNET'') s;
     if uni_num = uint (raw ! hdr_SubUni)
     then do {
       raw \<leftarrow> replace_channel_data env (raw[7 := 0]) s;
       sent \<leftarrow> mem_get 0 (nat len) raw;
       Some (raw, s\<lparr>outputs := outputs s @ [Uart sent], dmx_count := dmx_count s + 1\<rparr>) }
     else Some (raw[7 := 0], s) }"
  using assms by (simp add: process_artnet_msg_def is_artnet_def hdr_SubUni_def Let_def)

text \<open>The poll branch, and what is left alone.\<close>

lemma process_poll:
  assumes "is_artnet raw" and "len \<le> 50" and "raw ! 9 = 0x20"
    and "msg = poke apr_IP_Address (ipAddress s) (artpollreply_msg s)"
  shows "process_artnet_msg env raw len from' s = Some (raw[7 := 0],
     s\<lparr>artpollreply_msg := msg, outputs := outputs s @ [Udp (reply_address from') msg]\<rparr>)"
  using assms by (simp add: process_artnet_msg_def is_artnet_def reply_address_def Let_def)

lemma process_ignored:
  assumes "c_str (raw[7 := 0]) = Some ident"
    and "\<not> (is_artnet raw \<and> (len \<le> 50 \<and> raw ! 9 = 0x20 \<or> 50 < len \<and> raw ! 9 = 0x50 \<and> artnet_enable s \<noteq> 0))"
  shows "process_artnet_msg env raw len from' s = Some (raw[7 := 0], s)"
  using assms by (auto simp: process_artnet_msg_def is_artnet_def Let_def)

lemma process_artnet_facts:
  assumes "str2id_ok env" and "node_ok s" and "gaffer_ok env s"
    and "length raw = sizeof_packet" and "0 \<le> len" and "len \<le> int sizeof_packet"
  shows "\<exists>raw' s'. process_artnet_msg env raw len from' s = Some (raw', s') \<and>
    length raw' = sizeof_packet \<and> node_ok s' \<and> gaffer_ok env s' \<and>
    artnet_hdr_msg s' = artnet_hdr_msg s \<and> g_web_config s' = g_web_config s \<and>
    (outputs s' = outputs s \<or> (\<exists>m. outputs s' = outputs s @ [m]))"
proof -
  obtain ident where ident: "c_str (raw[7 := 0]) = Some ident" by (rule artnet_ident_total [OF assms(4)])
  have raw': "length (raw[7 := 0]) = sizeof_packet" using assms(4) by simp
  show ?thesis
  proof (cases "is_artnet raw \<and> 50 < len \<and> raw ! 9 = 0x50 \<and> artnet_enable s \<noteq> 0")
    case False
    show ?thesis
    proof (cases "is_artnet raw \<and> len \<le> 50 \<and> raw ! 9 = 0x20")
      case True
      let ?m = "poke apr_IP_Address (ipAddress s) (artpollreply_msg s)"
      let ?t = "s\<lparr>artpollreply_msg := ?m, outputs := outputs s @ [Udp (reply_address from') ?m]\<rparr>"
      have "node_ok ?t" "gaffer_ok env ?t"
        using assms(2,3) artnet_frame(3,4) [of ?t s env] by (simp_all add: node_ok_def gaffer_ok_def word_layout)
      then show ?thesis using True process_poll [of raw len ?m s env from'] raw' by simp
    next
      case False
      with \<open>\<not> (is_artnet raw \<and> 50 < len \<and> _ \<and> _)\<close> have
        "process_artnet_msg env raw len from' s = Some (raw[7 := 0], s)"
        by (intro process_ignored [OF ident]) blast
      then show ?thesis using raw' assms(2,3) by simp
    qed
  next
    case True
    obtain g where g: "check_gaffer_packet env (raw[7 := 0]) len s = Some (s\<lparr>gaffer_data := g\<rparr>)"
      "length g = sizeof_gaffer_data" using check_gaffer_step [OF assms(1-3) raw', of len] by blast
    let ?s = "s\<lparr>gaffer_data := g\<rparr>"
    have ok: "node_ok ?s" using assms(2) g(2) by (simp add: node_ok_def)
    have gok: "gaffer_ok env ?s" using assms(3) artnet_frame(3,4) [of ?s s env] by (simp add: gaffer_ok_def)
    obtain n where n: "artnet_universe env (lit ''AKS_UNIVERSE'') (lit ''AKS_SUBNET'') ?s = Some n"
      using artnet_universe_total [OF assms(1), of ?s] ok names_small(1,2) unfolding node_ok_def by metis
    obtain data where data: "replace_channel_data env (raw[7 := 0]) ?s = Some data" "length data = sizeof_packet"
      by (rule replace_channel_step [OF assms(1) ok gok raw'])
    let ?t = "?s\<lparr>outputs := outputs s @ [Uart (take (nat len) data)], dmx_count := dmx_count s + 1\<rparr>"
    have t: "node_ok ?t" "gaffer_ok env ?t"
      using ok gok artnet_frame(3,4) [of ?t ?s env] by (simp_all add: node_ok_def gaffer_ok_def)
    have "mem_get 0 (nat len) data = Some (take (nat len) data)" using assms(6) data(2) by simp
    then show ?thesis using True process_dmx [of raw len s env from'] g n data t ok gok raw'
      by (cases "n = uint (raw ! hdr_SubUni)") (simp_all del: mem_get_eq_Some)
  qed
qed

section \<open>When the copies stay inside\<close>

text \<open>The ranges the two copies can do: an empty one, or one inside both buffers (\<open>gaffer_data\<close> has 514 bytes).\<close>

definition gaffer_safe :: "('fl, 'e) at_env_scheme \<Rightarrow> ('fl, 'z) node_state_scheme \<Rightarrow> bool" where
  "gaffer_safe env s \<longleftrightarrow> (case gaffer_bounds env s of None \<Rightarrow> False
     | Some (l, u) \<Rightarrow> u + 1 = l \<or> 0 \<le> l \<and> l \<le> u \<and> u \<le> 513)"

text \<open>The datagrams for which channels are copied: an enabled DMX packet for the gaffer's or the node's universe.\<close>

definition moves_channels :: "('fl, 'e) at_env_scheme \<Rightarrow> bytes \<Rightarrow> int \<Rightarrow> ('fl, 'z) node_state_scheme \<Rightarrow> bool" where
  "moves_channels env raw len s \<longleftrightarrow> is_artnet raw \<and> 50 < len \<and> raw ! 9 = 0x50 \<and> artnet_enable s \<noteq> 0 \<and>
     gaffer_disabled env s = Some False \<and>
     (artnet_universe env (lit ''GAFFER_UNIVERSE'') (lit ''GAFFER_SUBNET'') s = Some (schar (raw ! hdr_SubUni)) \<or>
      artnet_universe env (lit ''AKS_UNIVERSE'') (lit ''AKS_SUBNET'') s = Some (uint (raw ! hdr_SubUni)))"

lemma memmove_at_exact:
  "memmove_at d dst i src n = None \<longleftrightarrow> n \<noteq> 0 \<and>
     (n < 0 \<or> d < 0 \<or> i < 0 \<or> int (length src) < i + n \<or> int (length dst) < d + n)"
  "memmove_at d dst i src n = Some t \<Longrightarrow> length t = length dst"
proof -
  have "nat i + nat n \<le> length src \<longleftrightarrow> i + n \<le> int (length src)" if "0 \<le> i" "0 \<le> n" for i and src :: bytes
    using that by linarith
  moreover have "length (take (nat n) (drop (nat i) src)) = nat n" if "0 \<le> i" "0 \<le> n" "nat i + nat n \<le> length src"
    using that by simp
  ultimately show "memmove_at d dst i src n = None \<longleftrightarrow> n \<noteq> 0 \<and>
     (n < 0 \<or> d < 0 \<or> i < 0 \<or> int (length src) < i + n \<or> int (length dst) < d + n)"
    by (auto simp: memmove_at_def mem_get_def mem_put_def)
  show "memmove_at d dst i src n = Some t \<Longrightarrow> length t = length dst"
    by (auto simp: memmove_at_def split: if_splits bind_splits)
qed

lemma gaffer_bounds_total:
  assumes "str2id_ok env" and "web_ok (g_web_config s)"
  obtains l u where "gaffer_bounds env s = Some (l, u)"
proof -
  obtain v w where "cfg_buf env 4 (lit ''GAFFER_LOWER'') s = Some v" "cfg_buf env 4 (lit ''GAFFER_UPPER'') s = Some w"
    using cfg_buf_total [OF assms] names_small(6,7) by metis
  then show thesis using that by (simp add: gaffer_bounds_def)
qed

lemma check_gaffer_exact:
  assumes "str2id_ok env" and "node_ok s" and "length data = sizeof_packet" and "50 < len"
  shows "check_gaffer_packet env data len s = None \<longleftrightarrow> gaffer_disabled env s = Some False \<and>
      artnet_universe env (lit ''GAFFER_UNIVERSE'') (lit ''GAFFER_SUBNET'') s = Some (schar (data ! hdr_SubUni)) \<and>
      \<not> gaffer_safe env s"
    and "check_gaffer_packet env data len s = Some t \<Longrightarrow> \<exists>g. t = s\<lparr>gaffer_data := g\<rparr> \<and> length g = sizeof_gaffer_data"
proof -
  have web: "web_ok (g_web_config s)" and g: "length (gaffer_data s) = sizeof_gaffer_data"
    using assms(2) by (simp_all add: node_ok_def)
  have same: "\<exists>g. s = s\<lparr>gaffer_data := g\<rparr> \<and> length g = sizeof_gaffer_data" using g by (intro exI [of _ "gaffer_data s"]) simp
  obtain d where d: "gaffer_disabled env s = Some d" by (rule gaffer_disabled_total [OF assms(1) web])
  obtain n where n: "artnet_universe env (lit ''GAFFER_UNIVERSE'') (lit ''GAFFER_SUBNET'') s = Some n"
    by (rule artnet_universe_total [OF assms(1) web names_small(5,4)])
  obtain l u where lu: "gaffer_bounds env s = Some (l, u)" by (rule gaffer_bounds_total [OF assms(1) web])
  have "memmove_at l (gaffer_data s) (17 + l) data (u - l + 1) = None \<longleftrightarrow> \<not> gaffer_safe env s"
    using g assms(3) by (auto simp: memmove_at_exact(1) gaffer_safe_def lu word_layout)
  then show "check_gaffer_packet env data len s = None \<longleftrightarrow> gaffer_disabled env s = Some False \<and>
      artnet_universe env (lit ''GAFFER_UNIVERSE'') (lit ''GAFFER_SUBNET'') s = Some (schar (data ! hdr_SubUni)) \<and>
      \<not> gaffer_safe env s"
    using d n lu assms(4) by (cases "memmove_at l (gaffer_data s) (17 + l) data (u - l + 1)") (auto simp: check_gaffer_packet_def)
  show "check_gaffer_packet env data len s = Some t \<Longrightarrow> \<exists>g. t = s\<lparr>gaffer_data := g\<rparr> \<and> length g = sizeof_gaffer_data"
    using d n lu same assms(4) memmove_at_exact(2) [of l "gaffer_data s" "17 + l" data "u - l + 1"] g
    by (cases "memmove_at l (gaffer_data s) (17 + l) data (u - l + 1)")
      (auto simp: check_gaffer_packet_def split: if_splits)
qed

lemma replace_channel_exact:
  assumes "str2id_ok env" and "node_ok s" and "length data = sizeof_packet"
  shows "replace_channel_data env data s = None \<longleftrightarrow> gaffer_disabled env s = Some False \<and> \<not> gaffer_safe env s"
    and "replace_channel_data env data s = Some data' \<Longrightarrow> length data' = sizeof_packet"
proof -
  have web: "web_ok (g_web_config s)" and g: "length (gaffer_data s) = sizeof_gaffer_data"
    using assms(2) by (simp_all add: node_ok_def)
  obtain d where d: "gaffer_disabled env s = Some d" by (rule gaffer_disabled_total [OF assms(1) web])
  obtain l u where lu: "gaffer_bounds env s = Some (l, u)" by (rule gaffer_bounds_total [OF assms(1) web])
  have "memmove_at (17 + l) data l (gaffer_data s) (u - l + 1) = None \<longleftrightarrow> \<not> gaffer_safe env s"
    using g assms(3) by (auto simp: memmove_at_exact(1) gaffer_safe_def lu word_layout)
  then show "replace_channel_data env data s = None \<longleftrightarrow> gaffer_disabled env s = Some False \<and> \<not> gaffer_safe env s"
    using d lu by (cases d) (simp_all add: replace_channel_data_def)
  show "replace_channel_data env data s = Some data' \<Longrightarrow> length data' = sizeof_packet"
    using d lu assms(3) memmove_at_exact(2) [of "17 + l" data l "gaffer_data s" "u - l + 1" data']
    by (cases d) (auto simp: replace_channel_data_def)
qed

lemma dmx_exact:
  assumes "str2id_ok env" and "node_ok s" and "length raw = sizeof_packet" and "len \<le> int sizeof_packet"
    and dmx: "is_artnet raw" "50 < len" "raw ! 9 = 0x50" "artnet_enable s \<noteq> 0"
  shows "process_artnet_msg env raw len from' s = None \<longleftrightarrow> moves_channels env raw len s \<and> \<not> gaffer_safe env s"
    and "process_artnet_msg env raw len from' s = Some (raw', s') \<Longrightarrow> length raw' = sizeof_packet \<and> node_ok s' \<and>
      g_web_config s' = g_web_config s \<and> (outputs s' = outputs s \<or> (\<exists>m. outputs s' = outputs s @ [m]))"
proof -
  let ?r = "raw[7 := 0]"
  have raw7: "length ?r = sizeof_packet" "?r ! hdr_SubUni = raw ! hdr_SubUni" using assms(3) by (simp_all add: word_layout)
  have goal: "(process_artnet_msg env raw len from' s = None \<longleftrightarrow> moves_channels env raw len s \<and> \<not> gaffer_safe env s) \<and>
    (\<forall>raw' s'. process_artnet_msg env raw len from' s = Some (raw', s') \<longrightarrow> length raw' = sizeof_packet \<and> node_ok s' \<and>
      g_web_config s' = g_web_config s \<and> (outputs s' = outputs s \<or> (\<exists>m. outputs s' = outputs s @ [m])))"
  proof (cases "check_gaffer_packet env ?r len s")
    case None
    then show ?thesis using check_gaffer_exact(1) [OF assms(1,2) raw7(1) dmx(2)] raw7(2)
      by (simp add: process_dmx [OF dmx] moves_channels_def dmx)
  next
    case (Some t)
    obtain g where t: "t = s\<lparr>gaffer_data := g\<rparr>" "length g = sizeof_gaffer_data"
      using check_gaffer_exact(2) [OF assms(1,2) raw7(1) dmx(2) Some] by blast
    have ok: "node_ok t" using assms(2) t by (simp add: node_ok_def)
    have fr: "gaffer_disabled env t = gaffer_disabled env s" "gaffer_safe env t = gaffer_safe env s"
      "\<And>a b. artnet_universe env a b t = artnet_universe env a b s"
      using artnet_frame [of t s env] t(1) by (simp_all add: gaffer_safe_def)
    obtain n where n: "artnet_universe env (lit ''AKS_UNIVERSE'') (lit ''AKS_SUBNET'') s = Some n"
      using artnet_universe_total [OF assms(1), of s] assms(2) names_small(1,2) unfolding node_ok_def by metis
    have chk: "gaffer_disabled env s = Some False \<Longrightarrow>
        artnet_universe env (lit ''GAFFER_UNIVERSE'') (lit ''GAFFER_SUBNET'') s = Some (schar (raw ! hdr_SubUni)) \<Longrightarrow>
        gaffer_safe env s"
      using check_gaffer_exact(1) [OF assms(1,2) raw7(1) dmx(2)] Some raw7(2) by auto
    note rep = replace_channel_exact [OF assms(1) ok raw7(1)]
    show ?thesis
    proof (cases "n = uint (raw ! hdr_SubUni)")
      case False
      then show ?thesis using Some n fr chk ok raw7(1) t by (auto simp: process_dmx [OF dmx] moves_channels_def)
    next
      case True
      show ?thesis
      proof (cases "replace_channel_data env ?r t")
        case None
        then show ?thesis using Some n fr True rep(1) by (simp add: process_dmx [OF dmx] moves_channels_def dmx)
      next
        case (Some data)
        have len: "length data = sizeof_packet" by (rule rep(2) [OF Some])
        have safe: "gaffer_disabled env s = Some False \<Longrightarrow> gaffer_safe env s" using rep(1) Some fr by auto
        have "mem_get 0 (nat len) data = Some (take (nat len) data)" using len assms(4) by simp
        then have "process_artnet_msg env raw len from' s =
            Some (data, t\<lparr>outputs := outputs t @ [Uart (take (nat len) data)], dmx_count := dmx_count t + 1\<rparr>)"
          using \<open>check_gaffer_packet env ?r len s = Some t\<close> n fr(3) True Some
          by (simp add: process_dmx [OF dmx] del: mem_get_eq_Some)
        then show ?thesis using len ok t safe by (auto simp: node_ok_def moves_channels_def)
      qed
    qed
  qed
  then show "process_artnet_msg env raw len from' s = None \<longleftrightarrow> moves_channels env raw len s \<and> \<not> gaffer_safe env s"
    by blast
  show "process_artnet_msg env raw len from' s = Some (raw', s') \<Longrightarrow> length raw' = sizeof_packet \<and> node_ok s' \<and>
      g_web_config s' = g_web_config s \<and> (outputs s' = outputs s \<or> (\<exists>m. outputs s' = outputs s @ [m]))"
    using goal by blast
qed

section \<open>Properties\<close>

text \<open>
  C6. The Art-Net receive function leaves its buffers for exactly those datagrams that copy gaffer channels (an
  enabled DMX packet for the universe of the gaffer or of the node, with the gaffer on) while the channel range in the
  settings is neither empty nor inside the 514 bytes of \<open>gaffer_data\<close>, which nothing in the code ensures. For every
  other datagram it returns, keeps the configuration and the well-formedness of the node, and sends at most one message.
\<close>

theorem artnet_msg_safe:
  assumes "str2id_ok env" and "node_ok s" and "length raw = sizeof_packet" and "len \<le> int sizeof_packet"
  shows "(process_artnet_msg env raw len from' s = None \<longleftrightarrow> moves_channels env raw len s \<and> \<not> gaffer_safe env s) \<and>
    (\<forall>raw' s'. process_artnet_msg env raw len from' s = Some (raw', s') \<longrightarrow>
      length raw' = sizeof_packet \<and> node_ok s' \<and> g_web_config s' = g_web_config s \<and>
      (outputs s' = outputs s \<or> (\<exists>m. outputs s' = outputs s @ [m])))"
proof (cases "is_artnet raw \<and> 50 < len \<and> raw ! 9 = 0x50 \<and> artnet_enable s \<noteq> 0")
  case True
  then show ?thesis using dmx_exact [OF assms, of from'] by blast
next
  case False
  obtain ident where ident: "c_str (raw[7 := 0]) = Some ident" by (rule artnet_ident_total [OF assms(3)])
  have raw7: "length (raw[7 := 0]) = sizeof_packet" using assms(3) by simp
  have none: "\<not> moves_channels env raw len s" using False by (auto simp: moves_channels_def)
  show ?thesis
  proof (cases "is_artnet raw \<and> len \<le> 50 \<and> raw ! 9 = 0x20")
    case True
    let ?m = "poke apr_IP_Address (ipAddress s) (artpollreply_msg s)"
    have "length ?m = sizeof_artpollreply" using assms(2) by (simp add: node_ok_def word_layout)
    then show ?thesis using True process_poll [of raw len ?m s env from'] raw7 none assms(2) by (simp add: node_ok_def)
  next
    case other: False
    have "process_artnet_msg env raw len from' s = Some (raw[7 := 0], s)"
      by (intro process_ignored [OF ident]) (use False other in blast)
    then show ?thesis using none raw7 assms(2) by simp
  qed
qed

text \<open>
  An Art-Net poll (a datagram of at most 50 bytes with the Art-Net identification and the poll
  opcode) is answered with exactly one reply, sent to the poller's address at port 6454, that
  carries the node's current IP address.
\<close>

theorem poll_is_answered:
  assumes "node_ok s" and "is_artnet raw" and "len \<le> 50" and "raw ! 9 = 0x20"
  shows "\<exists>raw' s' msg. process_artnet_msg env raw len from' s = Some (raw', s') \<and>
    outputs s' = outputs s @ [Udp (reply_address from') msg] \<and> length msg = sizeof_artpollreply \<and>
    take 4 (drop apr_IP_Address msg) = ipAddress s \<and> g_web_config s' = g_web_config s"
proof -
  let ?m = "poke apr_IP_Address (ipAddress s) (artpollreply_msg s)"
  have "length ?m = sizeof_artpollreply" "take 4 (drop apr_IP_Address ?m) = ipAddress s"
    using assms(1) peek_poke_same [of apr_IP_Address "artpollreply_msg s" "ipAddress s"]
    by (simp_all add: node_ok_def word_layout)
  then show ?thesis using process_poll [OF assms(2-4), of ?m s env from'] by simp
qed

text \<open>
  C13. With the gaffer switched off, a DMX packet is handed to the SAMD exactly when output is
  enabled and its universe is the node's (subnet and universe combined), and it is handed on
  unchanged (byte 7, which ends the identification, is 0).
\<close>

theorem dmx_forwarded_iff_universe:
  assumes "str2id_ok env" and "node_ok s" and "gaffer_disabled env s = Some True"
    and "length raw = sizeof_packet" and "is_artnet raw" and "50 < len" and "len \<le> int sizeof_packet"
    and "raw ! 9 = 0x50"
    and "artnet_universe env (lit ''AKS_UNIVERSE'') (lit ''AKS_SUBNET'') s = Some n"
  shows "map_option (\<lambda>(raw', s'). outputs s') (process_artnet_msg env raw len from' s) =
    Some (outputs s @ (if artnet_enable s \<noteq> 0 \<and> n = uint (raw ! hdr_SubUni)
                       then [Uart (take (nat len) (raw[7 := 0]))] else []))"
proof (cases "artnet_enable s = 0")
  case True
  have "c_str (raw[7 := 0]) = Some (lit ''Art-Net'')" using assms(5) by (simp add: is_artnet_def)
  then have "process_artnet_msg env raw len from' s = Some (raw[7 := 0], s)"
    using True assms(6,8) by (intro process_ignored) auto
  then show ?thesis using True by simp
next
  case False
  have g: "check_gaffer_packet env (raw[7 := 0]) len s = Some s"
    using assms(3,6) by (simp add: check_gaffer_packet_def)
  have r: "replace_channel_data env (raw[7 := 0]) s = Some (raw[7 := 0])"
    using assms(3) by (simp add: replace_channel_data_def)
  have "mem_get 0 (nat len) (raw[7 := 0]) = Some (take (nat len) (raw[7 := 0]))"
    using assms(4,7) by simp
  then show ?thesis using process_dmx [OF assms(5,6,8) False, of env from'] g r False assms(9)
    by (simp del: mem_get_eq_Some)
qed

text \<open>
  C14. Merging: when the gaffer is on and a packet for the node's universe arrives that is not on
  the gaffer universe, the SAMD gets the packet with the channels from the lower to the upper
  bound replaced by the stored gaffer channels and every other byte unchanged.
\<close>

theorem gaffer_channels_merged:
  assumes "str2id_ok env" and "node_ok s" and "gaffer_ok env s" and "gaffer_disabled env s = Some False"
    and "gaffer_bounds env s = Some (l, u)" and "length raw = sizeof_packet" and "is_artnet raw"
    and "50 < len" and "len \<le> int sizeof_packet" and "raw ! 9 = 0x50" and "artnet_enable s \<noteq> 0"
    and "artnet_universe env (lit ''AKS_UNIVERSE'') (lit ''AKS_SUBNET'') s = Some (uint (raw ! hdr_SubUni))"
    and "artnet_universe env (lit ''GAFFER_UNIVERSE'') (lit ''GAFFER_SUBNET'') s = Some m"
    and "m \<noteq> uint (raw ! hdr_SubUni)"
  shows "\<exists>raw' s' sent. process_artnet_msg env raw len from' s = Some (raw', s') \<and>
    outputs s' = outputs s @ [Uart sent] \<and> length sent = nat len \<and>
    (\<forall>j < nat len. sent ! j = (if 17 + l \<le> int j \<and> int j \<le> 17 + u then gaffer_data s ! (j - 17)
                              else (raw[7 := 0]) ! j))"
proof -
  have raw': "length (raw[7 := 0]) = sizeof_packet" using assms(6) by simp
  obtain k where k: "artnet_universe env (lit ''GAFFER_UNIVERSE'') (lit ''GAFFER_SUBNET'') s = Some k" "0 \<le> k"
    using artnet_universe_total [OF assms(1), of s] assms(2) names_small(5,4) unfolding node_ok_def by metis
  have "m \<noteq> schar (raw ! hdr_SubUni)" using assms(13,14) k
    by (auto simp: schar_def uint_lt2p split: if_splits) (use uint_lt2p [of "raw ! hdr_SubUni"] in simp)
  then have g: "check_gaffer_packet env (raw[7 := 0]) len s = Some s"
    using assms(4,8,13) by (simp add: check_gaffer_packet_def hdr_SubUni_def)
  obtain data where data: "replace_channel_data env (raw[7 := 0]) s = Some data" "length data = sizeof_packet"
    "\<And>l u j. gaffer_disabled env s = Some False \<Longrightarrow> gaffer_bounds env s = Some (l, u) \<Longrightarrow> j < sizeof_packet \<Longrightarrow>
       data ! j = (if 17 + l \<le> int j \<and> int j \<le> 17 + u then gaffer_data s ! (j - 17) else (raw[7 := 0]) ! j)"
    by (rule replace_channel_step [OF assms(1-3) raw']) blast
  have get: "mem_get 0 (nat len) data = Some (take (nat len) data)" using assms(9) data(2) by simp
  have le: "nat len \<le> sizeof_packet" using assms(9) by simp
  let ?s = "s\<lparr>outputs := outputs s @ [Uart (take (nat len) data)], dmx_count := dmx_count s + 1\<rparr>"
  have "process_artnet_msg env raw len from' s = Some (data, ?s)"
    using process_dmx [OF assms(7,8,10,11), of env from'] g assms(12) data(1) get
    by (simp del: mem_get_eq_Some)
  moreover have "length (take (nat len) data) = nat len" using le data(2) by simp
  moreover have "take (nat len) data ! j = (if 17 + l \<le> int j \<and> int j \<le> 17 + u
      then gaffer_data s ! (j - 17) else (raw[7 := 0]) ! j)" if "j < nat len" for j
    using data(3) [OF assms(4,5), of j] le that by simp
  ultimately show ?thesis by fastforce
qed

text \<open>
  Capturing: a DMX packet on the gaffer universe replaces the stored gaffer channels from the
  lower to the upper bound by its own, and no others.
\<close>

theorem gaffer_channels_captured:
  assumes "node_ok s" and "gaffer_disabled env s = Some False" and "length data = sizeof_packet"
    and "gaffer_bounds env s = Some (l, u)" and "0 \<le> l" and "l \<le> u + 1" and "u \<le> 512" and "50 \<le> len"
    and "artnet_universe env (lit ''GAFFER_UNIVERSE'') (lit ''GAFFER_SUBNET'') s =
      Some (schar (data ! hdr_SubUni))"
  shows "\<exists>g. check_gaffer_packet env data len s = Some (s\<lparr>gaffer_data := g\<rparr>) \<and>
    (\<forall>j < sizeof_gaffer_data. g ! j =
       (if l \<le> int j \<and> int j \<le> u then data ! (17 + j) else gaffer_data s ! j))"
proof -
  have g: "length (gaffer_data s) = sizeof_gaffer_data" using assms(1) by (simp add: node_ok_def)
  let ?xs = "take (nat (u - l + 1)) (drop (nat (17 + l)) data)"
  let ?g = "poke (nat l) ?xs (gaffer_data s)"
  have m: "memmove_at l (gaffer_data s) (17 + l) data (u - l + 1) = Some ?g"
    using memmove_at_total [of l "17 + l" "u - l + 1" "gaffer_data s" data] assms(3,5,6,7) g
    by (simp add: word_layout)
  have xs: "length ?xs = nat (u - l + 1)" using assms(3,5,6,7) by (simp add: word_layout)
  have in_range: "nat l + length ?xs \<le> length (gaffer_data s)" using xs g assms(5-7) by (simp add: word_layout)
  have "?g ! j = (if l \<le> int j \<and> int j \<le> u then data ! (17 + j) else gaffer_data s ! j)"
    if j: "j < sizeof_gaffer_data" for j
  proof -
    have iff: "nat l \<le> j \<and> j < nat l + length ?xs \<longleftrightarrow> l \<le> int j \<and> int j \<le> u"
      using xs assms(5,6) by (auto simp: nat_le_iff)
    have "?xs ! (j - nat l) = data ! (17 + j)" if pre: "nat l \<le> j \<and> j < nat l + length ?xs"
    proof -
      obtain t where t: "j = nat l + t" using le_Suc_ex pre by blast
      then have "t < length ?xs" using pre by simp
      moreover have "17 + nat l \<le> length data" using assms(3,5,6,7) by (simp add: word_layout)
      ultimately show ?thesis using t assms(5) by (simp add: nat_add_distrib add.assoc)
    qed
    then show ?thesis using nth_poke [OF in_range, of j] iff j g by auto
  qed
  moreover have "check_gaffer_packet env data len s = Some (s\<lparr>gaffer_data := ?g\<rparr>)"
    using assms(2,4,8,9) m by (simp add: check_gaffer_packet_def)
  ultimately show ?thesis by blast
qed

text \<open>
  A gaffer universe above 127 is never recognised: the universe byte of the packet is compared
  as a signed \<open>char\<close>, so the stored gaffer channels never change.
\<close>

theorem high_gaffer_universe_ignored:
  assumes "str2id_ok env" and "node_ok s"
    and "artnet_universe env (lit ''GAFFER_UNIVERSE'') (lit ''GAFFER_SUBNET'') s = Some n" and "128 \<le> n"
  shows "check_gaffer_packet env data len s = Some s"
proof -
  have web: "web_ok (g_web_config s)" using assms(2) by (simp add: node_ok_def)
  obtain d where d: "gaffer_disabled env s = Some d" by (rule gaffer_disabled_total [OF assms(1) web])
  have "n \<noteq> schar (data ! hdr_SubUni)" using schar_bounds [of "data ! hdr_SubUni"] assms(4) by simp
  then show ?thesis using d assms(3) by (simp add: check_gaffer_packet_def)
qed

text \<open>
  With the gaffer on and an upper bound below the lower bound minus one, a DMX packet for the
  node's universe makes the copy run with a negative length: undefined behaviour.
\<close>

theorem bad_gaffer_bounds_undefined:
  assumes "gaffer_disabled env s = Some False" and "gaffer_bounds env s = Some (l, u)" and "u + 1 < l"
  shows "replace_channel_data env data s = None"
  using assms by (simp add: replace_channel_data_def memmove_at_def)

section \<open>The reply at start-up\<close>

lemma poke_poke_same: "i + length xs \<le> length m \<Longrightarrow> length ys = length xs \<Longrightarrow> poke i xs (poke i ys m) = poke i xs m"
  by (cases xs) (auto simp: poke_def min_def)

lemma init_reply_facts:
  assumes "ratpac_get_str (CFG_str2id env (lit ''AKS_NAME'')) (g_web_config s) (client_valid_num s) = Some (0, name)"
    and "is_cstr name" and "length name < 18" and "length (ipAddress s) = 4"
  obtains m h where "init_artpollreply_msg env s = Some (s\<lparr>artpollreply_msg := m, artnet_hdr_msg := h\<rparr>)"
    "length m = sizeof_artpollreply"
    "list_all (has_bytes m) [(0, lit ''Art-Net'' @ [0]), (apr_OpCode, [0x00, 0x21]),
       (apr_IP_Address, ipAddress s), (apr_Port, [0x36, 0x19]), (apr_EstaManLo, [0x51]),
       (apr_ShortName, name @ [0])]"
    "has_bytes m (apr_EstaManHi, [0])"
    "h = lit ''Art-Net'' @ [0, 0, 0x50, 0, 14, 0, 0, 0, 0, 2, 0]"
proof -
  define ws where "ws = [(0, lit ''Art-Net'' @ [0]), (apr_OpCode, [0x00, 0x21 :: byte]),
     (apr_IP_Address, ipAddress s), (apr_Port, [0x36, 0x19]), (apr_VersInfoH, [12]),
     (apr_VersInfoL, [18]), (apr_OemLo, [0xff]), (apr_EstaManLo, [0x51]), (apr_ShortName, name @ [0]),
     (apr_LongName, lit ''Ratpac AKS - Designed by Ratpac Dimmers'' @ [0]), (apr_NumPortsLo, [1]),
     (apr_PortTypes, [0x80]), (apr_GoodInput, [0x80, 0x08, 0x08, 0x08]), (apr_GoodOutput, [0x80]),
     (apr_Status2, [15])]"
  define hs where "hs = [(0, lit ''Art-Net'' @ [0]), (hdr_OpCode, [0, 0x50 :: byte]), (hdr_ProtVer, [0, 0xe]),
       (hdr_Length, [2, 0])]"
  let ?zm = "replicate sizeof_artpollreply (0 :: byte)" and ?zh = "replicate sizeof_artnet_hdr (0 :: byte)"
  have rm: "regions 0 ws (length ?zm)" unfolding ws_def using assms(3,4) by (simp add: word_layout)
  have h: "pokes hs ?zh = lit ''Art-Net'' @ [0, 0, 0x50, 0, 14, 0, 0, 0, 0, 2, 0]"
    by (simp add: hs_def word_layout poke_def lit_simps eval_nat_numeral)
  have init: "init_artpollreply_msg env s = Some (s\<lparr>artpollreply_msg := pokes ws ?zm, artnet_hdr_msg := pokes hs ?zh\<rparr>)"
    using assms(1,3,4)
    by (simp add: init_artpollreply_msg_def ws_def hs_def put_str_def mem_put_def word_layout poke_poke_same Let_def)
  have "has_bytes (pokes ws ?zm) (apr_EstaManHi, [0])"
    by (subst pokes_other [OF rm])
      (use assms(3,4) in \<open>auto simp: ws_def word_layout has_bytes_zero\<close>)
  then show thesis
    using pokes_has_bytes [OF rm] length_pokes [OF rm] h
    by (intro that [OF init]) (simp_all add: ws_def)
qed

text \<open>
  At start-up the poll reply is built without leaving its members: it carries the Art-Net
  identification, the node's address, port 6454 and its name; the header used for sACN data is
  that of an Art-Net DMX packet with 512 channels. The manufacturer code is wrong: its low
  byte is 0x51 and its high byte 0, because \<open>EstaManLo\<close> is assigned twice.
\<close>

theorem init_reply_contents:
  assumes "ratpac_get_str (CFG_str2id env (lit ''AKS_NAME'')) (g_web_config s) (client_valid_num s) = Some (0, name)"
    and "is_cstr name" and "length name < 18" and "length (ipAddress s) = 4"
  shows "\<exists>m h. init_artpollreply_msg env s = Some (s\<lparr>artpollreply_msg := m, artnet_hdr_msg := h\<rparr>) \<and>
    length m = sizeof_artpollreply \<and> str_at m 0 = Some (lit ''Art-Net'') \<and>
    take 4 (drop apr_IP_Address m) = ipAddress s \<and> take 2 (drop apr_Port m) = le16 6454 \<and>
    str_at m apr_ShortName = Some name \<and> m ! apr_EstaManLo = 0x51 \<and> m ! apr_EstaManHi = 0 \<and>
    h = lit ''Art-Net'' @ [0, 0, 0x50, 0, 14, 0, 0, 0, 0, 2, 0]"
proof -
  obtain m h where m: "init_artpollreply_msg env s = Some (s\<lparr>artpollreply_msg := m, artnet_hdr_msg := h\<rparr>)"
    "length m = sizeof_artpollreply"
    "list_all (has_bytes m) [(0, lit ''Art-Net'' @ [0]), (apr_OpCode, [0x00, 0x21]),
       (apr_IP_Address, ipAddress s), (apr_Port, [0x36, 0x19]), (apr_EstaManLo, [0x51]),
       (apr_ShortName, name @ [0])]"
    "has_bytes m (apr_EstaManHi, [0])" "h = lit ''Art-Net'' @ [0, 0, 0x50, 0, 14, 0, 0, 0, 0, 2, 0]"
    by (rule init_reply_facts [OF assms])
  have "is_cstr (lit ''Art-Net'')" by (simp add: lit_simps)
  then have str: "str_at m 0 = Some (lit ''Art-Net'')" "str_at m apr_ShortName = Some name"
    using m(3) assms(2) has_bytes_str [of m 0 "lit ''Art-Net''"] has_bytes_str [of m apr_ShortName name]
    by simp_all
  have "m ! apr_EstaManLo = 0x51" "m ! apr_EstaManHi = 0"
    using m(2-4) by (simp_all add: word_layout byte_has)
  moreover have "take 4 (drop apr_IP_Address m) = ipAddress s" "take 2 (drop apr_Port m) = le16 6454"
  proof -
    have "has_bytes m (apr_IP_Address, ipAddress s)" "has_bytes m (apr_Port, [0x36, 0x19])" using m(3) by simp_all
    moreover have "le16 6454 = [0x36, 0x19]" by (simp add: le16_def drop_bit_eq_div)
    ultimately show "take 4 (drop apr_IP_Address m) = ipAddress s" "take 2 (drop apr_Port m) = le16 6454"
      using assms(4) by (simp_all add: has_bytes_def numeral_2_eq_2)
  qed
  ultimately show ?thesis using m str by blast
qed

section \<open>Witnesses\<close>

text \<open>A node whose record is empty but for one one-character setting.\<close>

definition one_char_cfg :: "nat \<Rightarrow> byte \<Rightarrow> bytes" where
  "one_char_cfg i b = (replicate sizeof_WEB_DATA_T 0)[i := b]"

definition sample_node :: "nat \<Rightarrow> byte \<Rightarrow> bytes node_state" where
  "sample_node i b = \<lparr>g_web_config = one_char_cfg i b, user_flash = [], artnet_enable = 1,
     client_valid_num = 0, ipAddress = [10, 10, 100, 126], gaffer_data = replicate sizeof_gaffer_data 7,
     artpollreply_msg = replicate sizeof_artpollreply 0, artnet_hdr_msg = replicate sizeof_artnet_hdr 0,
     dmx_count = 0, outputs = []\<rparr>"

definition sample_packet :: "byte \<Rightarrow> byte \<Rightarrow> bytes" where
  "sample_packet opcode universe = lit ''Art-Net'' @ [0, 0, opcode, 0, 14, 0, 0, universe] @ replicate 623 9"

lemma one_char_str:
  assumes "Suc i < sizeof_WEB_DATA_T" and "off < sizeof_WEB_DATA_T" and "b \<noteq> 0"
  shows "str_at (one_char_cfg i b) off = Some (if off = i then [b] else [])"
proof -
  let ?m = "one_char_cfg i b"
  have len: "length ?m = sizeof_WEB_DATA_T" by (simp add: one_char_cfg_def)
  have step: "drop off ?m = ?m ! off # drop (Suc off) ?m"
    using assms(2) len by (simp add: Cons_nth_drop_Suc)
  have "drop (Suc i) ?m = ?m ! Suc i # drop (Suc (Suc i)) ?m"
    using assms(1) len by (simp add: Cons_nth_drop_Suc)
  then show ?thesis using assms step by (simp add: str_at_def one_char_cfg_def)
qed

lemma one_char_ok:
  assumes "f \<in> set str_fields" and "1 < fsize f" and "b \<noteq> 0"
  shows "web_ok (one_char_cfg (foff f) b)"
proof -
  have i: "Suc (foff f) < sizeof_WEB_DATA_T" using field_inside [of f] assms(2) by linarith
  have "case str_at (one_char_cfg (foff f) b) (foff g) of None \<Rightarrow> False | Some s \<Rightarrow> length s < fsize g"
    if g: "g \<in> set str_fields" for g
  proof -
    have pos: "0 < fsize g" by (cases g) simp_all
    then have "foff g < sizeof_WEB_DATA_T" using field_inside [of g] by linarith
    moreover have "foff g = foff f \<Longrightarrow> g = f" using fields_disjoint [of g f] assms(2) pos by fastforce
    ultimately show ?thesis using one_char_str [OF i _ assms(3), of "foff g"] pos assms(2)
      by (cases "foff g = foff f") simp_all
  qed
  then show ?thesis by (simp add: web_ok_def list_all_iff one_char_cfg_def)
qed

lemma sample_node_ok:
  "f \<in> set str_fields \<Longrightarrow> 1 < fsize f \<Longrightarrow> b \<noteq> 0 \<Longrightarrow> node_ok (sample_node (foff f) b)"
  using one_char_ok by (simp add: node_ok_def sample_node_def)

definition small_fields :: "(bytes \<times> wfield) list" where
  "small_fields = [(lit ''AKS_UNIVERSE'', W_universe), (lit ''AKS_SUBNET'', W_subnet),
     (lit ''GAFFER_ENABLE'', W_gaffer_enb), (lit ''GAFFER_SUBNET'', W_gaffer_sub),
     (lit ''GAFFER_UNIVERSE'', W_gaffer_univ), (lit ''GAFFER_LOWER'', W_gaffer_lower),
     (lit ''GAFFER_UPPER'', W_gaffer_upper)]"

lemma small_field_switch:
  assumes "str2id_ok env" and "(name, f) \<in> set small_fields"
  shows "\<exists>b. get_switch (CFG_str2id env name) = Some (f, b) \<and> (b = None \<or> b = Some 2)"
proof -
  have "list_all (\<lambda>(name, f). case get_switch (CFG_str2id env name) of None \<Rightarrow> False
      | Some (g, b) \<Rightarrow> g = f \<and> (b = None \<or> b = Some 2)) small_fields"
    using assms(1) by (simp add: str2id_ok_def cfg_userid_str_table_def small_fields_def get_switch_def
        get_cases_def cfg_ids)
  then show ?thesis using assms(2) by (fastforce simp: list_all_iff split: option.splits)
qed

lemma sample_buf:
  assumes "(name, f) \<in> set small_fields" and "Suc i < sizeof_WEB_DATA_T" and "b \<noteq> 0"
  shows "cfg_buf sample_env 4 name (sample_node i b) = Some (if foff f = i then [b] else [48])"
proof -
  obtain c where c: "get_switch (CFG_str2id sample_env name) = Some (f, c)" "c = None \<or> c = Some 2"
    using small_field_switch [OF sample_env_ok(2) assms(1)] by blast
  have "0 < fsize f" by (cases f) simp_all
  then have "foff f < sizeof_WEB_DATA_T" using field_inside [of f] by linarith
  then have "str_at (one_char_cfg i b) (foff f) = Some (if foff f = i then [b] else [])"
    by (rule one_char_str [OF assms(2) _ assms(3)])
  then show ?thesis using c by (auto simp: cfg_buf_def ratpac_get_str_def sample_node_def cut_def lit_simps)
qed

lemma sample_bufs:
  assumes "Suc i < sizeof_WEB_DATA_T" and "b \<noteq> 0"
  defines "v \<equiv> \<lambda>off. if off = i then [b] else [48]"
  shows "cfg_buf sample_env 4 (lit ''AKS_UNIVERSE'') (sample_node i b) = Some (v 21)"
    "cfg_buf sample_env 4 (lit ''AKS_SUBNET'') (sample_node i b) = Some (v 24)"
    "cfg_buf sample_env 4 (lit ''GAFFER_ENABLE'') (sample_node i b) = Some (v 39)"
    "cfg_buf sample_env 4 (lit ''GAFFER_SUBNET'') (sample_node i b) = Some (v 41)"
    "cfg_buf sample_env 4 (lit ''GAFFER_UNIVERSE'') (sample_node i b) = Some (v 44)"
    "cfg_buf sample_env 4 (lit ''GAFFER_LOWER'') (sample_node i b) = Some (v 47)"
    "cfg_buf sample_env 4 (lit ''GAFFER_UPPER'') (sample_node i b) = Some (v 51)"
  using assms(1,2) sample_buf [of "lit ''AKS_UNIVERSE''" W_universe i b] sample_buf [of "lit ''AKS_SUBNET''" W_subnet i b]
    sample_buf [of "lit ''GAFFER_ENABLE''" W_gaffer_enb i b] sample_buf [of "lit ''GAFFER_SUBNET''" W_gaffer_sub i b]
    sample_buf [of "lit ''GAFFER_UNIVERSE''" W_gaffer_univ i b] sample_buf [of "lit ''GAFFER_LOWER''" W_gaffer_lower i b]
    sample_buf [of "lit ''GAFFER_UPPER''" W_gaffer_upper i b]
  by (simp_all add: small_fields_def v_def)

lemma atoi_digit: "is_digit d \<Longrightarrow> atoi [d] = uint d - 48"
  using uint_lt2p [of d] digit_facts [of d] by (simp add: atoi_def clamp32_def is_digit_def word_le_def)

lemma sample_settings:
  assumes "Suc i < sizeof_WEB_DATA_T" and "is_digit b"
  defines "v \<equiv> \<lambda>off. if off = i then uint b - 48 else 0"
  shows "artnet_universe sample_env (lit ''AKS_UNIVERSE'') (lit ''AKS_SUBNET'') (sample_node i b) =
      Some ((v 21 OR push_bit 4 (v 24)) AND 0xff)"
    "artnet_universe sample_env (lit ''GAFFER_UNIVERSE'') (lit ''GAFFER_SUBNET'') (sample_node i b) =
      Some ((v 44 OR push_bit 4 (v 41)) AND 0xff)"
    "gaffer_disabled sample_env (sample_node i b) = Some (i = 39 \<and> b = 49)"
    "gaffer_bounds sample_env (sample_node i b) = Some (v 47, v 51)"
  using sample_bufs [OF assms(1) digit_facts(4) [OF assms(2)]] atoi_digit [OF assms(2)] atoi_digit [of 48]
  by (auto simp: artnet_universe_def gaffer_disabled_def gaffer_bounds_def v_def is_digit_def)

lemma sample_packet_facts:
  "length (sample_packet opc u) = sizeof_packet" "is_artnet (sample_packet opc u)"
  "sample_packet opc u ! 9 = opc" "sample_packet opc u ! hdr_SubUni = u"
proof -
  have p: "sample_packet opc u = [65, 114, 116, 45, 78, 101, 116, 0, 0, opc, 0, 14, 0, 0, u] @ replicate 623 9"
    by (simp add: sample_packet_def lit_simps)
  show "length (sample_packet opc u) = sizeof_packet" "sample_packet opc u ! 9 = opc"
    "sample_packet opc u ! hdr_SubUni = u" by (simp_all add: p word_layout)
  show "is_artnet (sample_packet opc u)" by (simp add: p is_artnet_def lit_simps)
qed

lemma digits: "is_digit 48" "is_digit 49" "is_digit 53" "is_digit 56"
  by (simp_all add: is_digit_def)

lemma sample_oks:
  "node_ok (sample_node 39 49)" "node_ok (sample_node 44 49)" "node_ok (sample_node 41 56)"
  "node_ok (sample_node 51 53)"
  using sample_node_ok [of W_gaffer_enb 49] sample_node_ok [of W_gaffer_univ 49]
    sample_node_ok [of W_gaffer_sub 56] sample_node_ok [of W_gaffer_upper 53]
  by (simp_all add: set_str_fields)

lemma in_record: "Suc 39 < sizeof_WEB_DATA_T" "Suc 44 < sizeof_WEB_DATA_T" "Suc 41 < sizeof_WEB_DATA_T"
  "Suc 47 < sizeof_WEB_DATA_T" "Suc 51 < sizeof_WEB_DATA_T"
  by (simp_all add: sizeof_WEB_DATA_T_def)

lemmas settings_39 = sample_settings [OF in_record(1) digits(2), simplified]
lemmas settings_44 = sample_settings [OF in_record(2) digits(2), simplified]
lemmas settings_41 = sample_settings [OF in_record(3) digits(4), simplified]
lemmas settings_47 = sample_settings [OF in_record(4) digits(3), simplified]
lemmas settings_51 = sample_settings [OF in_record(5) digits(3), simplified]

theorem artnet_msg_safe_witness:
  "\<exists>raw' s'. process_artnet_msg sample_env (sample_packet 0x50 0) 530 zero_sockaddr (sample_node 39 49) =
     Some (raw', s') \<and> node_ok s'"
proof -
  have "\<not> moves_channels sample_env (sample_packet 0x50 0) 530 (sample_node 39 49)"
    by (simp add: moves_channels_def settings_39)
  with artnet_msg_safe [where len = 530 and from' = zero_sockaddr,
      OF sample_env_ok(2) sample_oks(1) sample_packet_facts(1) [of "0x50" 0]]
  have "process_artnet_msg sample_env (sample_packet 0x50 0) 530 zero_sockaddr (sample_node 39 49) \<noteq> None"
    "\<And>r t. process_artnet_msg sample_env (sample_packet 0x50 0) 530 zero_sockaddr (sample_node 39 49) = Some (r, t) \<Longrightarrow> node_ok t"
    by (auto simp: sizeof_packet_def)
  then show ?thesis by fastforce
qed

theorem poll_is_answered_witness:
  "\<exists>raw' s' msg. process_artnet_msg sample_env (sample_packet 0x20 0) 14 zero_sockaddr (sample_node 39 49) =
     Some (raw', s') \<and> outputs s' = [Udp (reply_address zero_sockaddr) msg]"
proof -
  have "outputs (sample_node 39 49) = []" by (simp add: sample_node_def)
  then show ?thesis
    using poll_is_answered [where len = 14 and env = sample_env and from' = zero_sockaddr,
        OF sample_oks(1) sample_packet_facts(2) [of "0x20" 0] _ sample_packet_facts(3)] by auto
qed

theorem dmx_forwarded_iff_universe_witness:
  "map_option (\<lambda>(raw', s'). outputs s')
     (process_artnet_msg sample_env (sample_packet 0x50 0) 530 zero_sockaddr (sample_node 39 49)) =
   Some [Uart (take 530 ((sample_packet 0x50 0)[7 := 0]))]"
proof -
  have n: "artnet_universe sample_env (lit ''AKS_UNIVERSE'') (lit ''AKS_SUBNET'') (sample_node 39 49) = Some 0"
    by (simp add: settings_39)
  have d: "gaffer_disabled sample_env (sample_node 39 49) = Some True" by (simp add: settings_39)
  have s: "outputs (sample_node 39 49) = []" "artnet_enable (sample_node 39 49) = 1"
    by (simp_all add: sample_node_def)
  show ?thesis
    using dmx_forwarded_iff_universe [where len = 530 and from' = zero_sockaddr,
        OF sample_env_ok(2) sample_oks(1) d sample_packet_facts(1,2) [of "0x50" 0] _ _ sample_packet_facts(3) n]
      s sample_packet_facts(4) [of "0x50" 0]
    by (simp add: sizeof_packet_def)
qed

theorem gaffer_channels_merged_witness:
  "\<exists>raw' s' sent. process_artnet_msg sample_env (sample_packet 0x50 0) 530 zero_sockaddr (sample_node 44 49) =
     Some (raw', s') \<and> outputs s' = [Uart sent] \<and> sent ! 17 = 7 \<and> sent ! 18 = 9"
proof -
  let ?s = "sample_node 44 49"
  have a: "gaffer_disabled sample_env ?s = Some False" "gaffer_bounds sample_env ?s = Some (0, 0)"
    "artnet_universe sample_env (lit ''GAFFER_UNIVERSE'') (lit ''GAFFER_SUBNET'') ?s = Some 1"
    "artnet_universe sample_env (lit ''AKS_UNIVERSE'') (lit ''AKS_SUBNET'') ?s = Some 0"
    by (simp_all add: settings_44)
  have ok: "gaffer_ok sample_env ?s" by (simp add: gaffer_ok_def a)
  have s: "outputs ?s = []" "artnet_enable ?s \<noteq> 0" "gaffer_data ?s ! 0 = 7"
    by (simp_all add: sample_node_def sizeof_gaffer_data_def)
  have "sample_packet 0x50 0 ! 18 = 9" by (simp add: sample_packet_def lit_simps)
  moreover have "\<exists>raw' s' sent. process_artnet_msg sample_env (sample_packet 0x50 0) 530 zero_sockaddr ?s =
      Some (raw', s') \<and> outputs s' = outputs ?s @ [Uart sent] \<and> length sent = nat 530 \<and>
      (\<forall>j < nat 530. sent ! j = (if 17 + 0 \<le> int j \<and> int j \<le> 17 + 0 then gaffer_data ?s ! (j - 17)
         else ((sample_packet 0x50 0)[7 := 0]) ! j))"
    by (rule gaffer_channels_merged [OF sample_env_ok(2) sample_oks(2) ok a(1,2) sample_packet_facts(1,2) _ _
        sample_packet_facts(3) s(2) _ a(3)])
      (simp_all add: a(4) sample_packet_facts(4) sizeof_packet_def)
  ultimately show ?thesis using s by fastforce
qed

theorem gaffer_channels_captured_witness:
  "\<exists>g. check_gaffer_packet sample_env (sample_packet 0x50 0) 530 (sample_node 51 53) =
     Some ((sample_node 51 53)\<lparr>gaffer_data := g\<rparr>) \<and> g ! 5 = 9 \<and> g ! 6 = 7"
proof -
  let ?s = "sample_node 51 53"
  have a: "gaffer_disabled sample_env ?s = Some False" "gaffer_bounds sample_env ?s = Some (0, 5)"
    by (simp_all add: settings_51)
  have u: "artnet_universe sample_env (lit ''GAFFER_UNIVERSE'') (lit ''GAFFER_SUBNET'') ?s =
      Some (schar (sample_packet 0x50 0 ! hdr_SubUni))"
    by (simp add: settings_51 sample_packet_facts(4) schar_def)
  have v: "sample_packet 0x50 0 ! 22 = 9" by (simp add: sample_packet_def lit_simps)
  have w: "gaffer_data ?s ! 6 = 7" by (simp add: sample_node_def sizeof_gaffer_data_def)
  have "\<exists>g. check_gaffer_packet sample_env (sample_packet 0x50 0) 530 ?s = Some (?s\<lparr>gaffer_data := g\<rparr>) \<and>
      (\<forall>j < sizeof_gaffer_data. g ! j =
         (if 0 \<le> int j \<and> int j \<le> 5 then sample_packet 0x50 0 ! (17 + j) else gaffer_data ?s ! j))"
    by (rule gaffer_channels_captured [OF sample_oks(4) a(1) sample_packet_facts(1) a(2) _ _ _ _ u]) simp_all
  then show ?thesis using v w by (fastforce simp: sizeof_gaffer_data_def)
qed

theorem high_gaffer_universe_ignored_witness:
  "check_gaffer_packet sample_env (sample_packet 0x50 128) 530 (sample_node 41 56) = Some (sample_node 41 56)"
proof -
  have "artnet_universe sample_env (lit ''GAFFER_UNIVERSE'') (lit ''GAFFER_SUBNET'') (sample_node 41 56) = Some 128"
    by (simp add: settings_41)
  from high_gaffer_universe_ignored [OF sample_env_ok(2) sample_oks(3) this] show ?thesis by simp
qed

theorem bad_gaffer_bounds_undefined_witness:
  "replace_channel_data sample_env (sample_packet 0x50 0) (sample_node 47 53) = None"
  by (rule bad_gaffer_bounds_undefined [of _ _ 5 0]) (simp_all add: settings_47)

theorem init_reply_contents_witness:
  "\<exists>m h. init_artpollreply_msg sample_env (sample_node 39 49) =
     Some ((sample_node 39 49)\<lparr>artpollreply_msg := m, artnet_hdr_msg := h\<rparr>) \<and>
     str_at m apr_ShortName = Some (lit ''0'') \<and> m ! apr_EstaManLo = 0x51 \<and> m ! apr_EstaManHi = 0"
proof -
  have "str_at (one_char_cfg 39 49) (foff W_name) = Some []"
    using one_char_str [OF in_record(1), of 1 49] by (simp add: sizeof_WEB_DATA_T_def)
  then have name: "ratpac_get_str (CFG_str2id sample_env (lit ''AKS_NAME'')) (g_web_config (sample_node 39 49))
      (client_valid_num (sample_node 39 49)) = Some (0, lit ''0'')"
    by (simp add: str2idD(1) [OF sample_env_ok(2)] ratpac_get_str_def get_switch_def get_cases_def
        sample_node_def cut_def)
  from init_reply_contents [OF name] show ?thesis
    by (simp add: sample_node_def lit_simps) blast
qed

end
