(* ===== verification/Receiver.thy ===== *)
theory Receiver
  imports Main
begin

text \<open>
  The contract of the parts of the firmware that react to messages one after the other, such as the datagrams of the
  lighting protocols: on a state in which the invariant holds a message that satisfies the interface's assumption is handled
  without leaving any buffer, the invariant holds again, and at most one output is appended.
\<close>

fun run :: "('m \<Rightarrow> 's \<Rightarrow> 's option) \<Rightarrow> 'm list \<Rightarrow> 's \<Rightarrow> 's option" where
  "run handle [] s = Some s"
| "run handle (m # ms) s = (case handle m s of None \<Rightarrow> None | Some s' \<Rightarrow> run handle ms s')"

lemma run_append: "run handle (ms @ ns) s = (case run handle ms s of None \<Rightarrow> None | Some s' \<Rightarrow> run handle ns s')"
  by (induction ms arbitrary: s) (auto split: option.splits)

locale receiver =
  fixes handle :: "'m \<Rightarrow> 's \<Rightarrow> 's option" and inv :: "'s \<Rightarrow> bool" and ok :: "'m \<Rightarrow> bool"
    and outs :: "'s \<Rightarrow> 'o list"
  assumes safe: "inv s \<Longrightarrow> ok m \<Longrightarrow> \<exists>s'. handle m s = Some s' \<and> inv s'"
    and one_output: "inv s \<Longrightarrow> ok m \<Longrightarrow> handle m s = Some s' \<Longrightarrow>
      outs s' = outs s \<or> (\<exists>x. outs s' = outs s @ [x])"
begin

lemma run_safe:
  assumes "inv s" and "list_all ok ms"
  shows "\<exists>s' xs. run handle ms s = Some s' \<and> inv s' \<and> outs s' = outs s @ xs \<and> length xs \<le> length ms"
  using assms
proof (induction ms arbitrary: s)
  case Nil
  then show ?case by simp
next
  case (Cons m ms)
  then have m: "inv s" "ok m" and ms: "list_all ok ms" by simp_all
  obtain s1 where s1: "handle m s = Some s1" "inv s1" using safe [OF m] by blast
  obtain s2 xs where s2: "run handle ms s1 = Some s2" "inv s2" "outs s2 = outs s1 @ xs" "length xs \<le> length ms"
    using Cons.IH [OF s1(2) ms] by blast
  show ?case
  proof (cases "outs s1 = outs s")
    case True
    then show ?thesis using s1 s2 by (intro exI [of _ s2] exI [of _ xs]) simp
  next
    case False
    then obtain x where "outs s1 = outs s @ [x]" using one_output [OF m s1(1)] by blast
    then show ?thesis using s1 s2 by (intro exI [of _ s2] exI [of _ "x # xs"]) simp
  qed
qed

text \<open>What has been sent is never taken back.\<close>

lemma run_extends:
  assumes "inv s" and "list_all ok ms" and "run handle ms s = Some s'"
  shows "take (length (outs s)) (outs s') = outs s"
  using run_safe [OF assms(1,2)] assms(3) by auto

end

end
