(* ===== verification/Sacn.thy ===== *)
theory Sacn
  imports ArtNet Receiver
begin

text \<open>
  The thread that receives the lighting data, \<open>sACN_main\<close> of \<^verbatim>\<open>src/user/e131.c\<close>: it speaks
  Art-Net or E1.31 as the configuration says and hands DMX data to the SAMD.

  The thread is a step relation on its program point and its state. The static packet buffer is
  part of the state: a datagram shorter than the one before leaves the end of the old one in it.
  What it prints with \<open>aks_printf\<close> goes out on the UART of the SAMD and is an output like the DMX data.
  The socket calls of the operating system are parameters (\<open>sock_ops\<close>); as in the source, a failure is
  printed and the thread goes on. \<open>bound_port\<close> is the port of a successful \<open>bind\<close>, \<open>joined\<close> lists the
  successful joins.
\<close>

record sock_ops =
  os_socket :: int
  os_bind :: "int \<Rightarrow> sockaddr_in \<Rightarrow> int"
  os_setsockopt :: "int \<Rightarrow> u32 \<Rightarrow> u32 \<Rightarrow> int"

record 'fl sacn_state = "'fl node_state" +
  packet :: bytes
  last_seq :: byte
  sockfd :: int
  bound_port :: "u16 option"
  joined :: "(u32 \<times> u32) list"

text \<open>The local variables after the set-up: the first character of the protocol setting, and the
  universe, which is only set for protocol 1.\<close>

datatype sacn_point = Starting | Waiting_for_address byte u16 | Receiving byte "u16 option"

section \<open>Messages\<close>

text \<open>The text is formatted in \<open>e131_print_buffer\<close>, which has 128 bytes.\<close>

definition aks_printf :: "bytes \<Rightarrow> ('fl, 'z) node_state_scheme \<Rightarrow> ('fl, 'z) node_state_scheme option" where
  "aks_printf text s = (if length text < 128 then Some (s\<lparr>outputs := outputs s @ [Uart text]\<rparr>) else None)"

primrec print_texts :: "bytes list \<Rightarrow> ('fl, 'z) node_state_scheme \<Rightarrow> ('fl, 'z) node_state_scheme option" where
  "print_texts [] s = Some s"
| "print_texts (t # ts) s = do { s \<leftarrow> aks_printf t s; print_texts ts s }"

definition validate_text :: "e131_error \<Rightarrow> bytes" where
  "validate_text e = lit ''e131_pkt_validate: '' @ e131_strerror e @ [10]"

definition discard_text :: bytes where
  "discard_text = lit ''warning: packet out of order received'' @ [10]"

definition waiting_text :: bytes where
  "waiting_text = lit ''waiting for E1.31 packets ...'' @ [10]"

definition join_text :: "int \<Rightarrow> bytes" where
  "join_text rc = lit ''rc = '' @ dec_int rc @ lit '', e131_multicast_join''"

section \<open>One datagram\<close>

definition sacn_receive ::
    "('fl, 'e) node_env_scheme \<Rightarrow> byte \<Rightarrow> u16 option \<Rightarrow> (int + bytes) \<times> sockaddr_in \<Rightarrow>
     ('fl, 'z) sacn_state_scheme \<Rightarrow> ('fl, 'z) sacn_state_scheme option" where
  "sacn_receive env proto sacn_univ m s =
    (case e131_recv (fst m) (Some (packet s)) of
       Inl _ \<Rightarrow> Some s
     | Inr (rcv_len, pkt) \<Rightarrow>
        let s = s\<lparr>packet := pkt\<rparr> in
        if rcv_len \<le> 0 then Some s
        else if proto = 48 then do {
          (raw, s) \<leftarrow> process_artnet_msg env pkt rcv_len (snd m) s;
          Some (s\<lparr>packet := raw\<rparr>) }
        else if e131_pkt_validate (Some pkt) \<noteq> E131_ERR_NONE
        then aks_printf (validate_text (e131_pkt_validate (Some pkt))) s
        else if e131_pkt_discard (Some pkt) (last_seq s) then do {
          s \<leftarrow> aks_printf discard_text s;
          Some (s\<lparr>last_seq := pkt ! frame_seq_number\<rparr>) }
        else do {
          u \<leftarrow> sacn_univ;
          if ld16 pkt frame_universe \<noteq> htons u then Some s
          else
            let s = s\<lparr>last_seq := pkt ! frame_seq_number\<rparr> in
            if pkt ! dmp_prop_val \<noteq> 0 then Some s
            else do {
              (pkt, s) \<leftarrow> send_artnet_header env (last_seq s) pkt (dmp_prop_val + 1)
                (int (unat (htons (ld16 pkt dmp_prop_val_cnt))) - 1) s;
              Some (s\<lparr>packet := pkt\<rparr>) } })"

section \<open>The thread\<close>

definition sacn_open :: "sock_ops \<Rightarrow> u16 \<Rightarrow> ('fl, 'z) sacn_state_scheme \<Rightarrow> ('fl, 'z) sacn_state_scheme option" where
  "sacn_open ops udp_port s = do {
     let fd = os_socket ops;
     s \<leftarrow> (if fd < 0 then aks_printf (lit ''e131_socket'' @ [10]) s else Some s);
     let (rc, texts) = e131_bind (os_bind ops) fd udp_port;
     s \<leftarrow> print_texts texts s;
     s \<leftarrow> (if rc < 0 then aks_printf (lit ''e131_bind'') s else Some s);
     Some (s\<lparr>sockfd := fd, bound_port := if rc < 0 then None else Some udp_port\<rparr>) }"

definition sacn_start :: "('fl, 'e) node_env_scheme \<Rightarrow> sock_ops \<Rightarrow> 'fl sacn_state \<Rightarrow> (sacn_point \<times> 'fl sacn_state) option" where
  "sacn_start env ops s = do {
     (_, temp_buf) \<leftarrow> ratpac_get_str CFG_PROTNAME (g_web_config s) (client_valid_num s);
     if 4 \<le> length temp_buf then None
     else do {
       s \<leftarrow> init_artpollreply_msg env s;
       let proto = hd (temp_buf @ [0]);
       s \<leftarrow> sacn_open ops (if proto = 49 then E131_DEFAULT_PORT else ARTNET_DEFAULT_PORT) s;
       if proto = 49
       then do {
         (_, sacn_univ_buff) \<leftarrow> ratpac_get_str CFG_SACN_UNIV (g_web_config s) (client_valid_num s);
         if 8 \<le> length sacn_univ_buff then None
         else Some (Waiting_for_address proto (word_of_int (atoi sacn_univ_buff)), s) }
       else do {
         s \<leftarrow> aks_printf waiting_text s;
         Some (Receiving proto None, s) } } }"

definition sacn_join :: "sock_ops \<Rightarrow> byte \<Rightarrow> u16 \<Rightarrow> 'fl sacn_state \<Rightarrow> (sacn_point \<times> 'fl sacn_state) option" where
  "sacn_join ops proto sacn_univ s = do {
     let rc = (case e131_multicast_join (os_setsockopt ops (sockfd s)) (ipAddress s) sacn_univ of Inl _ \<Rightarrow> -1 | Inr rc \<Rightarrow> rc);
     s \<leftarrow> (if rc < 0 then aks_printf (join_text rc) s
       else Some (s\<lparr>joined := joined s @ [(htonl (0xefff0000 OR ucast sacn_univ), interface_word (ipAddress s))]\<rparr>));
     s \<leftarrow> aks_printf waiting_text s;
     Some (Receiving proto (Some sacn_univ), s) }"

text \<open>The address of the node is set by another thread at any time.\<close>

inductive sacn_step ::
    "('fl, 'e) node_env_scheme \<Rightarrow> sock_ops \<Rightarrow>
     sacn_point \<times> 'fl sacn_state \<Rightarrow> sacn_point \<times> 'fl sacn_state \<Rightarrow> bool"
  for env ops where
  start: "sacn_start env ops s = Some c \<Longrightarrow> sacn_step env ops (Starting, s) c"
| wait: "ipAddress s ! 0 = 0 \<Longrightarrow> ipAddress s ! 1 = 0 \<Longrightarrow>
    sacn_step env ops (Waiting_for_address p u, s) (Waiting_for_address p u, s)"
| address_set: "length ip = 4 \<Longrightarrow> sacn_step env ops (pt, s) (pt, s\<lparr>ipAddress := ip\<rparr>)"
| join: "\<not> (ipAddress s ! 0 = 0 \<and> ipAddress s ! 1 = 0) \<Longrightarrow> sacn_join ops p u s = Some c \<Longrightarrow>
    sacn_step env ops (Waiting_for_address p u, s) c"
| receive: "sacn_receive env p u m s = Some t \<Longrightarrow>
    sacn_step env ops (Receiving p u, s) (Receiving p u, t)"

inductive_cases sacn_stepE: "sacn_step env ops (pt, s) (pt', s')"

inductive sacn_reachable for env ops s0 where
  init: "sacn_reachable env ops s0 (Starting, s0)"
| step: "sacn_reachable env ops s0 c \<Longrightarrow> sacn_step env ops c c' \<Longrightarrow>
    sacn_reachable env ops s0 c'"

section \<open>The invariant\<close>

definition dmx_header :: "byte \<Rightarrow> bytes" where
  "dmx_header seq = lit ''Art-Net'' @ [0, 0, 0x50, 0, 14, seq, 0, 0, 0, 2, 0]"

definition sacn_ok :: "('fl, 'z) sacn_state_scheme \<Rightarrow> bool" where
  "sacn_ok s \<longleftrightarrow> node_ok s \<and> length (packet s) = sizeof_packet \<and>
     (\<exists>q. artnet_hdr_msg s = dmx_header q)"

text \<open>\<open>recvfrom\<close> reports an error by a value that is not positive.\<close>

definition recv_ok :: "(int + bytes) \<times> sockaddr_in \<Rightarrow> bool" where
  "recv_ok m = (case fst m of Inl rc \<Rightarrow> rc \<le> 0 | Inr d \<Rightarrow> True)"

text \<open>A datagram as a conforming sender makes it: it holds the count, which is at most 513.\<close>

definition count_ok :: "(int + bytes) \<times> sockaddr_in \<Rightarrow> bool" where
  "count_ok m = (case fst m of Inl rc \<Rightarrow> rc \<le> 0
     | Inr d \<Rightarrow> dmp_prop_val \<le> length d \<and> unat (htons (ld16 d dmp_prop_val_cnt)) \<le> sizeof_prop_val)"

lemma length_dmx_header: "length (dmx_header q) = sizeof_artnet_hdr"
  by (simp add: dmx_header_def word_layout)

lemma header_update: "(dmx_header q)[hdr_Sequence := r] = dmx_header r"
  by (simp add: dmx_header_def word_layout lit_simps)

lemma send_header_facts:
  assumes "artnet_hdr_msg s = dmx_header q" and "length pkt = sizeof_packet" and "cnt \<le> sizeof_prop_val"
  shows "\<exists>pkt' k. send_artnet_header env seq pkt (dmp_prop_val + 1) (int cnt - 1) s =
      Some (pkt', s\<lparr>artnet_hdr_msg := dmx_header seq,
        outputs := outputs s @ [Uart (take (17 + cnt) (dmx_header seq @ drop (dmp_prop_val + 1) pkt))],
        dmx_count := k\<rparr>) \<and> length pkt' = sizeof_packet"
proof -
  let ?h = "dmx_header seq" and ?p = "poke 108 (dmx_header seq) pkt"
  have len: "length pkt = 638" "length ?h = 18" "cnt \<le> 513"
    using assms(2,3) length_dmx_header [of seq] by (simp_all add: word_layout)
  have put: "mem_put 108 ?h pkt = Some ?p" using len by simp
  have tail: "drop 108 ?p = ?h @ drop 126 pkt" using len by (simp add: poke_def)
  have get: "mem_get 108 (17 + cnt) ?p = Some (take (17 + cnt) (?h @ drop 126 pkt))"
    using len by (simp add: tail)
  have off: "dmp_prop_val + 1 - sizeof_artnet_hdr = 108" "nat (int sizeof_artnet_hdr + (int cnt - 1)) = 17 + cnt"
    by (simp_all add: word_layout)
  have "length ?p = sizeof_packet" using len by (simp add: word_layout)
  moreover let ?k = "if hfuart_send env (take (17 + cnt) (?h @ drop 126 pkt)) = 17 + int cnt
    then dmx_count s + 1 else dmx_count s"
  have "send_artnet_header env seq pkt (dmp_prop_val + 1) (int cnt - 1) s =
      Some (?p, s\<lparr>artnet_hdr_msg := ?h, outputs := outputs s @ [Uart (take (17 + cnt) (?h @ drop 126 pkt))],
        dmx_count := ?k\<rparr>)"
    unfolding send_artnet_header_def assms(1) header_update off Let_def
    using put get by (simp add: sizeof_artnet_hdr_def del: take_append mem_put_eq_Some mem_get_eq_Some)
  moreover have "dmp_prop_val + 1 = 126" by (simp add: word_layout)
  ultimately show ?thesis by (simp only: simp_thms) blast
qed

lemma dmx_header_at: "17 \<le> n \<Longrightarrow> take (Suc n) (dmx_header q @ xs) = dmx_header q @ take (n - 17) xs"
  using length_dmx_header [of q] by (simp add: word_layout)

lemma send_header_overread:
  assumes "artnet_hdr_msg s = dmx_header q" and "length pkt = sizeof_packet" and "513 < cnt"
  shows "send_artnet_header env seq pkt (dmp_prop_val + 1) (int cnt - 1) s = None"
proof -
  have len: "length pkt = 638" "length (dmx_header seq) = 18"
    using assms(2) length_dmx_header [of seq] by (simp_all add: word_layout)
  have off: "dmp_prop_val + 1 - sizeof_artnet_hdr = 108" "nat (int sizeof_artnet_hdr + (int cnt - 1)) = 17 + cnt"
    by (simp_all add: word_layout)
  have none: "mem_get 108 (17 + cnt) (poke 108 (dmx_header seq) pkt) = None"
    and put: "mem_put 108 (dmx_header seq) pkt = Some (poke 108 (dmx_header seq) pkt)"
    using assms(3) len by simp_all
  show ?thesis unfolding send_artnet_header_def assms(1) header_update Let_def off put by (simp add: none)
qed

text \<open>What remains of the packet buffer when a datagram arrives.\<close>

definition received :: "bytes \<Rightarrow> ('fl, 'z) sacn_state_scheme \<Rightarrow> bytes" where
  "received d s = take sizeof_packet d @ drop (length d) (packet s)"

lemma recv_received:
  "e131_recv (Inr d) (Some (packet s)) = Inr (int (length (take sizeof_packet d)), poke 0 (take sizeof_packet d) (packet s))"
  by (simp add: e131_recv_def Let_def)

lemma poke_received:
  "length (packet s) = sizeof_packet \<Longrightarrow> poke 0 (take sizeof_packet d) (packet s) = received d s"
  by (cases "length d \<le> sizeof_packet") (simp_all add: poke_def received_def)

lemma length_received: "length (packet s) = sizeof_packet \<Longrightarrow> length (received d s) = sizeof_packet"
  by (simp add: received_def)

lemma received_count:
  assumes "dmp_prop_val \<le> length d"
  shows "ld16 (received d s) dmp_prop_val_cnt = ld16 d dmp_prop_val_cnt"
  using assms by (simp add: ld16_def received_def nth_append word_layout)

lemma strerror_short: "length (e131_strerror e) \<le> 60"
  by (cases e) (simp_all add: lit_simps)

lemma printed_texts:
  "aks_printf (validate_text e) s = Some (s\<lparr>outputs := outputs s @ [Uart (validate_text e)]\<rparr>)"
  "aks_printf discard_text s = Some (s\<lparr>outputs := outputs s @ [Uart discard_text]\<rparr>)"
  "aks_printf waiting_text s = Some (s\<lparr>outputs := outputs s @ [Uart waiting_text]\<rparr>)"
  using strerror_short [of e] by (simp_all add: aks_printf_def validate_text_def discard_text_def waiting_text_def lit_simps)

lemma sacn_receive_e131:
  assumes "sacn_ok s" and "proto \<noteq> 48"
    and "pkt = received d s"
  shows "sacn_receive env proto u (Inr d, from') s =
    (if d = [] then Some (s\<lparr>packet := pkt\<rparr>)
     else if e131_pkt_validate (Some pkt) \<noteq> E131_ERR_NONE
     then Some (s\<lparr>outputs := outputs s @ [Uart (validate_text (e131_pkt_validate (Some pkt)))], packet := pkt\<rparr>)
     else if e131_pkt_discard (Some pkt) (last_seq s)
     then Some (s\<lparr>outputs := outputs s @ [Uart discard_text], packet := pkt, last_seq := pkt ! frame_seq_number\<rparr>)
     else do {
       u \<leftarrow> u;
       if ld16 pkt frame_universe \<noteq> htons u then Some (s\<lparr>packet := pkt\<rparr>)
       else if pkt ! dmp_prop_val \<noteq> 0 then Some (s\<lparr>packet := pkt, last_seq := pkt ! frame_seq_number\<rparr>)
       else do {
         (pkt', s) \<leftarrow> send_artnet_header env (pkt ! frame_seq_number) pkt (dmp_prop_val + 1)
           (int (unat (htons (ld16 pkt dmp_prop_val_cnt))) - 1)
           (s\<lparr>packet := pkt, last_seq := pkt ! frame_seq_number\<rparr>);
         Some (s\<lparr>packet := pkt'\<rparr>) } })"
proof -
  have poke: "poke 0 (take sizeof_packet d) (packet s) = pkt"
    using assms(1) poke_received [of s d] by (simp add: sacn_ok_def assms(3))
  have len: "int (length (take sizeof_packet d)) \<le> 0 \<longleftrightarrow> d = []"
    by (cases d) (simp_all add: word_layout)
  show ?thesis using assms(2)
    unfolding sacn_receive_def fst_conv recv_received poke Let_def sum.case prod.case len by (cases u) (simp_all add: printed_texts)
qed

lemma sacn_frame:
  assumes "node_ok s" and "artnet_hdr_msg t = dmx_header q" and "length p = sizeof_packet"
    and "g_web_config t = g_web_config s" "ipAddress t = ipAddress s" "gaffer_data t = gaffer_data s"
    "artpollreply_msg t = artpollreply_msg s" "packet t = p"
  shows "sacn_ok t"
  using assms length_dmx_header [of q] by (auto simp: sacn_ok_def node_ok_def)

lemma forward_facts:
  assumes "sacn_ok s" and "proto \<noteq> 48" and "d \<noteq> []"
    and "e131_pkt_validate (Some (received d s)) = E131_ERR_NONE"
    and "\<not> e131_pkt_discard (Some (received d s)) (last_seq s)"
    and "ld16 (received d s) frame_universe = htons u" and "received d s ! dmp_prop_val = 0"
    and "unat (htons (ld16 (received d s) dmp_prop_val_cnt)) \<le> sizeof_prop_val"
    and "seq = received d s ! frame_seq_number"
  shows "\<exists>s'. sacn_receive env proto (Some u) (Inr d, from') s = Some s' \<and> sacn_ok s' \<and> last_seq s' = seq \<and>
    g_web_config s' = g_web_config s \<and> outputs s' = outputs s @ [Uart (take (17 + unat (htons (ld16 (received d s) dmp_prop_val_cnt)))
       (dmx_header seq @ drop (dmp_prop_val + 1) (received d s)))]"
proof -
  let ?pkt = "received d s" and ?cnt = "unat (htons (ld16 (received d s) dmp_prop_val_cnt))"
  let ?s = "s\<lparr>packet := ?pkt, last_seq := seq\<rparr>"
  obtain q where q: "artnet_hdr_msg ?s = dmx_header q" using assms(1) by (auto simp: sacn_ok_def)
  have len: "length ?pkt = sizeof_packet" using assms(1) by (simp add: sacn_ok_def length_received)
  obtain pkt' k where send: "send_artnet_header env seq ?pkt (dmp_prop_val + 1) (int ?cnt - 1) ?s =
      Some (pkt', ?s\<lparr>artnet_hdr_msg := dmx_header seq,
        outputs := outputs ?s @ [Uart (take (17 + ?cnt) (dmx_header seq @ drop (dmp_prop_val + 1) ?pkt))],
        dmx_count := k\<rparr>)" "length pkt' = sizeof_packet"
    using send_header_facts [OF q len assms(8), of env seq] by blast
  let ?t = "?s\<lparr>artnet_hdr_msg := dmx_header seq,
        outputs := outputs ?s @ [Uart (take (17 + ?cnt) (dmx_header seq @ drop (dmp_prop_val + 1) ?pkt))],
        dmx_count := k, packet := pkt'\<rparr>"
  have "sacn_receive env proto (Some u) (Inr d, from') s = Some ?t"
    unfolding sacn_receive_e131 [OF assms(1,2) refl]
    using assms(3-7) send(1) unfolding assms(9) by (simp del: take_append)
  moreover have "sacn_ok ?t" using assms(1) send(2) by (intro sacn_frame [of s ?t seq pkt']) (simp_all add: sacn_ok_def)
  ultimately show ?thesis by simp
qed

lemma sacn_ok_same_node:
  assumes "sacn_ok s" and "length p = sizeof_packet"
  shows "sacn_ok (s\<lparr>packet := p\<rparr>)" and "sacn_ok (s\<lparr>packet := p, last_seq := q\<rparr>)"
    and "sacn_ok (s\<lparr>outputs := x, packet := p\<rparr>)" and "sacn_ok (s\<lparr>outputs := x, packet := p, last_seq := q\<rparr>)"
  using assms by (simp_all add: sacn_ok_def node_ok_def)

lemma e131_step_safe:
  assumes "sacn_ok s" and "proto \<noteq> 48" and "count_ok m"
  shows "\<exists>s'. sacn_receive env proto (Some u) m s = Some s' \<and> sacn_ok s' \<and>
    g_web_config s' = g_web_config s \<and> (outputs s' = outputs s \<or> (\<exists>x. outputs s' = outputs s @ [x]))"
proof (cases "fst m")
  case (Inl rc)
  then have "sacn_receive env proto (Some u) m s = Some s"
    using assms(3) by (simp add: sacn_receive_def e131_recv_def count_ok_def)
  then show ?thesis using assms(1) by blast
next
  case (Inr d)
  obtain from' where m: "m = (Inr d, from')" using Inr by (cases m) simp
  let ?p = "received d s"
  have cnt: "dmp_prop_val \<le> length d" "unat (htons (ld16 ?p dmp_prop_val_cnt)) \<le> sizeof_prop_val"
    using assms(3) received_count [of d s] by (simp_all add: count_ok_def m)
  then have d: "d \<noteq> []" by (auto simp: word_layout)
  have len: "length ?p = sizeof_packet" using assms(1) by (simp add: sacn_ok_def length_received)
  show ?thesis
  proof (cases "e131_pkt_validate (Some ?p) = E131_ERR_NONE \<and> \<not> e131_pkt_discard (Some ?p) (last_seq s) \<and>
      ld16 ?p frame_universe = htons u \<and> ?p ! dmp_prop_val = 0")
    case True
    then show ?thesis using forward_facts [OF assms(1,2) d _ _ _ _ cnt(2) refl, of u env from'] m by blast
  next
    case False
    then show ?thesis
      unfolding m sacn_receive_e131 [OF assms(1,2) refl]
      using sacn_ok_same_node [OF assms(1) len] by auto
  qed
qed

lemma artnet_step_safe:
  assumes "str2id_ok env" and "sacn_ok s" and "gaffer_ok env s" and "recv_ok m"
  shows "\<exists>s'. sacn_receive env 48 u m s = Some s' \<and> sacn_ok s' \<and> gaffer_ok env s' \<and>
    g_web_config s' = g_web_config s \<and> (outputs s' = outputs s \<or> (\<exists>x. outputs s' = outputs s @ [x]))"
proof -
  have len: "length (packet s) = sizeof_packet" using assms(2) by (simp add: sacn_ok_def)
  obtain n p where r: "e131_recv (fst m) (Some (packet s)) = Inr (n, p)" "length p = sizeof_packet"
    "n \<le> int sizeof_packet"
    using len poke_received [OF len] length_received [OF len] assms(4)
    by (cases "fst m") (auto simp: e131_recv_def Let_def recv_ok_def word_layout)
  let ?s = "s\<lparr>packet := p\<rparr>"
  have s: "node_ok ?s" "gaffer_ok env ?s" "\<exists>q. artnet_hdr_msg ?s = dmx_header q"
    using assms(2,3) artnet_frame(3,4) [of ?s s env] by (simp_all add: sacn_ok_def node_ok_def gaffer_ok_def)
  show ?thesis
  proof (cases "n \<le> 0")
    case True
    then show ?thesis using r s by (simp add: sacn_receive_def sacn_ok_def)
  next
    case False
    then obtain raw' t where t: "process_artnet_msg env p n (snd m) ?s = Some (raw', t)" "length raw' = sizeof_packet"
      "node_ok t" "gaffer_ok env t" "artnet_hdr_msg t = artnet_hdr_msg ?s" "g_web_config t = g_web_config ?s"
      "outputs t = outputs ?s \<or> (\<exists>x. outputs t = outputs ?s @ [x])"
      using process_artnet_facts [OF assms(1) s(1,2) r(2) _ r(3), of "snd m"] by auto
    let ?t = "t\<lparr>packet := raw'\<rparr>"
    have "sacn_receive env 48 u m s = Some ?t" using False r t(1) by (simp add: sacn_receive_def)
    moreover have "sacn_ok ?t" using t(2,3,5) s(3) by (simp add: sacn_ok_def node_ok_def)
    moreover have "gaffer_ok env ?t"
      using t(4) artnet_frame(3,4) [of ?t t env] by (simp add: gaffer_ok_def)
    ultimately show ?thesis using t(6,7) by simp
  qed
qed

interpretation sacn_rx: receiver "\<lambda>m s. sacn_receive env 49 (Some u) m s" sacn_ok count_ok outputs for env u
proof (unfold_locales, goal_cases)
  case (1 s m)
  then show ?case using e131_step_safe [of s 49 m env u] by auto
next
  case (2 s m s')
  then show ?case using e131_step_safe [of s 49 m env u] by auto
qed

interpretation artnet_rx: receiver "\<lambda>m s. sacn_receive env 48 None m s"
  "\<lambda>s. str2id_ok env \<and> sacn_ok s \<and> gaffer_ok env s" recv_ok outputs for env
proof (unfold_locales, goal_cases)
  case (1 s m)
  then show ?case using artnet_step_safe [of env s m None] by auto
next
  case (2 s m s')
  then show ?case using artnet_step_safe [of env s m None] by auto
qed

section \<open>What the thread sets up\<close>

lemma check_gaffer_frame:
  "check_gaffer_packet env data len s = Some t \<Longrightarrow> \<exists>g. t = s\<lparr>gaffer_data := g\<rparr>"
proof -
  have "\<exists>g. s = s\<lparr>gaffer_data := g\<rparr>" by (rule exI [of _ "gaffer_data s"]) simp
  then show "check_gaffer_packet env data len s = Some t \<Longrightarrow> \<exists>g. t = s\<lparr>gaffer_data := g\<rparr>"
    by (auto simp: check_gaffer_packet_def split: if_splits bind_splits)
qed

text \<open>What a datagram leaves alone: the socket, the joined groups, and what was sent before.\<close>

definition same_setup :: "('fl, 'z) sacn_state_scheme \<Rightarrow> ('fl, 'z) sacn_state_scheme \<Rightarrow> bool" where
  "same_setup s t \<longleftrightarrow> sockfd t = sockfd s \<and> bound_port t = bound_port s \<and> joined t = joined s \<and>
     set (outputs s) \<subseteq> set (outputs t)"

lemma process_artnet_frame:
  assumes "process_artnet_msg env raw len from' s = Some (r, t)"
  shows "same_setup s t"
  using assms
  by (auto simp: process_artnet_msg_def same_setup_def Let_def dest!: check_gaffer_frame split: if_splits bind_splits)

lemma send_header_frame:
  assumes "send_artnet_header env seq pkt off cnt s = Some (r, t)"
  shows "same_setup s t"
  using assms by (auto simp: send_artnet_header_def same_setup_def Let_def split: if_splits bind_splits)

lemma printf_frame:
  "aks_printf x s = Some t \<Longrightarrow> t = s\<lparr>outputs := outputs s @ [Uart x]\<rparr>"
  by (simp add: aks_printf_def split: if_splits)

lemma sacn_receive_frame:
  assumes "sacn_receive env p u m s = Some t"
  shows "same_setup s t"
  using assms
  by (auto simp: sacn_receive_def Let_def dest!: process_artnet_frame send_header_frame printf_frame
      split: sum.splits prod.splits if_splits bind_splits) (auto simp: same_setup_def)

lemma init_frame:
  assumes "init_artpollreply_msg env s = Some t"
  shows "joined t = joined s"
  using assms by (auto simp: init_artpollreply_msg_def Let_def split: bind_splits prod.splits)

text \<open>The port of a protocol, what \<open>bind\<close> reports for it, and the state of the socket: the port is bound
  exactly when \<open>bind\<close> succeeded, and every failure has been printed.\<close>

definition port_of :: "byte \<Rightarrow> u16" where
  "port_of p = (if p = 49 then E131_DEFAULT_PORT else ARTNET_DEFAULT_PORT)"

definition bind_result :: "sock_ops \<Rightarrow> byte \<Rightarrow> int" where
  "bind_result ops p = os_bind ops (os_socket ops)
     (zero_sockaddr\<lparr>sin_family := AF_INET, sin_port := htons (port_of p), sin_addr := htonl 0\<rparr>)"

definition socket_ok :: "sock_ops \<Rightarrow> byte \<Rightarrow> 'fl sacn_state \<Rightarrow> bool" where
  "socket_ok ops p s \<longleftrightarrow> sockfd s = os_socket ops \<and>
     bound_port s = (if bind_result ops p < 0 then None else Some (port_of p)) \<and>
     (os_socket ops < 0 \<longrightarrow> Uart (lit ''e131_socket'' @ [10]) \<in> set (outputs s)) \<and>
     (bind_result ops p < 0 \<longrightarrow> Uart (lit ''e131_bind'') \<in> set (outputs s))"

text \<open>The group of a universe, and the result of the join with the address \<open>ip\<close>; an illegal universe is refused.\<close>

definition group_of :: "u16 \<Rightarrow> u32" where
  "group_of u = htonl (0xefff0000 OR ucast u)"

definition join_result :: "sock_ops \<Rightarrow> u16 \<Rightarrow> bytes \<Rightarrow> int" where
  "join_result ops u ip = (if u < 1 \<or> 63999 < u then -1
     else os_setsockopt ops (os_socket ops) (group_of u) (interface_word ip))"

definition joined_ok :: "sock_ops \<Rightarrow> u16 \<Rightarrow> 'fl sacn_state \<Rightarrow> bool" where
  "joined_ok ops u s \<longleftrightarrow> (\<exists>ip. \<not> (ip ! 0 = 0 \<and> ip ! 1 = 0) \<and>
     joined s = (if join_result ops u ip < 0 then [] else [(group_of u, interface_word ip)]) \<and>
     (join_result ops u ip < 0 \<longrightarrow> Uart (join_text (join_result ops u ip)) \<in> set (outputs s)))"

definition thread_ok :: "sock_ops \<Rightarrow> sacn_point \<times> 'fl sacn_state \<Rightarrow> bool" where
  "thread_ok ops c = (case c of
     (Starting, s) \<Rightarrow> joined s = []
   | (Waiting_for_address p u, s) \<Rightarrow> p = 49 \<and> socket_ok ops p s \<and> joined s = []
   | (Receiving p u, s) \<Rightarrow> (p = 49 \<longleftrightarrow> u \<noteq> None) \<and> socket_ok ops p s \<and>
       (case u of None \<Rightarrow> joined s = [] | Some v \<Rightarrow> joined_ok ops v s))"

lemma open_facts:
  assumes "sacn_open ops (port_of p) s = Some t"
  shows "socket_ok ops p t \<and> joined t = joined s"
  using assms
  by (auto simp: sacn_open_def e131_bind_def bind_result_def socket_ok_def Let_def dest!: printf_frame
      split: if_splits bind_splits)

lemma start_facts:
  assumes "sacn_start env ops s = Some c" and "joined s = []"
  shows "thread_ok ops c"
proof -
  have frame: "socket_ok ops p (s\<lparr>outputs := outputs s @ [x]\<rparr>)" if "socket_ok ops p s" for p s x
    using that by (auto simp: socket_ok_def)
  show ?thesis
    using assms
    by (auto simp: sacn_start_def thread_ok_def Let_def port_of_def [symmetric] intro!: frame
        dest!: init_frame open_facts printf_frame split: if_splits bind_splits)
qed

lemma join_facts:
  assumes "sacn_join ops 49 u s = Some c" and "socket_ok ops 49 s" and "joined s = []"
    and "\<not> (ipAddress s ! 0 = 0 \<and> ipAddress s ! 1 = 0)"
  shows "thread_ok ops c"
proof -
  have rc: "(case e131_multicast_join (os_setsockopt ops (sockfd s)) (ipAddress s) u of Inl _ \<Rightarrow> -1 | Inr rc \<Rightarrow> rc) =
      join_result ops u (ipAddress s)"
    using assms(2) by (simp add: e131_multicast_join_def join_result_def group_of_def socket_ok_def)
  show ?thesis
  proof (cases "join_result ops u (ipAddress s) < 0")
    case True
    then obtain t where t: "c = (Receiving 49 (Some u), t)"
      "t = s\<lparr>outputs := outputs s @ [Uart (join_text (join_result ops u (ipAddress s))), Uart waiting_text]\<rparr>"
      using assms(1) unfolding sacn_join_def Let_def rc by (auto dest!: printf_frame split: bind_splits)
    have "joined_ok ops u t" unfolding joined_ok_def
      by (rule exI [of _ "ipAddress s"]) (use True assms(3,4) t(2) in auto)
    moreover have "socket_ok ops 49 t" using assms(2) t(2) by (auto simp: socket_ok_def)
    ultimately show ?thesis using t(1) by (simp add: thread_ok_def)
  next
    case False
    then obtain t where t: "c = (Receiving 49 (Some u), t)"
      "t = s\<lparr>joined := [(group_of u, interface_word (ipAddress s))], outputs := outputs s @ [Uart waiting_text]\<rparr>"
      using assms(1,3) unfolding sacn_join_def Let_def rc by (auto simp: group_of_def dest!: printf_frame split: bind_splits)
    have "joined_ok ops u t" unfolding joined_ok_def
      by (rule exI [of _ "ipAddress s"]) (use False assms(4) t(2) in auto)
    moreover have "socket_ok ops 49 t" using assms(2) t(2) by (auto simp: socket_ok_def)
    ultimately show ?thesis using t(1) by (simp add: thread_ok_def)
  qed
qed

lemma setup_kept:
  assumes "same_setup s t"
  shows "socket_ok ops p s \<Longrightarrow> socket_ok ops p t" and "joined_ok ops v s \<Longrightarrow> joined_ok ops v t"
  using assms by (auto simp: same_setup_def socket_ok_def joined_ok_def)

lemma thread_ok_step:
  assumes "sacn_step env ops c c'" and "thread_ok ops c"
  shows "thread_ok ops c'"
  using assms
proof (induction rule: sacn_step.induct)
  case (start s c)
  then show ?case using start_facts by (simp add: thread_ok_def)
next
  case (join s p u c)
  then have p: "p = 49" and ok: "socket_ok ops 49 s" "joined s = []" by (auto simp: thread_ok_def)
  show ?case using join_facts [OF _ ok] join.hyps p by auto
next
  case (receive p u m s t)
  have same: "same_setup s t" by (rule sacn_receive_frame [OF receive(1)])
  then show ?case using receive(2) setup_kept [OF same]
    by (auto simp: thread_ok_def same_setup_def split: option.splits)
next
  case (address_set ip pt s)
  then have "same_setup s (s\<lparr>ipAddress := ip\<rparr>)" by (simp add: same_setup_def)
  from setup_kept [OF this] address_set(2) show ?case
    by (cases pt) (auto simp: thread_ok_def split: option.splits)
qed simp

section \<open>Properties\<close>


text \<open>
  In Art-Net mode the same holds for any datagrams at all, as long as the gaffer settings are
  sane.
\<close>

theorem artnet_runs_safe:
  assumes "str2id_ok env" and "sacn_ok s" and "gaffer_ok env s" and "list_all recv_ok ms"
  shows "\<exists>s' xs. run (\<lambda>m s. sacn_receive env 48 None m s) ms s = Some s' \<and> sacn_ok s' \<and>
    outputs s' = outputs s @ xs \<and> length xs \<le> length ms"
  using artnet_rx.run_safe [of env s ms] assms by blast

text \<open>
  Forwarding: a valid, in-order E1.31 packet for the configured universe with start code 0 is
  handed to the SAMD at once, as an Art-Net DMX header that carries the packet's sequence number,
  followed by the packet's slots. The slots are read from the receive buffer: when the datagram is
  shorter than its count says, the rest comes from the datagram before it.
\<close>

theorem sacn_forwards:
  assumes "sacn_ok s" and "126 \<le> length d" and "length d \<le> sizeof_packet"
    and "pkt = d @ drop (length d) (packet s)"
    and "e131_pkt_validate (Some pkt) = E131_ERR_NONE" and "\<not> e131_pkt_discard (Some pkt) (last_seq s)"
    and "htons (ld16 pkt frame_universe) = u" and "pkt ! dmp_prop_val = 0"
    and "unat (htons (ld16 pkt dmp_prop_val_cnt)) = Suc n" and "n \<le> 512"
  shows "\<exists>s'. sacn_receive env 49 (Some u) (Inr d, from') s = Some s' \<and>
    outputs s' = outputs s @ [Uart (dmx_header (pkt ! frame_seq_number) @ take n (drop 126 pkt))] \<and>
    last_seq s' = pkt ! frame_seq_number"
proof -
  have pkt: "received d s = pkt" using assms(3,4) by (simp add: received_def)
  have u: "ld16 pkt frame_universe = htons u" using assms(7) by (metis htons_htons)
  have "d \<noteq> []" "(49 :: byte) \<noteq> 48" using assms(2) by auto
  note facts = forward_facts [OF assms(1) this(2) this(1), of u "pkt ! frame_seq_number" env from', unfolded pkt,
      OF assms(5,6) u assms(8) _ refl]
  have "take (17 + Suc n) (dmx_header q @ xs) = dmx_header q @ take n xs" for q xs
    using length_dmx_header [of q] by (simp add: word_layout)
  then show ?thesis using facts assms(9,10) by (auto simp: word_layout)
qed

text \<open>
  Duplicates and late packets: a packet whose sequence number is the last one seen, or up to 19
  behind it, is never handed on, whatever it contains: at most a message about it is printed.
\<close>

theorem sacn_late_packet_dropped:
  assumes "sacn_ok s" and "received d s ! frame_seq_number = last_seq s - of_nat k" and "k < 20"
  shows "\<exists>s' xs. sacn_receive env 49 u (Inr d, from') s = Some s' \<and> outputs s' = outputs s @ xs \<and>
    (xs = [] \<or> xs = [Uart discard_text] \<or> (\<exists>e. xs = [Uart (validate_text e)]))"
proof -
  have "e131_pkt_discard (Some (received d s)) (last_seq s)"
  proof -
    have "\<exists>k<20. received d s ! frame_seq_number - last_seq s = - of_nat k" using assms(2,3) by auto
    then show ?thesis using discard_window by (simp add: e131_pkt_discard_def Let_def)
  qed
  then show ?thesis using sacn_receive_e131 [OF assms(1) _ refl, of 49 env u d from'] by auto
qed

text \<open>
  A packet for another universe leaves the sequence number and the SAMD alone.
\<close>

theorem sacn_other_universe_ignored:
  assumes "sacn_ok s" and "e131_pkt_validate (Some (received d s)) = E131_ERR_NONE"
    and "\<not> e131_pkt_discard (Some (received d s)) (last_seq s)"
    and "htons (ld16 (received d s) frame_universe) \<noteq> u"
  shows "sacn_receive env 49 (Some u) (Inr d, from') s = Some (s\<lparr>packet := received d s\<rparr>)"
proof -
  have "ld16 (received d s) frame_universe \<noteq> htons u" using assms(4) by auto
  then show ?thesis using sacn_receive_e131 [OF assms(1) _ refl, of 49 env "Some u" d from'] assms(2,3) by simp
qed

text \<open>
  The count is not checked: a valid packet for the node whose count says more than 513 bytes
  makes the forwarding read behind the packet buffer.
\<close>

theorem sacn_count_overread:
  assumes "sacn_ok s" and "d \<noteq> []" and "e131_pkt_validate (Some (received d s)) = E131_ERR_NONE"
    and "\<not> e131_pkt_discard (Some (received d s)) (last_seq s)"
    and "htons (ld16 (received d s) frame_universe) = u" and "received d s ! dmp_prop_val = 0"
    and "513 < unat (htons (ld16 (received d s) dmp_prop_val_cnt))"
  shows "sacn_receive env 49 (Some u) (Inr d, from') s = None"
proof -
  have u: "ld16 (received d s) frame_universe = htons u" using assms(5) by (metis htons_htons)
  obtain q where q: "artnet_hdr_msg s = dmx_header q" using assms(1) by (auto simp: sacn_ok_def)
  have len: "length (received d s) = sizeof_packet" using assms(1) by (simp add: sacn_ok_def length_received)
  have "send_artnet_header env seq (received d s) (dmp_prop_val + 1)
      (int (unat (htons (ld16 (received d s) dmp_prop_val_cnt))) - 1) (s\<lparr>packet := p, last_seq := r\<rparr>) = None" for seq p r
    using q by (intro send_header_overread [OF _ len assms(7)]) simp
  then show ?thesis
    using sacn_receive_e131 [OF assms(1) _ refl, of 49 env "Some u" d from'] assms(2-4,6) u by simp
qed

text \<open>
  C16. In every state the thread can reach, whatever the socket calls report: a universe is set exactly
  when the protocol is E1.31; behind the set-up the port of the protocol is bound exactly when \<open>bind\<close> succeeded;
  and when E1.31 data is received, the group of the universe has been joined, with an address of the node that was
  set by then, exactly when the universe is legal and \<open>setsockopt\<close> succeeded. Every failure was printed.
\<close>

theorem sacn_thread_setup:
  assumes "sacn_reachable env ops s0 (pt, s)" and "joined s0 = []"
  shows "thread_ok ops (pt, s)"
proof -
  have "sacn_reachable env ops s0 c \<Longrightarrow> thread_ok ops c" for c
  proof (induction rule: sacn_reachable.induct)
    case init
    then show ?case using assms(2) by (simp add: thread_ok_def)
  next
    case (step c c')
    then show ?case using thread_ok_step by blast
  qed
  then show ?thesis using assms(1) by blast
qed

section \<open>Witnesses\<close>

definition sample_sacn :: "bytes sacn_state" where
  "sample_sacn = \<lparr>g_web_config = one_char_cfg 39 49, user_flash = [], artnet_enable = 1,
     client_valid_num = 0, ipAddress = [10, 10, 100, 126], gaffer_data = replicate sizeof_gaffer_data 7,
     artpollreply_msg = replicate sizeof_artpollreply 0, artnet_hdr_msg = dmx_header 0,
     dmx_count = 0, outputs = [], packet = replicate sizeof_packet 0, last_seq = 0, sockfd = 0,
     bound_port = None, joined = []\<rparr>"

definition sample_node_env :: "bytes node_env" where
  "sample_node_env = \<lparr>
     hfuflash_erase_page = hfuflash_erase_page nor_flash,
     hfuflash_write = hfuflash_write nor_flash,
     hfuflash_read = hfuflash_read nor_flash,
     CFG_str2id = CFG_str2id sample_env, BUILD_IMG = lit ''AKS'', word_at = (\<lambda>a. a),
     rt28xx_get_wifi_channel = (\<lambda>a. 6), hfuart_send = (\<lambda>b. int (length b))\<rparr>"

definition sample_e131 :: "byte \<Rightarrow> byte \<Rightarrow> byte \<Rightarrow> byte \<Rightarrow> bytes" where
  "sample_e131 seq universe cnt_hi cnt_lo =
     [0x00, 0x10, 0x00, 0x00] @ E131_ACN_PID @ [0x70, 0x70, 0, 0, 0, 4] @ replicate 16 1 @
     [0x70, 0x5a, 0, 0, 0, 2] @ replicate 64 65 @ [100, 0, 0, seq, 0, 0, universe, 0x70, 0x0d,
      0x02, 0xa1, 0, 0, 0, 1, cnt_hi, cnt_lo, 0, 11, 22]"

lemma sample_sacn_ok: "sacn_ok sample_sacn" "gaffer_ok sample_node_env sample_sacn" "str2id_ok sample_node_env"
proof -
  have "web_ok (one_char_cfg 39 49)" using one_char_ok [of W_gaffer_enb 49] by (simp add: set_str_fields)
  then show "sacn_ok sample_sacn"
    using length_dmx_header [of 0] by (auto simp: sacn_ok_def node_ok_def sample_sacn_def)
  show "str2id_ok sample_node_env" using sample_env_ok(2) by (simp add: str2id_ok_def sample_node_env_def)
  have "gaffer_disabled sample_node_env sample_sacn = gaffer_disabled sample_env (sample_node 39 49)"
    by (simp add: gaffer_disabled_def cfg_buf_def sample_node_env_def sample_sacn_def sample_node_def)
  then show "gaffer_ok sample_node_env sample_sacn" by (simp add: gaffer_ok_def settings_39)
qed

lemma sample_e131_facts:
  fixes seq universe hi lo
  defines "pkt \<equiv> sample_e131 seq universe hi lo @ replicate 510 0"
  shows "length (sample_e131 seq universe hi lo) = 128"
    "received (sample_e131 seq universe hi lo) sample_sacn = pkt"
    "e131_pkt_validate (Some pkt) = E131_ERR_NONE" "pkt ! frame_seq_number = seq"
    "htons (ld16 pkt frame_universe) = ucast universe" "pkt ! dmp_prop_val = 0"
    "htons (ld16 pkt dmp_prop_val_cnt) = push_bit 8 (ucast hi) OR ucast lo"
    "drop 126 pkt = [11, 22] @ replicate 510 0"
proof -
  show len: "length (sample_e131 seq universe hi lo) = 128" by (simp add: sample_e131_def length_pid)
  then have plen: "length pkt = sizeof_packet" by (simp add: pkt_def word_layout)
  show "received (sample_e131 seq universe hi lo) sample_sacn = pkt"
    by (simp add: received_def len sample_sacn_def pkt_def word_layout)
  show "e131_pkt_validate (Some pkt) = E131_ERR_NONE"
    unfolding validate_None [OF plen] by (simp add: e131_header_def has_bytes_def pkt_def sample_e131_def E131_ACN_PID_def)
  show "pkt ! frame_seq_number = seq" "pkt ! dmp_prop_val = 0" "drop 126 pkt = [11, 22] @ replicate 510 0"
    by (simp_all add: pkt_def sample_e131_def nth_append length_pid word_layout)
  show "htons (ld16 pkt frame_universe) = ucast universe"
    "htons (ld16 pkt dmp_prop_val_cnt) = push_bit 8 (ucast hi) OR ucast lo"
    by (simp_all add: htons_ld16 pkt_def sample_e131_def nth_append length_pid word_layout)
qed

lemma sample_sacn_fields: "last_seq sample_sacn = 0" "outputs sample_sacn = []"
  by (simp_all add: sample_sacn_def)

lemma sample_not_discarded:
  "\<not> e131_pkt_discard (Some (sample_e131 1 universe hi lo @ replicate 510 0)) (last_seq sample_sacn)"
  using sample_e131_facts(4) [of 1 universe hi lo] by (simp add: e131_pkt_discard_def sample_sacn_def Let_def)


theorem artnet_runs_safe_witness:
  "\<exists>s'. run (\<lambda>m s. sacn_receive sample_node_env 48 None m s)
     [(Inr (sample_packet 0x20 0), zero_sockaddr), (Inr (replicate 2000 255), zero_sockaddr)] sample_sacn = Some s' \<and>
     sacn_ok s'"
proof -
  have "list_all recv_ok [(Inr (sample_packet 0x20 0), zero_sockaddr), (Inr (replicate 2000 255), zero_sockaddr)]"
    by (simp add: recv_ok_def)
  from artnet_runs_safe [OF sample_sacn_ok(3,1,2) this] show ?thesis by blast
qed

theorem sacn_forwards_witness:
  "\<exists>s'. sacn_receive sample_node_env 49 (Some 1) (Inr (sample_e131 1 1 0 3), zero_sockaddr) sample_sacn = Some s' \<and>
     outputs s' = [Uart (dmx_header 1 @ [11, 22])]"
proof -
  note f = sample_e131_facts [of 1 1 0 3]
  have "sample_e131 1 1 0 3 @ replicate 510 0 =
      sample_e131 1 1 0 3 @ drop (length (sample_e131 1 1 0 3)) (packet sample_sacn)"
    using f(1) by (simp add: sample_sacn_def word_layout)
  from sacn_forwards [where u = 1 and n = 2 and env = sample_node_env and from' = zero_sockaddr,
      OF sample_sacn_ok(1) _ _ this f(3) sample_not_discarded _ f(6)]
  show ?thesis using f sample_sacn_fields by (auto simp: word_layout)
qed

theorem sacn_late_packet_dropped_witness:
  "\<exists>s' xs. sacn_receive sample_node_env 49 (Some 1) (Inr (sample_e131 0 1 0 3), zero_sockaddr) sample_sacn = Some s' \<and>
     outputs s' = xs \<and> (xs = [] \<or> xs = [Uart discard_text] \<or> (\<exists>e. xs = [Uart (validate_text e)]))"
  using sacn_late_packet_dropped [OF sample_sacn_ok(1), of "sample_e131 0 1 0 3" 0] sample_e131_facts(2,4) [of 0 1 0 3]
    sample_sacn_fields
  by simp

theorem sacn_other_universe_ignored_witness:
  "sacn_receive sample_node_env 49 (Some 7) (Inr (sample_e131 1 1 0 3), zero_sockaddr) sample_sacn =
     Some (sample_sacn\<lparr>packet := sample_e131 1 1 0 3 @ replicate 510 0\<rparr>)"
  using sacn_other_universe_ignored [OF sample_sacn_ok(1), of "sample_e131 1 1 0 3" 7] sample_e131_facts [of 1 1 0 3]
    sample_not_discarded by simp

theorem sacn_count_overread_witness:
  "sacn_receive sample_node_env 49 (Some 1) (Inr (sample_e131 1 1 4 0), zero_sockaddr) sample_sacn = None"
proof -
  have "sample_e131 1 1 4 0 \<noteq> []" by (simp add: sample_e131_def)
  then show ?thesis
    using sacn_count_overread [OF sample_sacn_ok(1), of "sample_e131 1 1 4 0" 1] sample_e131_facts [of 1 1 4 0]
      sample_not_discarded by simp
qed

text \<open>Sockets that work, but do not let the node join a group.\<close>

definition sample_socks :: sock_ops where
  "sample_socks = \<lparr>os_socket = 5, os_bind = (\<lambda>fd a. 0), os_setsockopt = (\<lambda>fd g i. -7)\<rparr>"

definition sample_sacn_cfg :: "bytes sacn_state" where
  "sample_sacn_cfg = sample_sacn\<lparr>g_web_config := one_char_cfg (foff W_protname) 49\<rparr>"

lemma sample_start:
  "\<exists>t. sacn_start sample_node_env sample_socks sample_sacn_cfg = Some (Waiting_for_address 49 0, t) \<and>
     ipAddress t = [10, 10, 100, 126] \<and> sockfd t = 5"
proof -
  have off: "Suc (foff W_protname) < sizeof_WEB_DATA_T" by (simp add: sizeof_WEB_DATA_T_def)
  have str: "str_at (one_char_cfg (foff W_protname) 49) k = Some (if k = foff W_protname then [49] else [])" if "k < 101" for k
    using one_char_str [OF off, of k 49] that by (simp add: sizeof_WEB_DATA_T_def)
  have cfg: "g_web_config sample_sacn_cfg = one_char_cfg (foff W_protname) 49" "client_valid_num sample_sacn_cfg = 0"
    "ipAddress sample_sacn_cfg = [10, 10, 100, 126]" by (simp_all add: sample_sacn_cfg_def sample_sacn_def)
  have name: "ratpac_get_str (CFG_str2id sample_node_env (lit ''AKS_NAME'')) (g_web_config sample_sacn_cfg)
      (client_valid_num sample_sacn_cfg) = Some (0, lit ''0'')"
    using str [of "foff W_name"] by (simp add: cfg str2idD(1) [OF sample_sacn_ok(3)] ratpac_get_str_def get_switch_def get_cases_def cut_def)
  have prot: "ratpac_get_str CFG_PROTNAME (one_char_cfg (foff W_protname) 49) 0 = Some (0, [49])"
    using str [of "foff W_protname"] by (simp add: ratpac_get_str_def get_switch_def get_cases_def cut_def cfg_ids)
  have univ: "ratpac_get_str CFG_SACN_UNIV (one_char_cfg (foff W_protname) 49) 0 = Some (0, lit ''0'')"
    using str [of "foff W_sacn_universe"] by (simp add: ratpac_get_str_def get_switch_def get_cases_def cut_def cfg_ids)
  obtain m h where "init_artpollreply_msg sample_node_env sample_sacn_cfg = Some (sample_sacn_cfg\<lparr>artpollreply_msg := m, artnet_hdr_msg := h\<rparr>)"
    by (rule init_reply_facts [OF name]) (simp_all add: cfg lit_simps)
  then show ?thesis using prot univ
    by (simp add: sacn_start_def cfg sacn_open_def e131_bind_def sample_socks_def atoi_digit is_digit_def lit_simps)
qed

theorem sacn_thread_setup_witness:
  "\<exists>t. sacn_reachable sample_node_env sample_socks sample_sacn_cfg (Receiving 49 (Some 0), t) \<and>
     bound_port t = Some E131_DEFAULT_PORT \<and> joined t = [] \<and> Uart (join_text (-1)) \<in> set (outputs t)"
proof -
  obtain t where t: "sacn_start sample_node_env sample_socks sample_sacn_cfg = Some (Waiting_for_address 49 0, t)"
    "ipAddress t = [10, 10, 100, 126]" using sample_start by blast
  have "length (join_text (-1)) < 128" by (simp add: join_text_def dec_int_def dec_nat.simps lit_simps)
  then obtain u where u: "sacn_join sample_socks 49 0 t = Some (Receiving 49 (Some 0), u)"
    using t(2) by (simp add: sacn_join_def e131_multicast_join_def printed_texts) (simp add: aks_printf_def)
  have none: "joined sample_sacn_cfg = []" by (simp add: sample_sacn_cfg_def sample_sacn_def)
  have "sacn_reachable sample_node_env sample_socks sample_sacn_cfg (Waiting_for_address 49 0, t)"
    by (rule sacn_reachable.step [OF sacn_reachable.init sacn_step.start [OF t(1)]])
  then have r: "sacn_reachable sample_node_env sample_socks sample_sacn_cfg (Receiving 49 (Some 0), u)"
    by (rule sacn_reachable.step) (rule sacn_step.join, use t(2) u in simp_all)
  from sacn_thread_setup [OF r none] r show ?thesis
    by (auto simp: thread_ok_def socket_ok_def joined_ok_def join_result_def bind_result_def sample_socks_def port_of_def)
qed

end
