(* ===== verification/Samd.thy ===== *)
theory Samd
  imports ArtNet Receiver
begin

text \<open>
  The serial link to the SAMD, the microcontroller that drives the lamps: the receive callback
  of the UART driver, the command exchange \<open>Send_SAMD_CMD\<close>, the commands built on it and the
  firmware download (\<^verbatim>\<open>src/user/UserMain.c\<close>).

  The callback runs while a sender waits. What arrives is part of the state: \<open>arrivals\<close> lists, for
  each transmission to come, the chunks the driver delivers until the sender looks at
  \<open>uart_rvc_done\<close> again or gives up, so a theorem over all \<open>arrivals\<close> covers every peer, every
  timeout and chunks that arrive after a complete line. \<open>sent\<close> lists what was transmitted. Taking
  the mutex when it is taken blocks, which is \<open>None\<close>. Thread priorities and delays are not
  modelled.
\<close>

declare lit_simps [simp]

record 'fl samd_state = "'fl node_state" +
  uart_rcv_data :: bytes
  uart_rvc_len :: nat
  uart_rvc_done :: bool
  ret_buff :: bytes
  samd_pkt_buff :: bytes
  align_buff :: bytes
  firmware_pad :: bytes
  samd_ver :: bytes
  battery_info :: bytes
  samd_locked :: bool
  arrivals :: "bytes list list"
  sent :: "bytes list"

section \<open>The receive callback\<close>

text \<open>\<open>strncpy\<close> stops at a NUL and fills up with NULs.\<close>

definition strncpy_bytes :: "nat \<Rightarrow> bytes \<Rightarrow> bytes" where
  "strncpy_bytes n src = take n (takeWhile (\<lambda>b. b \<noteq> 0) src @ replicate n 0)"

definition uart_recv_callback :: "bytes \<Rightarrow> ('fl, 'z) samd_state_scheme \<Rightarrow> ('fl, 'z) samd_state_scheme option" where
  "uart_recv_callback data s =
    (if uart_rvc_done s then Some (s\<lparr>uart_rvc_len := 0\<rparr>)
     else
       let copy_len = (if length data > 60 then 60 else length data) in do {
         buf \<leftarrow> mem_put (uart_rvc_len s) (strncpy_bytes copy_len data) (uart_rcv_data s);
         let n = uart_rvc_len s + copy_len;
         let s = s\<lparr>uart_rcv_data := buf, uart_rvc_len := n\<rparr>;
         if n = 0 then None
         else if buf ! (n - 1) = 10 \<or> buf ! (n - 1) = 13
         then do {
           buf \<leftarrow> mem_put n [0] buf;
           Some (s\<lparr>uart_rcv_data := buf, uart_rvc_done := True\<rparr>) }
         else Some s })"

section \<open>One command\<close>

definition clear_uart_recv :: "('fl, 'z) samd_state_scheme \<Rightarrow> ('fl, 'z) samd_state_scheme" where
  "clear_uart_recv s = s\<lparr>uart_rvc_done := False, uart_rvc_len := 0\<rparr>"

text \<open>Transmit and wait: the chunks that arrive in the meantime go through the callback.\<close>

definition transmit :: "bytes \<Rightarrow> ('fl, 'z) samd_state_scheme \<Rightarrow> ('fl, 'z) samd_state_scheme option" where
  "transmit cmd s =
    (let chunks = (case arrivals s of [] \<Rightarrow> [] | c # _ \<Rightarrow> c);
         s = s\<lparr>sent := sent s @ [cmd], arrivals := tl (arrivals s)\<rparr>
     in run uart_recv_callback chunks s)"

primrec samd_try :: "nat \<Rightarrow> bytes \<Rightarrow> ('fl, 'z) samd_state_scheme \<Rightarrow> (int \<times> ('fl, 'z) samd_state_scheme) option" where
  "samd_try 0 cmd s = Some (-101, s\<lparr>uart_rvc_done := True\<rparr>)"
| "samd_try (Suc k) cmd s = do {
     s \<leftarrow> transmit cmd (clear_uart_recv s);
     if \<not> uart_rvc_done s then samd_try k cmd s
     else do {
       let s = s\<lparr>uart_rvc_done := True, uart_rcv_data := (uart_rcv_data s)[31 := 0]\<rparr>;
       buf \<leftarrow> mem_put 0 (take (uart_rvc_len s) (uart_rcv_data s)) (ret_buff s);
       buf \<leftarrow> mem_put (uart_rvc_len s) [0] buf;
       Some (0, s\<lparr>ret_buff := buf\<rparr>) } }"

text \<open>Every caller passes \<open>ret_buff\<close> for the response.\<close>

definition Send_SAMD_CMD :: "bytes \<Rightarrow> ('fl, 'z) samd_state_scheme \<Rightarrow> (int \<times> ('fl, 'z) samd_state_scheme) option" where
  "Send_SAMD_CMD cmd s = do {
     buf \<leftarrow> mem_put 0 [0] (ret_buff s);
     let s = s\<lparr>ret_buff := buf\<rparr>;
     if length cmd = 0 then Some (-100, s) else samd_try 2 cmd s }"

definition samd_lock :: "('fl, 'z) samd_state_scheme \<Rightarrow> ('fl, 'z) samd_state_scheme option" where
  "samd_lock s = (if samd_locked s then None else Some (s\<lparr>samd_locked := True\<rparr>))"

definition samd_unlock :: "('fl, 'z) samd_state_scheme \<Rightarrow> ('fl, 'z) samd_state_scheme" where
  "samd_unlock s = s\<lparr>samd_locked := False\<rparr>"

definition set_artnet_enable :: "int \<Rightarrow> ('fl, 'z) samd_state_scheme \<Rightarrow> ('fl, 'z) samd_state_scheme" where
  "set_artnet_enable val s = s\<lparr>artnet_enable := val\<rparr>"

text \<open>\<open>strstr (ret_buff, word)\<close>\<close>

definition answered :: "bytes \<Rightarrow> ('fl, 'z) samd_state_scheme \<Rightarrow> bool option" where
  "answered word s = map_option (\<lambda>r. has_sub r word) (c_str (ret_buff s))"

section \<open>The commands\<close>

definition samd_settings :: "bytes \<Rightarrow> bytes" where
  "samd_settings args = lit ''Art-Net'' @ [0, 0, 50, 0, 0] @ args"

definition samd_simple_command :: "bytes \<Rightarrow> ('fl, 'z) samd_state_scheme \<Rightarrow> (int \<times> ('fl, 'z) samd_state_scheme) option" where
  "samd_simple_command args s = do {
     s \<leftarrow> samd_lock s;
     (ret, s) \<leftarrow> Send_SAMD_CMD (samd_settings args) s;
     if ret \<noteq> 0 then Some (ret, samd_unlock s)
     else do {
       ok \<leftarrow> answered (lit ''ok'') s;
       if ok then Some (0, samd_unlock s) else Some (-106, samd_unlock s) } }"

definition Send_Link_Command :: "('fl, 'z) samd_state_scheme \<Rightarrow> (int \<times> ('fl, 'z) samd_state_scheme) option" where
  "Send_Link_Command = samd_simple_command [3, 2]"

definition Send_UnLink_Command :: "('fl, 'z) samd_state_scheme \<Rightarrow> (int \<times> ('fl, 'z) samd_state_scheme) option" where
  "Send_UnLink_Command = samd_simple_command [3, 1]"

definition Send_ID_Command :: "('fl, 'z) samd_state_scheme \<Rightarrow> (int \<times> ('fl, 'z) samd_state_scheme) option" where
  "Send_ID_Command = samd_simple_command [4]"

definition Send_Gaffer_Command :: "('fl, 'z) samd_state_scheme \<Rightarrow> (int \<times> ('fl, 'z) samd_state_scheme) option" where
  "Send_Gaffer_Command s = Send_SAMD_CMD (samd_settings [6]) s"

text \<open>\<open>strtok (buf, "\n\r")\<close> ends the first token in the buffer; a string of delimiters only is left
  as it is.\<close>

definition strtok_first :: "bytes \<Rightarrow> bytes \<Rightarrow> bytes" where
  "strtok_first delims buf =
    (case c_str buf of
       None \<Rightarrow> buf
     | Some t \<Rightarrow>
        let start = length (takeWhile (\<lambda>b. b \<in> set delims) t);
            tok = takeWhile (\<lambda>b. b \<notin> set delims) (drop start t)
        in if start = length t then buf else buf[start + length tok := 0])"

definition Send_Battery_Command :: "('fl, 'z) samd_state_scheme \<Rightarrow> (int \<times> ('fl, 'z) samd_state_scheme) option" where
  "Send_Battery_Command s = do {
     s \<leftarrow> samd_lock s;
     (ret, s) \<leftarrow> Send_SAMD_CMD (samd_settings [5]) s;
     if ret \<noteq> 0 then Some (ret, samd_unlock s)
     else do {
       let ver = (samd_ver s)[0 := ret_buff s ! 0, 2 := ret_buff s ! 2];
       text \<leftarrow> str_at (ret_buff s) 3;
       info \<leftarrow> put_str 0 text (battery_info s);
       let info = (strtok_first [10, 13] info)[6 := 0];
       Some (0, samd_unlock (s\<lparr>samd_ver := ver, battery_info := info\<rparr>)) } }"

section \<open>Firmware download\<close>

definition PKT_SIZE :: nat where "PKT_SIZE = 512"

text \<open>The words of the block are copied and added up; the four bytes of the sum are folded into one.\<close>

primrec xor_words :: "nat \<Rightarrow> u32 \<Rightarrow> bytes \<Rightarrow> u32" where
  "xor_words 0 ck m = ck"
| "xor_words (Suc k) ck m = xor_words k (ck XOR ld32 m 0) (drop 4 m)"

definition fold_bytes :: "u32 \<Rightarrow> byte" where
  "fold_bytes w = foldl (XOR) 0 (le32 w)"

text \<open>One block is sent at most twice; \<open>Inl\<close> is the return code of a failed download.\<close>

primrec send_block :: "nat \<Rightarrow> bytes \<Rightarrow> ('fl, 'z) samd_state_scheme \<Rightarrow> ((int + unit) \<times> ('fl, 'z) samd_state_scheme) option" where
  "send_block 0 pkt s = Some (Inl (-104), s)"
| "send_block (Suc k) pkt s = do {
     (ret, s) \<leftarrow> Send_SAMD_CMD pkt s;
     if ret \<noteq> 0 then Some (Inl ret, s)
     else do {
       ok \<leftarrow> answered (lit ''ok'') s;
       if ok then Some (Inr (), s) else send_block k pkt s } }"

primrec send_blocks :: "nat \<Rightarrow> nat \<Rightarrow> u32 \<Rightarrow> ('fl, 'z) samd_state_scheme \<Rightarrow>
    ((int + u32) \<times> ('fl, 'z) samd_state_scheme) option" where
  "send_blocks 0 total_len code_cksum s = Some (Inr code_cksum, s)"
| "send_blocks (Suc n) total_len code_cksum s = do {
     block \<leftarrow> mem_get total_len PKT_SIZE (firmware_pad s);
     align \<leftarrow> mem_put 0 block (align_buff s);
     let cksum = xor_words (PKT_SIZE div 4) 0 block;
     pkt \<leftarrow> mem_put 0 block (samd_pkt_buff s);
     pkt \<leftarrow> mem_put PKT_SIZE [fold_bytes cksum] pkt;
     let s = s\<lparr>align_buff := align, samd_pkt_buff := pkt\<rparr>;
     (r, s) \<leftarrow> send_block 2 (take (PKT_SIZE + 1) pkt) s;
     (case r of
        Inl ret \<Rightarrow> Some (Inl ret, s)
      | Inr _ \<Rightarrow> send_blocks n (total_len + PKT_SIZE) (code_cksum XOR cksum) s) }"

text \<open>Asking for the update mode, at most twice for the SAMD itself (\<open>which = 0\<close>). The result is the
  last return code, or \<open>Inl\<close> of the code the download ends with.\<close>

primrec request_update :: "nat \<Rightarrow> int \<Rightarrow> bytes \<Rightarrow> int \<Rightarrow> ('fl, 'z) samd_state_scheme \<Rightarrow>
    ((int + int) \<times> ('fl, 'z) samd_state_scheme) option" where
  "request_update 0 which settings ret s = Some (Inr ret, s)"
| "request_update (Suc k) which settings ret s = do {
     (ret, s) \<leftarrow> Send_SAMD_CMD settings s;
     if ret \<noteq> 0 then request_update k which settings ret s
     else do {
       ok \<leftarrow> answered (lit ''update'') s;
       if ok then Some (Inr 0, s)
       else if which = 1 \<or> k = 0 then Some (Inl (-102), s)
       else request_update k which settings ret s } }"

definition samd_finish :: "('fl, 'z) samd_state_scheme \<Rightarrow> ('fl, 'z) samd_state_scheme" where
  "samd_finish s = set_artnet_enable 1 (samd_unlock s)"

definition samd_pad_len :: "nat \<Rightarrow> nat" where
  "samd_pad_len len = (len + PKT_SIZE - 1) AND 0xfe00"

definition SAMD_firmware_download ::
    "bytes \<Rightarrow> nat \<Rightarrow> int \<Rightarrow> ('fl, 'z) samd_state_scheme \<Rightarrow> (int \<times> ('fl, 'z) samd_state_scheme) option" where
  "SAMD_firmware_download firmware len which s = do {
     let pad_len = samd_pad_len len;
     image \<leftarrow> mem_get 0 len firmware;
     pad \<leftarrow> mem_put 0 image (firmware_pad s);
     pad \<leftarrow> mem_put len (replicate (pad_len - len) 0) pad;
     let s = set_artnet_enable 0 (s\<lparr>firmware_pad := pad\<rparr>);
     s \<leftarrow> samd_lock s;
     (r, s) \<leftarrow> request_update 2 which (samd_settings [if which = 0 then 7 else 8]) 0 s;
     (case r of
        Inl ret \<Rightarrow> Some (ret, samd_finish s)
      | Inr ret \<Rightarrow>
         if ret \<noteq> 0 then Some (ret, samd_finish s)
         else do {
           (ret, s) \<leftarrow> Send_SAMD_CMD (lit ''yes'') s;
           if ret \<noteq> 0 then Some (ret, samd_finish s)
           else do {
             ok \<leftarrow> answered (lit ''ok'') s;
             if \<not> ok then Some (-103, samd_finish s)
             else do {
               (r, s) \<leftarrow> send_blocks (pad_len div PKT_SIZE) 0 0 s;
               (case r of
                  Inl ret \<Rightarrow> Some (ret, samd_finish s)
                | Inr code_cksum \<Rightarrow> do {
                    (_, s) \<leftarrow> Send_SAMD_CMD (lit ''done'' @
                      [word_of_nat len, word_of_nat (len div 256), fold_bytes code_cksum]) s;
                    Some (0, samd_finish s) }) } } }) }"

section \<open>Frames\<close>

text \<open>What the callback and an exchange leave alone.\<close>

definition same_link :: "('fl, 'z) samd_state_scheme \<Rightarrow> ('fl, 'z) samd_state_scheme \<Rightarrow> bool" where
  "same_link s t \<longleftrightarrow> samd_locked t = samd_locked s \<and> firmware_pad t = firmware_pad s \<and>
     samd_pkt_buff t = samd_pkt_buff s \<and> align_buff t = align_buff s \<and>
     samd_ver t = samd_ver s \<and> battery_info t = battery_info s \<and> artnet_enable t = artnet_enable s \<and>
     g_web_config t = g_web_config s \<and> length (uart_rcv_data t) = length (uart_rcv_data s) \<and>
     length (ret_buff t) = length (ret_buff s)"

lemma same_link_refl: "same_link s s"
  by (simp add: same_link_def)

lemma same_link_trans: "same_link s t \<Longrightarrow> same_link t u \<Longrightarrow> same_link s u"
  by (simp add: same_link_def)

lemma callback_frame:
  assumes "uart_recv_callback c s = Some t"
  shows "same_link s t \<and> sent t = sent s \<and> arrivals t = arrivals s \<and> ret_buff t = ret_buff s"
  using assms
  by (auto simp: uart_recv_callback_def same_link_def Let_def strncpy_bytes_def split: if_splits bind_splits)

lemma run_callback_frame:
  "run uart_recv_callback cs s = Some t \<Longrightarrow>
     same_link s t \<and> sent t = sent s \<and> arrivals t = arrivals s \<and> ret_buff t = ret_buff s"
proof (induction cs arbitrary: s)
  case (Cons c cs)
  then obtain s1 where s1: "uart_recv_callback c s = Some s1" "run uart_recv_callback cs s1 = Some t"
    by (auto split: option.splits)
  show ?case using callback_frame [OF s1(1)] Cons.IH [OF s1(2)] same_link_trans [of s s1 t] by simp
qed (simp add: same_link_refl)

lemma transmit_frame:
  assumes "transmit cmd s = Some t"
  shows "same_link s t \<and> sent t = sent s @ [cmd] \<and> arrivals t = tl (arrivals s) \<and> ret_buff t = ret_buff s"
  using run_callback_frame [of "case arrivals s of [] \<Rightarrow> [] | c # _ \<Rightarrow> c"
      "s\<lparr>sent := sent s @ [cmd], arrivals := tl (arrivals s)\<rparr>" t] assms
  by (simp add: transmit_def Let_def same_link_def)

lemma clear_frame: "same_link s (clear_uart_recv s)" "sent (clear_uart_recv s) = sent s"
  "arrivals (clear_uart_recv s) = arrivals s" "ret_buff (clear_uart_recv s) = ret_buff s"
  by (simp_all add: clear_uart_recv_def same_link_def)

lemma samd_try_frame:
  assumes "samd_try k cmd s = Some (ret, t)"
  shows "same_link s t \<and> (ret = 0 \<or> ret = -101) \<and>
    (\<exists>j \<le> k. sent t = sent s @ replicate j cmd \<and> (ret = -101 \<longrightarrow> j = k) \<and> (0 < k \<longrightarrow> 0 < j) \<and>
      arrivals t = drop j (arrivals s))"
  using assms
proof (induction k arbitrary: s)
  case 0
  then show ?case by (auto simp: same_link_def)
next
  case (Suc k)
  obtain s1 where s1: "transmit cmd (clear_uart_recv s) = Some s1"
    using Suc.prems by (auto split: bind_splits)
  have fr: "same_link s s1" "sent s1 = sent s @ [cmd]" "arrivals s1 = tl (arrivals s)"
    using transmit_frame [OF s1] same_link_trans [OF clear_frame(1) [of s], of s1] by (simp_all add: clear_frame)
  show ?case
  proof (cases "uart_rvc_done s1")
    case False
    then have "samd_try k cmd s1 = Some (ret, t)" using Suc.prems s1 by simp
    from Suc.IH [OF this] obtain j where j: "same_link s1 t" "ret = 0 \<or> ret = -101" "j \<le> k"
      "sent t = sent s1 @ replicate j cmd" "ret = -101 \<longrightarrow> j = k" "arrivals t = drop j (arrivals s1)" by blast
    then show ?thesis using fr same_link_trans [OF fr(1) j(1)]
      by (intro conjI exI [of _ "Suc j"]) (simp_all add: drop_Suc)
  next
    case True
    then obtain b1 b2 where b: "mem_put 0 (take (uart_rvc_len s1) ((uart_rcv_data s1)[31 := 0])) (ret_buff s1) = Some b1"
      "mem_put (uart_rvc_len s1) [0] b1 = Some b2" and ret: "ret = 0" and
      t: "t = s1\<lparr>uart_rvc_done := True, uart_rcv_data := (uart_rcv_data s1)[31 := 0], ret_buff := b2\<rparr>"
      using Suc.prems s1 by (auto simp: Let_def simp del: mem_put_eq_Some split: bind_splits)
    have "length b2 = length (ret_buff s1)" using b by auto
    then have "same_link s t" using fr(1) by (simp add: t same_link_def)
    then show ?thesis using fr ret by (intro conjI exI [of _ 1]) (simp_all add: t drop_Suc)
  qed
qed

lemma send_cmd_frame:
  assumes "Send_SAMD_CMD cmd s = Some (ret, t)" and "cmd \<noteq> []"
  shows "same_link s t" and "ret = 0 \<or> ret = -101"
    and "\<exists>j \<le> 2. sent t = sent s @ replicate j cmd \<and> (ret = -101 \<longrightarrow> j = 2) \<and> 0 < j \<and> arrivals t = drop j (arrivals s)"
proof -
  obtain b where b: "mem_put 0 [0] (ret_buff s) = Some b" "samd_try 2 cmd (s\<lparr>ret_buff := b\<rparr>) = Some (ret, t)"
    using assms by (auto simp: Send_SAMD_CMD_def Let_def simp del: mem_put_eq_Some split: bind_splits if_splits)
  have "same_link s (s\<lparr>ret_buff := b\<rparr>)" using b(1) by (auto simp: same_link_def)
  then show "same_link s t" using samd_try_frame [OF b(2)] same_link_trans by blast
  show "ret = 0 \<or> ret = -101"
    "\<exists>j \<le> 2. sent t = sent s @ replicate j cmd \<and> (ret = -101 \<longrightarrow> j = 2) \<and> 0 < j \<and> arrivals t = drop j (arrivals s)"
    using samd_try_frame [OF b(2)] by simp_all
qed

section \<open>A line that arrives in pieces\<close>

lemma strncpy_plain: "0 \<notin> set c \<Longrightarrow> strncpy_bytes (length c) c = c"
proof -
  assume "0 \<notin> set c"
  then have "takeWhile (\<lambda>b. b \<noteq> 0) c = c" by (induction c) auto
  then show ?thesis unfolding strncpy_bytes_def by (simp only:) simp
qed

lemma callback_piece:
  assumes "\<not> uart_rvc_done s" and "c \<noteq> []" and "length c \<le> 60" and "0 \<notin> set c"
    and "uart_rvc_len s + length c < length (uart_rcv_data s)"
  defines "n \<equiv> uart_rvc_len s + length c" and "buf \<equiv> poke (uart_rvc_len s) c (uart_rcv_data s)"
  shows "uart_recv_callback c s = Some (if last c = 10 \<or> last c = 13
     then s\<lparr>uart_rcv_data := poke n [0] buf, uart_rvc_len := n, uart_rvc_done := True\<rparr>
     else s\<lparr>uart_rcv_data := buf, uart_rvc_len := n\<rparr>)"
proof -
  have copy: "(if length c > 60 then 60 else length c) = length c" using assms(3) by simp
  have lst: "buf ! (n - 1) = last c"
    using assms(2,5) by (cases c rule: rev_cases) (simp_all add: buf_def n_def nth_poke nth_append)
  have put: "mem_put (uart_rvc_len s) c (uart_rcv_data s) = Some buf"
    "mem_put n [0] buf = Some (poke n [0] buf)" using assms(5) by (simp_all add: buf_def n_def)
  have nz: "n \<noteq> 0" using assms(2) by (simp add: n_def)
  show ?thesis
    unfolding uart_recv_callback_def copy strncpy_plain [OF assms(4)] Let_def
    using assms(1) put lst nz by (simp add: n_def [symmetric] del: mem_put_eq_Some)
qed

text \<open>A line \<open>l\<close> that arrives in the chunks \<open>cs\<close>: the callback sees its end when a chunk ends with a
  carriage return or a line feed, so that is the last chunk and no other one.\<close>

definition line_chunks :: "bytes \<Rightarrow> bytes list \<Rightarrow> bool" where
  "line_chunks l cs \<longleftrightarrow> concat cs = l \<and> 0 \<notin> set l \<and> cs \<noteq> [] \<and>
     list_all (\<lambda>c. c \<noteq> [] \<and> length c \<le> 60) cs \<and> last (last cs) \<in> {10, 13} \<and>
     list_all (\<lambda>c. last c \<notin> {10, 13}) (butlast cs)"

lemma line_chunks_Cons:
  "line_chunks l (c # cs) \<longleftrightarrow> c \<noteq> [] \<and> length c \<le> 60 \<and> 0 \<notin> set c \<and>
     (if cs = [] then l = c \<and> last c \<in> {10, 13}
      else last c \<notin> {10, 13} \<and> l = c @ concat cs \<and> line_chunks (concat cs) cs)"
  by (auto simp: line_chunks_def)

lemma run_line:
  assumes "line_chunks l cs" and "\<not> uart_rvc_done s"
    and "uart_rvc_len s + length l < length (uart_rcv_data s)"
  shows "\<exists>a. run uart_recv_callback cs s = Some (s\<lparr>uart_rcv_data := a,
       uart_rvc_len := uart_rvc_len s + length l, uart_rvc_done := True\<rparr>) \<and>
     length a = length (uart_rcv_data s) \<and>
     take (uart_rvc_len s + length l) a = take (uart_rvc_len s) (uart_rcv_data s) @ l"
  using assms
proof (induction cs arbitrary: l s)
  case Nil
  then show ?case by (simp add: line_chunks_def)
next
  case (Cons c cs)
  have c: "c \<noteq> []" "length c \<le> 60" "0 \<notin> set c" using Cons.prems(1) by (simp_all add: line_chunks_Cons)
  let ?n = "uart_rvc_len s" and ?d = "uart_rcv_data s"
  have room: "?n + length c < length ?d"
    using Cons.prems(1,3) by (auto simp: line_chunks_Cons split: if_splits)
  note piece = callback_piece [OF Cons.prems(2) c(1,2,3) room]
  have tk: "take (?n + length c) (poke ?n c ?d) = take ?n ?d @ c"
    using room by (simp add: poke_def)
  show ?case
  proof (cases "cs = []")
    case True
    then have "l = c" "last c = 10 \<or> last c = 13" using Cons.prems(1) by (auto simp: line_chunks_Cons)
    then show ?thesis using piece True room tk by (auto simp: take_poke_before)
  next
    case False
    then have line: "line_chunks (concat cs) cs" and l: "l = c @ concat cs" "last c \<notin> {10, 13}"
      using Cons.prems(1) by (simp_all add: line_chunks_Cons)
    then have step: "uart_recv_callback c s = Some (s\<lparr>uart_rcv_data := poke ?n c ?d, uart_rvc_len := ?n + length c\<rparr>)"
      using piece by simp
    let ?s = "s\<lparr>uart_rcv_data := poke ?n c ?d, uart_rvc_len := ?n + length c\<rparr>"
    obtain a where "run uart_recv_callback cs ?s = Some (?s\<lparr>uart_rcv_data := a,
        uart_rvc_len := uart_rvc_len ?s + length (concat cs), uart_rvc_done := True\<rparr>)"
      "length a = length (uart_rcv_data ?s)"
      "take (uart_rvc_len ?s + length (concat cs)) a = take (uart_rvc_len ?s) (uart_rcv_data ?s) @ concat cs"
      using Cons.IH [OF line, of ?s] Cons.prems(2,3) l room by auto
    then show ?thesis using step tk l room by (intro exI [of _ a]) (simp add: add.assoc)
  qed
qed

text \<open>Whatever arrives between the end of the line and the moment the waiting thread runs only resets
  the length.\<close>

lemma run_done:
  "uart_rvc_done s \<Longrightarrow>
     run uart_recv_callback late s = Some (if late = [] then s else s\<lparr>uart_rvc_len := 0\<rparr>)"
  by (induction late arbitrary: s) (simp_all add: uart_recv_callback_def)

section \<open>An exchange with a peer that answers\<close>

definition samd_ok :: "('fl, 'z) samd_state_scheme \<Rightarrow> bool" where
  "samd_ok s \<longleftrightarrow> length (uart_rcv_data s) = 64 \<and> length (ret_buff s) = 32 \<and> ret_buff s ! 31 = 0 \<and>
     length (samd_pkt_buff s) = 528 \<and> length (align_buff s) = 528 \<and>
     length (firmware_pad s) = 32768 \<and> length (samd_ver s) = 4 \<and> length (battery_info s) = 32"

lemma answer_received:
  assumes "samd_ok s" and "cmd \<noteq> []" and "arrivals s = (cs @ late) # rest"
    and "line_chunks l cs" and "length l \<le> 31" and got: "r = (if late = [] then l else [])"
  shows "\<exists>t. Send_SAMD_CMD cmd s = Some (0, t) \<and> str_at (ret_buff t) 0 = Some r \<and>
    sent t = sent s @ [cmd] \<and> arrivals t = rest \<and> same_link s t \<and> samd_ok t"
proof -
  let ?s0 = "s\<lparr>ret_buff := poke 0 [0] (ret_buff s)\<rparr>"
  let ?s1 = "(clear_uart_recv ?s0)\<lparr>sent := sent s @ [cmd], arrivals := rest\<rparr>"
  have len: "length (uart_rcv_data s) = 64" "length (ret_buff s) = 32" using assms(1) by (simp_all add: samd_ok_def)
  obtain a where a: "run uart_recv_callback cs ?s1 = Some (?s1\<lparr>uart_rcv_data := a,
       uart_rvc_len := length l, uart_rvc_done := True\<rparr>)" "length a = 64" "take (length l) a = l"
    using run_line [OF assms(4), of ?s1] assms(5) len by (auto simp: clear_uart_recv_def)
  let ?s2 = "?s1\<lparr>uart_rcv_data := a, uart_rvc_len := length r, uart_rvc_done := True\<rparr>"
  have r: "length r \<le> 31" "0 \<notin> set r" "take (length r) a = r"
    using assms(4,5) a(3) by (auto simp: got line_chunks_def)
  have tr: "transmit cmd (clear_uart_recv ?s0) = Some ?s2"
    using a(1) assms(3) by (simp add: transmit_def clear_uart_recv_def run_append run_done got)
  have tk: "take (length r) (a[31 := 0]) = r" using r(1,3) by simp
  have b1: "mem_put 0 r (poke 0 [0] (ret_buff s)) = Some (poke 0 r (poke 0 [0] (ret_buff s)))"
    using len r(1) by simp
  let ?b = "poke (length r) [0] (poke 0 r (poke 0 [0] (ret_buff s)))"
  have b2: "mem_put (length r) [0] (poke 0 r (poke 0 [0] (ret_buff s))) = Some ?b"
    using len r(1) by simp
  let ?t = "?s2\<lparr>uart_rcv_data := a[31 := 0], ret_buff := ?b\<rparr>"
  have "samd_try 2 cmd ?s0 = Some (0, ?t)"
    using tr tk b1 b2 by (simp add: numeral_2_eq_2 Let_def clear_frame(4) del: mem_put_eq_Some)
  then have "Send_SAMD_CMD cmd s = Some (0, ?t)"
    using assms(2) len by (simp add: Send_SAMD_CMD_def mem_put_def Let_def)
  moreover have "str_at ?b 0 = Some r"
  proof -
    have "is_cstr r" using r(2) by (simp add: is_cstr_def)
    moreover have "has_bytes ?b (0, r @ [0])"
      using len r(1) by (simp add: has_bytes_def poke_def)
    ultimately show ?thesis by (intro has_bytes_str)
  qed
  moreover have "?b ! 31 = 0"
    using len assms(1) r(1) by (cases "length r = 31") (simp_all add: nth_poke samd_ok_def)
  then have "samd_ok ?t" using assms(1) r(1) a(2) len by (simp add: samd_ok_def clear_uart_recv_def)
  moreover have "same_link s ?t" using a(2) len r(1) by (simp add: same_link_def clear_uart_recv_def)
  ultimately show ?thesis by (intro exI [of _ ?t]) simp
qed

section \<open>An exchange with any peer\<close>

text \<open>What a short answer is: the chunks of one wait are not empty and hold at most 31 bytes.\<close>

definition quiet :: "bytes list \<Rightarrow> bool" where
  "quiet cs \<longleftrightarrow> list_all (\<lambda>c. c \<noteq> []) cs \<and> length (concat cs) \<le> 31"

lemma callback_total:
  assumes "length (uart_rcv_data s) = 64" and "c \<noteq> []" and "length c \<le> 60"
    and "uart_rvc_done s \<or> uart_rvc_len s + length c \<le> 31"
  shows "\<exists>t. uart_recv_callback c s = Some t \<and> length (uart_rcv_data t) = 64 \<and>
    uart_rvc_len t = (if uart_rvc_done s then 0 else uart_rvc_len s + length c) \<and>
    (uart_rvc_done s \<longrightarrow> uart_rvc_done t)"
proof (cases "uart_rvc_done s")
  case True
  then show ?thesis using assms(1) by (simp add: uart_recv_callback_def)
next
  case False
  have "length (strncpy_bytes (length c) c) = length c" by (simp add: strncpy_bytes_def)
  then show ?thesis using False assms by (simp add: uart_recv_callback_def Let_def mem_put_def)
qed

lemma run_quiet:
  assumes "length (uart_rcv_data s) = 64" and "list_all (\<lambda>c. c \<noteq> []) cs" and "uart_rvc_len s \<le> 31"
    and "length (concat cs) \<le> 31" and "uart_rvc_done s \<or> uart_rvc_len s + length (concat cs) \<le> 31"
  shows "\<exists>t. run uart_recv_callback cs s = Some t \<and> length (uart_rcv_data t) = 64 \<and> uart_rvc_len t \<le> 31"
  using assms
proof (induction cs arbitrary: s)
  case (Cons c cs)
  obtain t where t: "uart_recv_callback c s = Some t" "length (uart_rcv_data t) = 64"
    "uart_rvc_len t = (if uart_rvc_done s then 0 else uart_rvc_len s + length c)"
    "uart_rvc_done s \<longrightarrow> uart_rvc_done t"
    using callback_total [of s c] Cons.prems by auto
  have "\<exists>u. run uart_recv_callback cs t = Some u \<and> length (uart_rcv_data u) = 64 \<and> uart_rvc_len u \<le> 31"
    using t Cons.prems by (intro Cons.IH) (auto split: if_splits)
  then show ?case using t(1) by simp
qed simp

lemma transmit_quiet:
  assumes "length (uart_rcv_data s) = 64" and "list_all quiet (arrivals s)"
  shows "\<exists>t. transmit cmd (clear_uart_recv s) = Some t \<and> length (uart_rcv_data t) = 64 \<and>
    uart_rvc_len t \<le> 31 \<and> list_all quiet (arrivals t)"
proof -
  let ?cs = "case arrivals s of [] \<Rightarrow> [] | c # _ \<Rightarrow> c"
  have q: "quiet ?cs" "list_all quiet (tl (arrivals s))"
    using assms(2) by (cases "arrivals s"; simp add: quiet_def)+
  let ?s = "(clear_uart_recv s)\<lparr>sent := sent s @ [cmd], arrivals := tl (arrivals s)\<rparr>"
  obtain t where t: "run uart_recv_callback ?cs ?s = Some t" "length (uart_rcv_data t) = 64" "uart_rvc_len t \<le> 31"
    using run_quiet [of ?s ?cs] q(1) assms(1) by (auto simp: quiet_def clear_uart_recv_def)
  moreover have "arrivals t = tl (arrivals s)" using run_callback_frame [OF t(1)] by simp
  moreover have "transmit cmd (clear_uart_recv s) = run uart_recv_callback ?cs ?s"
    by (simp add: transmit_def clear_uart_recv_def)
  ultimately show ?thesis using q(2) by simp
qed

lemma samd_try_safe:
  assumes "samd_ok s" and "list_all quiet (arrivals s)"
  shows "\<exists>ret t. samd_try k cmd s = Some (ret, t) \<and> samd_ok t \<and> list_all quiet (arrivals t)"
  using assms
proof (induction k arbitrary: s)
  case 0
  then show ?case by (simp add: samd_ok_def)
next
  case (Suc k)
  have "length (uart_rcv_data s) = 64" using Suc.prems(1) by (simp add: samd_ok_def)
  from transmit_quiet [OF this Suc.prems(2), of cmd]
  obtain s1 where s1: "transmit cmd (clear_uart_recv s) = Some s1" "length (uart_rcv_data s1) = 64"
    "uart_rvc_len s1 \<le> 31" "list_all quiet (arrivals s1)" by blast
  have fr: "same_link (clear_uart_recv s) s1" "ret_buff s1 = ret_buff s"
    using transmit_frame [OF s1(1)] by (simp_all add: clear_frame)
  have ok: "samd_ok s1" using fr Suc.prems(1) by (simp add: samd_ok_def same_link_def clear_uart_recv_def)
  show ?case
  proof (cases "uart_rvc_done s1")
    case False
    then show ?thesis using Suc.IH [OF ok s1(4)] s1(1) by simp
  next
    case True
    let ?n = "uart_rvc_len s1" and ?d = "(uart_rcv_data s1)[31 := 0]"
    let ?b1 = "poke 0 (take ?n ?d) (ret_buff s1)"
    have len: "length (ret_buff s1) = 32" "ret_buff s1 ! 31 = 0" using ok by (simp_all add: samd_ok_def)
    have tk: "length (take ?n ?d) = ?n" using s1(2,3) by simp
    have b1: "mem_put 0 (take ?n ?d) (ret_buff s1) = Some ?b1" "length ?b1 = 32"
      using len tk s1(3) by (simp_all del: length_take)
    have b2: "mem_put ?n [0] ?b1 = Some (poke ?n [0] ?b1)" using b1(2) s1(3) by simp
    have "?b1 ! 31 = 0" using len tk s1(3) by (simp add: nth_poke del: length_take)
    then have "poke ?n [0] ?b1 ! 31 = 0" using b1(2) s1(3) by (simp add: nth_poke)
    then have "samd_ok (s1\<lparr>uart_rvc_done := True, uart_rcv_data := ?d, ret_buff := poke ?n [0] ?b1\<rparr>)"
      using ok b1(2) s1(3) by (simp add: samd_ok_def)
    then show ?thesis using True s1(1,4) b1(1) b2 by (simp add: Let_def del: mem_put_eq_Some)
  qed
qed

lemma c_str_zero: "i < length m \<Longrightarrow> m ! i = 0 \<Longrightarrow> \<exists>t. c_str m = Some t \<and> length t \<le> i"
proof (induction m arbitrary: i)
  case (Cons b m)
  show ?case
  proof (cases i)
    case (Suc j)
    then show ?thesis using Cons.IH [of j] Cons.prems by auto
  qed (use Cons.prems in simp)
qed simp

lemma send_safe:
  assumes "samd_ok s" and "list_all quiet (arrivals s)" and "cmd \<noteq> []"
  obtains ret t where "Send_SAMD_CMD cmd s = Some (ret, t)" "samd_ok t" "list_all quiet (arrivals t)"
    "same_link s t" "\<And>w. answered w t \<noteq> None"
proof -
  let ?s = "s\<lparr>ret_buff := poke 0 [0] (ret_buff s)\<rparr>"
  have "samd_ok ?s" using assms(1) by (simp add: samd_ok_def nth_poke)
  then obtain ret t where t: "samd_try 2 cmd ?s = Some (ret, t)" "samd_ok t" "list_all quiet (arrivals t)"
    using samd_try_safe [of ?s 2 cmd] assms(2) by auto
  then have send: "Send_SAMD_CMD cmd s = Some (ret, t)"
    using assms(1,3) by (simp add: Send_SAMD_CMD_def samd_ok_def Let_def mem_put_def)
  have "\<exists>u. c_str (ret_buff t) = Some u" using c_str_zero [of 31 "ret_buff t"] t(2) by (auto simp: samd_ok_def)
  then have "answered w t \<noteq> None" for w by (auto simp: answered_def)
  then show thesis using that [OF send t(2,3)] send_cmd_frame(1) [OF send assms(3)] by blast
qed

section \<open>No peer can break a command\<close>

definition calm :: "('fl, 'z) samd_state_scheme \<Rightarrow> bool" where
  "calm s \<longleftrightarrow> samd_ok s \<and> list_all quiet (arrivals s)"

lemma calm_updates [simp]:
  "calm (s\<lparr>samd_locked := b\<rparr>) = calm s" "calm (set_artnet_enable v s) = calm s"
  "calm (samd_unlock s) = calm s" "calm (samd_finish s) = calm s"
  by (simp_all add: calm_def samd_ok_def set_artnet_enable_def samd_unlock_def samd_finish_def)

lemma send_calm:
  assumes "calm s" and "cmd \<noteq> []"
  obtains ret t where "Send_SAMD_CMD cmd s = Some (ret, t)" "calm t" "same_link s t" "\<And>w. \<exists>b. answered w t = Some b"
  using send_safe [of s cmd] assms unfolding calm_def by (metis not_Some_eq)

lemma settings_not_Nil [simp]: "samd_settings args \<noteq> []"
  by (simp add: samd_settings_def)

lemma simple_command_calm:
  assumes "calm s" and "\<not> samd_locked s"
  shows "\<exists>ret t. samd_simple_command args s = Some (ret, t) \<and> calm t \<and> \<not> samd_locked t"
proof -
  have "calm (s\<lparr>samd_locked := True\<rparr>)" using assms(1) by simp
  then obtain ret t where t: "Send_SAMD_CMD (samd_settings args) (s\<lparr>samd_locked := True\<rparr>) = Some (ret, t)" "calm t"
    "\<And>w. \<exists>b. answered w t = Some b" by (rule send_calm [OF _ settings_not_Nil]) blast
  obtain b where "answered (lit ''ok'') t = Some b" using t(3) by blast
  then show ?thesis using t(1,2) assms(2)
    by (cases "ret = 0"; cases b) (simp_all add: samd_simple_command_def samd_lock_def samd_unlock_def)
qed

lemma strtok_length [simp]: "length (strtok_first d b) = length b"
  by (simp add: strtok_first_def Let_def split: option.splits)

lemma battery_calm:
  assumes "calm s" and "\<not> samd_locked s"
  shows "\<exists>ret t. Send_Battery_Command s = Some (ret, t) \<and> calm t \<and> \<not> samd_locked t"
proof -
  have "calm (s\<lparr>samd_locked := True\<rparr>)" using assms(1) by simp
  then obtain ret t where t: "Send_SAMD_CMD (samd_settings [5]) (s\<lparr>samd_locked := True\<rparr>) = Some (ret, t)" "calm t"
    by (rule send_calm [OF _ settings_not_Nil]) blast
  show ?thesis
  proof (cases "ret = 0")
    case False
    then show ?thesis using t assms(2) by (simp add: Send_Battery_Command_def samd_lock_def samd_unlock_def)
  next
    case True
    have len: "length (ret_buff t) = 32" "ret_buff t ! 31 = 0" "length (battery_info t) = 32"
      using t(2) by (simp_all add: calm_def samd_ok_def)
    obtain body where body: "str_at (ret_buff t) 3 = Some body" "length body \<le> 28"
      using c_str_zero [of 28 "drop 3 (ret_buff t)"] len by (auto simp: str_at_def)
    then have "put_str 0 body (battery_info t) = Some (poke 0 (body @ [0]) (battery_info t))" using len by simp
    then show ?thesis using True t assms(2) body len
      by (simp add: Send_Battery_Command_def samd_lock_def samd_unlock_def calm_def samd_ok_def Let_def
          del: put_str_eq_Some)
  qed
qed

lemma send_block_calm:
  assumes "calm s" and "pkt \<noteq> []"
  shows "\<exists>r t. send_block k pkt s = Some (r, t) \<and> calm t"
  using assms(1)
proof (induction k arbitrary: s)
  case (Suc k)
  obtain ret t where t: "Send_SAMD_CMD pkt s = Some (ret, t)" "calm t" "\<And>w. \<exists>b. answered w t = Some b"
    by (rule send_calm [OF Suc.prems assms(2)]) blast
  obtain b where "answered (lit ''ok'') t = Some b" using t(3) by blast
  then show ?case using t(1,2) Suc.IH [OF t(2)] by (cases "ret = 0"; cases b) simp_all
qed simp

lemma send_blocks_calm:
  assumes "calm s" and "off + n * PKT_SIZE \<le> 32768"
  shows "\<exists>r t. send_blocks n off ck s = Some (r, t) \<and> calm t"
  using assms
proof (induction n arbitrary: off ck s)
  case (Suc n)
  have len: "length (firmware_pad s) = 32768" "length (align_buff s) = 528" "length (samd_pkt_buff s) = 528"
    using Suc.prems(1) by (simp_all add: calm_def samd_ok_def)
  let ?blk = "take 512 (drop off (firmware_pad s))"
  have blk: "mem_get off PKT_SIZE (firmware_pad s) = Some ?blk" "length ?blk = 512"
    using len Suc.prems(2) by (simp_all add: PKT_SIZE_def)
  let ?pkt = "poke 512 [fold_bytes (xor_words (PKT_SIZE div 4) 0 ?blk)] (poke 0 ?blk (samd_pkt_buff s))"
  have puts: "mem_put 0 ?blk (align_buff s) = Some (poke 0 ?blk (align_buff s))"
    "mem_put 0 ?blk (samd_pkt_buff s) = Some (poke 0 ?blk (samd_pkt_buff s))"
    "mem_put PKT_SIZE [fold_bytes (xor_words (PKT_SIZE div 4) 0 ?blk)] (poke 0 ?blk (samd_pkt_buff s)) = Some ?pkt"
    using len blk(2) by (simp_all add: PKT_SIZE_def del: length_take)
  let ?s = "s\<lparr>align_buff := poke 0 ?blk (align_buff s), samd_pkt_buff := ?pkt\<rparr>"
  have "calm ?s" using Suc.prems(1) len blk(2) by (simp add: calm_def samd_ok_def del: length_take)
  moreover have "take (PKT_SIZE + 1) ?pkt \<noteq> []" by (simp add: PKT_SIZE_def poke_def)
  ultimately obtain r t where t: "send_block 2 (take (PKT_SIZE + 1) ?pkt) ?s = Some (r, t)" "calm t"
    using send_block_calm by blast
  have "off + PKT_SIZE + n * PKT_SIZE \<le> 32768" using Suc.prems(2) by simp
  note next_blocks = Suc.IH [OF t(2) this]
  show ?case
    using t next_blocks blk(1) puts
    by (cases r) (simp_all add: Let_def del: mem_put_eq_Some mem_get_eq_Some)
qed simp

lemma request_calm:
  assumes "calm s"
  shows "\<exists>r t. request_update k which (samd_settings args) ret s = Some (r, t) \<and> calm t"
  using assms
proof (induction k arbitrary: s ret)
  case (Suc k)
  obtain ret' t where t: "Send_SAMD_CMD (samd_settings args) s = Some (ret', t)" "calm t"
    "\<And>w. \<exists>b. answered w t = Some b"
    by (rule send_calm [OF Suc.prems settings_not_Nil]) blast
  obtain b where "answered (lit ''update'') t = Some b" using t(3) by blast
  then show ?case using t(1,2) Suc.IH [OF t(2), of ret'] Suc.IH [OF t(2), of 0]
    by (cases "ret' = 0"; cases b) auto
qed simp

lemma and_push_mask: "x AND push_bit k (mask m) = push_bit k (take_bit m (drop_bit k (x :: nat)))"
  by (auto intro!: bit_eqI simp: bit_simps)

lemma pad_len_blocks:
  assumes "len \<le> 32768"
  shows "samd_pad_len len = 512 * ((len + 511) div 512)" and "len \<le> samd_pad_len len"
    and "samd_pad_len len \<le> 32768"
proof -
  have mask: "x AND 0xfe00 = push_bit 9 (take_bit 7 (drop_bit 9 x))" for x :: nat
  proof -
    have "(0xfe00 :: nat) = push_bit 9 (mask 7)" by (simp add: mask_eq_exp_minus_1)
    then show ?thesis using and_push_mask [of x 9 7] by (simp only:)
  qed
  have "(len + 511) div 512 < 128" using assms by simp
  then have "take_bit 7 ((len + 511) div 512) = (len + 511) div 512" by (simp add: take_bit_nat_eq_self)
  then show eq: "samd_pad_len len = 512 * ((len + 511) div 512)"
    unfolding samd_pad_len_def mask by (simp add: PKT_SIZE_def drop_bit_eq_div push_bit_eq_mult add.commute)
  show "len \<le> samd_pad_len len" "samd_pad_len len \<le> 32768" using assms unfolding eq by simp_all
qed

lemma download_calm:
  assumes "calm s" and "\<not> samd_locked s" and "length fw \<le> 32768"
  shows "\<exists>ret t. SAMD_firmware_download fw (length fw) which s = Some (ret, t) \<and> calm t \<and>
    \<not> samd_locked t \<and> artnet_enable t = 1"
proof -
  let ?n = "samd_pad_len (length fw)"
  have pad: "length fw \<le> ?n" "?n \<le> 32768" "0 + ?n div PKT_SIZE * PKT_SIZE \<le> 32768"
    using pad_len_blocks [OF assms(3)] by (simp_all add: PKT_SIZE_def)
  let ?p1 = "poke 0 fw (firmware_pad s)"
  let ?p = "poke (length fw) (replicate (?n - length fw) 0) ?p1"
  have fp: "length (firmware_pad s) = 32768" using assms(1) by (simp add: calm_def samd_ok_def)
  have puts: "mem_get 0 (length fw) fw = Some fw" "mem_put 0 fw (firmware_pad s) = Some ?p1"
    "mem_put (length fw) (replicate (?n - length fw) 0) ?p1 = Some ?p" "length ?p = 32768"
    using fp pad assms(3) by simp_all
  let ?s = "(set_artnet_enable 0 (s\<lparr>firmware_pad := ?p\<rparr>))\<lparr>samd_locked := True\<rparr>"
  have lock: "samd_lock (set_artnet_enable 0 (s\<lparr>firmware_pad := ?p\<rparr>)) = Some ?s"
    using assms(2) by (simp add: samd_lock_def set_artnet_enable_def)
  have "calm ?s" using assms(1) puts(4) by (simp add: calm_def samd_ok_def set_artnet_enable_def)
  note unf = SAMD_firmware_download_def Let_def puts bind.bind_lunit lock
  have fin: "calm t \<Longrightarrow> calm (samd_finish t) \<and> \<not> samd_locked (samd_finish t) \<and> artnet_enable (samd_finish t) = 1"
    for t :: "('a, 'b) samd_state_scheme"
    using calm_updates(4) [of t] by (simp add: samd_finish_def samd_unlock_def set_artnet_enable_def del: calm_updates)
  obtain r t where req: "request_update 2 which (samd_settings [if which = 0 then 7 else 8]) 0 ?s = Some (r, t)" "calm t"
    using request_calm [OF \<open>calm ?s\<close>] by blast
  show ?thesis
  proof (cases "r = Inr 0")
    case False
    then show ?thesis using req fin by (cases r) (simp_all add: unf)
  next
    case True
    obtain ret1 t1 where yes: "Send_SAMD_CMD (lit ''yes'') t = Some (ret1, t1)" "calm t1"
      "\<And>w. \<exists>b. answered w t1 = Some b"
      by (rule send_calm [OF req(2), of "lit ''yes''"]) (simp, blast)
    obtain b where b: "answered (lit ''ok'') t1 = Some b" using yes(3) by blast
    show ?thesis
    proof (cases "ret1 = 0 \<and> b")
      case False
      then show ?thesis using True req yes b fin by (auto simp: unf)
    next
      case go: True
      obtain r2 t2 where blocks: "send_blocks (?n div PKT_SIZE) 0 0 t1 = Some (r2, t2)" "calm t2"
        using send_blocks_calm [OF yes(2) pad(3)] by blast
      show ?thesis
      proof (cases r2)
        case (Inl e)
        then show ?thesis using True go req yes b blocks fin by (simp add: unf)
      next
        case (Inr ck)
        have ne: "lit ''done'' @ [word_of_nat (length fw), word_of_nat (length fw div 256), fold_bytes ck] \<noteq> []"
          by simp
        obtain ret3 t3 where "Send_SAMD_CMD (lit ''done'' @ [word_of_nat (length fw), word_of_nat (length fw div 256),
            fold_bytes ck]) t2 = Some (ret3, t3)" "calm t3"
          by (rule send_calm [OF blocks(2) ne]) blast
        then show ?thesis using Inr True go req yes b blocks fin by (simp add: unf del: append_eq_append_conv)
      qed
    qed
  qed
qed

section \<open>What every command gives back\<close>

text \<open>\<open>sends n s t\<close>: from \<open>s\<close> to \<open>t\<close> at most \<open>n\<close> messages were transmitted.\<close>

definition sends :: "nat \<Rightarrow> ('fl, 'z) samd_state_scheme \<Rightarrow> ('fl, 'z) samd_state_scheme \<Rightarrow> bool" where
  "sends n s t \<longleftrightarrow> length (sent t) \<le> length (sent s) + n"

lemma sends_trans: "sends m s t \<Longrightarrow> sends n t u \<Longrightarrow> m + n \<le> k \<Longrightarrow> sends k s u"
  by (simp add: sends_def)

lemma sends_updates [simp]:
  "sends n (s\<lparr>samd_locked := b\<rparr>) t = sends n s t" "sends n (s\<lparr>align_buff := x, samd_pkt_buff := y\<rparr>) t = sends n s t"
  "sends n (set_artnet_enable v s) t = sends n s t" "sends n (s\<lparr>firmware_pad := z\<rparr>) t = sends n s t"
  "sends n s (samd_unlock t) = sends n s t" "sends n s (samd_finish t) = sends n s t"
  "sends n s (t\<lparr>samd_ver := v', battery_info := i\<rparr>) = sends n s t" "sends n s (t\<lparr>samd_locked := b\<rparr>) = sends n s t"
  "sends n s (t\<lparr>samd_ver := v', battery_info := i, samd_locked := b\<rparr>) = sends n s t" "sends n s s"
  by (simp_all add: sends_def set_artnet_enable_def samd_unlock_def samd_finish_def)

lemma send_cmd_sends:
  assumes "Send_SAMD_CMD cmd s = Some (ret, t)" and "cmd \<noteq> []"
  shows "sends 2 s t"
  using send_cmd_frame(3) [OF assms] by (auto simp: sends_def)

lemma simple_command_release:
  assumes "\<not> samd_locked s" and "samd_simple_command args s = Some (ret, t)"
  shows "\<not> samd_locked t \<and> length (sent t) \<le> length (sent s) + 2"
proof -
  have "\<not> samd_locked t \<and> sends 2 s t"
    using assms by (auto simp: samd_simple_command_def samd_lock_def samd_unlock_def dest!: send_cmd_sends
        split: bind_splits if_splits)
  then show ?thesis by (simp add: sends_def)
qed

lemma battery_release:
  assumes "\<not> samd_locked s" and "Send_Battery_Command s = Some (ret, t)"
  shows "\<not> samd_locked t \<and> length (sent t) \<le> length (sent s) + 2"
proof -
  have "\<not> samd_locked t \<and> sends 2 s t"
    using assms by (auto simp: Send_Battery_Command_def samd_lock_def samd_unlock_def Let_def dest!: send_cmd_sends
        split: bind_splits if_splits)
  then show ?thesis by (simp add: sends_def)
qed

lemma request_sends:
  "request_update k which (samd_settings args) ret s = Some (r, t) \<Longrightarrow> sends (2 * k) s t"
proof (induction k arbitrary: ret s)
  case (Suc k)
  then obtain ret' u where u: "Send_SAMD_CMD (samd_settings args) s = Some (ret', u)"
    "t = u \<or> (\<exists>x. request_update k which (samd_settings args) x u = Some (r, t))"
    by (auto split: bind_splits if_splits) blast+
  have "sends 2 s u" by (rule send_cmd_sends [OF u(1) settings_not_Nil])
  moreover have "sends (2 * k) u t" using u(2) Suc.IH by auto
  ultimately show ?case by (rule sends_trans) simp
qed simp

lemma send_block_sends:
  "send_block k pkt s = Some (r, t) \<Longrightarrow> pkt \<noteq> [] \<Longrightarrow> sends (2 * k) s t"
proof (induction k arbitrary: s)
  case (Suc k)
  then obtain ret u where u: "Send_SAMD_CMD pkt s = Some (ret, u)" "t = u \<or> send_block k pkt u = Some (r, t)"
    by (auto split: bind_splits if_splits)
  have "sends 2 s u" by (rule send_cmd_sends [OF u(1) Suc.prems(2)])
  moreover have "sends (2 * k) u t" using u(2) Suc.IH Suc.prems(2) by auto
  ultimately show ?case by (rule sends_trans) simp
qed simp

lemma send_blocks_sends:
  "send_blocks n off ck s = Some (r, t) \<Longrightarrow> sends (4 * n) s t"
proof (induction n arbitrary: off ck s)
  case (Suc n)
  then obtain block al p1 pkt r' u where put: "mem_put PKT_SIZE [fold_bytes (xor_words (PKT_SIZE div 4) 0 block)] p1 = Some pkt"
    and u: "send_block 2 (take (PKT_SIZE + 1) pkt) (s\<lparr>align_buff := al, samd_pkt_buff := pkt\<rparr>) = Some (r', u)"
    and last: "(case r' of Inl ret \<Rightarrow> Some (Inl ret, u)
      | Inr _ \<Rightarrow> send_blocks n (off + PKT_SIZE) (ck XOR xor_words (PKT_SIZE div 4) 0 block) u) = Some (r, t)"
    by (auto simp: Let_def simp del: mem_put_eq_Some mem_get_eq_Some split: bind_splits)
  have next_block: "t = u \<or> (\<exists>ck'. send_blocks n (off + PKT_SIZE) ck' u = Some (r, t))"
    using last by (auto split: sum.splits)
  have "take (PKT_SIZE + 1) pkt \<noteq> []" using put by (auto simp: poke_def)
  from send_block_sends [OF u this] have "sends 4 s u" by simp
  moreover have "sends (4 * n) u t" using next_block Suc.IH by auto
  ultimately show ?case by (rule sends_trans) simp
qed simp

lemma finish_facts: "\<not> samd_locked (samd_finish s)" "artnet_enable (samd_finish s) = 1"
  by (simp_all add: samd_finish_def samd_unlock_def set_artnet_enable_def)

lemma download_release:
  assumes "\<not> samd_locked s" and "length fw \<le> 32768"
    and "SAMD_firmware_download fw (length fw) which s = Some (ret, t)"
  shows "\<not> samd_locked t \<and> artnet_enable t = 1 \<and>
    length (sent t) \<le> length (sent s) + 8 + 4 * ((length fw + 511) div 512)"
proof -
  let ?n = "(length fw + 511) div 512"
  have dv: "samd_pad_len (length fw) div PKT_SIZE = ?n"
    using pad_len_blocks(1) [OF assms(2)] by (simp add: PKT_SIZE_def)
  obtain pad s1 r1 s2 where
    s1: "samd_lock (set_artnet_enable 0 (s\<lparr>firmware_pad := pad\<rparr>)) = Some s1" and
    s2: "request_update 2 which (samd_settings [if which = 0 then 7 else 8]) 0 s1 = Some (r1, s2)" and
    t2: "(\<exists>ret. (ret, t) = (ret, samd_finish s2)) \<or>
      (\<exists>ret3 s3. Send_SAMD_CMD (lit ''yes'') s2 = Some (ret3, s3) \<and> (t = samd_finish s3 \<or>
        (\<exists>r4 s4. send_blocks ?n 0 0 s3 = Some (r4, s4) \<and> (t = samd_finish s4 \<or>
          (\<exists>ck ret5 s5. Send_SAMD_CMD (lit ''done'' @ ck) s4 = Some (ret5, s5) \<and> t = samd_finish s5)))))"
    using assms(3) unfolding SAMD_firmware_download_def Let_def dv
    by (auto split: bind_splits if_splits sum.splits) blast+
  have a: "sends 4 s s2" using request_sends [OF s2] s1 by (auto simp: samd_lock_def split: if_splits)
  have b: "sends (8 + 4 * ?n) s t" and c: "\<exists>u. t = samd_finish u"
    using t2 a
    by (auto dest!: send_cmd_sends send_blocks_sends) (auto simp: sends_def)
  show ?thesis using b c finish_facts by (auto simp: sends_def)
qed

section \<open>The checksums of the download\<close>

lemma fold_bytes_xor: "fold_bytes (a XOR b) = fold_bytes a XOR fold_bytes b"
proof -
  have "(w XOR x) XOR (y XOR z) = (w XOR y) XOR (x XOR z)" for w x y z :: byte
    by (simp add: xor.assoc xor.left_commute)
  then show ?thesis
    by (simp add: fold_bytes_def le32_def unsigned_xor_eq drop_bit_xor ucast_drop_bit_eq xor.assoc xor.left_commute)
qed

lemma le32_ld32: "le32 (ld32 m 0) = [m ! 0, m ! 1, m ! 2, m ! 3]"
  unfolding le32_def ld32_def list.inject add_0
  by (intro conjI refl bit_word_eqI) (auto simp: bit_simps)

lemma fold_bytes_ld32:
  assumes "4 \<le> length m"
  shows "fold_bytes (ld32 m 0) = foldl (XOR) 0 (take 4 m)"
proof -
  obtain a b c d r where "m = a # b # c # d # r"
    using assms by (auto simp: numeral_eq_Suc Suc_le_length_iff)
  then show ?thesis by (simp add: fold_bytes_def le32_ld32 numeral_2_eq_2 numeral_3_eq_3)
qed

lemma xor_words_bytes:
  "4 * k \<le> length m \<Longrightarrow> fold_bytes (xor_words k ck m) = fold_bytes ck XOR foldl (XOR) 0 (take (4 * k) m)"
proof (induction k arbitrary: ck m)
  case (Suc k)
  have "take (4 * Suc k) m = take 4 m @ take (4 * k) (drop 4 m)"
    by (metis add.commute mult_Suc_right take_add)
  then have sum: "foldl (XOR) 0 (take (4 * Suc k) m) = foldl (XOR) 0 (take 4 m) XOR foldl (XOR) 0 (take (4 * k) (drop 4 m))"
    using ck8.sum_append by simp
  have "fold_bytes (xor_words (Suc k) ck m) =
      fold_bytes (ck XOR ld32 m 0) XOR foldl (XOR) 0 (take (4 * k) (drop 4 m))"
    using Suc.IH [of "drop 4 m" "ck XOR ld32 m 0"] Suc.prems by simp
  also have "fold_bytes (ck XOR ld32 m 0) = fold_bytes ck XOR foldl (XOR) 0 (take 4 m)"
    using Suc.prems by (simp add: fold_bytes_xor fold_bytes_ld32)
  finally show ?case unfolding sum by (simp add: xor.assoc)
qed simp

section \<open>A download that succeeds\<close>

definition reply_line :: "bytes \<Rightarrow> bytes list \<Rightarrow> bool" where
  "reply_line word cs \<longleftrightarrow> (\<exists>l. line_chunks l cs \<and> length l \<le> 31 \<and> has_sub l word)"

lemma send_reply:
  assumes "samd_ok s" and "cmd \<noteq> []" and "arrivals s = cs # rest" and "reply_line w cs"
  obtains t where "Send_SAMD_CMD cmd s = Some (0, t)" "answered w t = Some True"
    "sent t = sent s @ [cmd]" "arrivals t = rest" "same_link s t" "samd_ok t"
proof -
  obtain l where l: "line_chunks l cs" "length l \<le> 31" "has_sub l w"
    using assms(4) by (auto simp: reply_line_def)
  obtain t where "Send_SAMD_CMD cmd s = Some (0, t)" "str_at (ret_buff t) 0 = Some l"
    "sent t = sent s @ [cmd]" "arrivals t = rest" "same_link s t" "samd_ok t"
    using answer_received [of s cmd cs "[]" rest l l] assms(1-3) l(1,2) by auto
  then show thesis using that [of t] l(3) by (simp add: answered_def str_at_def)
qed

text \<open>What is to be transmitted for an image: every block of 512 bytes with the XOR of its bytes.\<close>

primrec image_packets :: "nat \<Rightarrow> nat \<Rightarrow> bytes \<Rightarrow> bytes list" where
  "image_packets 0 off img = []"
| "image_packets (Suc n) off img =
     (take 512 (drop off img) @ [foldl (XOR) 0 (take 512 (drop off img))]) # image_packets n (off + 512) img"

lemma image_packets_prefix:
  "off + 512 * n \<le> length img \<Longrightarrow> image_packets n off (img @ r) = image_packets n off img"
  by (induction n arbitrary: off) auto

lemma send_blocks_ok:
  assumes "samd_ok s" and "off + 512 * n \<le> 32768" and "arrivals s = bs @ rest" and "length bs = n"
    and "list_all (reply_line (lit ''ok'')) bs"
  shows "\<exists>ck' t. send_blocks n off ck s = Some (Inr ck', t) \<and>
    fold_bytes ck' = fold_bytes ck XOR foldl (XOR) 0 (take (512 * n) (drop off (firmware_pad s))) \<and>
    sent t = sent s @ image_packets n off (firmware_pad s) \<and> arrivals t = rest \<and> samd_ok t"
  using assms
proof (induction n arbitrary: off ck s bs)
  case (Suc n)
  obtain b bs' where bs: "bs = b # bs'" using Suc.prems(4) by (cases bs) auto
  have len: "length (firmware_pad s) = 32768" "length (align_buff s) = 528" "length (samd_pkt_buff s) = 528"
    using Suc.prems(1) by (simp_all add: samd_ok_def)
  let ?blk = "take 512 (drop off (firmware_pad s))"
  let ?ck = "xor_words (PKT_SIZE div 4) 0 ?blk"
  have blk: "mem_get off PKT_SIZE (firmware_pad s) = Some ?blk" "length ?blk = 512"
    using len Suc.prems(2) by (simp_all add: PKT_SIZE_def)
  let ?pkt = "poke 512 [fold_bytes ?ck] (poke 0 ?blk (samd_pkt_buff s))"
  have puts: "mem_put 0 ?blk (align_buff s) = Some (poke 0 ?blk (align_buff s))"
    "mem_put 0 ?blk (samd_pkt_buff s) = Some (poke 0 ?blk (samd_pkt_buff s))"
    "mem_put PKT_SIZE [fold_bytes ?ck] (poke 0 ?blk (samd_pkt_buff s)) = Some ?pkt"
    using len blk(2) by (simp_all add: PKT_SIZE_def del: length_take)
  have "fold_bytes ?ck = fold_bytes 0 XOR foldl (XOR) 0 (take (4 * (PKT_SIZE div 4)) ?blk)"
    using blk(2) by (intro xor_words_bytes) (simp add: PKT_SIZE_def)
  then have sum: "fold_bytes ?ck = foldl (XOR) 0 ?blk"
    by (simp add: PKT_SIZE_def fold_bytes_def le32_def)
  have pkt: "take (PKT_SIZE + 1) ?pkt = ?blk @ [foldl (XOR) 0 ?blk]"
    using blk(2) len unfolding sum by (simp add: poke_def PKT_SIZE_def del: length_take)
  let ?s = "s\<lparr>align_buff := poke 0 ?blk (align_buff s), samd_pkt_buff := ?pkt\<rparr>"
  have ok: "samd_ok ?s" using Suc.prems(1) len blk(2) by (simp add: samd_ok_def del: length_take)
  have ne: "?blk @ [foldl (XOR) 0 ?blk] \<noteq> []" by (rule snoc_not_Nil)
  have arr: "arrivals ?s = b # bs' @ rest" and rep: "reply_line (lit ''ok'') b"
    using Suc.prems(3,5) bs by simp_all
  obtain t where t: "Send_SAMD_CMD (?blk @ [foldl (XOR) 0 ?blk]) ?s = Some (0, t)"
    "answered (lit ''ok'') t = Some True" "sent t = sent ?s @ [?blk @ [foldl (XOR) 0 ?blk]]"
    "arrivals t = bs' @ rest" "same_link ?s t" "samd_ok t"
    by (rule send_reply [OF ok ne arr rep]) blast
  have fw: "firmware_pad t = firmware_pad s" using t(5) by (simp add: same_link_def)
  obtain ck' u where u: "send_blocks n (off + 512) (ck XOR ?ck) t = Some (Inr ck', u)"
    "fold_bytes ck' = fold_bytes (ck XOR ?ck) XOR foldl (XOR) 0 (take (512 * n) (drop (off + 512) (firmware_pad t)))"
    "sent u = sent t @ image_packets n (off + 512) (firmware_pad t)" "arrivals u = rest" "samd_ok u"
    using Suc.IH [OF t(6) _ t(4), of "off + 512" "ck XOR ?ck"] Suc.prems(2,4,5) bs by auto
  have run: "send_blocks (Suc n) off ck s = Some (Inr ck', u)"
    using blk(1) puts t(1,2) u(1) pkt
    by (simp add: Let_def numeral_2_eq_2 PKT_SIZE_def del: mem_put_eq_Some mem_get_eq_Some)
  have "take (512 * Suc n) (drop off (firmware_pad s)) = ?blk @ take (512 * n) (drop (off + 512) (firmware_pad s))"
    by (simp only: mult_Suc_right take_add drop_drop add.commute [of 512 off])
  then have "foldl (XOR) 0 (take (512 * Suc n) (drop off (firmware_pad s))) =
      foldl (XOR) 0 ?blk XOR foldl (XOR) 0 (take (512 * n) (drop (off + 512) (firmware_pad s)))"
    using ck8.sum_append by simp
  then show ?case using run u t(3) sum fw by (simp add: fold_bytes_xor xor.assoc)
qed simp

lemma foldl_xor_zeros: "foldl (XOR) a (replicate k (0 :: byte)) = a"
  by (induction k) simp_all

lemma request_update_ok:
  assumes "samd_ok s" and "arrivals s = cs # rest" and "reply_line (lit ''update'') cs"
  obtains t where "request_update 2 which (samd_settings args) ret s = Some (Inr 0, t)"
    "sent t = sent s @ [samd_settings args]" "arrivals t = rest" "same_link s t" "samd_ok t"
proof -
  obtain t where "Send_SAMD_CMD (samd_settings args) s = Some (0, t)" "answered (lit ''update'') t = Some True"
    "sent t = sent s @ [samd_settings args]" "arrivals t = rest" "same_link s t" "samd_ok t"
    by (rule send_reply [OF assms(1) settings_not_Nil assms(2,3)]) blast
  then show thesis by (intro that [of t]) (simp_all add: numeral_2_eq_2)
qed

section \<open>Properties\<close>

text \<open>
  C17. However the driver cuts a line of at most 31 bytes into chunks (the line ends with the first
  chunk that ends in a carriage return or a line feed), \<open>Send_SAMD_CMD\<close> returns 0 after one
  transmission. The response buffer holds exactly the line when nothing arrives behind that chunk
  before the waiting thread runs, and is empty when anything does (a line feed that comes as a chunk
  of its own behind the carriage return, for instance).
\<close>

theorem samd_answer_assembled:
  assumes "samd_ok s" and "cmd \<noteq> []" and "arrivals s = (cs @ late) # rest"
    and "line_chunks l cs" and "length l \<le> 31"
  shows "\<exists>t. Send_SAMD_CMD cmd s = Some (0, t) \<and> sent t = sent s @ [cmd] \<and>
    str_at (ret_buff t) 0 = Some (if late = [] then l else [])"
  using answer_received [OF assms refl] by blast


text \<open>
  C18. A download to a SAMD that confirms every step returns 0 and transmits the request, the
  confirmation, the image in blocks of 512 bytes (filled up with zeros), each followed by the XOR
  of its bytes, and at the end, once or twice, the length and the XOR of all bytes of the image.
\<close>

theorem firmware_download_transmits:
  assumes "calm s" and "\<not> samd_locked s" and "length fw \<le> 32768"
    and "arrivals s = u # y # bs @ rest" and "length bs = (length fw + 511) div 512"
    and "reply_line (lit ''update'') u" and "list_all (reply_line (lit ''ok'')) (y # bs)"
    and n_def: "n = (length fw + 511) div 512"
  shows "\<exists>t j. SAMD_firmware_download fw (length fw) which s = Some (0, t) \<and> 1 \<le> j \<and> j \<le> 2 \<and>
    sent t = sent s @ [samd_settings [if which = 0 then 7 else 8], lit ''yes''] @
      image_packets n 0 (fw @ replicate (512 * n - length fw) 0) @
      replicate j (lit ''done'' @ [word_of_nat (length fw), word_of_nat (length fw div 256), foldl (XOR) 0 fw])"
proof -
  let ?n = "samd_pad_len (length fw)"
  have pl: "?n = 512 * n" "length fw \<le> 512 * n" "512 * n \<le> 32768"
    using pad_len_blocks [OF assms(3)] by (simp_all add: n_def)
  have dv: "?n div PKT_SIZE = n" using pl(1) by (simp add: PKT_SIZE_def)
  let ?p1 = "poke 0 fw (firmware_pad s)"
  let ?p = "poke (length fw) (replicate (?n - length fw) 0) ?p1"
  have fp: "length (firmware_pad s) = 32768" using assms(1) by (simp add: calm_def samd_ok_def)
  have puts: "mem_get 0 (length fw) fw = Some fw" "mem_put 0 fw (firmware_pad s) = Some ?p1"
    "mem_put (length fw) (replicate (?n - length fw) 0) ?p1 = Some ?p" "length ?p = 32768"
    using fp pl assms(3) by simp_all
  let ?img = "fw @ replicate (512 * n - length fw) 0"
  have p: "?p = ?img @ drop (512 * n) (firmware_pad s)" using fp pl assms(3) by (simp add: poke_def)
  have img: "length ?img = 512 * n" using pl(2) by simp
  let ?s = "(set_artnet_enable 0 (s\<lparr>firmware_pad := ?p\<rparr>))\<lparr>samd_locked := True\<rparr>"
  have lock: "samd_lock (set_artnet_enable 0 (s\<lparr>firmware_pad := ?p\<rparr>)) = Some ?s"
    using assms(2) by (simp add: samd_lock_def set_artnet_enable_def)
  have s: "samd_ok ?s" "arrivals ?s = u # y # bs @ rest" "sent ?s = sent s" "firmware_pad ?s = ?p"
    using assms(1,4) puts(4) by (simp_all add: calm_def samd_ok_def set_artnet_enable_def)
  obtain t where t: "request_update 2 which (samd_settings [if which = 0 then 7 else 8]) 0 ?s = Some (Inr 0, t)"
    "sent t = sent ?s @ [samd_settings [if which = 0 then 7 else 8]]" "arrivals t = y # bs @ rest"
    "same_link ?s t" "samd_ok t"
    by (rule request_update_ok [OF s(1,2) assms(6)]) blast
  have yes_ne: "lit ''yes'' \<noteq> []" and y: "reply_line (lit ''ok'') y" and bs: "list_all (reply_line (lit ''ok'')) bs"
    using assms(7) by simp_all
  obtain t1 where t1: "Send_SAMD_CMD (lit ''yes'') t = Some (0, t1)" "answered (lit ''ok'') t1 = Some True"
    "sent t1 = sent t @ [lit ''yes'']" "arrivals t1 = bs @ rest" "same_link t t1" "samd_ok t1"
    by (rule send_reply [OF t(5) yes_ne t(3) y]) blast
  have fw1: "firmware_pad t1 = ?p" using t(4) t1(5) s(4) by (simp add: same_link_def)
  obtain ck t2 where t2: "send_blocks n 0 0 t1 = Some (Inr ck, t2)"
    "fold_bytes ck = fold_bytes 0 XOR foldl (XOR) 0 (take (512 * n) (drop 0 ?p))"
    "sent t2 = sent t1 @ image_packets n 0 ?p" "arrivals t2 = rest" "samd_ok t2"
    using send_blocks_ok [OF t1(6) _ t1(4) _ bs, of 0 n 0] pl(3) assms(5) fw1 by (auto simp: n_def)
  have "take (512 * n) (drop 0 ?p) = ?img" unfolding p using img by simp
  then have ck: "fold_bytes ck = foldl (XOR) 0 fw"
    using t2(2) by (simp add: foldl_xor_zeros fold_bytes_def le32_def)
  have pk: "image_packets n 0 ?p = image_packets n 0 ?img"
    unfolding p using img by (intro image_packets_prefix) simp
  let ?done = "lit ''done'' @ [word_of_nat (length fw), word_of_nat (length fw div 256), fold_bytes ck]"
  have ne: "?done \<noteq> []" by simp
  have "calm t2" using t2(4,5) assms(1,4) by (simp add: calm_def)
  then obtain r3 t3 where t3: "Send_SAMD_CMD ?done t2 = Some (r3, t3)" by (rule send_calm [OF _ ne]) blast
  obtain j where j: "1 \<le> j" "j \<le> 2" "sent t3 = sent t2 @ replicate j ?done"
    using send_cmd_frame(3) [OF t3 ne] by auto
  have "SAMD_firmware_download fw (length fw) which s = Some (0, samd_finish t3)"
    unfolding SAMD_firmware_download_def Let_def puts bind.bind_lunit lock dv
    using t(1) t1(1,2) t2(1) t3 by simp
  moreover have "sent (samd_finish t3) = sent t3" by (simp add: samd_finish_def samd_unlock_def set_artnet_enable_def)
  ultimately show ?thesis using j t(2) s(3) t1(3) t2(3) ck pk by (intro exI [of _ "samd_finish t3"] exI [of _ j]) simp
qed

text \<open>
  An image of more than 32768 bytes overruns the padding buffer before anything is sent.
\<close>

theorem large_firmware_overruns:
  assumes "samd_ok s" and "32768 < length fw"
  shows "SAMD_firmware_download fw (length fw) which s = None"
  using assms by (simp add: SAMD_firmware_download_def samd_ok_def mem_put_def mem_get_def Let_def)

section \<open>Sample exchanges\<close>

definition sample_samd :: "bytes list list \<Rightarrow> bytes samd_state" where
  "sample_samd arr = \<lparr>g_web_config = [], user_flash = [], artnet_enable = 1, client_valid_num = 0,
     ipAddress = replicate 4 0, gaffer_data = replicate sizeof_gaffer_data 0,
     artpollreply_msg = replicate sizeof_artpollreply 0, artnet_hdr_msg = replicate sizeof_artnet_hdr 0,
     dmx_count = 0, outputs = [], uart_rcv_data = replicate 64 0, uart_rvc_len = 0, uart_rvc_done = True, ret_buff = replicate 32 0,
     samd_pkt_buff = replicate 528 0, align_buff = replicate 528 0, firmware_pad = replicate 32768 0,
     samd_ver = replicate 4 0, battery_info = replicate 32 0, samd_locked = False, arrivals = arr, sent = []\<rparr>"

lemma sample_samd_facts:
  "samd_ok (sample_samd arr)" "\<not> samd_locked (sample_samd arr)" "arrivals (sample_samd arr) = arr"
  "sent (sample_samd arr) = []"
  by (simp_all add: samd_ok_def sample_samd_def nth_replicate)

lemma sample_line:
  "set w \<inter> {0, 10, 13} = {} \<Longrightarrow> w \<noteq> [] \<Longrightarrow> length w \<le> 30 \<Longrightarrow>
     line_chunks (w @ [10]) [w, [10]] \<and> length (w @ [10]) \<le> 31"
  using last_in_set [of w] by (auto simp: line_chunks_def dest: sym)

lemma is_prefix_append: "is_prefix w (w @ r)"
  by (simp add: is_prefix_def)

lemma has_sub_append: "has_sub (w @ r) w"
  by (cases "w @ r") (simp_all add: has_sub_def, metis append_Nil2 is_prefix_append)

lemma sample_reply:
  "set w \<inter> {0, 10, 13} = {} \<Longrightarrow> w \<noteq> [] \<Longrightarrow> length w \<le> 30 \<Longrightarrow> reply_line w [w, [10]]"
  using sample_line [of w] has_sub_append [of w "[10]"] by (auto simp: reply_line_def)

theorem samd_answer_assembled_witness:
  "\<exists>t u. Send_SAMD_CMD [4] (sample_samd [[lit ''o'', lit ''k'' @ [13, 10]]]) = Some (0, t) \<and>
     str_at (ret_buff t) 0 = Some (lit ''ok'' @ [13, 10]) \<and> sent t = [[4]] \<and>
     Send_SAMD_CMD [4] (sample_samd [[lit ''ok'' @ [13], [10]]]) = Some (0, u) \<and> str_at (ret_buff u) 0 = Some []"
proof -
  have "line_chunks (lit ''ok'' @ [13, 10]) [lit ''o'', lit ''k'' @ [13, 10]]"
    "line_chunks (lit ''ok'' @ [13]) [lit ''ok'' @ [13]]"
    by (simp_all add: line_chunks_def)
  from samd_answer_assembled [OF sample_samd_facts(1), of "[4]" "[[lit ''o'', lit ''k'' @ [13, 10]]]", OF _ _ this(1), of "[]" "[]"]
    samd_answer_assembled [OF sample_samd_facts(1), of "[4]" "[[lit ''ok'' @ [13], [10]]]", OF _ _ this(2), of "[[10]]" "[]"]
  show ?thesis by (simp add: sample_samd_facts) blast
qed


theorem firmware_download_transmits_witness:
  "\<exists>t. SAMD_firmware_download [1, 2, 3] 3 0
     (sample_samd [[lit ''update'', [10]], [lit ''ok'', [10]], [lit ''ok'', [10]]]) = Some (0, t) \<and>
     sent t ! 2 = [1, 2, 3] @ replicate 509 0 @ [0]"
proof -
  let ?ok = "[lit ''ok'', [10]]" and ?up = "[lit ''update'', [10]]"
  have c: "calm (sample_samd [?up, ?ok, ?ok])" by (simp add: calm_def quiet_def sample_samd_facts)
  have r: "reply_line (lit ''update'') ?up" "list_all (reply_line (lit ''ok'')) [?ok, ?ok]"
    using sample_reply [of "lit ''update''"] sample_reply [of "lit ''ok''"] by simp_all
  let ?fw = "[1, 2, 3] :: bytes" and ?s = "sample_samd [?up, ?ok, ?ok]"
  have "\<exists>t j. SAMD_firmware_download ?fw (length ?fw) 0 ?s = Some (0, t) \<and> 1 \<le> j \<and> j \<le> 2 \<and>
    sent t = sent ?s @ [samd_settings [if (0 :: int) = 0 then 7 else 8], lit ''yes''] @
      image_packets 1 0 (?fw @ replicate (512 * 1 - length ?fw) 0) @
      replicate j (lit ''done'' @ [word_of_nat (length ?fw), word_of_nat (length ?fw div 256), foldl (XOR) 0 ?fw])"
    by (rule firmware_download_transmits [OF c sample_samd_facts(2), of ?fw ?up ?ok "[?ok]" "[]"])
      (use r in \<open>simp_all add: sample_samd_facts\<close>)
  then obtain t j where t: "SAMD_firmware_download ?fw (length ?fw) 0 ?s = Some (0, t)"
    "sent t = sent ?s @ [samd_settings [if (0 :: int) = 0 then 7 else 8], lit ''yes''] @
      image_packets 1 0 (?fw @ replicate (512 * 1 - length ?fw) 0) @
      replicate j (lit ''done'' @ [word_of_nat (length ?fw), word_of_nat (length ?fw div 256), foldl (XOR) 0 ?fw])"
    by blast
  have "sent t ! 2 = [1, 2, 3] @ replicate 509 0 @ [0]"
    unfolding t(2) by (simp add: sample_samd_facts foldl_xor_zeros)
  moreover have "length ?fw = 3" by simp
  ultimately show ?thesis using t(1) by metis
qed

theorem large_firmware_overruns_witness:
  "SAMD_firmware_download (replicate 32769 1) 32769 0 (sample_samd []) = None"
  using large_firmware_overruns [OF sample_samd_facts(1), of "replicate 32769 1" 0 "[]"]
  by simp

end
