(* ===== verification/ClientList.thy ===== *)
theory ClientList
  imports Samd
begin

text \<open>
  The list of the nodes on the network (\<^verbatim>\<open>src/user/UserMain.c\<close>): every node announces itself with a
  datagram (\<open>client_thread_main\<close>), collects the announcements of the others (\<open>server_thread_main\<close>,
  \<open>populate_new_client\<close>), forgets the silent ones (\<open>age_client_list\<close>) and shows the list sorted
  (\<open>sort_client_list\<close>, \<open>get_client_entry\<close>).

  A \<open>struct client_ent\<close> is its 112 bytes of character arrays and its age: writing a string that is too
  long for a member runs into the members behind it, and past the last one it is \<open>None\<close>. The
  announced strings are used as format strings, \<open>printf_plain\<close> is the output of a format that takes
  no argument. The list is shared between threads without a lock, which is not modelled.
\<close>

section \<open>Entries\<close>

datatype cmember = C_node_name | C_ip_addr | C_universe | C_subnet | C_baterry | C_eCos_ver
  | C_samd_ver | C_timo_ver | C_sacn_univ | C_sort_by | C_crmx_power | C_host_mode | C_protocol
  | C_led_color

definition cmembers :: "cmember list" where
  "cmembers = [C_node_name, C_ip_addr, C_universe, C_subnet, C_baterry, C_eCos_ver, C_samd_ver,
     C_timo_ver, C_sacn_univ, C_sort_by, C_crmx_power, C_host_mode, C_protocol, C_led_color]"

fun csize :: "cmember \<Rightarrow> nat" where
  "csize C_node_name = 20"
| "csize C_ip_addr = 20"
| "csize C_universe = 4"
| "csize C_subnet = 4"
| "csize C_baterry = 8"
| "csize C_eCos_ver = 8"
| "csize C_samd_ver = 8"
| "csize C_timo_ver = 8"
| "csize C_sacn_univ = 8"
| "csize C_sort_by = 4"
| "csize C_crmx_power = 4"
| "csize C_host_mode = 4"
| "csize C_protocol = 4"
| "csize C_led_color = 8"

fun coff :: "cmember \<Rightarrow> nat" where
  "coff C_node_name = 0"
| "coff C_ip_addr = 20"
| "coff C_universe = 40"
| "coff C_subnet = 44"
| "coff C_baterry = 48"
| "coff C_eCos_ver = 56"
| "coff C_samd_ver = 64"
| "coff C_timo_ver = 72"
| "coff C_sacn_univ = 80"
| "coff C_sort_by = 88"
| "coff C_crmx_power = 92"
| "coff C_host_mode = 96"
| "coff C_protocol = 100"
| "coff C_led_color = 104"

definition sizeof_ent_chars :: nat where "sizeof_ent_chars = 112"

record client_ent =
  ent_chars :: bytes
  age_cnt :: int

definition MAX_NUM_ENTRY :: nat where "MAX_NUM_ENTRY = 24"
definition MAX_MSG :: nat where "MAX_MSG = 108"
definition AGE_COUNT :: int where "AGE_COUNT = 3"

record 'fl client_env = "'fl node_env" +
  eCos_ver :: bytes

record 'fl client_state = "'fl samd_state" +
  client_list :: "client_ent list"
  client_valid_list :: "client_ent list"
  sort_array :: "nat option list"
  this_node_ip_address :: bytes
  timo_ver :: bytes
  operation_mode :: int
  refresh_clients :: int
  cli_recv :: bytes

definition ent_str :: "cmember \<Rightarrow> client_ent \<Rightarrow> bytes option" where
  "ent_str m e = str_at (ent_chars e) (coff m)"

text \<open>\<open>strcpy\<close> or \<open>sprintf (d, "%s", v)\<close> into a member of entry \<open>i\<close> of a list.\<close>

definition put_ent :: "nat \<Rightarrow> cmember \<Rightarrow> bytes \<Rightarrow> client_ent list \<Rightarrow> client_ent list option" where
  "put_ent i m v l = do {
     c \<leftarrow> put_str (coff m) v (ent_chars (l ! i));
     Some (l[i := (l ! i)\<lparr>ent_chars := c\<rparr>]) }"

text \<open>\<open>sprintf\<close> with a format and no argument: \<open>%%\<close> is a percent sign, every other conversion reads an
  argument that was not passed.\<close>

fun printf_plain :: "bytes \<Rightarrow> bytes option" where
  "printf_plain [] = Some []"
| "printf_plain (b # f) =
     (if b \<noteq> 37 then map_option (Cons b) (printf_plain f)
      else case f of
          [] \<Rightarrow> None
        | c # f' \<Rightarrow> if c = 37 then map_option (Cons 37) (printf_plain f') else None)"

definition own_ip_text :: "('fl, 'z) node_state_scheme \<Rightarrow> bytes" where
  "own_ip_text s = inet_ntoa (ld32 (ipAddress s) 0)"

section \<open>Own entry and ageing\<close>

text \<open>The settings go through \<open>tmp_buff\<close> (20 bytes); the flag says that the string is copied with
  \<open>"%s"\<close>, the others are used as formats.\<close>

definition tmp_setting :: "int \<Rightarrow> ('fl, 'z) at_state_scheme \<Rightarrow> bytes option" where
  "tmp_setting cid s = do {
     (_, v) \<leftarrow> ratpac_get_str cid (g_web_config s) (client_valid_num s);
     buf \<leftarrow> put_str 0 v (replicate 20 0);
     str_at buf 0 }"

definition own_settings :: "('fl, 'e) at_env_scheme \<Rightarrow> (int \<times> cmember \<times> bool) list" where
  "own_settings env =
    [(CFG_str2id env (lit ''AKS_NAME''), C_node_name, True),
     (CFG_str2id env (lit ''AKS_UNIVERSE''), C_universe, False),
     (CFG_str2id env (lit ''AKS_SUBNET''), C_subnet, False),
     (CFG_SACN_UNIV, C_sacn_univ, False),
     (CFG_SORT_BY, C_sort_by, False),
     (CFG_TIMO_POWER, C_crmx_power, False),
     (CFG_PROTNAME, C_protocol, False),
     (CFG_LED_COLOR, C_led_color, False)]"

primrec put_settings ::
    "(int \<times> cmember \<times> bool) list \<Rightarrow> ('fl, 'z) at_state_scheme \<Rightarrow> client_ent list \<Rightarrow> client_ent list option" where
  "put_settings [] s l = Some l"
| "put_settings (p # ps) s l = do {
     v \<leftarrow> tmp_setting (fst p) s;
     t \<leftarrow> (if snd (snd p) then Some v else printf_plain v);
     l \<leftarrow> put_ent 0 (fst (snd p)) t l;
     put_settings ps s l }"

definition save_valid_client_entry :: "nat \<Rightarrow> ('fl, 'z) client_state_scheme \<Rightarrow> ('fl, 'z) client_state_scheme option" where
  "save_valid_client_entry i s =
    (let n = client_valid_num s in
     if 0 \<le> n \<and> nat n < length (client_valid_list s)
     then Some (s\<lparr>client_valid_list := (client_valid_list s)[nat n := client_list s ! i], client_valid_num := n + 1\<rparr>)
     else None)"

primrec age_entries :: "bool \<Rightarrow> nat list \<Rightarrow> ('fl, 'z) client_state_scheme \<Rightarrow> ('fl, 'z) client_state_scheme option" where
  "age_entries new [] s = Some s"
| "age_entries new (i # is) s = do {
     let e = client_list s ! i;
     s \<leftarrow> (if age_cnt e > 0
          then if new then save_valid_client_entry i s
          else do {
            let s = s\<lparr>client_list := (client_list s)[i := e\<lparr>age_cnt := age_cnt e - 1\<rparr>]\<rparr>;
            if age_cnt e - 1 > 0 then save_valid_client_entry i s else Some s }
          else Some s);
     age_entries new is s }"

definition age_client_list :: "('fl, 'e) client_env_scheme \<Rightarrow> bool \<Rightarrow> ('fl, 'z) client_state_scheme \<Rightarrow>
    ('fl, 'z) client_state_scheme option" where
  "age_client_list env new s = do {
     l \<leftarrow> put_settings (own_settings env) s (client_list s);
     l \<leftarrow> put_ent 0 C_eCos_ver (eCos_ver env) l;
     sv \<leftarrow> c_str (samd_ver s);
     l \<leftarrow> put_ent 0 C_samd_ver sv l;
     tv \<leftarrow> c_str (timo_ver s);
     l \<leftarrow> put_ent 0 C_timo_ver tv l;
     l \<leftarrow> put_ent 0 C_host_mode (dec_int (operation_mode s)) l;
     let l = l[0 := (l ! 0)\<lparr>age_cnt := 3\<rparr>];
     let v = (client_valid_list s)[0 := l ! 0];
     info \<leftarrow> c_str (battery_info s);
     v \<leftarrow> put_ent 0 C_baterry (take 6 info) v;
     v \<leftarrow> put_ent 0 C_ip_addr (take 19 (own_ip_text s)) v;
     age_entries new [1..<MAX_NUM_ENTRY]
       (s\<lparr>client_list := l, client_valid_list := v,
          this_node_ip_address := poke 0 (take 19 (own_ip_text s) @ [0]) (this_node_ip_address s),
          client_valid_num := 1\<rparr>) }"

section \<open>Announcements\<close>

definition my_ip_address :: "('fl, 'z) client_state_scheme \<Rightarrow> ('fl, 'z) client_state_scheme option" where
  "my_ip_address s = do {
     v \<leftarrow> put_ent 0 C_ip_addr (take 19 (own_ip_text s)) (client_valid_list s);
     Some (s\<lparr>client_valid_list := v\<rparr>) }"

text \<open>The members of an announcement behind the node name, with their place in the message.\<close>

definition msg_members :: "(cmember \<times> nat) list" where
  "msg_members = [(C_universe, 20), (C_subnet, 24), (C_baterry, 30), (C_eCos_ver, 40), (C_samd_ver, 48),
     (C_timo_ver, 56), (C_sacn_univ, 64), (C_protocol, 72), (C_crmx_power, 76), (C_sort_by, 80),
     (C_host_mode, 84), (C_led_color, 90)]"

primrec put_members :: "(cmember \<times> nat) list \<Rightarrow> nat \<Rightarrow> bytes \<Rightarrow> client_ent list \<Rightarrow> client_ent list option" where
  "put_members [] i rcv l = Some l"
| "put_members (p # ps) i rcv l = do {
     f \<leftarrow> str_at rcv (snd p);
     t \<leftarrow> printf_plain f;
     l \<leftarrow> put_ent i (fst p) t l;
     put_members ps i rcv l }"

primrec find_entry :: "(client_ent \<Rightarrow> bool option) \<Rightarrow> nat list \<Rightarrow> client_ent list \<Rightarrow> nat option option" where
  "find_entry p [] l = Some None"
| "find_entry p (i # is) l = do {
     hit \<leftarrow> p (l ! i);
     if hit then Some (Some i) else find_entry p is l }"

definition same_ip :: "bytes \<Rightarrow> client_ent \<Rightarrow> bool option" where
  "same_ip ip_ad e = do {
     a \<leftarrow> ent_str C_ip_addr e;
     Some (strcmp a ip_ad = 0 \<and> age_cnt e > 0) }"

text \<open>Fill entry \<open>i\<close> from a message; the address is stored for a new entry only.\<close>

definition fill_entry :: "nat \<Rightarrow> bytes option \<Rightarrow> bytes \<Rightarrow> client_ent list \<Rightarrow> client_ent list option" where
  "fill_entry i ip_ad rcv_msg l = do {
     n \<leftarrow> str_at rcv_msg 0;
     l \<leftarrow> put_ent i C_node_name n l;
     l \<leftarrow> (case ip_ad of None \<Rightarrow> Some l | Some a \<Rightarrow> put_ent i C_ip_addr a l);
     l \<leftarrow> put_members msg_members i rcv_msg l;
     Some (l[i := (l ! i)\<lparr>age_cnt := AGE_COUNT\<rparr>]) }"

definition populate_new_client :: "('fl, 'e) client_env_scheme \<Rightarrow> bytes \<Rightarrow> bytes \<Rightarrow>
    ('fl, 'z) client_state_scheme \<Rightarrow> ('fl, 'z) client_state_scheme option" where
  "populate_new_client env ip_ad rcv_msg s = do {
     s \<leftarrow> my_ip_address s;
     own \<leftarrow> ent_str C_ip_addr (client_valid_list s ! 0);
     if strcmp own ip_ad = 0 then Some s
     else do {
       known \<leftarrow> find_entry (same_ip ip_ad) [1..<MAX_NUM_ENTRY] (client_list s);
       (case known of
          Some i \<Rightarrow> do {
            l \<leftarrow> fill_entry i None rcv_msg (client_list s);
            age_client_list env True (s\<lparr>client_list := l\<rparr>) }
        | None \<Rightarrow> do {
            free \<leftarrow> find_entry (\<lambda>e. Some (age_cnt e = 0)) [1..<MAX_NUM_ENTRY] (client_list s);
            (case free of
               Some i \<Rightarrow> do {
                 l \<leftarrow> fill_entry i (Some ip_ad) rcv_msg (client_list s);
                 age_client_list env True (s\<lparr>client_list := l\<rparr>) }
             | None \<Rightarrow> Some s) }) } }"

section \<open>The announcing thread\<close>

text \<open>One round of \<open>client_thread_main\<close>: the settings and versions are written into \<open>cli_recv\<close>, 100 bytes
  of it are sent to the broadcast address of the own network.\<close>

definition LOCAL_SERVER_PORT :: u16 where "LOCAL_SERVER_PORT = 10000"
definition REMOTE_CLIENT_PORT :: u16 where "REMOTE_CLIENT_PORT = 10001"

definition put_setting_at :: "int \<Rightarrow> nat \<Rightarrow> ('fl, 'z) at_state_scheme \<Rightarrow> bytes \<Rightarrow> bytes option" where
  "put_setting_at cid off s buf = do {
     (_, v) \<leftarrow> ratpac_get_str cid (g_web_config s) (client_valid_num s);
     put_str off v buf }"

definition build_announcement :: "('fl, 'e) client_env_scheme \<Rightarrow> ('fl, 'z) client_state_scheme \<Rightarrow> bytes option" where
  "build_announcement env s = do {
     b \<leftarrow> put_setting_at (CFG_str2id env (lit ''AKS_NAME'')) 0 s (cli_recv s);
     b \<leftarrow> put_setting_at (CFG_str2id env (lit ''AKS_UNIVERSE'')) 20 s b;
     b \<leftarrow> put_setting_at (CFG_str2id env (lit ''AKS_SUBNET'')) 24 s b;
     info \<leftarrow> c_str (battery_info s);
     b \<leftarrow> put_str 30 info b;
     b \<leftarrow> put_str 40 (eCos_ver env) b;
     sv \<leftarrow> c_str (samd_ver s);
     b \<leftarrow> put_str 48 sv b;
     tv \<leftarrow> c_str (timo_ver s);
     b \<leftarrow> put_str 56 tv b;
     b \<leftarrow> put_setting_at CFG_SACN_UNIV 64 s b;
     b \<leftarrow> put_setting_at CFG_PROTNAME 72 s b;
     b \<leftarrow> put_setting_at CFG_TIMO_POWER 76 s b;
     b \<leftarrow> put_setting_at CFG_SORT_BY 80 s b;
     b \<leftarrow> put_str 84 (dec_int (operation_mode s)) b;
     b \<leftarrow> put_setting_at CFG_LED_COLOR 90 s b;
     mem_put 36 [0] b }"

definition broadcast_address :: "bytes \<Rightarrow> sockaddr_in" where
  "broadcast_address ip = zero_sockaddr\<lparr>sin_family := AF_INET, sin_port := htons LOCAL_SERVER_PORT,
     sin_addr := push_bit 24 0xff OR push_bit 16 (ucast (ip ! 2)) OR push_bit 8 (ucast (ip ! 1)) OR ucast (ip ! 0)\<rparr>"

definition client_thread_round :: "('fl, 'e) client_env_scheme \<Rightarrow> ('fl, 'z) client_state_scheme \<Rightarrow>
    ('fl, 'z) client_state_scheme option" where
  "client_thread_round env s =
    (if ipAddress s ! 0 = 0 then Some s
     else do {
       b \<leftarrow> build_announcement env s;
       Some (s\<lparr>cli_recv := b,
          outputs := outputs s @ [Udp (broadcast_address (ipAddress s)) (take 100 b)]\<rparr>) })"

section \<open>The collecting thread\<close>

text \<open>What \<open>select\<close> and \<open>recvfrom\<close> deliver in one round of \<open>server_thread_main\<close>: nothing within two
  seconds, an error of \<open>recvfrom\<close>, or a datagram with the text of its source address. The clock (in
  ticks of 10 ms) is read before ageing, after ageing and after a timeout.\<close>

datatype arrival = No_data | Recv_error | Datagram bytes bytes

type_synonym ticks = "64 word"

definition terminate_msg :: "bytes \<Rightarrow> bytes" where
  "terminate_msg msg = msg[19 := 0, 22 := 0, 26 := 0, 36 := 0, 44 := 0, 51 := 0, 59 := 0, 71 := 0]"

definition received_msg :: "bytes \<Rightarrow> bytes" where
  "received_msg data = terminate_msg (poke 0 (take MAX_MSG data) (replicate MAX_MSG 0))"

text \<open>The thread first resets the ages and, after it has opened its socket, enters the own node.\<close>

definition server_reset :: "('fl, 'z) client_state_scheme \<Rightarrow> ('fl, 'z) client_state_scheme" where
  "server_reset s = s\<lparr>refresh_clients := 0, artnet_enable := 1,
     client_list := map (\<lambda>e. e\<lparr>age_cnt := 0, ent_chars := (ent_chars e)[coff C_ip_addr + 19 := 0]\<rparr>) (client_list s)\<rparr>"

definition server_start :: "('fl, 'e) client_env_scheme \<Rightarrow> ('fl, 'z) client_state_scheme \<Rightarrow>
    ('fl, 'z) client_state_scheme option" where
  "server_start env s = do {
     let s = server_reset s;
     l \<leftarrow> put_ent 0 C_ip_addr (lit ''10.10.100.254'') (client_list s);
     age_client_list env True (s\<lparr>client_list := l, client_valid_num := 0\<rparr>) }"

definition server_round :: "('fl, 'e) client_env_scheme \<Rightarrow> ticks \<Rightarrow> ticks \<Rightarrow> ticks \<Rightarrow> arrival \<Rightarrow>
    ticks \<times> ('fl, 'z) client_state_scheme \<Rightarrow> (ticks \<times> ('fl, 'z) client_state_scheme) option" where
  "server_round env t1 t2 t3 a = (\<lambda>(cur_tick, s). do {
     (cur_tick, s) \<leftarrow> (if t1 - cur_tick \<ge> 200
        then do { s \<leftarrow> age_client_list env False s; Some (t2, s) }
        else Some (cur_tick, s));
     (case a of
        No_data \<Rightarrow> Some (t3, s\<lparr>refresh_clients := 0\<rparr>)
      | Recv_error \<Rightarrow> Some (cur_tick, s)
      | Datagram ip_addr data \<Rightarrow> do {
          s \<leftarrow> populate_new_client env ip_addr (received_msg data) s;
          Some (cur_tick, s) }) })"

section \<open>Sorting and showing the list\<close>

text \<open>The key the comparison looks at, \<open>None\<close> when a string has no end or \<open>str1\<close> is too short. The
  outer option is the \<open>default\<close> case, which leaves the array alone.\<close>

definition sort_key :: "byte \<Rightarrow> (client_ent \<Rightarrow> bytes option) option" where
  "sort_key c =
    (if c = 48 then Some (ent_str C_node_name)
     else if c = 49 then Some (ent_str C_ip_addr)
     else if c = 50 then Some (ent_str C_baterry)
     else if c = 51 then Some (\<lambda>e. do {
       a \<leftarrow> ent_str C_subnet e;
       u \<leftarrow> ent_str C_universe e;
       str \<leftarrow> put_str 0 (a @ u) (replicate 8 0);
       str_at str 0 })
     else if c = 52 then Some (ent_str C_sacn_univ)
     else None)"

primrec sort_inner :: "('a \<Rightarrow> bytes option) \<Rightarrow> nat \<Rightarrow> nat list \<Rightarrow> 'a list \<Rightarrow> 'a list option" where
  "sort_inner key i [] a = Some a"
| "sort_inner key i (j # js) a = do {
     x \<leftarrow> key (a ! i);
     y \<leftarrow> key (a ! j);
     sort_inner key i js (if strcmp x y > 0 then a[i := a ! j, j := a ! i] else a) }"

primrec sort_outer :: "('a \<Rightarrow> bytes option) \<Rightarrow> nat \<Rightarrow> nat list \<Rightarrow> 'a list \<Rightarrow> 'a list option" where
  "sort_outer key n [] a = Some a"
| "sort_outer key n (i # is) a = do {
     a \<leftarrow> sort_inner key i [Suc i..<n] a;
     sort_outer key n is a }"

definition sort_client_list :: "('fl, 'z) client_state_scheme \<Rightarrow> ('fl, 'z) client_state_scheme option" where
  "sort_client_list s = do {
     (_, v) \<leftarrow> ratpac_get_str CFG_SORT_BY (g_web_config s) (client_valid_num s);
     sortby \<leftarrow> put_str 0 v (replicate 4 0);
     let n = nat (client_valid_num s);
     arr \<leftarrow> mem_put 0 (map Some [0..<n]) (sort_array s);
     (case sort_key (sortby ! 0) of
        None \<Rightarrow> Some (s\<lparr>sort_array := arr\<rparr>)
      | Some key \<Rightarrow> do {
          a \<leftarrow> sort_outer (\<lambda>p. do { i \<leftarrow> p; key (client_valid_list s ! i) }) n [0..<n] arr;
          Some (s\<lparr>sort_array := a\<rparr>) }) }"

definition no_name :: "bytes \<Rightarrow> bytes" where
  "no_name v = (if length v = 0 then lit ''NoName'' else v)"

text \<open>The return code and the strings left in the buffers of the caller, in the order of the
  parameters; after an error only the first ones are written.\<close>

definition get_client_entry :: "int \<Rightarrow> ('fl, 'z) client_state_scheme \<Rightarrow> (int \<times> bytes list) option" where
  "get_client_entry idx s =
    (if idx \<ge> client_valid_num s then Some (-1, [[], [], []])
     else if idx < 0 \<or> nat idx \<ge> length (sort_array s) then None
     else do {
       p \<leftarrow> sort_array s ! nat idx;
       let e = client_valid_list s ! p;
       node_name \<leftarrow> ent_str C_node_name e;
       ip_addr \<leftarrow> ent_str C_ip_addr e;
       universe \<leftarrow> ent_str C_universe e;
       art_sub \<leftarrow> ent_str C_subnet e;
       protocol \<leftarrow> ent_str C_protocol e;
       sacn_uni \<leftarrow> ent_str C_sacn_univ e;
       sort_by \<leftarrow> ent_str C_sort_by e;
       host_mode \<leftarrow> ent_str C_host_mode e;
       timopower \<leftarrow> ent_str C_crmx_power e;
       led_color \<leftarrow> ent_str C_led_color e;
       battery \<leftarrow> ent_str C_baterry e;
       Some (0, [no_name node_name, ip_addr, universe, art_sub, take 7 (battery @ [37]), protocol,
         sacn_uni, sort_by, host_mode, timopower, led_color]) })"

definition get_client_entry_adva :: "int \<Rightarrow> ('fl, 'z) client_state_scheme \<Rightarrow> (int \<times> bytes list) option" where
  "get_client_entry_adva idx s =
    (if idx \<ge> client_valid_num s then Some (-1, [[], [], [], [], []])
     else if idx < 0 \<or> nat idx \<ge> length (client_valid_list s) then None
     else do {
       let e = client_valid_list s ! nat idx;
       node_name \<leftarrow> ent_str C_node_name e;
       ip_addr \<leftarrow> ent_str C_ip_addr e;
       ecos \<leftarrow> ent_str C_eCos_ver e;
       samd \<leftarrow> ent_str C_samd_ver e;
       timo \<leftarrow> ent_str C_timo_ver e;
       Some (0, [no_name node_name, ip_addr, ecos, samd, timo]) })"

definition do_refresh_clients :: "('fl, 'z) client_state_scheme \<Rightarrow> ('fl, 'z) client_state_scheme" where
  "do_refresh_clients s = s\<lparr>refresh_clients := 1\<rparr>"

definition refresh_client_done :: "('fl, 'z) client_state_scheme \<Rightarrow> int" where
  "refresh_client_done s = (if 0 = refresh_clients s then 1 else 0)"

section \<open>What the web page asks for\<close>

definition AP_MODE :: int where "AP_MODE = 1"
definition STA_ETH_MODE :: int where "STA_ETH_MODE = 2"
definition STA_WIFI_MODE :: int where "STA_WIFI_MODE = 3"

definition get_eCos_ver :: "('fl, 'e) client_env_scheme \<Rightarrow> bytes" where
  "get_eCos_ver env = eCos_ver env"

definition get_SAMD_ver :: "('fl, 'z) client_state_scheme \<Rightarrow> bytes option" where
  "get_SAMD_ver s = c_str (samd_ver s)"

definition get_TIMO_ver :: "('fl, 'z) client_state_scheme \<Rightarrow> bytes option" where
  "get_TIMO_ver s = c_str (timo_ver s)"

definition get_battery_info :: "('fl, 'z) client_state_scheme \<Rightarrow> (bytes \<times> ('fl, 'z) client_state_scheme) option" where
  "get_battery_info s = do {
     let s = s\<lparr>battery_info := (battery_info s)[6 := 0]\<rparr>;
     v \<leftarrow> c_str (battery_info s);
     Some (v, s) }"

definition get_module_ipaddress_mode :: "('fl, 'z) client_state_scheme \<Rightarrow> bytes \<times> bytes" where
  "get_module_ipaddress_mode s = (take 19 (own_ip_text s),
     if AP_MODE = operation_mode s then lit ''Host/Access Point''
     else if STA_ETH_MODE = operation_mode s then lit ''Eth Client''
     else lit ''WiFi Client'')"

end
