(* ===== verification/ClientTable.thy ===== *)
theory ClientTable
  imports ClientList
begin

text \<open>
  The client list as a table from addresses to announcements with a remaining lifetime: reports of
  other nodes enter or refresh an entry, every ageing step takes one off the lifetimes. The locale
  \<open>expiring_table\<close> is that contract; it is interpreted on the model of \<open>populate_new_client\<close> and
  \<open>age_client_list\<close>.
\<close>

section \<open>Tables whose entries expire\<close>

definition aged_view :: "('k \<Rightarrow> ('v \<times> int) option) \<Rightarrow> 'k \<Rightarrow> ('v \<times> int) option" where
  "aged_view f k = (case f k of None \<Rightarrow> None | Some (v, n) \<Rightarrow> if n > 1 then Some (v, n - 1) else None)"

datatype ('k, 'r) table_event = Tick | Report 'k 'r

definition handle_event :: "('s \<Rightarrow> 's option) \<Rightarrow> ('k \<Rightarrow> 'r \<Rightarrow> 's \<Rightarrow> 's option) \<Rightarrow> ('k, 'r) table_event \<Rightarrow> 's \<Rightarrow> 's option" where
  "handle_event tick report e s = (case e of Tick \<Rightarrow> tick s | Report k r \<Rightarrow> report k r s)"

definition event_ok :: "('k \<Rightarrow> 'r \<Rightarrow> bool) \<Rightarrow> ('k, 'r) table_event \<Rightarrow> bool" where
  "event_ok ok e = (case e of Tick \<Rightarrow> True | Report k r \<Rightarrow> ok k r)"

definition silent :: "'k \<Rightarrow> ('k, 'r) table_event \<Rightarrow> bool" where
  "silent k e = (case e of Tick \<Rightarrow> True | Report k' r \<Rightarrow> k' \<noteq> k)"

definition ticks :: "('k, 'r) table_event list \<Rightarrow> nat" where
  "ticks es = length (filter (\<lambda>e. e = Tick) es)"

locale expiring_table =
  fixes inv :: "'s \<Rightarrow> bool" and view :: "'s \<Rightarrow> 'k \<Rightarrow> ('v \<times> int) option"
    and tick :: "'s \<Rightarrow> 's option" and report :: "'k \<Rightarrow> 'r \<Rightarrow> 's \<Rightarrow> 's option"
    and ok :: "'k \<Rightarrow> 'r \<Rightarrow> bool" and val :: "'k \<Rightarrow> 'r \<Rightarrow> 'v" and life :: int and capacity :: nat
  assumes life_bound: "inv s \<Longrightarrow> view s k = Some (v, n) \<Longrightarrow> 0 < n \<and> n \<le> life"
    and tick_view: "inv s \<Longrightarrow> \<exists>t. tick s = Some t \<and> inv t \<and> view t = aged_view (view s)"
    and report_view: "inv s \<Longrightarrow> ok k r \<Longrightarrow> \<exists>t. report k r s = Some t \<and> inv t \<and>
      view t = (if k \<in> dom (view s) \<or> card (dom (view s)) < capacity then (view s)(k \<mapsto> (val k r, life)) else view s)"
begin

lemma handle_safe:
  assumes "inv s" and "event_ok ok e"
  obtains t where "handle_event tick report e s = Some t" "inv t"
  using tick_view [OF assms(1)] report_view [OF assms(1)] assms(2)
  by (cases e) (auto simp: handle_event_def event_ok_def)

text \<open>A key nobody reports loses one per tick, so it is gone after \<open>life\<close> ticks.\<close>

lemma handle_silent:
  assumes "inv s" and "event_ok ok e" and "silent k e" and "handle_event tick report e s = Some t"
  shows "view t k = (if e = Tick then aged_view (view s) k else view s k)"
proof (cases e)
  case Tick
  then show ?thesis using tick_view [OF assms(1)] assms(4) by (auto simp: handle_event_def)
next
  case (Report k' r)
  then show ?thesis using report_view [OF assms(1), of k' r] assms(2-4)
    by (auto simp: handle_event_def event_ok_def silent_def split: if_splits)
qed

lemma run_silent:
  assumes "inv s" and "list_all (event_ok ok) es" and "list_all (silent k) es"
    and "view s k = None \<or> (\<exists>v n. view s k = Some (v, n) \<and> n \<le> m)" and "m \<le> life"
  shows "\<exists>t. run (handle_event tick report) es s = Some t \<and> inv t \<and>
    (view t k = None \<or> (\<exists>v n. view t k = Some (v, n) \<and> n \<le> m - int (ticks es)))"
  using assms
proof (induction es arbitrary: s m)
  case Nil
  then show ?case by (simp add: ticks_def)
next
  case (Cons e es)
  have e: "event_ok ok e" "silent k e" and es: "list_all (event_ok ok) es" "list_all (silent k) es"
    using Cons.prems(2,3) by simp_all
  obtain s1 where s1: "handle_event tick report e s = Some s1" "inv s1" by (rule handle_safe [OF Cons.prems(1) e(1)])
  let ?m = "if e = Tick then m - 1 else m"
  have "view s1 k = None \<or> (\<exists>v n. view s1 k = Some (v, n) \<and> n \<le> ?m)"
    using handle_silent [OF Cons.prems(1) e s1(1)] Cons.prems(4)
    by (auto simp: aged_view_def split: if_splits option.splits)
  moreover have "?m \<le> life" using Cons.prems(5) by simp
  ultimately obtain t where "run (handle_event tick report) es s1 = Some t" "inv t"
    "view t k = None \<or> (\<exists>v n. view t k = Some (v, n) \<and> n \<le> ?m - int (ticks es))"
    using Cons.IH [OF s1(2) es] by blast
  then show ?case using s1(1) by (auto simp: ticks_def)
qed

lemma silent_forgotten:
  assumes "inv s" and "list_all (event_ok ok) es" and "list_all (silent k) es" and "life \<le> int (ticks es)"
  shows "\<exists>t. run (handle_event tick report) es s = Some t \<and> view t k = None"
proof -
  have "view s k = None \<or> (\<exists>v n. view s k = Some (v, n) \<and> n \<le> life)"
    using life_bound [OF assms(1), of k] by (cases "view s k") auto
  then obtain t where t: "run (handle_event tick report) es s = Some t" "inv t"
    "view t k = None \<or> (\<exists>v n. view t k = Some (v, n) \<and> n \<le> life - int (ticks es))"
    using run_silent [OF assms(1-3), of life] by blast
  have "view t k \<noteq> Some (v, n)" if "n \<le> life - int (ticks es)" for v n
    using life_bound [OF t(2), of k v n] that assms(4) by auto
  then show ?thesis using t(1,3) by (intro exI [of _ t]) auto
qed

text \<open>A key that is known and was reported less than \<open>life\<close> ticks ago is still there.\<close>

lemma run_keeps:
  assumes "inv s" and "list_all (event_ok ok) es" and "list_all (silent k) es"
    and "view s k = Some (v, n)" and "int (ticks es) < n"
  shows "\<exists>t. run (handle_event tick report) es s = Some t \<and> inv t \<and> view t k = Some (v, n - int (ticks es))"
  using assms
proof (induction es arbitrary: s n)
  case Nil
  then show ?case by (simp add: ticks_def)
next
  case (Cons e es)
  have e: "event_ok ok e" "silent k e" and es: "list_all (event_ok ok) es" "list_all (silent k) es"
    using Cons.prems(2,3) by simp_all
  obtain s1 where s1: "handle_event tick report e s = Some s1" "inv s1" by (rule handle_safe [OF Cons.prems(1) e(1)])
  have "view s1 k = Some (v, if e = Tick then n - 1 else n)"
    using handle_silent [OF Cons.prems(1) e s1(1)] Cons.prems(4,5)
    by (auto simp: aged_view_def ticks_def)
  from Cons.IH [OF s1(2) es this] s1(1) Cons.prems(5) show ?case
    by (auto simp: ticks_def split: if_splits)
qed

end

section \<open>Writing the members of an entry\<close>

lemma set_cmembers [simp]: "m \<in> set cmembers"
  by (cases m) (simp_all add: cmembers_def)

interpretation ent_record: packed_record coff csize UNIV cmembers sizeof_ent_chars
proof unfold_locales
  fix f g :: cmember
  show "coff f + csize f \<le> sizeof_ent_chars" by (cases f) (simp_all add: sizeof_ent_chars_def)
  assume "f \<noteq> g"
  then show "coff f + csize f \<le> coff g \<or> coff g + csize g \<le> coff f" by (cases f; cases g) simp_all
qed simp

definition ent_ok :: "client_ent \<Rightarrow> bool" where
  "ent_ok e \<longleftrightarrow> packed_ok coff csize cmembers sizeof_ent_chars (ent_chars e) \<and> 0 \<le> age_cnt e \<and> age_cnt e \<le> 3"

definition info :: "client_ent \<Rightarrow> cmember \<Rightarrow> bytes" where
  "info e = (\<lambda>m. packed_str coff m (ent_chars e))"

lemma ent_str_ok: "ent_ok e \<Longrightarrow> ent_str m e = Some (info e m)"
  unfolding ent_ok_def info_def ent_str_def by (metis packed_okD set_cmembers)

lemma ent_ok_age [simp]: "ent_ok e \<Longrightarrow> 0 \<le> n \<Longrightarrow> n \<le> 3 \<Longrightarrow> ent_ok (e\<lparr>age_cnt := n\<rparr>)"
  by (simp add: ent_ok_def)

lemma info_age [simp]: "info (e\<lparr>age_cnt := n\<rparr>) = info e"
  by (simp add: info_def)

definition ent_puts :: "nat \<Rightarrow> (cmember \<times> bytes) list \<Rightarrow> client_ent list \<Rightarrow> client_ent list option" where
  "ent_puts i kvs l = map_option (\<lambda>c. l[i := (l ! i)\<lparr>ent_chars := c\<rparr>])
     (put_all (\<lambda>m. put_str (coff m)) kvs (ent_chars (l ! i)))"

lemma ent_puts_Nil: "ent_puts i [] l = Some l"
  by (simp add: ent_puts_def)

lemma ent_puts_Cons:
  "i < length l \<Longrightarrow> ent_puts i (p # kvs) l = do { l \<leftarrow> put_ent i (fst p) (snd p) l; ent_puts i kvs l }"
  by (cases p; cases "put_str (coff (fst p)) (snd p) (ent_chars (l ! i))")
    (simp_all add: ent_puts_def put_ent_def del: put_str_eq_Some)

lemma put_ent_length: "put_ent i m v l = Some l' \<Longrightarrow> length l' = length l"
  by (auto simp: put_ent_def simp del: put_str_eq_Some split: bind_splits)

lemma ent_puts_append:
  "i < length l \<Longrightarrow> ent_puts i (xs @ ys) l = do { l \<leftarrow> ent_puts i xs l; ent_puts i ys l }"
proof (induction xs arbitrary: l)
  case (Cons x xs)
  show ?case
  proof (cases "put_ent i (fst x) (snd x) l")
    case (Some l')
    then have "i < length l'" using Cons.prems put_ent_length by metis
    then show ?thesis using Some Cons by (simp add: ent_puts_Cons)
  qed (use Cons.prems in \<open>simp add: ent_puts_Cons\<close>)
qed (simp add: ent_puts_Nil)

definition kvs_fit :: "(cmember \<times> bytes) list \<Rightarrow> bool" where
  "kvs_fit kvs \<longleftrightarrow> list_all (\<lambda>(m, v). packed_fits csize m v) kvs"

definition put_view :: "(cmember \<times> bytes) list \<Rightarrow> (cmember \<Rightarrow> bytes) \<Rightarrow> cmember \<Rightarrow> bytes" where
  "put_view kvs f m = (case map_of (rev kvs) m of Some v \<Rightarrow> v | None \<Rightarrow> f m)"

lemma ent_puts_view:
  assumes "i < length l" and "ent_ok (l ! i)" and "kvs_fit kvs"
  obtains e where "ent_puts i kvs l = Some (l[i := e])" "ent_ok e" "age_cnt e = age_cnt (l ! i)"
    "info e = put_view kvs (info (l ! i))"
proof -
  have fit: "\<And>k v. (k, v) \<in> set kvs \<Longrightarrow> k \<in> set cmembers \<and> packed_fits csize k v"
    using assms(3) by (auto simp: kvs_fit_def list_all_iff)
  have ok: "packed_ok coff csize cmembers sizeof_ent_chars (ent_chars (l ! i))" using assms(2) by (simp add: ent_ok_def)
  obtain c where c: "put_all (\<lambda>m. put_str (coff m)) kvs (ent_chars (l ! i)) = Some c"
    "packed_ok coff csize cmembers sizeof_ent_chars c"
    and view: "\<forall>k. k \<in> set cmembers \<longrightarrow> packed_str coff k c = (case map_of (rev kvs) k of
        Some v \<Rightarrow> v | None \<Rightarrow> packed_str coff k (ent_chars (l ! i)))"
    using ent_record.put_all_view [OF ok fit] by blast
  have "info ((l ! i)\<lparr>ent_chars := c\<rparr>) = put_view kvs (info (l ! i))"
    using view by (simp add: fun_eq_iff info_def put_view_def)
  with c assms(2) show thesis by (intro that [of "(l ! i)\<lparr>ent_chars := c\<rparr>"]) (simp_all add: ent_puts_def ent_ok_def)
qed

text \<open>The two loops that fill an entry are such a list of writes.\<close>

definition setting_value :: "int \<times> cmember \<times> bool \<Rightarrow> ('fl, 'z) at_state_scheme \<Rightarrow> bytes option" where
  "setting_value p s = do { v \<leftarrow> tmp_setting (fst p) s; if snd (snd p) then Some v else printf_plain v }"

lemma put_settings_puts:
  "list_all2 (\<lambda>p v. setting_value p s = Some v) ps vs \<Longrightarrow> 0 < length l \<Longrightarrow>
     put_settings ps s l = ent_puts 0 (zip (map (fst \<circ> snd) ps) vs) l"
proof (induction ps arbitrary: vs l)
  case Nil
  then show ?case by (simp add: ent_puts_Nil)
next
  case (Cons p ps)
  obtain v vs' where vs: "vs = v # vs'" "setting_value p s = Some v" "list_all2 (\<lambda>p v. setting_value p s = Some v) ps vs'"
    using Cons.prems(1) by (cases vs) simp_all
  obtain w where w: "tmp_setting (fst p) s = Some w" "(if snd (snd p) then Some w else printf_plain w) = Some v"
    using vs(2) by (auto simp: setting_value_def split: bind_splits)
  show ?case
  proof (cases "put_ent 0 (fst (snd p)) v l")
    case (Some l')
    then have "0 < length l'" using Cons.prems(2) put_ent_length by metis
    then show ?thesis using Cons.IH [OF vs(3)] Some w vs(1) Cons.prems(2) by (simp add: ent_puts_Cons)
  qed (use w vs(1) Cons.prems(2) in \<open>simp add: ent_puts_Cons\<close>)
qed

definition report_value :: "bytes \<Rightarrow> cmember \<times> nat \<Rightarrow> bytes option" where
  "report_value rcv p = do { f \<leftarrow> str_at rcv (snd p); printf_plain f }"

lemma put_members_puts:
  "list_all2 (\<lambda>p v. report_value rcv p = Some v) ps vs \<Longrightarrow> i < length l \<Longrightarrow>
     put_members ps i rcv l = ent_puts i (zip (map fst ps) vs) l"
proof (induction ps arbitrary: vs l)
  case Nil
  then show ?case by (simp add: ent_puts_Nil)
next
  case (Cons p ps)
  obtain v vs' where vs: "vs = v # vs'" "report_value rcv p = Some v" "list_all2 (\<lambda>p v. report_value rcv p = Some v) ps vs'"
    using Cons.prems(1) by (cases vs) simp_all
  obtain w where w: "str_at rcv (snd p) = Some w" "printf_plain w = Some v"
    using vs(2) by (auto simp: report_value_def split: bind_splits)
  show ?case
  proof (cases "put_ent i (fst p) v l")
    case (Some l')
    then have "i < length l'" using Cons.prems(2) put_ent_length by metis
    then show ?thesis using Cons.IH [OF vs(3)] Some w vs(1) Cons.prems(2) by (simp add: ent_puts_Cons)
  qed (use w vs(1) Cons.prems(2) in \<open>simp add: ent_puts_Cons\<close>)
qed

section \<open>The ageing loop\<close>

definition live :: "client_ent \<Rightarrow> bool" where
  "live e \<longleftrightarrow> age_cnt e > 0"

definition aged :: "client_ent \<Rightarrow> client_ent" where
  "aged e = (if live e then e\<lparr>age_cnt := age_cnt e - 1\<rparr> else e)"

lemma aged_dead [simp]: "\<not> live e \<Longrightarrow> aged e = e"
  by (simp add: aged_def)

definition step_ent :: "bool \<Rightarrow> client_ent \<Rightarrow> client_ent" where
  "step_ent new e = (if new then e else aged e)"

text \<open>The loop from entry \<open>k\<close> on: the entries are aged and the ones still alive are appended to the
  valid list.\<close>

lemma save_valid_entry:
  assumes "client_valid_num s = int n" and "n < length (client_valid_list s)"
  shows "save_valid_client_entry i s = Some (s\<lparr>client_valid_list := (client_valid_list s)[n := client_list s ! i],
      client_valid_num := int (Suc n)\<rparr>)"
  using assms by (simp add: save_valid_client_entry_def Let_def)

lemma age_entries_from:
  assumes "k \<le> length (client_list s)" and "client_valid_num s = int n" and "n \<le> k"
    and "length (client_valid_list s) = length (client_list s)"
  shows "\<exists>v. age_entries new [k..<length (client_list s)] s = Some (s\<lparr>
        client_list := take k (client_list s) @ map (step_ent new) (drop k (client_list s)),
        client_valid_list := v,
        client_valid_num := int (n + length (filter live (map (step_ent new) (drop k (client_list s)))))\<rparr>) \<and>
      length v = length (client_valid_list s) \<and>
      take (n + length (filter live (map (step_ent new) (drop k (client_list s))))) v =
        take n (client_valid_list s) @ filter live (map (step_ent new) (drop k (client_list s)))"
  using assms
proof (induction "length (client_list s) - k" arbitrary: k s n)
  case 0
  then have "k = length (client_list s)" by simp
  then show ?case using 0 by (intro exI [of _ "client_valid_list s"]) simp
next
  case (Suc m)
  let ?l = "client_list s" and ?v = "client_valid_list s"
  let ?e = "?l ! k"
  have k: "k < length ?l" using Suc.hyps(2) by simp
  have upt: "[k..<length ?l] = k # [Suc k..<length ?l]" using k by (rule upt_conv_Cons)
  have drop: "drop k ?l = ?e # drop (Suc k) ?l" using k by (rule Cons_nth_drop_Suc [symmetric])
  have nv: "n < length ?v" using Suc.prems k by simp
  let ?e' = "step_ent new ?e" and ?l1 = "?l[k := step_ent new ?e]"
  let ?s1 = "if live ?e' then s\<lparr>client_list := ?l1, client_valid_list := ?v[n := ?e'], client_valid_num := int (Suc n)\<rparr>
     else s\<lparr>client_list := ?l1\<rparr>"
  have save: "save_valid_client_entry k (s\<lparr>client_list := ?l1\<rparr>) = Some (s\<lparr>client_list := ?l1,
      client_valid_list := ?v[n := ?e'], client_valid_num := int (Suc n)\<rparr>)"
    using save_valid_entry [of "s\<lparr>client_list := ?l1\<rparr>" n k] Suc.prems(2) nv k by simp
  have same: "?l[k := ?e] = ?l" by (rule list_update_id)
  have step: "age_entries new [k..<length ?l] s = age_entries new [Suc k..<length ?l] ?s1"
  proof (cases "live ?e")
    case False
    then have "?e' = ?e" by (simp add: step_ent_def)
    then show ?thesis using False unfolding upt by (simp add: live_def Let_def)
  next
    case True
    show ?thesis
    proof (cases new)
      case new: True
      then have e': "?e' = ?e" by (simp add: step_ent_def)
      have "save_valid_client_entry k s = Some ?s1" using save True unfolding e' same by simp
      then show ?thesis using True new unfolding upt by (simp add: live_def Let_def)
    next
      case False
      then have "?e' = ?e\<lparr>age_cnt := age_cnt ?e - 1\<rparr>" using True by (simp add: step_ent_def aged_def)
      then show ?thesis using True False save unfolding upt by (simp add: live_def Let_def)
    qed
  qed
  let ?n1 = "if live ?e' then Suc n else n"
  have s1: "client_list ?s1 = ?l1" "client_valid_num ?s1 = int ?n1"
    "client_valid_list ?s1 = (if live ?e' then ?v[n := ?e'] else ?v)" using Suc.prems(2) by simp_all
  have len: "length ?l1 = length ?l" by simp
  have d1: "drop (Suc k) ?l1 = drop (Suc k) ?l" by simp
  have t1: "take (Suc k) ?l1 = take k ?l @ [?e']" using k by (simp add: take_Suc_conv_app_nth)
  have IH: "\<exists>v. age_entries new [Suc k..<length ?l] ?s1 = Some (?s1\<lparr>
        client_list := take (Suc k) ?l1 @ map (step_ent new) (drop (Suc k) ?l),
        client_valid_list := v,
        client_valid_num := int (?n1 + length (filter live (map (step_ent new) (drop (Suc k) ?l))))\<rparr>) \<and>
      length v = length ?v \<and>
      take (?n1 + length (filter live (map (step_ent new) (drop (Suc k) ?l)))) v =
        take ?n1 (client_valid_list ?s1) @ filter live (map (step_ent new) (drop (Suc k) ?l))"
    using Suc.hyps(1) [of ?s1 "Suc k" ?n1] Suc.hyps(2) Suc.prems(3,4) k s1 len d1 by (simp split: if_splits)
  have tn: "take (Suc n) (?v[n := ?e']) = take n ?v @ [?e']" using nv by (simp add: take_Suc_conv_app_nth)
  show ?case
  proof (cases "live ?e'")
    case True
    then show ?thesis using IH unfolding step drop t1 by (simp add: tn)
  next
    case False
    then show ?thesis using IH unfolding step drop t1 by simp
  qed
qed

section \<open>The own entry\<close>

lemma printf_plain_id: "37 \<notin> set v \<Longrightarrow> printf_plain v = Some v"
  by (induction v) auto

definition own_fields :: "wfield list" where
  "own_fields = [W_universe, W_subnet, W_sacn_universe, W_sort_by, W_timopower, W_protname, W_led_color]"

text \<open>What a node needs to build its own entry: a well-formed record without percent signs in the
  settings that are used as formats, and versions that fit.\<close>

definition announcer_ok :: "('fl, 'e) client_env_scheme \<Rightarrow> ('fl, 'z) client_state_scheme \<Rightarrow> bool" where
  "announcer_ok env s \<longleftrightarrow> str2id_ok env \<and> web_ok (g_web_config s) \<and>
     list_all (\<lambda>f. 37 \<notin> set (field_str (g_web_config s) f)) own_fields \<and>
     is_cstr (eCos_ver env) \<and> length (eCos_ver env) < 8 \<and>
     length (samd_ver s) = 4 \<and> samd_ver s ! 3 = 0 \<and> length (timo_ver s) = 4 \<and> timo_ver s ! 3 = 0 \<and>
     c_str (battery_info s) \<noteq> None \<and> operation_mode s \<in> {AP_MODE, STA_ETH_MODE, STA_WIFI_MODE}"

lemma fits_mono: "is_cstr v \<Longrightarrow> length v < csize m \<Longrightarrow> packed_fits csize m v"
  by (simp add: packed_fits_def)

lemma get_value:
  assumes "web_ok cfg" and "get_switch cid = Some (f, b)" and "f \<in> set str_fields" and "1 < fsize f"
  obtains v where "ratpac_get_str cid cfg n = Some (0, v)" "is_cstr v" "length v < fsize f"
    "set v \<subseteq> insert 48 (set (field_str cfg f))" "v \<noteq> []" "v = get_setting cid cfg"
proof -
  obtain t where t: "str_at cfg (foff f) = Some t" "length t < fsize f" "is_cstr t" "field_str cfg f = t"
    by (rule web_okD [OF assms(1,3)])
  let ?v = "if cut b t = [] then lit ''0'' else cut b t"
  have cut: "is_cstr (cut b t)" "length (cut b t) \<le> length t" "set (cut b t) \<subseteq> set t"
    using t(3) by (auto simp: cut_def dest: in_set_takeD split: option.splits)
  have get: "ratpac_get_str cid cfg k = Some (0, ?v)" for k
    using t(1) assms(2) by (simp add: ratpac_get_str_def)
  show thesis
  proof (rule that [of ?v])
    show "ratpac_get_str cid cfg n = Some (0, ?v)" by (rule get)
    show "?v = get_setting cid cfg" by (simp add: get_setting_def get)
  qed (use t cut assms(4) in auto)
qed

lemma tmp_setting_value:
  assumes "ratpac_get_str cid (g_web_config s) (client_valid_num s) = Some (0, v)" and "is_cstr v" and "length v < 20"
  shows "tmp_setting cid s = Some v"
proof -
  have "put_str 0 v (replicate 20 0) = Some (poke 0 (v @ [0]) (replicate 20 0))" using assms(3) by simp
  moreover have "str_at (poke 0 (v @ [0]) (replicate 20 0)) 0 = Some v"
    using assms(2,3) by (simp add: str_at_poke_same)
  ultimately show ?thesis unfolding tmp_setting_def using assms(1) by (simp del: put_str_eq_Some)
qed

lemma own_setting:
  assumes "web_ok (g_web_config s)" and "get_switch cid = Some (f, b)" and "f \<in> set str_fields"
    and "1 < fsize f" "fsize f \<le> csize m" and "\<not> flag \<Longrightarrow> 37 \<notin> set (field_str (g_web_config s) f)"
  shows "setting_value (cid, m, flag) s = Some (get_setting cid (g_web_config s)) \<and>
    packed_fits csize m (get_setting cid (g_web_config s))"
proof -
  obtain v where v: "ratpac_get_str cid (g_web_config s) (client_valid_num s) = Some (0, v)" "is_cstr v" "length v < fsize f"
    "set v \<subseteq> insert 48 (set (field_str (g_web_config s) f))" "v = get_setting cid (g_web_config s)"
    by (rule get_value [OF assms(1-4)]) blast
  have "csize m \<le> 20" by (cases m) simp_all
  then have tmp: "tmp_setting cid s = Some v" using v(1-3) assms(5) by (intro tmp_setting_value) simp_all
  have "\<not> flag \<Longrightarrow> printf_plain v = Some v" using v(4) assms(6) by (intro printf_plain_id) auto
  then show ?thesis using tmp v(2,3,5) assms(5) by (auto simp: setting_value_def packed_fits_def)
qed

definition own_kvs :: "('fl, 'e) client_env_scheme \<Rightarrow> ('fl, 'z) client_state_scheme \<Rightarrow> (cmember \<times> bytes) list" where
  "own_kvs env s = map (\<lambda>(cid, m, _). (m, get_setting cid (g_web_config s))) (own_settings env) @
     [(C_eCos_ver, eCos_ver env), (C_samd_ver, the (c_str (samd_ver s))), (C_timo_ver, the (c_str (timo_ver s))),
      (C_host_mode, dec_int (operation_mode s))]"

lemma own_settings_ids:
  assumes "str2id_ok env"
  shows "own_settings env = [(CFG_AKS_NAME, C_node_name, True), (CFG_AKS_UNIVERSE, C_universe, False),
     (CFG_AKS_SUBNET, C_subnet, False), (CFG_SACN_UNIV, C_sacn_univ, False), (CFG_SORT_BY, C_sort_by, False),
     (CFG_TIMO_POWER, C_crmx_power, False), (CFG_PROTNAME, C_protocol, False), (CFG_LED_COLOR, C_led_color, False)]"
  using assms by (simp add: own_settings_def str2id_ok_def cfg_userid_str_table_def del: lit_simps)

lemma own_settings_ok:
  assumes "announcer_ok env s"
  shows "list_all (\<lambda>(cid, m, flag). setting_value (cid, m, flag) s = Some (get_setting cid (g_web_config s)) \<and>
    packed_fits csize m (get_setting cid (g_web_config s))) (own_settings env)"
proof -
  have ok: "web_ok (g_web_config s)" and plain: "list_all (\<lambda>f. 37 \<notin> set (field_str (g_web_config s) f)) own_fields"
    and ids: "str2id_ok env" using assms by (simp_all add: announcer_ok_def)
  note own = own_setting [OF ok]
  have sw: "get_switch CFG_AKS_NAME = Some (W_name, None)" "get_switch CFG_AKS_UNIVERSE = Some (W_universe, None)"
    "get_switch CFG_AKS_SUBNET = Some (W_subnet, None)" "get_switch CFG_SACN_UNIV = Some (W_sacn_universe, None)"
    "get_switch CFG_SORT_BY = Some (W_sort_by, Some 2)" "get_switch CFG_TIMO_POWER = Some (W_timopower, None)"
    "get_switch CFG_PROTNAME = Some (W_protname, Some 2)" "get_switch CFG_LED_COLOR = Some (W_led_color, Some 16)"
    by (simp_all add: get_switch_def get_cases_def cfg_ids)
  show ?thesis unfolding own_settings_ids [OF ids] list.pred_inject prod.case
    using plain by (intro conjI TrueI own [OF sw(1), THEN conjunct1] own [OF sw(1), THEN conjunct2]
      own [OF sw(2), THEN conjunct1] own [OF sw(2), THEN conjunct2] own [OF sw(3), THEN conjunct1] own [OF sw(3), THEN conjunct2]
      own [OF sw(4), THEN conjunct1] own [OF sw(4), THEN conjunct2] own [OF sw(5), THEN conjunct1] own [OF sw(5), THEN conjunct2]
      own [OF sw(6), THEN conjunct1] own [OF sw(6), THEN conjunct2] own [OF sw(7), THEN conjunct1] own [OF sw(7), THEN conjunct2]
      own [OF sw(8), THEN conjunct1] own [OF sw(8), THEN conjunct2]) (simp_all add: set_str_fields own_fields_def)
qed

lemma version_str:
  assumes "length v = 4" and "v ! 3 = 0"
  obtains t where "c_str v = Some t" "is_cstr t" "length t \<le> 3"
  using c_str_zero [of 3 v] assms c_str_cstr by auto

lemma own_kvs_fit:
  assumes "announcer_ok env s"
  shows "kvs_fit (own_kvs env s)"
proof -
  have a: "length (samd_ver s) = 4" "samd_ver s ! 3 = 0" "length (timo_ver s) = 4" "timo_ver s ! 3 = 0"
    "is_cstr (eCos_ver env)" "length (eCos_ver env) < 8" "operation_mode s \<in> {AP_MODE, STA_ETH_MODE, STA_WIFI_MODE}"
    using assms by (simp_all add: announcer_ok_def)
  obtain sv where sv: "c_str (samd_ver s) = Some sv" "is_cstr sv" "length sv \<le> 3" by (rule version_str [OF a(1,2)])
  obtain tv where tv: "c_str (timo_ver s) = Some tv" "is_cstr tv" "length tv \<le> 3" by (rule version_str [OF a(3,4)])
  have mode: "packed_fits csize C_host_mode (dec_int (operation_mode s))"
    using a(7) by (auto simp: AP_MODE_def STA_ETH_MODE_def STA_WIFI_MODE_def dec_int_def dec_nat.simps packed_fits_def)
  show ?thesis using own_settings_ok [OF assms] sv tv a(5,6) mode
    by (auto simp: kvs_fit_def own_kvs_def list_all_iff packed_fits_def)
qed

section \<open>Ageing the list\<close>

definition entries_ok :: "('fl, 'z) client_state_scheme \<Rightarrow> bool" where
  "entries_ok s \<longleftrightarrow> length (client_list s) = MAX_NUM_ENTRY \<and> length (client_valid_list s) = MAX_NUM_ENTRY \<and>
     (\<forall>e\<in>set (client_list s). ent_ok e) \<and> ent_ok (client_valid_list s ! 0)"

lemma put_ent_view:
  assumes "i < length l" and "ent_ok (l ! i)" and "packed_fits csize m v"
  obtains e where "put_ent i m v l = Some (l[i := e])" "ent_ok e" "age_cnt e = age_cnt (l ! i)"
    "info e = (info (l ! i))(m := v)"
proof -
  have "kvs_fit [(m, v)]" using assms(3) by (simp add: kvs_fit_def)
  from ent_puts_view [OF assms(1,2) this] obtain e where e: "ent_puts i [(m, v)] l = Some (l[i := e])" "ent_ok e"
    "age_cnt e = age_cnt (l ! i)" "info e = put_view [(m, v)] (info (l ! i))" by blast
  have "put_ent i m v l = ent_puts i [(m, v)] l" using assms(1) by (simp add: ent_puts_Cons ent_puts_Nil)
  moreover have "put_view [(m, v)] (info (l ! i)) = (info (l ! i))(m := v)" by (auto simp: put_view_def fun_eq_iff)
  ultimately show thesis using e by (intro that [of e]) simp_all
qed

lemma own_settings_written:
  assumes "announcer_ok env s" and "0 < length l" and "ent_ok (l ! 0)"
  obtains e where "put_settings (own_settings env) s l = Some (l[0 := e])" "ent_ok e"
proof -
  let ?vs = "map (\<lambda>(cid, m, flag). get_setting cid (g_web_config s)) (own_settings env)"
  let ?kvs = "zip (map (fst \<circ> snd) (own_settings env)) ?vs"
  have "list_all2 (\<lambda>p v. setting_value p s = Some v) (own_settings env) ?vs"
    using own_settings_ok [OF assms(1)] by (force simp: list_all2_map2 list_all2_same list_all_iff)
  then have "put_settings (own_settings env) s l = ent_puts 0 ?kvs l" by (rule put_settings_puts [OF _ assms(2)])
  moreover have "kvs_fit ?kvs"
    using own_settings_ok [OF assms(1)] by (auto simp: kvs_fit_def list_all_iff zip_map_map zip_same)
  ultimately show thesis using ent_puts_view [OF assms(2,3)] that by metis
qed

lemma own_ip_fits: "packed_fits csize C_ip_addr (take 19 (own_ip_text s))"
proof -
  have "is_cstr (own_ip_text s)" by (simp add: own_ip_text_def inet_ntoa_def le32_def lit_def)
  then show ?thesis by (auto simp: packed_fits_def)
qed

lemma step_ent_ok: "ent_ok e \<Longrightarrow> ent_ok (step_ent new e)"
  by (simp add: step_ent_def aged_def live_def ent_ok_def)

lemma age_client_list_view:
  assumes ok: "entries_ok s" and a: "announcer_ok env s"
  obtains e v h where "age_client_list env new s = Some (s\<lparr>
      client_list := e # map (step_ent new) (tl (client_list s)), client_valid_list := v,
      this_node_ip_address := h,
      client_valid_num := int (Suc (length (filter live (map (step_ent new) (tl (client_list s))))))\<rparr>)"
    "ent_ok e" "length v = MAX_NUM_ENTRY" "ent_ok (v ! 0)"
    "take (length (filter live (map (step_ent new) (tl (client_list s))))) (tl v) =
       filter live (map (step_ent new) (tl (client_list s)))"
proof -
  let ?l = "client_list s" and ?v = "client_valid_list s"
  have len: "length ?l = 24" "length ?v = 24" and l0: "ent_ok (?l ! 0)"
    using ok by (auto simp: entries_ok_def MAX_NUM_ENTRY_def)
  have vers: "is_cstr (eCos_ver env)" "length (eCos_ver env) < 8" "length (samd_ver s) = 4" "samd_ver s ! 3 = 0"
    "length (timo_ver s) = 4" "timo_ver s ! 3 = 0" using a by (simp_all add: announcer_ok_def)
  obtain sv where sv: "c_str (samd_ver s) = Some sv" "is_cstr sv" "length sv \<le> 3" by (rule version_str [OF vers(3,4)])
  obtain tv where tv: "c_str (timo_ver s) = Some tv" "is_cstr tv" "length tv \<le> 3" by (rule version_str [OF vers(5,6)])
  obtain bi where bi: "c_str (battery_info s) = Some bi" "is_cstr bi"
    using a c_str_cstr by (auto simp: announcer_ok_def)
  have fits: "packed_fits csize C_eCos_ver (eCos_ver env)" "packed_fits csize C_samd_ver sv"
    "packed_fits csize C_timo_ver tv" "packed_fits csize C_host_mode (dec_int (operation_mode s))"
    "packed_fits csize C_baterry (take 6 bi)"
    using vers sv tv bi own_kvs_fit [OF a] by (auto simp: kvs_fit_def own_kvs_def packed_fits_def)
  have pos: "0 < length ?l" "0 < length (?l[0 := e])" "?l[0 := e] ! 0 = e" for e using len by simp_all
  obtain e1 where e1: "put_settings (own_settings env) s ?l = Some (?l[0 := e1])" "ent_ok e1"
    by (rule own_settings_written [OF a pos(1) l0])
  obtain e2 where e2: "put_ent 0 C_eCos_ver (eCos_ver env) (?l[0 := e1]) = Some (?l[0 := e2])" "ent_ok e2"
    by (rule put_ent_view [OF pos(2) _ fits(1)]) (use e1 pos in simp_all)
  obtain e3 where e3: "put_ent 0 C_samd_ver sv (?l[0 := e2]) = Some (?l[0 := e3])" "ent_ok e3"
    by (rule put_ent_view [OF pos(2) _ fits(2)]) (use e2 pos in simp_all)
  obtain e4 where e4: "put_ent 0 C_timo_ver tv (?l[0 := e3]) = Some (?l[0 := e4])" "ent_ok e4"
    by (rule put_ent_view [OF pos(2) _ fits(3)]) (use e3 pos in simp_all)
  obtain e5 where e5: "put_ent 0 C_host_mode (dec_int (operation_mode s)) (?l[0 := e4]) = Some (?l[0 := e5])" "ent_ok e5"
    by (rule put_ent_view [OF pos(2) _ fits(4)]) (use e4 pos in simp_all)
  let ?e = "e5\<lparr>age_cnt := 3\<rparr>"
  have e: "ent_ok ?e" using e5(2) by simp
  have vpos: "0 < length ?v" "0 < length (?v[0 := e])" "?v[0 := e] ! 0 = e" for e using len by simp_all
  obtain v1 where v1: "put_ent 0 C_baterry (take 6 bi) (?v[0 := ?e]) = Some (?v[0 := v1])" "ent_ok v1"
    by (rule put_ent_view [OF vpos(2) _ fits(5)]) (use e vpos in simp_all)
  obtain v2 where v2: "put_ent 0 C_ip_addr (take 19 (own_ip_text s)) (?v[0 := v1]) = Some (?v[0 := v2])" "ent_ok v2"
    by (rule put_ent_view [OF vpos(2) _ own_ip_fits]) (use v1 vpos in simp_all)
  let ?h = "poke 0 (take 19 (own_ip_text s) @ [0]) (this_node_ip_address s)"
  let ?s = "s\<lparr>client_list := ?l[0 := ?e], client_valid_list := ?v[0 := v2], this_node_ip_address := ?h, client_valid_num := 1\<rparr>"
  have "age_client_list env new s = age_entries new [1..<MAX_NUM_ENTRY] ?s"
    unfolding age_client_list_def Let_def e1(1) sv(1) tv(1) bi(1) bind.bind_lunit e2(1) e3(1) e4(1) e5(1)
    using v1(1) v2(1) pos(3) by simp
  moreover obtain l0' lt where l: "?l = l0' # lt" using len by (cases ?l) auto
  moreover obtain v0' vt where v: "?v = v0' # vt" using len by (cases ?v) auto
  have "1 \<le> length (client_list ?s)" "client_valid_num ?s = int 1" "(1 :: nat) \<le> 1"
    "length (client_valid_list ?s) = length (client_list ?s)" using len by simp_all
  note loop = age_entries_from [OF this, of new]
  have d: "drop 1 (client_list ?s) = lt" "take 1 (client_list ?s) = [?e]" "take 1 (client_valid_list ?s) = [v2]"
    "length (client_list ?s) = MAX_NUM_ENTRY" "length (client_valid_list ?s) = MAX_NUM_ENTRY"
    using len by (simp_all add: l v MAX_NUM_ENTRY_def)
  obtain w where
    w: "age_entries new [1..<MAX_NUM_ENTRY] ?s = Some (?s\<lparr>
        client_list := [?e] @ map (step_ent new) lt, client_valid_list := w,
        client_valid_num := int (1 + length (filter live (map (step_ent new) lt)))\<rparr>)"
    "length w = MAX_NUM_ENTRY"
    "take (1 + length (filter live (map (step_ent new) lt))) w = [v2] @ filter live (map (step_ent new) lt)"
    using loop unfolding d by blast
  obtain w0 wt where ww: "w = w0 # wt" using w(2) by (cases w) (auto simp: MAX_NUM_ENTRY_def)
  then have "w0 = v2" "take (length (filter live (map (step_ent new) lt))) wt = filter live (map (step_ent new) lt)"
    using w(3) by simp_all
  ultimately show thesis using w(1,2) e v2(2) ww
    by (intro that [where e = ?e and v = w and h = ?h]) (simp_all add: MAX_NUM_ENTRY_def)
qed

section \<open>The table of the other nodes\<close>

definition hit :: "bytes \<Rightarrow> client_ent \<Rightarrow> bool" where
  "hit ip e \<longleftrightarrow> live e \<and> info e C_ip_addr = ip"

definition uniq :: "client_ent list \<Rightarrow> bool" where
  "uniq es \<longleftrightarrow> (\<forall>i<length es. \<forall>j<length es. live (es ! i) \<longrightarrow> live (es ! j) \<longrightarrow>
     info (es ! i) C_ip_addr = info (es ! j) C_ip_addr \<longrightarrow> i = j)"

definition view_of :: "client_ent list \<Rightarrow> bytes \<Rightarrow> ((cmember \<Rightarrow> bytes) \<times> int) option" where
  "view_of es ip = map_option (\<lambda>e. (info e, age_cnt e)) (List.find (hit ip) es)"

lemma view_of_None: "view_of es ip = None \<longleftrightarrow> (\<forall>i<length es. \<not> hit ip (es ! i))"
  by (auto simp: view_of_def find_None_iff in_set_conv_nth)

lemma view_of_Some:
  assumes "uniq es"
  shows "view_of es ip = Some x \<longleftrightarrow> (\<exists>i<length es. hit ip (es ! i) \<and> x = (info (es ! i), age_cnt (es ! i)))"
proof
  assume "view_of es ip = Some x"
  then show "\<exists>i<length es. hit ip (es ! i) \<and> x = (info (es ! i), age_cnt (es ! i))"
    by (auto simp: view_of_def find_Some_iff)
next
  assume "\<exists>i<length es. hit ip (es ! i) \<and> x = (info (es ! i), age_cnt (es ! i))"
  then obtain i where i: "i < length es" "hit ip (es ! i)" "x = (info (es ! i), age_cnt (es ! i))" by blast
  have "\<not> hit ip (es ! j)" if "j < i" for j
    using assms i(1,2) that unfolding uniq_def hit_def by (metis less_trans less_irrefl)
  then have "List.find (hit ip) es = Some (es ! i)" using i(1,2) by (auto simp: find_Some_iff)
  then show "view_of es ip = Some x" using i(3) by (simp add: view_of_def)
qed

lemma hit_aged: "hit ip (aged e) \<longleftrightarrow> hit ip e \<and> age_cnt e > 1"
  by (auto simp: hit_def aged_def live_def)

lemma live_aged: "live (aged e) \<Longrightarrow> live e"
  by (auto simp: aged_def split: if_splits)

lemma info_aged [simp]: "info (aged e) = info e"
  by (simp add: aged_def)

lemma uniq_aged: "uniq es \<Longrightarrow> uniq (map aged es)"
  by (auto simp: uniq_def live_def aged_def split: if_splits)

lemma view_aged:
  assumes "uniq es"
  shows "view_of (map aged es) = aged_view (view_of es)"
proof
  fix ip
  show "view_of (map aged es) ip = aged_view (view_of es) ip"
  proof (cases "view_of es ip")
    case None
    then have "view_of (map aged es) ip = None" unfolding view_of_None by (simp add: hit_aged)
    then show ?thesis using None by (simp add: aged_view_def)
  next
    case (Some x)
    then obtain i where i: "i < length es" "hit ip (es ! i)" "x = (info (es ! i), age_cnt (es ! i))"
      using view_of_Some [OF assms] by blast
    show ?thesis
    proof (cases "age_cnt (es ! i) > 1")
      case True
      have "view_of (map aged es) ip = Some (info (es ! i), age_cnt (es ! i) - 1)"
        unfolding view_of_Some [OF uniq_aged [OF assms]]
        using i True by (intro exI [of _ i]) (simp add: hit_aged, simp add: aged_def hit_def)
      then show ?thesis using Some i(3) True by (simp add: aged_view_def)
    next
      case False
      have "\<not> hit ip (aged (es ! j))" if "j < length es" for j
      proof
        assume "hit ip (aged (es ! j))"
        then have "hit ip (es ! j)" "age_cnt (es ! j) > 1" by (simp_all add: hit_aged)
        moreover from this(1) have "j = i" using assms i(1,2) that by (simp add: uniq_def hit_def)
        ultimately show False using False by simp
      qed
      then have "view_of (map aged es) ip = None" by (simp add: view_of_None)
      then show ?thesis using Some i(3) False by (simp add: aged_view_def)
    qed
  qed
qed

lemma view_update:
  assumes "uniq es" and i: "i < length es" and e: "hit ip e"
    and other: "\<forall>j<length es. hit ip (es ! j) \<longrightarrow> j = i" and old: "live (es ! i) \<Longrightarrow> hit ip (es ! i)"
  shows "uniq (es[i := e])" and "view_of (es[i := e]) = (view_of es)(ip \<mapsto> (info e, age_cnt e))"
proof -
  show u: "uniq (es[i := e])" unfolding uniq_def
  proof (intro allI impI)
    fix j k assume a: "j < length (es[i := e])" "k < length (es[i := e])" "live (es[i := e] ! j)" "live (es[i := e] ! k)"
      "info (es[i := e] ! j) C_ip_addr = info (es[i := e] ! k) C_ip_addr"
    show "j = k"
    proof (cases "j = i \<or> k = i")
      case True
      have "k = i" if "j = i"
      proof (rule ccontr)
        assume "k \<noteq> i"
        then have "hit ip (es ! k)" using a(3-5) e that i by (simp add: hit_def)
        then show False using other a(2) \<open>k \<noteq> i\<close> by simp
      qed
      moreover have "j = i" if "k = i"
      proof (rule ccontr)
        assume "j \<noteq> i"
        then have "hit ip (es ! j)" using a(3-5) e that i by (simp add: hit_def)
        then show False using other a(1) \<open>j \<noteq> i\<close> by simp
      qed
      ultimately show ?thesis using True by blast
    next
      case False
      then show ?thesis using a assms(1) by (simp add: uniq_def)
    qed
  qed
  show "view_of (es[i := e]) = (view_of es)(ip \<mapsto> (info e, age_cnt e))"
  proof
    fix q
    show "view_of (es[i := e]) q = ((view_of es)(ip \<mapsto> (info e, age_cnt e))) q"
    proof (cases "q = ip")
      case True
      then have "view_of (es[i := e]) q = Some (info e, age_cnt e)"
        unfolding view_of_Some [OF u] using i e by (intro exI [of _ i]) simp
      then show ?thesis using True by simp
    next
      case False
      have same: "hit q (es[i := e] ! j) \<and> y = es[i := e] ! j \<longleftrightarrow> hit q (es ! j) \<and> y = es ! j" if "j < length es" for j y
        using False e old i that by (cases "j = i") (auto simp: hit_def)
      show ?thesis
      proof (cases "view_of es q")
        case None
        then have "view_of (es[i := e]) q = None" unfolding view_of_None using same by auto
        then show ?thesis using None False by simp
      next
        case (Some x)
        then obtain j where "j < length es" "hit q (es ! j)" "x = (info (es ! j), age_cnt (es ! j))"
          using view_of_Some [OF assms(1)] by blast
        then have "view_of (es[i := e]) q = Some x"
          unfolding view_of_Some [OF u] using same [of j "es ! j"] by (intro exI [of _ j]) auto
        then show ?thesis using Some False by simp
      qed
    qed
  qed
qed

lemma view_full:
  assumes "uniq es"
  shows "card (dom (view_of es)) < length es \<longleftrightarrow> (\<exists>i<length es. \<not> live (es ! i))"
proof -
  let ?L = "{i. i < length es \<and> live (es ! i)}" and ?ip = "\<lambda>i. info (es ! i) C_ip_addr"
  have "dom (view_of es) = ?ip ` ?L"
    by (auto simp: view_of_Some [OF assms] hit_def)
  moreover have "inj_on ?ip ?L" using assms by (auto simp: inj_on_def uniq_def)
  ultimately have card: "card (dom (view_of es)) = card ?L" by (simp add: card_image)
  have sub: "?L \<subseteq> {..<length es}" by auto
  show ?thesis
  proof
    assume "card (dom (view_of es)) < length es"
    then have "card ?L \<noteq> card {..<length es}" using card by simp
    then have "?L \<noteq> {..<length es}" by metis
    then show "\<exists>i<length es. \<not> live (es ! i)" using sub by auto
  next
    assume "\<exists>i<length es. \<not> live (es ! i)"
    then have "?L \<subset> {..<length es}" using sub by auto
    then have "card ?L < card {..<length es}" by (intro psubset_card_mono) simp_all
    then show "card (dom (view_of es)) < length es" using card by simp
  qed
qed

section \<open>A report\<close>

lemma find_entry_spec:
  assumes "\<forall>i\<in>{k..<n}. p (l ! i) = Some (q (l ! i))" and "k \<le> n"
  shows "(find_entry p [k..<n] l = Some None \<and> (\<forall>i\<in>{k..<n}. \<not> q (l ! i))) \<or>
    (\<exists>i\<in>{k..<n}. find_entry p [k..<n] l = Some (Some i) \<and> q (l ! i))"
  using assms
proof (induction "n - k" arbitrary: k)
  case (Suc m)
  then have k: "k < n" by simp
  have upt: "[k..<n] = k # [Suc k..<n]" using k by (rule upt_conv_Cons)
  have IH: "(find_entry p [Suc k..<n] l = Some None \<and> (\<forall>i\<in>{Suc k..<n}. \<not> q (l ! i))) \<or>
    (\<exists>i\<in>{Suc k..<n}. find_entry p [Suc k..<n] l = Some (Some i) \<and> q (l ! i))"
    using Suc.hyps(2) Suc.prems by (intro Suc.hyps(1)) auto
  have pk: "p (l ! k) = Some (q (l ! k))" using Suc.prems(1) k by simp
  show ?case
  proof (cases "q (l ! k)")
    case True
    then show ?thesis using k pk unfolding upt by (intro disjI2 bexI [of _ k]) simp_all
  next
    case False
    then have rec: "find_entry p [k..<n] l = find_entry p [Suc k..<n] l" using pk unfolding upt by simp
    have "{k..<n} = insert k {Suc k..<n}" using k by auto
    then show ?thesis using IH False unfolding rec by auto
  qed
qed simp

definition report_ok :: "bytes \<Rightarrow> bytes \<Rightarrow> bool" where
  "report_ok ip rcv \<longleftrightarrow> packed_fits csize C_ip_addr ip \<and>
     (case str_at rcv 0 of None \<Rightarrow> False | Some n \<Rightarrow> packed_fits csize C_node_name n) \<and>
     list_all (\<lambda>(m, off). case report_value rcv (m, off) of None \<Rightarrow> False | Some v \<Rightarrow> packed_fits csize m v) msg_members"

definition report_info :: "bytes \<Rightarrow> bytes \<Rightarrow> cmember \<Rightarrow> bytes" where
  "report_info ip rcv m =
    (if m = C_node_name then the (str_at rcv 0)
     else if m = C_ip_addr then ip
     else case map_of msg_members m of None \<Rightarrow> [] | Some off \<Rightarrow> the (report_value rcv (m, off)))"

lemma report_okD:
  assumes "report_ok ip rcv" and "p \<in> set msg_members"
  shows "\<exists>v. report_value rcv p = Some v \<and> packed_fits csize (fst p) v"
  using assms by (cases p) (fastforce simp: report_ok_def list_all_iff split: option.splits)

lemma fill_entry_view:
  assumes i: "i < length l" "ent_ok (l ! i)" and r: "report_ok ip rcv"
    and a: "a = Some ip \<or> (a = None \<and> info (l ! i) C_ip_addr = ip)"
  obtains e where "fill_entry i a rcv l = Some (l[i := e])" "ent_ok e" "age_cnt e = 3" "info e = report_info ip rcv"
proof -
  obtain n where n: "str_at rcv 0 = Some n" "packed_fits csize C_node_name n"
    using r by (auto simp: report_ok_def split: option.splits)
  have ip: "packed_fits csize C_ip_addr ip" using r by (simp add: report_ok_def)
  have pos: "i < length (l[i := e])" "l[i := e] ! i = e" for e using i(1) by simp_all
  obtain e1 where e1: "put_ent i C_node_name n l = Some (l[i := e1])" "ent_ok e1" "info e1 = (info (l ! i))(C_node_name := n)"
    by (rule put_ent_view [OF i n(2)]) blast
  obtain e2 where e2: "(case a of None \<Rightarrow> Some (l[i := e1]) | Some a \<Rightarrow> put_ent i C_ip_addr a (l[i := e1])) = Some (l[i := e2])"
    "ent_ok e2" "info e2 C_node_name = n" "info e2 C_ip_addr = ip"
  proof (cases a)
    case None
    then show thesis using e1 a by (intro that [of e1]) simp_all
  next
    case (Some b)
    then have b: "b = ip" using a by simp
    obtain e2 where "put_ent i C_ip_addr ip (l[i := e1]) = Some (l[i := e2])" "ent_ok e2"
      "info e2 = (info e1)(C_ip_addr := ip)"
      by (rule put_ent_view [OF pos(1) [of e1] _ ip]) (use e1 pos in simp_all)
    then show thesis using Some b e1(3) by (intro that [of e2]) simp_all
  qed
  let ?vs = "map (\<lambda>p. the (report_value rcv p)) msg_members"
  let ?kvs = "zip (map fst msg_members) ?vs"
  have vals: "list_all2 (\<lambda>p v. report_value rcv p = Some v) msg_members ?vs"
    using report_okD [OF r] by (force simp: list_all2_map2 list_all2_same)
  have fit: "kvs_fit ?kvs"
    using report_okD [OF r] by (force simp: kvs_fit_def list_all_iff zip_map_map zip_same)
  obtain e3 where e3: "ent_puts i ?kvs (l[i := e2]) = Some (l[i := e3])" "ent_ok e3" "info e3 = put_view ?kvs (info e2)"
    by (rule ent_puts_view [OF pos(1) [of e2] _ fit]) (use e2 pos in simp_all)
  have puts: "put_members msg_members i rcv (l[i := e2]) = Some (l[i := e3])"
    using put_members_puts [OF vals pos(1)] e3(1) by simp
  have "info e3 m = report_info ip rcv m" for m
    using e2(3,4) n(1) unfolding e3(3)
    by (cases m) (simp_all add: put_view_def report_info_def msg_members_def)
  then have "info e3 = report_info ip rcv" by (rule ext)
  moreover have "fill_entry i a rcv l = Some (l[i := e3\<lparr>age_cnt := 3\<rparr>])"
    unfolding fill_entry_def n(1) bind.bind_lunit e1(1) e2(1) puts using i(1) by (simp add: AGE_COUNT_def)
  ultimately show thesis using e3(2) by (intro that [of "e3\<lparr>age_cnt := 3\<rparr>"]) simp_all
qed

section \<open>The interpretation\<close>

definition client_view :: "('fl, 'z) client_state_scheme \<Rightarrow> bytes \<Rightarrow> ((cmember \<Rightarrow> bytes) \<times> int) option" where
  "client_view s = view_of (tl (client_list s))"

text \<open>The invariant: the entries are well-formed, the addresses of the live ones differ, and the valid
  list holds the own entry and the live ones in their order.\<close>

definition shows_live :: "('fl, 'z) client_state_scheme \<Rightarrow> bool" where
  "shows_live s \<longleftrightarrow> (let others = filter live (tl (client_list s)) in
     client_valid_num s = int (Suc (length others)) \<and> take (length others) (tl (client_valid_list s)) = others)"

definition table_inv :: "('fl, 'e) client_env_scheme \<Rightarrow> bytes \<Rightarrow> ('fl, 'z) client_state_scheme \<Rightarrow> bool" where
  "table_inv env own s \<longleftrightarrow> entries_ok s \<and> announcer_ok env s \<and> uniq (tl (client_list s)) \<and> shows_live s \<and>
     take 19 (own_ip_text s) = own"

lemma step_ent_simps [simp]: "step_ent True = (\<lambda>e. e)" "step_ent False = aged"
  by (simp_all add: step_ent_def fun_eq_iff)

lemma aged_list_inv:
  assumes s: "entries_ok s" "announcer_ok env s" "take 19 (own_ip_text s) = own"
    and u: "uniq (tl (client_list s))"
  obtains t where "age_client_list env new s = Some t" "table_inv env own t"
    "tl (client_list t) = map (step_ent new) (tl (client_list s))" "g_web_config t = g_web_config s"
proof -
  let ?es = "map (step_ent new) (tl (client_list s))"
  obtain e v h where t: "age_client_list env new s = Some (s\<lparr>client_list := e # ?es, client_valid_list := v,
      this_node_ip_address := h, client_valid_num := int (Suc (length (filter live ?es)))\<rparr>)"
    "ent_ok e" "length v = MAX_NUM_ENTRY" "ent_ok (v ! 0)"
    "take (length (filter live ?es)) (tl v) = filter live ?es"
    by (rule age_client_list_view [OF s(1,2)]) blast
  let ?t = "s\<lparr>client_list := e # ?es, client_valid_list := v,
      this_node_ip_address := h, client_valid_num := int (Suc (length (filter live ?es)))\<rparr>"
  have l: "length (client_list s) = MAX_NUM_ENTRY" "\<forall>e\<in>set (client_list s). ent_ok e"
    using s(1) by (simp_all add: entries_ok_def)
  have "\<forall>e\<in>set (tl (client_list s)). ent_ok e" using l(2) by (cases "client_list s") auto
  then have "\<forall>e\<in>set ?es. ent_ok e" by (auto intro: step_ent_ok)
  then have "entries_ok ?t" using t(2-4) l(1) by (simp add: entries_ok_def MAX_NUM_ENTRY_def)
  moreover have "announcer_ok env ?t" "take 19 (own_ip_text ?t) = own"
    using s(2,3) by (simp_all add: announcer_ok_def own_ip_text_def)
  moreover have "uniq ?es" using u uniq_aged by (cases new) simp_all
  moreover have "shows_live ?t" using t(5) unfolding shows_live_def Let_def by simp
  ultimately have "table_inv env own ?t" by (simp add: table_inv_def)
  then show thesis using t(1) by (intro that [of ?t]) simp_all
qed

lemma tick_refines:
  assumes "table_inv env own s"
  shows "\<exists>t. age_client_list env False s = Some t \<and> table_inv env own t \<and> client_view t = aged_view (client_view s)"
proof -
  have s: "entries_ok s" "announcer_ok env s" "take 19 (own_ip_text s) = own" "uniq (tl (client_list s))"
    using assms by (simp_all add: table_inv_def)
  obtain t where "age_client_list env False s = Some t" "table_inv env own t"
    "tl (client_list t) = map (step_ent False) (tl (client_list s))"
    by (rule aged_list_inv [OF s]) blast
  then show ?thesis using view_aged [OF s(4)] by (auto simp: client_view_def)
qed

lemma same_ip_hit: "ent_ok e \<Longrightarrow> same_ip ip e = Some (hit ip e)"
  by (auto simp: same_ip_def ent_str_ok hit_def live_def)

lemma filled_refines:
  assumes s: "table_inv env own s" and v: "length v = MAX_NUM_ENTRY" "ent_ok (v ! 0)" "tl v = tl (client_valid_list s)"
    and r: "report_ok ip rcv" and i: "i \<in> {1..<MAX_NUM_ENTRY}"
    and a: "(a = None \<and> hit ip (client_list s ! i)) \<or> (a = Some ip \<and> \<not> live (client_list s ! i) \<and>
       (\<forall>j\<in>{1..<MAX_NUM_ENTRY}. \<not> hit ip (client_list s ! j)))"
  shows "\<exists>l t. fill_entry i a rcv (client_list s) = Some l \<and>
    age_client_list env True (s\<lparr>client_valid_list := v, client_list := l\<rparr>) = Some t \<and> table_inv env own t \<and>
    client_view t = (client_view s)(ip \<mapsto> (report_info ip rcv, 3))"
proof -
  let ?l = "client_list s"
  have ok: "entries_ok s" and u: "uniq (tl ?l)" and an: "announcer_ok env s" and own: "take 19 (own_ip_text s) = own"
    using s by (simp_all add: table_inv_def)
  have len: "length ?l = 24" and ents: "\<forall>e\<in>set ?l. ent_ok e" using ok by (simp_all add: entries_ok_def MAX_NUM_ENTRY_def)
  have i': "i < length ?l" "1 \<le> i" using i len by (simp_all add: MAX_NUM_ENTRY_def)
  have "ent_ok (?l ! i)" using ents i' by simp
  moreover have "a = Some ip \<or> (a = None \<and> info (?l ! i) C_ip_addr = ip)" using a by (auto simp: hit_def)
  ultimately obtain e where e: "fill_entry i a rcv ?l = Some (?l[i := e])" "ent_ok e" "age_cnt e = 3" "info e = report_info ip rcv"
    using fill_entry_view [OF i'(1) _ r] by blast
  have tl: "tl (?l[i := e]) = (tl ?l)[i - 1 := e]" using i'(2) by (cases ?l; cases i) simp_all
  have hit_e: "hit ip e" using e(3,4) by (simp add: hit_def live_def report_info_def)
  have nth: "tl ?l ! j = ?l ! Suc j" if "j < 23" for j using that len by (simp add: nth_tl)
  have i1: "i - 1 < length (tl ?l)" "tl ?l ! (i - 1) = ?l ! i" using i' len nth [of "i - 1"] by simp_all
  have other: "\<forall>j<length (tl ?l). hit ip (tl ?l ! j) \<longrightarrow> j = i - 1"
  proof (intro allI impI)
    fix j assume j: "j < length (tl ?l)" "hit ip (tl ?l ! j)"
    then have "hit ip (?l ! Suc j)" "Suc j \<in> {1..<MAX_NUM_ENTRY}" using nth len by (simp_all add: MAX_NUM_ENTRY_def)
    then have "hit ip (?l ! i)" using a by blast
    then show "j = i - 1" using u j i1 unfolding uniq_def hit_def by metis
  qed
  have old: "hit ip (tl ?l ! (i - 1))" if "live (tl ?l ! (i - 1))" using a that i1(2) by auto
  note view = view_update [OF u i1(1) hit_e other old]
  let ?s = "s\<lparr>client_valid_list := v, client_list := ?l[i := e]\<rparr>"
  have "\<forall>x\<in>set (?l[i := e]). ent_ok x" using ents e(2) by (metis in_set_conv_nth length_list_update nth_list_update nth_list_update_neq)
  then have ok': "entries_ok ?s" using v(1,2) len by (simp add: entries_ok_def MAX_NUM_ENTRY_def)
  have an': "announcer_ok env ?s" and own': "take 19 (own_ip_text ?s) = own" and u': "uniq (tl (client_list ?s))"
    using an own view(1) tl by (simp_all add: announcer_ok_def own_ip_text_def)
  obtain t where "age_client_list env True ?s = Some t" "table_inv env own t"
    "tl (client_list t) = map (step_ent True) (tl (client_list ?s))"
    by (rule aged_list_inv [OF ok' an' own' u']) blast
  then show ?thesis using e view(2) tl by (auto simp: client_view_def)
qed

text \<open>What is left of \<open>populate_new_client\<close> for a report of another node.\<close>

definition populate_other :: "('fl, 'e) client_env_scheme \<Rightarrow> bytes \<Rightarrow> bytes \<Rightarrow>
    ('fl, 'z) client_state_scheme \<Rightarrow> ('fl, 'z) client_state_scheme option" where
  "populate_other env ip_ad rcv_msg s = do {
     known \<leftarrow> find_entry (same_ip ip_ad) [1..<MAX_NUM_ENTRY] (client_list s);
     (case known of
        Some i \<Rightarrow> do {
          l \<leftarrow> fill_entry i None rcv_msg (client_list s);
          age_client_list env True (s\<lparr>client_list := l\<rparr>) }
      | None \<Rightarrow> do {
          free \<leftarrow> find_entry (\<lambda>e. Some (age_cnt e = 0)) [1..<MAX_NUM_ENTRY] (client_list s);
          (case free of
             Some i \<Rightarrow> do {
               l \<leftarrow> fill_entry i (Some ip_ad) rcv_msg (client_list s);
               age_client_list env True (s\<lparr>client_list := l\<rparr>) }
           | None \<Rightarrow> Some s) }) }"

lemma populate_other_node:
  assumes "table_inv env own s" and "ip \<noteq> own"
  obtains v where "populate_new_client env ip rcv s = populate_other env ip rcv (s\<lparr>client_valid_list := v\<rparr>)"
    "length v = MAX_NUM_ENTRY" "ent_ok (v ! 0)" "tl v = tl (client_valid_list s)"
proof -
  let ?v = "client_valid_list s"
  have ok: "entries_ok s" and own: "take 19 (own_ip_text s) = own" using assms(1) by (simp_all add: table_inv_def)
  have len: "length ?v = 24" and v0: "ent_ok (?v ! 0)" using ok by (simp_all add: entries_ok_def MAX_NUM_ENTRY_def)
  obtain e where e: "put_ent 0 C_ip_addr (take 19 (own_ip_text s)) ?v = Some (?v[0 := e])" "ent_ok e"
    "info e = (info (?v ! 0))(C_ip_addr := take 19 (own_ip_text s))"
    by (rule put_ent_view [OF _ v0 own_ip_fits]) (use len in auto)
  let ?s = "s\<lparr>client_valid_list := ?v[0 := e]\<rparr>"
  have pre: "my_ip_address s = Some ?s" "ent_str C_ip_addr (client_valid_list ?s ! 0) = Some own"
    using e own len by (simp_all add: my_ip_address_def ent_str_ok)
  have ne: "strcmp own ip \<noteq> 0" using assms(2) by auto
  have unf: "populate_new_client env ip rcv s = populate_other env ip rcv ?s"
    unfolding populate_new_client_def pre bind.bind_lunit if_not_P [OF ne] populate_other_def by (rule refl)
  have "tl (?v[0 := e]) = tl ?v" by (cases ?v) simp_all
  then show thesis using len e(2) by (intro that [OF unf]) (simp_all add: MAX_NUM_ENTRY_def)
qed

lemma nth_other: "length l = 24 \<Longrightarrow> j < 23 \<Longrightarrow> tl l ! j = l ! Suc j"
  by (simp add: nth_tl)

lemma others_ex:
  assumes "length l = 24"
  shows "(\<exists>j<length (tl l). P (tl l ! j)) \<longleftrightarrow> (\<exists>i\<in>{1..<MAX_NUM_ENTRY}. P (l ! i))"
proof
  assume "\<exists>j<length (tl l). P (tl l ! j)"
  then obtain j where "j < 23" "P (l ! Suc j)" using nth_other [OF assms] assms by auto
  then show "\<exists>i\<in>{1..<MAX_NUM_ENTRY}. P (l ! i)" by (intro bexI [of _ "Suc j"]) (simp_all add: MAX_NUM_ENTRY_def)
next
  assume "\<exists>i\<in>{1..<MAX_NUM_ENTRY}. P (l ! i)"
  then obtain i where "1 \<le> i" "i < 24" "P (l ! i)" by (auto simp: MAX_NUM_ENTRY_def)
  then show "\<exists>j<length (tl l). P (tl l ! j)"
    using nth_other [OF assms, of "i - 1"] assms by (intro exI [of _ "i - 1"]) simp
qed

lemma entries_search:
  assumes "table_inv env own s"
  shows "\<forall>i\<in>{1..<MAX_NUM_ENTRY}. same_ip ip (client_list s ! i) = Some (hit ip (client_list s ! i))"
    and "\<forall>i\<in>{1..<MAX_NUM_ENTRY}. (\<lambda>e. Some (age_cnt e = 0)) (client_list s ! i) = Some (\<not> live (client_list s ! i))"
proof -
  have ok: "ent_ok (client_list s ! i)" if "i \<in> {1..<MAX_NUM_ENTRY}" for i
    using assms that by (simp add: table_inv_def entries_ok_def)
  show "\<forall>i\<in>{1..<MAX_NUM_ENTRY}. same_ip ip (client_list s ! i) = Some (hit ip (client_list s ! i))"
    using ok same_ip_hit by blast
  show "\<forall>i\<in>{1..<MAX_NUM_ENTRY}. (\<lambda>e. Some (age_cnt e = 0)) (client_list s ! i) = Some (\<not> live (client_list s ! i))"
  proof
    fix i assume "i \<in> {1..<MAX_NUM_ENTRY}"
    then show "(\<lambda>e. Some (age_cnt e = 0)) (client_list s ! i) = Some (\<not> live (client_list s ! i))"
      using ok [of i] by (auto simp: ent_ok_def live_def)
  qed
qed

lemma known_entry:
  assumes "table_inv env own s"
  shows "(find_entry (same_ip ip) [1..<MAX_NUM_ENTRY] (client_list s) = Some None \<and> ip \<notin> dom (client_view s) \<and>
      (\<forall>i\<in>{1..<MAX_NUM_ENTRY}. \<not> hit ip (client_list s ! i))) \<or>
    (\<exists>i\<in>{1..<MAX_NUM_ENTRY}. find_entry (same_ip ip) [1..<MAX_NUM_ENTRY] (client_list s) = Some (Some i) \<and>
      hit ip (client_list s ! i) \<and> ip \<in> dom (client_view s))"
proof -
  have len: "length (client_list s) = 24" using assms by (simp add: table_inv_def entries_ok_def MAX_NUM_ENTRY_def)
  have "ip \<in> dom (client_view s) \<longleftrightarrow> (\<exists>i\<in>{1..<MAX_NUM_ENTRY}. hit ip (client_list s ! i))"
    using view_of_None [of "tl (client_list s)" ip] others_ex [OF len, of "hit ip"] by (auto simp: client_view_def)
  then show ?thesis
    using find_entry_spec [OF entries_search(1) [OF assms, of ip]] by (auto simp: MAX_NUM_ENTRY_def)
qed

lemma free_entry:
  assumes "table_inv env own s"
  shows "(find_entry (\<lambda>e. Some (age_cnt e = 0)) [1..<MAX_NUM_ENTRY] (client_list s) = Some None \<and>
      \<not> card (dom (client_view s)) < 23) \<or>
    (\<exists>i\<in>{1..<MAX_NUM_ENTRY}. find_entry (\<lambda>e. Some (age_cnt e = 0)) [1..<MAX_NUM_ENTRY] (client_list s) = Some (Some i) \<and>
      \<not> live (client_list s ! i) \<and> card (dom (client_view s)) < 23)"
proof -
  have len: "length (client_list s) = 24" and u: "uniq (tl (client_list s))"
    using assms by (simp_all add: table_inv_def entries_ok_def MAX_NUM_ENTRY_def)
  have "card (dom (client_view s)) < 23 \<longleftrightarrow> (\<exists>i\<in>{1..<MAX_NUM_ENTRY}. \<not> live (client_list s ! i))"
    using view_full [OF u] others_ex [OF len, of "\<lambda>e. \<not> live e"] len by (simp add: client_view_def)
  then show ?thesis
    using find_entry_spec [OF entries_search(2) [OF assms]] by (auto simp: MAX_NUM_ENTRY_def)
qed

lemma report_refines:
  assumes s: "table_inv env own s" and r: "report_ok ip rcv \<and> ip \<noteq> own"
  shows "\<exists>t. populate_new_client env ip rcv s = Some t \<and> table_inv env own t \<and>
    client_view t = (if ip \<in> dom (client_view s) \<or> card (dom (client_view s)) < 23
      then (client_view s)(ip \<mapsto> (report_info ip rcv, 3)) else client_view s)"
proof -
  obtain v where unf: "populate_new_client env ip rcv s = populate_other env ip rcv (s\<lparr>client_valid_list := v\<rparr>)"
    and v: "length v = MAX_NUM_ENTRY" "ent_ok (v ! 0)" "tl v = tl (client_valid_list s)"
    by (rule populate_other_node [OF s conjunct2 [OF r]]) blast
  note filled = filled_refines [OF s v conjunct1 [OF r]]
  from known_entry [OF s, of ip] show ?thesis
  proof (elim disjE bexE conjE)
    fix i assume i: "i \<in> {1..<MAX_NUM_ENTRY}" "hit ip (client_list s ! i)" "ip \<in> dom (client_view s)"
      "find_entry (same_ip ip) [1..<MAX_NUM_ENTRY] (client_list s) = Some (Some i)"
    from filled [OF i(1), of None] i(2) obtain l t where "fill_entry i None rcv (client_list s) = Some l"
      "age_client_list env True (s\<lparr>client_valid_list := v, client_list := l\<rparr>) = Some t"
      "table_inv env own t" "client_view t = (client_view s)(ip \<mapsto> (report_info ip rcv, 3))" by blast
    then show ?thesis using i(3,4) by (simp add: unf populate_other_def)
  next
    assume none: "find_entry (same_ip ip) [1..<MAX_NUM_ENTRY] (client_list s) = Some None" "ip \<notin> dom (client_view s)"
      "\<forall>i\<in>{1..<MAX_NUM_ENTRY}. \<not> hit ip (client_list s ! i)"
    from free_entry [OF s] show ?thesis
    proof (elim disjE bexE conjE)
      fix i assume i: "i \<in> {1..<MAX_NUM_ENTRY}" "\<not> live (client_list s ! i)" "card (dom (client_view s)) < 23"
        "find_entry (\<lambda>e. Some (age_cnt e = 0)) [1..<MAX_NUM_ENTRY] (client_list s) = Some (Some i)"
      from filled [OF i(1), of "Some ip"] i(2) none(3) obtain l t where "fill_entry i (Some ip) rcv (client_list s) = Some l"
        "age_client_list env True (s\<lparr>client_valid_list := v, client_list := l\<rparr>) = Some t"
        "table_inv env own t" "client_view t = (client_view s)(ip \<mapsto> (report_info ip rcv, 3))" by blast
      then show ?thesis using i(3,4) none(1) by (simp add: unf populate_other_def)
    next
      assume full: "find_entry (\<lambda>e. Some (age_cnt e = 0)) [1..<MAX_NUM_ENTRY] (client_list s) = Some None"
        "\<not> card (dom (client_view s)) < 23"
      let ?s = "s\<lparr>client_valid_list := v\<rparr>"
      have "table_inv env own ?s" using s v
        by (simp add: table_inv_def entries_ok_def announcer_ok_def shows_live_def own_ip_text_def Let_def)
      moreover have "client_view ?s = client_view s" by (simp add: client_view_def)
      ultimately show ?thesis using none(1,2) full by (simp add: unf populate_other_def)
    qed
  qed
qed

lemma view_life: "table_inv env own s \<Longrightarrow> client_view s ip = Some (v, n) \<Longrightarrow> 0 < n \<and> n \<le> 3"
proof -
  assume s: "table_inv env own s" and v: "client_view s ip = Some (v, n)"
  then obtain j where j: "j < length (tl (client_list s))" "hit ip (tl (client_list s) ! j)" "n = age_cnt (tl (client_list s) ! j)"
    using view_of_Some [of "tl (client_list s)" ip "(v, n)"] by (auto simp: client_view_def table_inv_def)
  have "tl (client_list s) ! j \<in> set (client_list s)" using j(1) by (metis list.set_sel(2) list.size(3) list.sel(2) not_less_zero nth_mem)
  then have "ent_ok (tl (client_list s) ! j)" using s by (simp add: table_inv_def entries_ok_def)
  then show ?thesis using j(2,3) by (simp add: ent_ok_def hit_def live_def)
qed

interpretation client_table: expiring_table "table_inv env own" client_view "age_client_list env False"
  "\<lambda>ip rcv. populate_new_client env ip rcv" "\<lambda>ip rcv. report_ok ip rcv \<and> ip \<noteq> own" report_info 3 23
  for env :: "('fl, 'e) client_env_scheme" and own
  by unfold_locales (rule view_life tick_refines report_refines; assumption)+

text \<open>A terminator written outside a string leaves it as it is.\<close>

lemma str_at_terminate:
  assumes "str_at m j = Some v" and "k < j \<or> j + length v \<le> k"
  shows "str_at (m[k := 0]) j = Some v"
proof -
  obtain r where v: "is_cstr v" "drop j m = v @ 0 # r" using assms(1) by (auto simp: str_at_def c_str_Some_iff)
  show ?thesis
  proof (cases "k < j")
    case True
    then show ?thesis using assms(1) by (simp add: str_at_def)
  next
    case False
    then have k: "length v \<le> k - j" using assms(2) by simp
    have "drop j (m[k := 0]) = (drop j m)[k - j := 0]" using False by (simp add: drop_update_swap)
    also have "\<dots> = v @ (0 # r)[k - j - length v := 0]" using k v(2) by (simp add: list_update_append)
    finally show ?thesis using v(1) by (cases "k - j - length v") (simp_all add: str_at_def)
  qed
qed

section \<open>The collecting thread\<close>

definition table_step :: "('fl, 'e) client_env_scheme \<Rightarrow> (bytes, bytes) table_event \<Rightarrow> ('fl, 'z) client_state_scheme \<Rightarrow>
    ('fl, 'z) client_state_scheme option" where
  "table_step env e s = (case e of Tick \<Rightarrow> age_client_list env False s | Report ip rcv \<Rightarrow> populate_new_client env ip rcv s)"

lemma table_step_event: "table_step env = handle_event (age_client_list env False) (\<lambda>ip rcv. populate_new_client env ip rcv)"
  by (auto simp: fun_eq_iff table_step_def handle_event_def split: table_event.split)

lemma own_report:
  assumes s: "table_inv env own s"
  shows "\<exists>t. populate_new_client env own rcv s = Some t \<and> table_inv env own t \<and> client_view t = client_view s"
proof -
  let ?v = "client_valid_list s"
  have ok: "entries_ok s" and own: "take 19 (own_ip_text s) = own" using s by (simp_all add: table_inv_def)
  have len: "length ?v = 24" and v0: "ent_ok (?v ! 0)" using ok by (simp_all add: entries_ok_def MAX_NUM_ENTRY_def)
  obtain e where e: "put_ent 0 C_ip_addr (take 19 (own_ip_text s)) ?v = Some (?v[0 := e])" "ent_ok e"
    "info e = (info (?v ! 0))(C_ip_addr := take 19 (own_ip_text s))"
    by (rule put_ent_view [OF _ v0 own_ip_fits]) (use len in auto)
  let ?s = "s\<lparr>client_valid_list := ?v[0 := e]\<rparr>"
  have tl: "tl (?v[0 := e]) = tl ?v" by (cases ?v) simp_all
  have "ent_str C_ip_addr (client_valid_list ?s ! 0) = Some own" using e own len by (simp add: ent_str_ok)
  then have "populate_new_client env own rcv s = Some ?s"
    using e(1) by (simp add: populate_new_client_def my_ip_address_def)
  moreover have "table_inv env own ?s" using s e(2) len tl
    by (simp add: table_inv_def entries_ok_def announcer_ok_def shows_live_def own_ip_text_def MAX_NUM_ENTRY_def)
  ultimately show ?thesis by (auto simp: client_view_def)
qed

definition good_arrival :: "arrival \<Rightarrow> bool" where
  "good_arrival a = (case a of Datagram ip data \<Rightarrow> report_ok ip (received_msg data) | _ \<Rightarrow> True)"

lemma server_round_inv:
  assumes "table_inv env own s" and "good_arrival a"
  shows "\<exists>c t. server_round env t1 t2 t3 a (cur, s) = Some (c, t) \<and> table_inv env own t"
proof -
  obtain s0 where s0: "age_client_list env False s = Some s0" "table_inv env own s0"
    using tick_refines [OF assms(1)] by blast
  obtain c1 s1 where s1: "(if t1 - cur \<ge> 200 then do { s \<leftarrow> age_client_list env False s; Some (t2, s) }
      else Some (cur, s)) = Some (c1, s1)" "table_inv env own s1"
    using s0 assms(1) by (cases "t1 - cur \<ge> 200") simp_all
  have refresh: "table_inv env own (s1\<lparr>refresh_clients := 0\<rparr>)"
    using s1(2) by (simp add: table_inv_def entries_ok_def announcer_ok_def shows_live_def own_ip_text_def)
  have report: "\<exists>t. populate_new_client env ip rcv s1 = Some t \<and> table_inv env own t" if "report_ok ip rcv" for ip rcv
    using report_refines [OF s1(2), of ip rcv] own_report [OF s1(2), of rcv] that by (cases "ip = own") auto
  show ?thesis
  proof (cases a)
    case (Datagram ip data)
    then obtain t where "populate_new_client env ip (received_msg data) s1 = Some t" "table_inv env own t"
      using report assms(2) by (auto simp: good_arrival_def)
    then show ?thesis using s1(1) Datagram by (simp add: server_round_def)
  qed (use s1 refresh in \<open>simp_all add: server_round_def\<close>)
qed

lemma in_set_tl: "x \<in> set (tl xs) \<Longrightarrow> x \<in> set xs"
  by (cases xs) simp_all

lemma server_start_inv:
  assumes len: "length (client_list s) = MAX_NUM_ENTRY" "length (client_valid_list s) = MAX_NUM_ENTRY"
    and ents: "\<forall>e\<in>set (client_list s @ client_valid_list s). ent_ok e" and an: "announcer_ok env s"
  obtains t where "server_start env s = Some t" "table_inv env (take 19 (own_ip_text s)) t" "client_view t = (\<lambda>_. None)"
    "g_web_config t = g_web_config s"
proof -
  let ?z = "\<lambda>e. e\<lparr>age_cnt := 0, ent_chars := (ent_chars e)[coff C_ip_addr + 19 := 0]\<rparr>"
  have z: "ent_ok (?z e)" if e: "ent_ok e" for e
  proof -
    have ok: "packed_ok coff csize cmembers sizeof_ent_chars (ent_chars e)" using e by (simp add: ent_ok_def)
    have "\<exists>v. str_at ((ent_chars e)[39 := 0]) (coff m) = Some v \<and> length v < csize m" for m
    proof -
      obtain v where v: "str_at (ent_chars e) (coff m) = Some v" "length v < csize m"
        using packed_okD [OF ok set_cmembers] by blast
      have "39 < coff m \<or> coff m + length v \<le> 39" using v(2) by (cases m) simp_all
      then show ?thesis using str_at_terminate [OF v(1), of 39] v(2) by blast
    qed
    then have "case str_at ((ent_chars e)[39 := 0]) (coff m) of None \<Rightarrow> False | Some s \<Rightarrow> length s < csize m" for m
      by (metis option.simps(5))
    then show ?thesis using ok by (simp add: ent_ok_def packed_ok_def list_all_iff)
  qed
  define l where "l = map ?z (client_list s)"
  have l: "length l = MAX_NUM_ENTRY" "\<forall>e\<in>set l. ent_ok e" using len(1) ents z by (auto simp: l_def)
  have dead: "\<forall>e\<in>set l. \<not> live e" by (simp add: l_def live_def)
  have pos: "0 < length l" using l(1) by (simp add: MAX_NUM_ENTRY_def)
  then have l0: "ent_ok (l ! 0)" using l(2) by (meson nth_mem)
  have fit: "packed_fits csize C_ip_addr (lit ''10.10.100.254'')" by (simp add: packed_fits_def)
  obtain e where e: "put_ent 0 C_ip_addr (lit ''10.10.100.254'') l = Some (l[0 := e])" "ent_ok e"
    by (rule put_ent_view [OF pos l0 fit]) blast
  let ?s = "s\<lparr>refresh_clients := 0, artnet_enable := 1, client_list := l[0 := e], client_valid_num := 0\<rparr>"
  have tl: "tl (l[0 := e]) = tl l" by (cases l) simp_all
  have dead': "\<forall>e\<in>set (tl (l[0 := e])). \<not> live e"
  proof
    fix x assume "x \<in> set (tl (l[0 := e]))"
    then show "\<not> live x" unfolding tl using dead in_set_tl [of x l] by simp
  qed
  have "\<forall>x\<in>set (l[0 := e]). ent_ok x"
    using l(2) e(2) set_update_subset_insert [of l 0 e] by blast
  then have ok: "entries_ok ?s"
    using len ents l(1) by (auto simp: entries_ok_def MAX_NUM_ENTRY_def)
  have an': "announcer_ok env ?s" and own: "take 19 (own_ip_text ?s) = take 19 (own_ip_text s)"
    using an by (simp_all add: announcer_ok_def own_ip_text_def)
  have "uniq (tl (l[0 := e]))" using dead' by (simp add: uniq_def)
  then have u: "uniq (tl (client_list ?s))" by simp
  obtain t where t: "age_client_list env True ?s = Some t" "table_inv env (take 19 (own_ip_text s)) t"
    "tl (client_list t) = map (step_ent True) (tl (client_list ?s))" "g_web_config t = g_web_config ?s"
    by (rule aged_list_inv [OF ok an' own u]) blast
  have cfg: "g_web_config t = g_web_config s" using t(4) by simp
  have "server_start env s = Some t" using t(1) e(1) unfolding server_start_def Let_def server_reset_def by (simp add: l_def del: lit_simps)
  moreover have "client_view t = (\<lambda>_. None)"
    using dead' t(3) view_of_None [of "tl (client_list t)"] by (simp add: client_view_def fun_eq_iff hit_def)
  ultimately show thesis using t(2) cfg by (intro that)
qed

lemma server_rounds_inv:
  assumes "table_inv env own s" and "list_all (\<lambda>(_, _, _, a). good_arrival a) rounds"
  shows "\<exists>c t. run (\<lambda>(t1, t2, t3, a). server_round env t1 t2 t3 a) rounds (cur, s) = Some (c, t) \<and> table_inv env own t"
  using assms
proof (induction rounds arbitrary: cur s)
  case (Cons r rounds)
  obtain t1 t2 t3 a where r: "r = (t1, t2, t3, a)" by (cases r)
  then have "good_arrival a" using Cons.prems(2) by simp
  then obtain c s1 where s1: "server_round env t1 t2 t3 a (cur, s) = Some (c, s1)" "table_inv env own s1"
    using server_round_inv [OF Cons.prems(1), of a] by blast
  then show ?case using Cons.IH [OF s1(2), of c] Cons.prems(2) r by simp
qed simp

section \<open>Properties\<close>

text \<open>
  C1. The client list implements a table with expiry: ageing takes one off the lifetime of every other
  node and forgets the ones at the end of theirs; a well-formed report enters or refreshes exactly
  the entry of its sender, with the announced strings and a lifetime of 3, unless the sender is new and 23
  nodes are known; a report with the own address changes nothing.
\<close>

theorem client_list_refines_table:
  assumes "table_inv env own s" and "report_ok ip rcv"
  shows "(\<exists>t. age_client_list env False s = Some t \<and> table_inv env own t \<and> client_view t = aged_view (client_view s)) \<and>
    (\<exists>t. populate_new_client env ip rcv s = Some t \<and> table_inv env own t \<and>
      client_view t = (if ip \<noteq> own \<and> (ip \<in> dom (client_view s) \<or> card (dom (client_view s)) < 23)
        then (client_view s)(ip \<mapsto> (report_info ip rcv, 3)) else client_view s))"
proof
  show "\<exists>t. age_client_list env False s = Some t \<and> table_inv env own t \<and> client_view t = aged_view (client_view s)"
    by (rule tick_refines [OF assms(1)])
  show "\<exists>t. populate_new_client env ip rcv s = Some t \<and> table_inv env own t \<and>
      client_view t = (if ip \<noteq> own \<and> (ip \<in> dom (client_view s) \<or> card (dom (client_view s)) < 23)
        then (client_view s)(ip \<mapsto> (report_info ip rcv, 3)) else client_view s)"
    using own_report [OF assms(1), of rcv] report_refines [OF assms(1), of ip rcv] assms(2)
    by (cases "ip = own") simp_all
qed

text \<open>
  C19. A node that is silent is forgotten and one that is not too silent stays: after three ageing steps
  without a report of its own it is gone, whatever the other nodes report; before that it is shown with
  its last announcement.
\<close>

theorem silent_client_forgotten:
  assumes "table_inv env own s" and "list_all (event_ok (\<lambda>ip rcv. report_ok ip rcv \<and> ip \<noteq> own)) es"
    and "list_all (silent ip) es"
  shows "\<exists>t. run (table_step env) es s = Some t \<and> (3 \<le> ticks es \<longrightarrow> client_view t ip = None) \<and>
    (\<forall>v n. client_view s ip = Some (v, n) \<longrightarrow> int (ticks es) < n \<longrightarrow> client_view t ip = Some (v, n - int (ticks es)))"
proof -
  have "\<exists>t. run (table_step env) es s = Some t \<and> (client_view t ip = None \<or>
      (\<exists>v n. client_view t ip = Some (v, n) \<and> n \<le> 3 - int (ticks es)))"
    unfolding table_step_event
    using client_table.run_silent [OF assms, of 3] view_life [OF assms(1), of ip] by fastforce
  then obtain t where t: "run (table_step env) es s = Some t" by blast
  have "client_view t ip = None" if "3 \<le> ticks es"
    using client_table.silent_forgotten [OF assms] t that unfolding table_step_event by simp
  moreover have "client_view t ip = Some (v, n - int (ticks es))"
    if "client_view s ip = Some (v, n)" "int (ticks es) < n" for v n
    using client_table.run_keeps [OF assms that] t unfolding table_step_event by auto
  ultimately show ?thesis using t by blast
qed

text \<open>
  C20. From the start of the collecting thread on, whatever the clock shows and whatever well-formed
  announcements, errors and timeouts arrive, no round leaves a buffer, and the invariant of the list
  holds: every entry is well-formed, no address is listed twice, and the valid list is the own entry
  followed by exactly the live ones.
\<close>

theorem server_thread_invariant:
  assumes "length (client_list s) = MAX_NUM_ENTRY" and "length (client_valid_list s) = MAX_NUM_ENTRY"
    and "\<forall>e\<in>set (client_list s @ client_valid_list s). ent_ok e" and "announcer_ok env s"
    and "list_all (\<lambda>(_, _, _, a). good_arrival a) rounds"
  shows "\<exists>s1 c t. server_start env s = Some s1 \<and> client_view s1 = (\<lambda>_. None) \<and>
    run (\<lambda>(t1, t2, t3, a). server_round env t1 t2 t3 a) rounds (cur, s1) = Some (c, t) \<and>
    table_inv env (take 19 (own_ip_text s)) t"
proof -
  obtain s1 where s1: "server_start env s = Some s1" "table_inv env (take 19 (own_ip_text s)) s1"
    "client_view s1 = (\<lambda>_. None)" by (rule server_start_inv [OF assms(1-4)]) blast
  show ?thesis using server_rounds_inv [OF s1(2) assms(5), of cur] s1(1,3) by blast
qed
section \<open>A sample network\<close>

definition sample_client_env :: "bytes client_env" where
  "sample_client_env = \<lparr>
     hfuflash_erase_page = hfuflash_erase_page sample_env, hfuflash_write = hfuflash_write sample_env,
     hfuflash_read = hfuflash_read sample_env, CFG_str2id = CFG_str2id sample_env, BUILD_IMG = lit ''AKS'',
     word_at = (\<lambda>a. a), rt28xx_get_wifi_channel = (\<lambda>a. 6), hfuart_send = (\<lambda>b. int (length b)), eCos_ver = lit ''9.99''\<rparr>"

definition zero_ent :: client_ent where
  "zero_ent = \<lparr>ent_chars = replicate sizeof_ent_chars 0, age_cnt = 0\<rparr>"

definition sample_clients :: "bytes client_state" where
  "sample_clients = \<lparr>g_web_config = replicate sizeof_WEB_DATA_T 0, user_flash = [], artnet_enable = 1, client_valid_num = 0,
     ipAddress = [10, 10, 100, 254], gaffer_data = replicate sizeof_gaffer_data 0,
     artpollreply_msg = replicate sizeof_artpollreply 0, artnet_hdr_msg = replicate sizeof_artnet_hdr 0,
     dmx_count = 0, outputs = [], uart_rcv_data = replicate 64 0, uart_rvc_len = 0, uart_rvc_done = True, ret_buff = replicate 32 0,
     samd_pkt_buff = replicate 528 0, align_buff = replicate 528 0, firmware_pad = replicate 32768 0,
     samd_ver = lit ''1.x'' @ [0], battery_info = 0x31 # replicate 31 0, samd_locked = False, arrivals = [], sent = [],
     client_list = replicate MAX_NUM_ENTRY zero_ent, client_valid_list = replicate MAX_NUM_ENTRY zero_ent,
     sort_array = replicate MAX_NUM_ENTRY None, this_node_ip_address = replicate 20 0, timo_ver = lit ''1.y'' @ [0],
     operation_mode = AP_MODE, refresh_clients = 0, cli_recv = replicate 128 0\<rparr>"

lemma c_str_replicate: "0 < n \<Longrightarrow> c_str (replicate n 0) = Some []"
  by (cases n) simp_all

lemma zero_ent_ok: "ent_ok zero_ent"
proof -
  have "drop (coff m) (replicate sizeof_ent_chars (0 :: byte)) \<noteq> []" for m
    by (cases m) (simp_all add: sizeof_ent_chars_def)
  then have "str_at (replicate sizeof_ent_chars 0) (coff m) = Some []" for m
    by (simp add: str_at_def) (cases "sizeof_ent_chars - coff m"; simp)
  moreover have "0 < csize m" for m by (cases m) simp_all
  ultimately show ?thesis by (simp add: ent_ok_def zero_ent_def packed_ok_def list_all_iff)
qed

lemma sample_announcer: "announcer_ok sample_client_env sample_clients"
proof -
  have "str2id_ok sample_client_env" using sample_env_ok(2) by (simp add: str2id_ok_def sample_client_env_def)
  moreover have "field_str (replicate sizeof_WEB_DATA_T 0) f = []" if "f \<in> set own_fields" for f
    using that by (auto simp: own_fields_def field_str_def str_at_def sizeof_WEB_DATA_T_def c_str_replicate)
  ultimately show ?thesis
    using zero_record_ok by (simp add: announcer_ok_def sample_clients_def sample_client_env_def list_all_iff c_str_replicate)
qed

lemma sample_lists:
  "length (client_list sample_clients) = MAX_NUM_ENTRY" "length (client_valid_list sample_clients) = MAX_NUM_ENTRY"
  "\<forall>e\<in>set (client_list sample_clients @ client_valid_list sample_clients). ent_ok e"
  using zero_ent_ok by (auto simp: sample_clients_def)

lemma sample_ip: "take 19 (own_ip_text sample_clients) = lit ''10.10.100.254''"
proof -
  have "take 19 (inet_ntoa (ld32 [10, 10, 100, 254] 0)) = lit ''10.10.100.254''"
    unfolding inet_ntoa_def le32_ld32 by (simp add: dec_nat.simps)
  then show ?thesis by (simp add: sample_clients_def own_ip_text_def)
qed

lemma sample_started:
  obtains s :: "bytes client_state" where "table_inv sample_client_env (lit ''10.10.100.254'') s" "client_view s = (\<lambda>_. None)"
    "g_web_config s = replicate sizeof_WEB_DATA_T 0"
proof -
  obtain t :: "bytes client_state" where t: "table_inv sample_client_env (take 19 (own_ip_text sample_clients)) t"
    "client_view t = (\<lambda>_. None)" "g_web_config t = g_web_config sample_clients"
    by (rule server_start_inv [OF sample_lists sample_announcer]) blast
  have "g_web_config sample_clients = replicate sizeof_WEB_DATA_T 0" by (simp add: sample_clients_def)
  then show thesis using t that unfolding sample_ip by simp
qed

lemma replicate_update: "(replicate n x)[k := x] = replicate n x"
  by (cases "k < n") (simp_all add: list_update_same_conv list_update_beyond)

lemma sample_msg: "received_msg (lit ''Desk'') = lit ''Desk'' @ replicate 104 0"
  by (simp add: received_msg_def terminate_msg_def poke_def MAX_MSG_def list_update_append replicate_update)

lemma sample_report: "report_ok (lit ''10.10.100.7'') (received_msg (lit ''Desk''))"
  unfolding sample_msg report_ok_def
  by (simp add: msg_members_def report_value_def str_at_def c_str_replicate packed_fits_def)

theorem client_list_refines_table_witness:
  "\<exists>(s :: bytes client_state) t. client_view s = (\<lambda>_. None) \<and>
     populate_new_client sample_client_env (lit ''10.10.100.7'') (received_msg (lit ''Desk'')) s = Some t \<and>
     client_view t = [lit ''10.10.100.7'' \<mapsto> (report_info (lit ''10.10.100.7'') (received_msg (lit ''Desk'')), 3)]"
proof -
  obtain s :: "bytes client_state" where s: "table_inv sample_client_env (lit ''10.10.100.254'') s" "client_view s = (\<lambda>_. None)"
    by (rule sample_started) blast
  have "lit ''10.10.100.7'' \<noteq> lit ''10.10.100.254''" by simp
  then show ?thesis using client_list_refines_table [OF s(1) sample_report, THEN conjunct2] s(2)
    by (simp del: lit_simps) blast
qed

theorem silent_client_forgotten_witness:
  "\<exists>(s :: bytes client_state) t. run (table_step sample_client_env) [Tick, Report (lit ''10.10.100.7'') (received_msg (lit ''Desk'')), Tick, Tick] s = Some t \<and>
     client_view t (lit ''10.10.100.8'') = None"
proof -
  obtain s :: "bytes client_state" where s: "table_inv sample_client_env (lit ''10.10.100.254'') s" by (rule sample_started) blast
  let ?es = "[Tick, Report (lit ''10.10.100.7'') (received_msg (lit ''Desk'')), Tick, Tick]"
  have "list_all (event_ok (\<lambda>ip rcv. report_ok ip rcv \<and> ip \<noteq> lit ''10.10.100.254'')) ?es"
    using sample_report by (simp add: event_ok_def del: lit_simps) (simp add: lit_eq_iff del: lit_simps)
  moreover have "list_all (silent (lit ''10.10.100.8'')) ?es" by (simp add: silent_def lit_eq_iff del: lit_simps)
  ultimately have "\<exists>t. run (table_step sample_client_env) ?es s = Some t \<and> (3 \<le> ticks ?es \<longrightarrow> client_view t (lit ''10.10.100.8'') = None)"
    using silent_client_forgotten [OF s] by blast
  moreover have "3 \<le> ticks ?es" by (simp add: ticks_def)
  ultimately obtain t where "run (table_step sample_client_env) ?es s = Some t" "client_view t (lit ''10.10.100.8'') = None"
    by auto
  then show ?thesis by (intro exI [of _ s] exI [of _ t] conjI)
qed

theorem server_thread_invariant_witness:
  "\<exists>s1 c t. server_start sample_client_env sample_clients = Some s1 \<and>
    run (\<lambda>(t1, t2, t3, a). server_round sample_client_env t1 t2 t3 a)
      [(100, 101, 102, Datagram (lit ''10.10.100.7'') (lit ''Desk'')), (300, 301, 302, No_data)] (0, s1) = Some (c, t)"
  using server_thread_invariant [OF sample_lists sample_announcer,
      where cur = 0 and rounds = "[(100, 101, 102, Datagram (lit ''10.10.100.7'') (lit ''Desk'')), (300, 301, 302, No_data)]"] sample_report
  by (auto simp: good_arrival_def simp del: lit_simps)

end
