(* ===== verification/ClientSort.thy ===== *)
theory ClientSort
  imports ClientTable "HOL-Library.Multiset"
begin

text \<open>
  The order of the client list on the web page: the exchange sort of \<open>sort_client_list\<close> sorts, whatever
  key is selected, and \<open>get_client_entry\<close> shows the sorted list.
\<close>

section \<open>The exchange sort\<close>

definition key_le :: "('a \<Rightarrow> bytes option) \<Rightarrow> 'a \<Rightarrow> 'a \<Rightarrow> bool" where
  "key_le key x y \<longleftrightarrow> strcmp (the (key x)) (the (key y)) \<le> 0"

lemma key_le_trans: "key_le key x y \<Longrightarrow> key_le key y z \<Longrightarrow> key_le key x z"
  unfolding key_le_def by (rule strcmp_le_trans)

lemma key_le_refl: "key_le key x x"
  by (simp add: key_le_def strcmp_eq_0 [THEN iffD2])

lemma key_le_not: "strcmp (the (key x)) (the (key y)) > 0 \<Longrightarrow> key_le key y x"
  unfolding key_le_def by (subst strcmp_antisym) simp

definition keys_ok :: "('a \<Rightarrow> bytes option) \<Rightarrow> nat \<Rightarrow> 'a list \<Rightarrow> bool" where
  "keys_ok key n a \<longleftrightarrow> n \<le> length a \<and> (\<forall>q<n. key (a ! q) \<noteq> None)"

text \<open>\<open>b\<close> is \<open>a\<close> with the elements of the positions from \<open>i\<close> to \<open>n\<close> rearranged.\<close>

definition rearranged :: "nat \<Rightarrow> nat \<Rightarrow> 'a list \<Rightarrow> 'a list \<Rightarrow> bool" where
  "rearranged i n a b \<longleftrightarrow> mset b = mset a \<and> length b = length a \<and>
     (\<forall>q. q < i \<or> n \<le> q \<longrightarrow> b ! q = a ! q) \<and> (\<forall>q\<in>{i..<n}. \<exists>r\<in>{i..<n}. b ! q = a ! r)"

lemma rearranged_refl: "rearranged i n a a"
  by (auto simp: rearranged_def)

lemma rearranged_trans:
  assumes ab: "rearranged i n a b" and bc: "rearranged j n b c" and "i \<le> j"
  shows "rearranged i n a c"
proof -
  have "\<exists>r\<in>{i..<n}. c ! q = a ! r" if q: "q \<in> {i..<n}" for q
  proof -
    obtain p where "p \<in> {i..<n}" "c ! q = b ! p"
    proof (cases "q < j")
      case True
      then have "c ! q = b ! q" using bc by (simp add: rearranged_def)
      with q show thesis by (rule that)
    next
      case False
      then have "q \<in> {j..<n}" using q by simp
      then obtain p where p: "p \<in> {j..<n}" "c ! q = b ! p" using bc unfolding rearranged_def by blast
      from p(1) have "p \<in> {i..<n}" using assms(3) by simp
      then show thesis using p(2) by (rule that)
    qed
    then show ?thesis using ab unfolding rearranged_def by metis
  qed
  then show ?thesis using ab bc assms(3) unfolding rearranged_def by simp
qed

lemma rearranged_keys: "rearranged i n a b \<Longrightarrow> keys_ok key n a \<Longrightarrow> keys_ok key n b"
  unfolding rearranged_def keys_ok_def by (metis atLeastLessThan_iff not_less)

lemma rearranged_swap:
  assumes "i < j" and "j < n" and "n \<le> length a"
  shows "rearranged i n a (a[i := a ! j, j := a ! i])"
proof -
  have "mset (a[i := a ! j, j := a ! i]) = mset a" using assms mset_swap [of j a i] by simp
  moreover have "\<exists>r\<in>{i..<n}. a[i := a ! j, j := a ! i] ! q = a ! r" if "q \<in> {i..<n}" for q
    using assms that by (auto simp: nth_list_update)
  ultimately show ?thesis using assms by (auto simp: rearranged_def)
qed

lemma sort_inner_min:
  assumes "keys_ok key n a" and "i < k" and "k \<le> n"
    and "\<forall>q\<in>{Suc i..<k}. key_le key (a ! i) (a ! q)"
  shows "\<exists>b. sort_inner key i [k..<n] a = Some b \<and> rearranged i n a b \<and>
    (\<forall>q\<in>{Suc i..<n}. key_le key (b ! i) (b ! q))"
  using assms
proof (induction "n - k" arbitrary: k a)
  case 0
  then show ?case using rearranged_refl by simp
next
  case (Suc m)
  have k: "k < n" using Suc.hyps(2) by simp
  have upt: "[k..<n] = k # [Suc k..<n]" using k by (rule upt_conv_Cons)
  have len: "n \<le> length a" using Suc.prems(1) by (simp add: keys_ok_def)
  have "i < n" using k Suc.prems(2) by simp
  then have "key (a ! i) \<noteq> None" "key (a ! k) \<noteq> None" using Suc.prems(1) k by (simp_all add: keys_ok_def)
  then obtain x y where xy: "key (a ! i) = Some x" "key (a ! k) = Some y" by auto
  let ?a = "if strcmp x y > 0 then a[i := a ! k, k := a ! i] else a"
  have m: "m = n - Suc k" and ik: "i < Suc k" and ki: "Suc k \<le> n" using Suc.hyps(2) Suc.prems(2) k by simp_all
  have re: "rearranged i n a ?a" using rearranged_swap [OF Suc.prems(2) k len] rearranged_refl by auto
  have min: "key_le key (?a ! i) (?a ! q)" if q: "q \<in> {Suc i..<Suc k}" for q
  proof (cases "strcmp x y > 0")
    case True
    then have le: "key_le key (a ! k) (a ! i)" using xy key_le_not [of key "a ! i" "a ! k"] by simp
    show ?thesis
    proof (cases "q = k")
      case True
      then show ?thesis using \<open>strcmp x y > 0\<close> le Suc.prems(2) k len by simp
    next
      case False
      then have "key_le key (a ! i) (a ! q)" using Suc.prems(4) q by simp
      then show ?thesis using key_le_trans [OF le] \<open>strcmp x y > 0\<close> False q Suc.prems(2) k len by simp
    qed
  next
    case False
    then have "key_le key (a ! i) (a ! k)" using xy by (simp add: key_le_def)
    then show ?thesis using False Suc.prems(4) q by (cases "q = k") simp_all
  qed
  obtain b where b: "sort_inner key i [Suc k..<n] ?a = Some b" "rearranged i n ?a b"
    "\<forall>q\<in>{Suc i..<n}. key_le key (b ! i) (b ! q)"
    using Suc.hyps(1) [OF m rearranged_keys [OF re Suc.prems(1)] ik ki] min by blast
  show ?case
  proof (intro exI conjI)
    show "sort_inner key i [k..<n] a = Some b" unfolding upt sort_inner.simps xy bind.bind_lunit by (rule b(1))
    show "rearranged i n a b" by (rule rearranged_trans [OF re b(2) order_refl])
    show "\<forall>q\<in>{Suc i..<n}. key_le key (b ! i) (b ! q)" by (rule b(3))
  qed
qed

lemma sort_outer_sorted:
  assumes "keys_ok key n a" and "i \<le> n" and "\<forall>p q. p < i \<longrightarrow> p < q \<longrightarrow> q < n \<longrightarrow> key_le key (a ! p) (a ! q)"
  shows "\<exists>b. sort_outer key n [i..<n] a = Some b \<and> rearranged 0 n a b \<and>
    (\<forall>p q. p < q \<longrightarrow> q < n \<longrightarrow> key_le key (b ! p) (b ! q))"
  using assms
proof (induction "n - i" arbitrary: i a)
  case 0
  then show ?case using rearranged_refl [of 0 n a] by simp
next
  case (Suc m)
  have i: "i < n" using Suc.hyps(2) by simp
  have upt: "[i..<n] = i # [Suc i..<n]" using i by (rule upt_conv_Cons)
  obtain b where b: "sort_inner key i [Suc i..<n] a = Some b" "rearranged i n a b"
    "\<forall>q\<in>{Suc i..<n}. key_le key (b ! i) (b ! q)"
    using sort_inner_min [OF Suc.prems(1), of i "Suc i"] i by auto
  have m: "m = n - Suc i" and si: "Suc i \<le> n" using Suc.hyps(2) i by simp_all
  have step: "key_le key (b ! p) (b ! q)" if "p < Suc i" "p < q" "q < n" for p q
  proof (cases "p = i")
    case True
    then show ?thesis using b(3) that by simp
  next
    case False
    then have p: "p < i" using that by simp
    then have bp: "b ! p = a ! p" using b(2) by (simp add: rearranged_def)
    show ?thesis
    proof (cases "q < i")
      case True
      then show ?thesis using b(2) p that Suc.prems(3) by (simp add: rearranged_def)
    next
      case False
      then have "q \<in> {i..<n}" using that by simp
      then obtain r where "r \<in> {i..<n}" "b ! q = a ! r"
        using b(2) unfolding rearranged_def by blast
      then show ?thesis using bp p Suc.prems(3) by simp
    qed
  qed
  obtain c where c: "sort_outer key n [Suc i..<n] b = Some c" "rearranged 0 n b c"
    "\<forall>p q. p < q \<longrightarrow> q < n \<longrightarrow> key_le key (c ! p) (c ! q)"
    using Suc.hyps(1) [OF m rearranged_keys [OF b(2) Suc.prems(1)] si] step by blast
  have "rearranged 0 n a b" by (rule rearranged_trans [OF rearranged_refl b(2)]) simp
  then have "rearranged 0 n a c" using c(2) by (rule rearranged_trans) simp
  moreover have "sort_outer key n [i..<n] a = Some c" unfolding upt sort_outer.simps b(1) bind.bind_lunit by (rule c(1))
  ultimately show ?case using c(3) by blast
qed

section \<open>The list that is shown\<close>

text \<open>Under the invariant every key but the combined one is defined; the combined one needs room in
  \<open>str1\<close>, which subnet and universe of at most three characters leave.\<close>

definition shown :: "('fl, 'z) client_state_scheme \<Rightarrow> client_ent list" where
  "shown s = take (nat (client_valid_num s)) (client_valid_list s)"

lemma shown_facts:
  assumes "table_inv env own s"
  shows "nat (client_valid_num s) = Suc (length (filter live (tl (client_list s))))"
    and "nat (client_valid_num s) \<le> MAX_NUM_ENTRY"
    and "tl (shown s) = filter live (tl (client_list s))" and "\<forall>e\<in>set (shown s). ent_ok e"
    and "length (shown s) = nat (client_valid_num s)"
proof -
  let ?o = "filter live (tl (client_list s))"
  have ok: "entries_ok s" and sh: "client_valid_num s = int (Suc (length ?o))" "take (length ?o) (tl (client_valid_list s)) = ?o"
    using assms by (simp_all add: table_inv_def shows_live_def Let_def)
  show n: "nat (client_valid_num s) = Suc (length ?o)" using sh(1) by simp
  have len: "length (client_list s) = 24" "length (client_valid_list s) = 24"
    using ok by (simp_all add: entries_ok_def MAX_NUM_ENTRY_def)
  have "length ?o \<le> 23" using len(1) length_filter_le [of live "tl (client_list s)"] by simp
  then show le: "nat (client_valid_num s) \<le> MAX_NUM_ENTRY" using n by (simp add: MAX_NUM_ENTRY_def)
  obtain v vs where v: "client_valid_list s = v # vs" using len(2) by (cases "client_valid_list s") auto
  have shown: "shown s = v # ?o" using sh(2) n v by (simp add: shown_def)
  then show "tl (shown s) = ?o" by simp
  have "\<forall>e\<in>set ?o. ent_ok e" using ok in_set_tl by (fastforce simp: entries_ok_def)
  then show "\<forall>e\<in>set (shown s). ent_ok e" using shown ok v by (simp add: entries_ok_def)
  show "length (shown s) = nat (client_valid_num s)" using le len(2) by (simp add: shown_def MAX_NUM_ENTRY_def)
qed

lemma sort_keys_total:
  assumes "sort_key c = Some key" and "ent_ok e"
  shows "key e \<noteq> None"
proof -
  have str: "ent_str m e = Some (info e m)" for m using assms(2) by (rule ent_str_ok)
  have len: "length (info e m) < csize m" "is_cstr (info e m)" for m
  proof -
    have "packed_ok coff csize cmembers sizeof_ent_chars (ent_chars e)" using assms(2) by (simp add: ent_ok_def)
    from packed_okD [OF this set_cmembers, of m] str [of m]
    show "length (info e m) < csize m" "is_cstr (info e m)" by (auto simp: ent_str_def)
  qed
  let ?w = "info e C_subnet @ info e C_universe"
  have "length ?w < 8" using len(1) [of C_subnet] len(1) [of C_universe] by simp
  then have "put_str 0 ?w (replicate 8 0) = Some (poke 0 (?w @ [0]) (replicate 8 0))"
    and "str_at (poke 0 (?w @ [0]) (replicate 8 0)) 0 = Some ?w"
    using len(2) str_at_poke_same [of 0 ?w "replicate 8 0"] by simp_all
  then show ?thesis using assms(1) str
    by (auto simp: sort_key_def simp del: put_str_eq_Some split: if_splits)
qed

lemma sort_start:
  assumes "n \<le> length arr"
  shows "mem_put 0 (map Some [0..<n]) arr = Some (map Some [0..<n] @ drop n arr)"
  using assms by (simp add: mem_put_def poke_def)

lemma sort_client_list_view:
  assumes inv: "table_inv env own s" and arr: "length (sort_array s) = MAX_NUM_ENTRY"
    and key: "sort_key (hd (get_setting CFG_SORT_BY (g_web_config s))) = Some key"
  obtains t where "sort_client_list s = Some t" "length (sort_array t) = MAX_NUM_ENTRY"
    "t = s\<lparr>sort_array := sort_array t\<rparr>"
    "mset (take (length (shown s)) (sort_array t)) = mset (map Some [0..<length (shown s)])"
    "\<And>p q. p < q \<Longrightarrow> q < length (shown s) \<Longrightarrow>
       key_le key (shown s ! the (sort_array t ! p)) (shown s ! the (sort_array t ! q))"
proof -
  let ?n = "nat (client_valid_num s)" and ?cfg = "g_web_config s"
  have ok: "web_ok ?cfg" using inv by (simp add: table_inv_def announcer_ok_def)
  have n: "?n \<le> MAX_NUM_ENTRY" "length (shown s) = ?n" and ents: "\<forall>e\<in>set (shown s). ent_ok e"
    using shown_facts [OF inv] by simp_all
  have sw: "get_switch CFG_SORT_BY = Some (W_sort_by, Some 2)" by (simp add: get_switch_def get_cases_def cfg_ids)
  obtain v where v: "ratpac_get_str CFG_SORT_BY ?cfg (client_valid_num s) = Some (0, v)" "length v < 4" "v \<noteq> []"
    "v = get_setting CFG_SORT_BY ?cfg"
    using get_value [OF ok sw, of "client_valid_num s"] by (auto simp: set_str_fields)
  have sortby: "put_str 0 v (replicate 4 0) = Some (poke 0 (v @ [0]) (replicate 4 0))"
    "poke 0 (v @ [0]) (replicate 4 0) ! 0 = hd v"
    using v(2,3) by (simp, cases v) (simp_all add: poke_def)
  let ?arr = "map Some [0..<?n] @ drop ?n (sort_array s)"
  let ?key = "\<lambda>p. do { i \<leftarrow> p; key (client_valid_list s ! i) }"
  have put: "mem_put 0 (map Some [0..<?n]) (sort_array s) = Some ?arr"
    using n(1) arr by (intro sort_start) simp
  have nth: "?arr ! q = Some q" "client_valid_list s ! q = shown s ! q" if "q < ?n" for q
    using that n by (simp_all add: nth_append shown_def)
  have total: "key (shown s ! q) \<noteq> None" if "q < ?n" for q
    using sort_keys_total [OF key] ents n(2) that by simp
  have "keys_ok ?key ?n ?arr" using nth total n(1) arr by (simp add: keys_ok_def)
  then obtain b where b: "sort_outer ?key ?n [0..<?n] ?arr = Some b" "rearranged 0 ?n ?arr b"
    "\<forall>p q. p < q \<longrightarrow> q < ?n \<longrightarrow> key_le ?key (b ! p) (b ! q)"
    using sort_outer_sorted [of ?key ?n ?arr 0] by auto
  have lb: "length b = MAX_NUM_ENTRY" using b(2) n(1) arr by (simp add: rearranged_def)
  have dropb: "drop ?n b = drop ?n (sort_array s)"
  proof (rule nth_equalityI)
    show "length (drop ?n b) = length (drop ?n (sort_array s))" using lb arr by simp
    fix i assume "i < length (drop ?n b)"
    then have i: "i + ?n < MAX_NUM_ENTRY" using lb by simp
    then have "b ! (i + ?n) = ?arr ! (i + ?n)" using b(2) unfolding rearranged_def by simp
    then show "drop ?n b ! i = drop ?n (sort_array s) ! i" using i lb arr n(1) by (simp add: nth_append add.commute)
  qed
  have "mset b = mset ?arr" using b(2) by (simp add: rearranged_def)
  moreover have "b = take ?n b @ drop ?n (sort_array s)" unfolding dropb [symmetric] by simp
  ultimately have ms: "mset (take ?n b) = mset (map Some [0..<?n])" by (metis add_right_cancel mset_append)
  have elem: "\<exists>i<?n. b ! q = Some i" if "q < ?n" for q
  proof -
    have "b ! q \<in> set (take ?n b)" using that lb n(1) by (auto simp: in_set_conv_nth)
    then have "b ! q \<in> set (map Some [0..<?n])" using ms by (metis set_mset_mset)
    then show ?thesis by auto
  qed
  have sorted: "key_le key (shown s ! the (b ! p)) (shown s ! the (b ! q))" if pq: "p < q" "q < ?n" for p q
  proof -
    obtain i where i: "i < ?n" "b ! p = Some i" using elem [of p] pq by auto
    obtain j where j: "j < ?n" "b ! q = Some j" using elem [of q] pq by auto
    have "key_le ?key (b ! p) (b ! q)" using b(3) pq by blast
    then show ?thesis using i j nth(2) by (simp add: key_le_def)
  qed
  have "sort_client_list s = Some (s\<lparr>sort_array := b\<rparr>)"
    using v(1,4) sortby put b(1) key by (simp add: sort_client_list_def Let_def del: put_str_eq_Some mem_put_eq_Some)
  then show thesis using lb ms sorted n(2) by (intro that [of "s\<lparr>sort_array := b\<rparr>"]) simp_all
qed

section \<open>Properties\<close>

text \<open>The row of the web page that shows an entry.\<close>

definition row :: "client_ent \<Rightarrow> bytes list" where
  "row e = (let f = info e in [no_name (f C_node_name), f C_ip_addr, f C_universe, f C_subnet, take 7 (f C_baterry @ [37]),
     f C_protocol, f C_sacn_univ, f C_sort_by, f C_host_mode, f C_crmx_power, f C_led_color])"

lemma sorted_rows:
  assumes "table_inv env own s" and "length (sort_array s) = MAX_NUM_ENTRY"
    and "sort_key (hd (get_setting CFG_SORT_BY (g_web_config s))) = Some key"
  shows "\<exists>t es. sort_client_list s = Some t \<and> mset es = mset (hd (client_valid_list s) # filter live (tl (client_list s))) \<and>
    sorted_wrt (key_le key) es \<and>
    (\<forall>i. 0 \<le> i \<longrightarrow> get_client_entry i t =
       (if nat i < length es then Some (0, row (es ! nat i)) else Some (-1, [[], [], []])))"
proof -
  obtain t where t: "sort_client_list s = Some t" "length (sort_array t) = MAX_NUM_ENTRY" "t = s\<lparr>sort_array := sort_array t\<rparr>"
    "mset (take (length (shown s)) (sort_array t)) = mset (map Some [0..<length (shown s)])"
    "\<And>p q. p < q \<Longrightarrow> q < length (shown s) \<Longrightarrow>
       key_le key (shown s ! the (sort_array t ! p)) (shown s ! the (sort_array t ! q))"
    using sort_client_list_view [OF assms] by blast
  let ?n = "length (shown s)"
  let ?es = "map (\<lambda>p. shown s ! the p) (take ?n (sort_array t))"
  note sf = shown_facts [OF assms(1)]
  have n: "?n = nat (client_valid_num s)" "?n \<le> MAX_NUM_ENTRY" "0 < ?n" using sf by simp_all
  have len: "length ?es = ?n" using t(2) n(2) by simp
  have "mset ?es = image_mset (\<lambda>p. shown s ! the p) (mset (map Some [0..<?n]))"
    unfolding mset_map t(4) ..
  also have "\<dots> = mset (map (\<lambda>i. shown s ! i) [0..<?n])" by (simp add: image_mset.compositionality comp_def)
  also have "map (\<lambda>i. shown s ! i) [0..<?n] = shown s" by (rule map_nth)
  finally have ms: "mset ?es = mset (shown s)" .
  have cons: "shown s = hd (client_valid_list s) # filter live (tl (client_list s))"
  proof -
    have "shown s \<noteq> []" using n(3) by auto
    moreover have "hd (shown s) = hd (client_valid_list s)" using n by (simp add: shown_def hd_take)
    ultimately show ?thesis using sf(3) by (metis list.collapse)
  qed
  have srt: "sorted_wrt (key_le key) ?es"
    using t(5) len by (simp add: sorted_wrt_iff_nth_less)
  have entry: "get_client_entry i t = (if nat i < length ?es then Some (0, row (?es ! nat i)) else Some (-1, [[], [], []]))"
    if i: "0 \<le> i" for i
  proof (cases "nat i < ?n")
    case False
    then have "client_valid_num s \<le> i" using n(1) i by linarith
    moreover have "client_valid_num t = client_valid_num s" using arg_cong [OF t(3), of client_valid_num] by simp
    ultimately show ?thesis using False len by (simp add: get_client_entry_def)
  next
    case True
    have "sort_array t ! nat i \<in> set (take ?n (sort_array t))" using True t(2) n(2) by (auto simp: in_set_conv_nth)
    then have "sort_array t ! nat i \<in> set (map Some [0..<?n])" using t(4) by (metis set_mset_mset)
    then obtain p where p: "p < ?n" "sort_array t ! nat i = Some p" by auto
    have e: "?es ! nat i = shown s ! p" "client_valid_list s ! p = shown s ! p"
      using True p t(2) n by (simp_all add: shown_def)
    have "ent_ok (shown s ! p)" using sf(4) p(1) by simp
    note str = ent_str_ok [OF this]
    have "\<not> client_valid_num s \<le> i" "nat i < MAX_NUM_ENTRY" using True n by linarith+
    then have "get_client_entry i (s\<lparr>sort_array := sort_array t\<rparr>) = Some (0, row (shown s ! p))"
      using i p t(2) e(2) by (simp add: get_client_entry_def row_def str Let_def)
    then show ?thesis using True len e(1) t(3) by simp
  qed
  show ?thesis using t(1) ms srt entry cons by (intro exI [of _ t] exI [of _ ?es]) simp
qed

text \<open>
  C22. After \<open>sort_client_list\<close> the rows \<open>get_client_entry\<close> gives for 0, 1, ... are a rearrangement of the
  own entry and the live entries of the other nodes, ascending in the selected key; every index behind
  them is answered with -1.
\<close>

theorem sorted_list_shown:
  assumes "table_inv env own s" and "length (sort_array s) = MAX_NUM_ENTRY"
    and "sort_key (hd (get_setting CFG_SORT_BY (g_web_config s))) = Some key"
  shows "\<exists>t es. sort_client_list s = Some t \<and> mset es = mset (hd (client_valid_list s) # filter live (tl (client_list s))) \<and>
    sorted_wrt (key_le key) es \<and>
    (\<forall>i. 0 \<le> i \<longrightarrow> get_client_entry i t =
       (if nat i < length es then Some (0, row (es ! nat i)) else Some (-1, [[], [], []])))"
  by (rule sorted_rows [OF assms])

text \<open>A node that knows no other one.\<close>

lemma sample_alone:
  obtains s :: "bytes client_state" where "table_inv sample_client_env (lit ''10.10.100.254'') s"
    "length (sort_array s) = MAX_NUM_ENTRY"
    "sort_key (hd (get_setting CFG_SORT_BY (g_web_config s))) = Some (ent_str C_node_name)"
    "filter live (tl (client_list s)) = []"
proof -
  obtain s0 :: "bytes client_state" where s0: "table_inv sample_client_env (lit ''10.10.100.254'') s0"
    "client_view s0 = (\<lambda>_. None)" "g_web_config s0 = replicate sizeof_WEB_DATA_T 0" by (rule sample_started)
  let ?s = "s0\<lparr>sort_array := replicate MAX_NUM_ENTRY None\<rparr>"
  have inv: "table_inv sample_client_env (lit ''10.10.100.254'') ?s" using s0(1)
    by (simp add: table_inv_def entries_ok_def announcer_ok_def shows_live_def own_ip_text_def Let_def del: lit_simps)
  have "get_setting CFG_SORT_BY (g_web_config ?s) = lit ''0''"
    using s0(3) by (simp add: get_setting_def ratpac_get_str_def get_switch_def get_cases_def cfg_ids cut_def
        str_at_def sizeof_WEB_DATA_T_def c_str_replicate)
  then have key: "sort_key (hd (get_setting CFG_SORT_BY (g_web_config ?s))) = Some (ent_str C_node_name)"
    by (simp add: sort_key_def)
  have "view_of (tl (client_list s0)) = (\<lambda>_. None)" using s0(2) by (simp add: client_view_def)
  then have "\<not> hit ip e" if "e \<in> set (tl (client_list s0))" for ip e
    using view_of_None [of "tl (client_list s0)" ip] that by (auto simp: in_set_conv_nth)
  then have dead: "filter live (tl (client_list ?s)) = []" by (auto simp: filter_empty_conv hit_def)
  have arr: "length (sort_array ?s) = MAX_NUM_ENTRY" by simp
  show thesis by (rule that [OF inv arr key dead])
qed

theorem sorted_list_shown_witness:
  "\<exists>(s :: bytes client_state) t. sort_client_list s = Some t \<and> get_client_entry 0 t = Some (0, row (hd (client_valid_list s))) \<and>
     get_client_entry 1 t = Some (-1, [[], [], []])"
proof -
  obtain s :: "bytes client_state" where inv: "table_inv sample_client_env (lit ''10.10.100.254'') s"
    and arr: "length (sort_array s) = MAX_NUM_ENTRY"
    and key: "sort_key (hd (get_setting CFG_SORT_BY (g_web_config s))) = Some (ent_str C_node_name)"
    and dead: "filter live (tl (client_list s)) = []" by (rule sample_alone)
  from sorted_list_shown [OF inv arr key, unfolded dead] obtain t es where t: "sort_client_list s = Some t"
    "mset es = {#hd (client_valid_list s)#}"
    "\<forall>i. 0 \<le> i \<longrightarrow> get_client_entry i t = (if nat i < length es then Some (0, row (es ! nat i)) else Some (-1, [[], [], []]))"
    by auto
  have "length es = 1" using t(2) by (metis size_mset size_single)
  then obtain e where "es = [e]" by (auto simp: length_Suc_conv)
  then have "es = [hd (client_valid_list s)]" using t(2) by simp
  then have "get_client_entry 0 t = Some (0, row (hd (client_valid_list s)))" "get_client_entry 1 t = Some (-1, [[], [], []])"
    using t(3) [rule_format, of 0] t(3) [rule_format, of 1] by simp_all
  then show ?thesis using t(1) by (intro exI [of _ s] exI [of _ t]) simp
qed

end
