(* ===== verification/Announce.thy ===== *)
theory Announce
  imports ClientTable
begin

text \<open>
  Announcements between two nodes: what \<open>client_thread_main\<close> of one node sends is what
  \<open>populate_new_client\<close> of another enters into its list, and what a datagram that was not built by a
  node can do.
\<close>

section \<open>The strings of an announcement\<close>

lemma str_at_take_append:
  assumes "str_at m j = Some v" and "j + length v < n" and "n \<le> length m"
  shows "str_at (take n m @ r) j = Some v"
proof -
  have "c_str (take (n - j) (drop j m)) = Some v" using assms by (intro c_str_take) (simp_all add: str_at_def)
  then obtain q where "is_cstr v" "take (n - j) (drop j m) = v @ 0 # q" by (auto simp: c_str_Some_iff)
  moreover have "drop j (take n m @ r) = take (n - j) (drop j m) @ r" using assms(2,3) by (simp add: drop_take)
  ultimately show ?thesis by (simp add: str_at_def)
qed

definition apart :: "nat list \<Rightarrow> nat \<Rightarrow> bytes \<Rightarrow> bool" where
  "apart ks j v \<longleftrightarrow> list_all (\<lambda>k. k < j \<or> j + length v \<le> k) ks"

lemma str_at_terminate_msg:
  assumes "str_at m j = Some v" and "apart [19, 22, 26, 36, 44, 51, 59, 71] j v"
  shows "str_at (terminate_msg m) j = Some v"
  using assms unfolding terminate_msg_def apart_def list.pred_inject
  by (intro str_at_terminate) simp_all

definition announced :: "('fl, 'e) client_env_scheme \<Rightarrow> ('fl, 'z) client_state_scheme \<Rightarrow> cmember \<Rightarrow> bytes" where
  "announced env s m = put_view (own_kvs env s @ [(C_baterry, the (c_str (battery_info s)))]) (\<lambda>_. []) m"

definition all_members :: "(cmember \<times> nat) list" where
  "all_members = (C_node_name, 0) # msg_members"

definition announce_writes :: "(cmember \<Rightarrow> bytes) \<Rightarrow> (nat \<times> bytes) list" where
  "announce_writes f = map (\<lambda>(m, off). (off, f m @ [0])) all_members"

text \<open>The strings are short enough for their place in the message and hold no percent sign.\<close>

definition announce_room :: "cmember \<Rightarrow> nat" where
  "announce_room m = (case m of C_node_name \<Rightarrow> 19 | C_universe \<Rightarrow> 2 | C_subnet \<Rightarrow> 2 | C_baterry \<Rightarrow> 6
     | C_eCos_ver \<Rightarrow> 4 | C_samd_ver \<Rightarrow> 3 | C_timo_ver \<Rightarrow> 3 | C_sacn_univ \<Rightarrow> 7 | C_protocol \<Rightarrow> 1
     | C_crmx_power \<Rightarrow> 2 | C_sort_by \<Rightarrow> 1 | C_host_mode \<Rightarrow> 1 | C_led_color \<Rightarrow> 7 | C_ip_addr \<Rightarrow> 0)"

definition announce_fits :: "(cmember \<Rightarrow> bytes) \<Rightarrow> bool" where
  "announce_fits f \<longleftrightarrow> list_all (\<lambda>(m, off). is_cstr (f m) \<and> length (f m) \<le> announce_room m \<and>
     (m \<noteq> C_node_name \<longrightarrow> 37 \<notin> set (f m))) all_members"

lemma announce_regions: "announce_fits f \<Longrightarrow> regions 0 (announce_writes f) 128"
  by (simp add: announce_fits_def announce_writes_def all_members_def msg_members_def announce_room_def)

lemma announce_msg_str:
  assumes f: "announce_fits f" and len: "length buf = 128" and m: "(m, off) \<in> set all_members"
  defines "b \<equiv> (pokes (announce_writes f) buf)[36 := 0]"
  shows "str_at (received_msg (take 100 b)) off = Some (f m)"
proof -
  let ?p = "pokes (announce_writes f) buf"
  have reg: "regions 0 (announce_writes f) (length buf)" using announce_regions [OF f] len by simp
  have lp: "length ?p = 128" using length_pokes [OF reg] len by simp
  have fm: "is_cstr (f m)" "length (f m) \<le> announce_room m"
    using f m by (auto simp: announce_fits_def list_all_iff)
  have "(off, f m @ [0]) \<in> set (announce_writes f)" using m by (force simp: announce_writes_def)
  then have "has_bytes ?p (off, f m @ [0])" using pokes_has_bytes [OF reg] by (auto simp: list_all_iff)
  then have "str_at ?p off = Some (f m)" using fm(1) by (rule has_bytes_str)
  moreover have room: "36 < off \<or> off + length (f m) \<le> 36" "off + length (f m) < 100"
      "apart [19, 22, 26, 36, 44, 51, 59, 71] off (f m)"
    using m fm(2) by (auto simp: all_members_def msg_members_def announce_room_def apart_def)
  ultimately have "str_at b off = Some (f m)" unfolding b_def by (intro str_at_terminate)
  then have "str_at (take 100 b @ replicate 8 0) off = Some (f m)"
    using room(2) lp by (intro str_at_take_append) (simp_all add: b_def)
  moreover have "poke 0 (take MAX_MSG (take 100 b)) (replicate MAX_MSG 0) = take 100 b @ replicate 8 0"
    using lp by (simp add: poke_def MAX_MSG_def b_def)
  ultimately show ?thesis unfolding received_msg_def using room(3) by (simp only: str_at_terminate_msg)
qed

lemma announce_report:
  assumes f: "announce_fits f" and len: "length buf = 128" and ip: "packed_fits csize C_ip_addr ip"
  defines "msg \<equiv> received_msg (take 100 ((pokes (announce_writes f) buf)[36 := 0]))"
  shows "report_ok ip msg" and "report_info ip msg = f(C_ip_addr := ip)"
proof -
  note str = announce_msg_str [OF f len, folded msg_def]
  have name: "str_at msg 0 = Some (f C_node_name)" by (rule str) (simp add: all_members_def)
  have val: "report_value msg (m, off) = Some (f m)" if "(m, off) \<in> set msg_members" for m off
  proof -
    have "str_at msg off = Some (f m)" using that by (intro str) (simp add: all_members_def)
    moreover have "m \<noteq> C_node_name" using that by (auto simp: msg_members_def)
    moreover have "(m, off) \<in> set all_members" using that by (simp add: all_members_def)
    then have "m \<noteq> C_node_name \<longrightarrow> 37 \<notin> set (f m)" using f by (auto simp: announce_fits_def list_all_iff)
    ultimately show ?thesis by (simp add: report_value_def printf_plain_id)
  qed
  have fits: "packed_fits csize m (f m)" if "(m, off) \<in> set all_members" for m off
  proof -
    have "is_cstr (f m)" "length (f m) \<le> announce_room m" using f that by (auto simp: announce_fits_def list_all_iff)
    moreover have "announce_room m < csize m" by (cases m) (simp_all add: announce_room_def)
    ultimately show ?thesis by (simp add: packed_fits_def)
  qed
  have "list_all (\<lambda>(m, off). case report_value msg (m, off) of None \<Rightarrow> False | Some v \<Rightarrow> packed_fits csize m v) msg_members"
    unfolding list_all_iff using val fits by (fastforce simp: all_members_def)
  then show "report_ok ip msg" using ip name fits [of C_node_name 0] by (simp add: report_ok_def all_members_def)
  show "report_info ip msg = f(C_ip_addr := ip)"
  proof
    fix m
    show "report_info ip msg m = (f(C_ip_addr := ip)) m"
    proof (cases "m = C_node_name \<or> m = C_ip_addr")
      case True
      then show ?thesis using name by (auto simp: report_info_def)
    next
      case False
      then obtain off where off: "map_of msg_members m = Some off" by (cases m) (auto simp: msg_members_def)
      then have "report_value msg (m, off) = Some (f m)" using val map_of_SomeD by metis
      then show ?thesis using off False by (simp add: report_info_def)
    qed
  qed
qed

section \<open>Building an announcement\<close>

definition versions_plain :: "('fl, 'e) client_env_scheme \<Rightarrow> ('fl, 'z) client_state_scheme \<Rightarrow> bool" where
  "versions_plain env s \<longleftrightarrow> length (eCos_ver env) \<le> 4 \<and> 37 \<notin> set (eCos_ver env) \<and>
     37 \<notin> set (samd_ver s) \<and> 37 \<notin> set (timo_ver s) \<and>
     (\<forall>b. c_str (battery_info s) = Some b \<longrightarrow> length b \<le> 6 \<and> 37 \<notin> set b)"

lemma c_str_subset: "c_str m = Some v \<Longrightarrow> set v \<subseteq> set m"
  by (auto simp: c_str_Some_iff)

lemma get_cut_length:
  assumes "ratpac_get_str cid cfg n = Some (0, v)" and "get_switch cid = Some (f, Some 2)"
  shows "length v \<le> 1"
  using assms by (auto simp: ratpac_get_str_def cut_def split: if_splits)

lemma announced_simps:
  "announced env s C_node_name = get_setting (CFG_str2id env (lit ''AKS_NAME'')) (g_web_config s)"
  "announced env s C_universe = get_setting (CFG_str2id env (lit ''AKS_UNIVERSE'')) (g_web_config s)"
  "announced env s C_subnet = get_setting (CFG_str2id env (lit ''AKS_SUBNET'')) (g_web_config s)"
  "announced env s C_baterry = the (c_str (battery_info s))"
  "announced env s C_eCos_ver = eCos_ver env"
  "announced env s C_samd_ver = the (c_str (samd_ver s))"
  "announced env s C_timo_ver = the (c_str (timo_ver s))"
  "announced env s C_sacn_univ = get_setting CFG_SACN_UNIV (g_web_config s)"
  "announced env s C_protocol = get_setting CFG_PROTNAME (g_web_config s)"
  "announced env s C_crmx_power = get_setting CFG_TIMO_POWER (g_web_config s)"
  "announced env s C_sort_by = get_setting CFG_SORT_BY (g_web_config s)"
  "announced env s C_host_mode = dec_int (operation_mode s)"
  "announced env s C_led_color = get_setting CFG_LED_COLOR (g_web_config s)"
  by (simp_all add: announced_def put_view_def own_kvs_def own_settings_def del: lit_simps)

text \<open>Every announced setting is what \<open>ratpac_get_str\<close> gives, short and without a percent sign.\<close>

definition sent_setting :: "int \<Rightarrow> ('fl, 'z) client_state_scheme \<Rightarrow> nat \<Rightarrow> bool \<Rightarrow> bool" where
  "sent_setting cid s k plain \<longleftrightarrow> (let v = get_setting cid (g_web_config s) in
     ratpac_get_str cid (g_web_config s) (client_valid_num s) = Some (0, v) \<and> is_cstr v \<and> length v \<le> k \<and>
     (plain \<longrightarrow> 37 \<notin> set v))"

lemma sent_settings:
  assumes "announcer_ok env s"
  shows "sent_setting (CFG_str2id env (lit ''AKS_NAME'')) s 19 False"
    "sent_setting (CFG_str2id env (lit ''AKS_UNIVERSE'')) s 2 True"
    "sent_setting (CFG_str2id env (lit ''AKS_SUBNET'')) s 2 True"
    "sent_setting CFG_SACN_UNIV s 7 True" "sent_setting CFG_PROTNAME s 1 True" "sent_setting CFG_TIMO_POWER s 2 True"
    "sent_setting CFG_SORT_BY s 1 True" "sent_setting CFG_LED_COLOR s 7 True"
proof -
  have ok: "web_ok (g_web_config s)" and plain: "list_all (\<lambda>f. 37 \<notin> set (field_str (g_web_config s) f)) own_fields"
    and ids: "str2id_ok env" using assms by (simp_all add: announcer_ok_def)
  have sent: "sent_setting cid s k pl"
    if "get_switch cid = Some (f, b)" "f \<in> set str_fields" "1 < fsize f" "fsize f \<le> Suc k \<or> (b = Some 2 \<and> k = 1)"
      "pl \<longrightarrow> f \<in> set own_fields" for cid f b k pl
  proof -
    note h = that
    obtain v where v: "ratpac_get_str cid (g_web_config s) (client_valid_num s) = Some (0, v)" "is_cstr v" "length v < fsize f"
      "set v \<subseteq> insert 48 (set (field_str (g_web_config s) f))" "v = get_setting cid (g_web_config s)"
      by (rule get_value [OF ok h(1-3)]) blast
    have "length v \<le> k" using h(1,4) v(1,3) get_cut_length [of cid _ _ v f] by auto
    moreover have "pl \<longrightarrow> 37 \<notin> set v" using v(4) plain h(5) by (auto simp: list_all_iff)
    ultimately show ?thesis using v by (simp add: sent_setting_def Let_def)
  qed
  have sw: "get_switch CFG_AKS_NAME = Some (W_name, None)" "get_switch CFG_AKS_UNIVERSE = Some (W_universe, None)"
    "get_switch CFG_AKS_SUBNET = Some (W_subnet, None)" "get_switch CFG_SACN_UNIV = Some (W_sacn_universe, None)"
    "get_switch CFG_SORT_BY = Some (W_sort_by, Some 2)" "get_switch CFG_TIMO_POWER = Some (W_timopower, None)"
    "get_switch CFG_PROTNAME = Some (W_protname, Some 2)" "get_switch CFG_LED_COLOR = Some (W_led_color, Some 16)"
    by (simp_all add: get_switch_def get_cases_def cfg_ids)
  have id: "CFG_str2id env (lit ''AKS_NAME'') = CFG_AKS_NAME" "CFG_str2id env (lit ''AKS_UNIVERSE'') = CFG_AKS_UNIVERSE"
    "CFG_str2id env (lit ''AKS_SUBNET'') = CFG_AKS_SUBNET"
    using ids by (simp_all add: str2id_ok_def cfg_userid_str_table_def del: lit_simps)
  show "sent_setting (CFG_str2id env (lit ''AKS_NAME'')) s 19 False"
    "sent_setting (CFG_str2id env (lit ''AKS_UNIVERSE'')) s 2 True"
    "sent_setting (CFG_str2id env (lit ''AKS_SUBNET'')) s 2 True"
    unfolding id by (rule sent [OF sw(1)] sent [OF sw(2)] sent [OF sw(3)]; simp add: set_str_fields own_fields_def)+
  show "sent_setting CFG_SACN_UNIV s 7 True" "sent_setting CFG_PROTNAME s 1 True" "sent_setting CFG_TIMO_POWER s 2 True"
    "sent_setting CFG_SORT_BY s 1 True" "sent_setting CFG_LED_COLOR s 7 True"
    by (rule sent [OF sw(4)] sent [OF sw(7)] sent [OF sw(6)] sent [OF sw(5)] sent [OF sw(8)];
        simp add: set_str_fields own_fields_def)+
qed

lemma announced_fits:
  assumes "announcer_ok env s" and "versions_plain env s"
  shows "announce_fits (announced env s)"
proof -
  have vers: "is_cstr (eCos_ver env)" "length (samd_ver s) = 4" "samd_ver s ! 3 = 0" "length (timo_ver s) = 4"
    "timo_ver s ! 3 = 0" "operation_mode s \<in> {AP_MODE, STA_ETH_MODE, STA_WIFI_MODE}"
    using assms(1) by (simp_all add: announcer_ok_def)
  obtain sv where sv: "c_str (samd_ver s) = Some sv" "is_cstr sv" "length sv \<le> 3" by (rule version_str [OF vers(2,3)])
  obtain tv where tv: "c_str (timo_ver s) = Some tv" "is_cstr tv" "length tv \<le> 3" by (rule version_str [OF vers(4,5)])
  obtain bi where bi: "c_str (battery_info s) = Some bi" "is_cstr bi"
    using assms(1) c_str_cstr by (auto simp: announcer_ok_def)
  have mode: "is_cstr (dec_int (operation_mode s)) \<and> length (dec_int (operation_mode s)) \<le> 1 \<and> 37 \<notin> set (dec_int (operation_mode s))"
    using vers(6) by (auto simp: AP_MODE_def STA_ETH_MODE_def STA_WIFI_MODE_def dec_int_def dec_nat.simps)
  show ?thesis
    using sent_settings [OF assms(1)] assms(2) vers(1) sv tv bi mode c_str_subset [OF sv(1)] c_str_subset [OF tv(1)]
    by (auto simp: announce_fits_def all_members_def msg_members_def announce_room_def announced_simps
        sent_setting_def Let_def versions_plain_def)
qed

primrec put_strs :: "(nat \<times> bytes) list \<Rightarrow> bytes \<Rightarrow> bytes option" where
  "put_strs [] b = Some b"
| "put_strs (w # ws) b = do { b \<leftarrow> put_str (fst w) (snd w) b; put_strs ws b }"

lemma put_strs_pokes:
  "regions lo (map (\<lambda>(i, v). (i, v @ [0])) ws) (length b) \<Longrightarrow>
     put_strs ws b = Some (pokes (map (\<lambda>(i, v). (i, v @ [0])) ws) b)"
proof (induction ws arbitrary: lo b)
  case (Cons w ws)
  obtain i v where w: "w = (i, v)" by (cases w)
  have r: "regions (i + length (v @ [0])) (map (\<lambda>(i, v). (i, v @ [0])) ws) (length b)" using Cons.prems w by simp
  then have "i + length v < length b" using regions_le [OF r] by simp
  then show ?case using Cons.IH [of "i + length (v @ [0])" "poke i (v @ [0]) b"] r w by (simp add: put_str_def mem_put_def)
qed simp

lemma build_announcement_writes:
  assumes "announcer_ok env s" and "versions_plain env s" and "length (cli_recv s) = 128"
  shows "build_announcement env s = Some ((pokes (announce_writes (announced env s)) (cli_recv s))[36 := 0])"
proof -
  let ?f = "announced env s"
  have setting: "put_setting_at cid off s b = put_str off (get_setting cid (g_web_config s)) b"
    if "sent_setting cid s k pl" for cid k pl off b
    using that by (simp add: put_setting_at_def sent_setting_def Let_def)
  have strs: "c_str (battery_info s) = Some (?f C_baterry)" "c_str (samd_ver s) = Some (?f C_samd_ver)"
    "c_str (timo_ver s) = Some (?f C_timo_ver)"
  proof -
    have vers: "length (samd_ver s) = 4" "samd_ver s ! 3 = 0" "length (timo_ver s) = 4" "timo_ver s ! 3 = 0"
      and bi: "c_str (battery_info s) \<noteq> None" using assms(1) by (simp_all add: announcer_ok_def)
    obtain sv where "c_str (samd_ver s) = Some sv" by (rule version_str [OF vers(1,2)])
    then show "c_str (samd_ver s) = Some (?f C_samd_ver)" by (simp add: announced_simps)
    obtain tv where "c_str (timo_ver s) = Some tv" by (rule version_str [OF vers(3,4)])
    then show "c_str (timo_ver s) = Some (?f C_timo_ver)" by (simp add: announced_simps)
    show "c_str (battery_info s) = Some (?f C_baterry)" using bi by (auto simp: announced_simps)
  qed
  note set = sent_settings [OF assms(1), THEN setting, folded announced_simps]
  have rest: "eCos_ver env = ?f C_eCos_ver" "dec_int (operation_mode s) = ?f C_host_mode" by (simp_all add: announced_simps)
  have all: "build_announcement env s = do {
       b \<leftarrow> put_strs (map (\<lambda>(m, off). (off, ?f m)) all_members) (cli_recv s);
       mem_put 36 [0] b }"
    unfolding build_announcement_def set strs rest all_members_def msg_members_def
    by (simp add: announced_simps del: lit_simps)
  have room: "regions 0 (map (\<lambda>(m, off). (off, ?f m @ [0])) all_members) (length (cli_recv s))"
    using announce_regions [OF announced_fits [OF assms(1,2)]] assms(3) by (simp add: announce_writes_def)
  have strip: "map (\<lambda>(i, v). (i, v @ [0])) (map (\<lambda>(m, off). (off, ?f m)) all_members) = announce_writes ?f"
    by (simp add: announce_writes_def case_prod_unfold)
  have "put_strs (map (\<lambda>(m, off). (off, ?f m)) all_members) (cli_recv s) = Some (pokes (announce_writes ?f) (cli_recv s))"
    using put_strs_pokes [of 0 "map (\<lambda>(m, off). (off, ?f m)) all_members" "cli_recv s"] room
    unfolding strip by (simp add: announce_writes_def)
  moreover have "length (pokes (announce_writes ?f) (cli_recv s)) = 128"
    using length_pokes [OF room] assms(3) by (simp add: announce_writes_def)
  then have "mem_put 36 [0] (pokes (announce_writes ?f) (cli_recv s)) = Some ((pokes (announce_writes ?f) (cli_recv s))[36 := 0])"
    by (simp add: poke_def upd_conv_take_nth_drop)
  ultimately show ?thesis unfolding all by simp
qed

section \<open>Unreadable announcements\<close>

lemma put_members_None:
  "p \<in> set ps \<Longrightarrow> report_value rcv p = None \<Longrightarrow> put_members ps i rcv l = None"
proof (induction ps arbitrary: l)
  case (Cons q ps)
  show ?case
  proof (cases "p = q")
    case True
    then show ?thesis using Cons.prems(2)
      by (cases "str_at rcv (snd q)") (simp_all add: report_value_def)
  next
    case False
    then have IH: "put_members ps i rcv l = None" for l using Cons by simp
    show ?thesis by (simp add: IH split: bind_splits)
  qed
qed simp

section \<open>Properties\<close>

text \<open>
  C21. What a node announces is what the others list: the datagram is a well-formed report to every
  receiver, and the receiver's entry holds exactly the sender's settings, versions, battery text and
  mode.
\<close>

theorem announcement_round_trip:
  assumes "announcer_ok env s" and "versions_plain env s" and "length (cli_recv s) = 128"
    and "ipAddress s ! 0 \<noteq> 0" and "packed_fits csize C_ip_addr ip"
  shows "\<exists>t data. client_thread_round env s = Some t \<and>
    outputs t = outputs s @ [Udp (broadcast_address (ipAddress s)) data] \<and> length data = 100 \<and>
    report_ok ip (received_msg data) \<and> report_info ip (received_msg data) = (announced env s)(C_ip_addr := ip)"
proof -
  let ?p = "pokes (announce_writes (announced env s)) (cli_recv s)"
  note f = announced_fits [OF assms(1,2)]
  have "regions 0 (announce_writes (announced env s)) (length (cli_recv s))" using announce_regions [OF f] assms(3) by simp
  then have "length ?p = 128" using length_pokes assms(3) by metis
  then show ?thesis
    using announce_report [OF f assms(3,5)] build_announcement_writes [OF assms(1-3)] assms(4)
    by (simp add: client_thread_round_def)
qed

text \<open>
  A datagram whose strings are not plain breaks the receiver: when one of the announced strings has a
  conversion specification or no end inside the message, entering it into the list is undefined.
\<close>

theorem unreadable_announcement:
  assumes "table_inv env own s" and "ip \<noteq> own" and "is_cstr ip"
    and "ip \<in> dom (client_view s) \<or> card (dom (client_view s)) < 23"
    and "p \<in> set msg_members" and "report_value rcv p = None"
  shows "populate_new_client env ip rcv s = None"
proof -
  have none: "fill_entry i a rcv l = None" for i a l
    using put_members_None [OF assms(5,6)] by (simp add: fill_entry_def split: bind_splits option.splits)
  obtain v where unf: "populate_new_client env ip rcv s = populate_other env ip rcv (s\<lparr>client_valid_list := v\<rparr>)"
    by (rule populate_other_node [OF assms(1,2)]) blast
  show ?thesis
    using known_entry [OF assms(1), of ip] free_entry [OF assms(1)] assms(4) none
    by (auto simp: unf populate_other_def split: bind_splits)
qed

theorem announcement_round_trip_witness:
  "\<exists>t data. client_thread_round sample_client_env sample_clients = Some t \<and>
    outputs t = [Udp (broadcast_address [10, 10, 100, 254]) data] \<and>
    report_info (lit ''10.10.100.7'') (received_msg data) C_eCos_ver = lit ''9.99''"
proof -
  have v: "versions_plain sample_client_env sample_clients"
    by (simp add: versions_plain_def sample_client_env_def sample_clients_def c_str_replicate)
  have c: "length (cli_recv sample_clients) = 128" "ipAddress sample_clients ! 0 \<noteq> 0"
    "outputs sample_clients = []" "ipAddress sample_clients = [10, 10, 100, 254]"
    by (simp_all add: sample_clients_def)
  have ip: "packed_fits csize C_ip_addr (lit ''10.10.100.7'')" by (simp add: packed_fits_def)
  from announcement_round_trip [OF sample_announcer v c(1,2) ip] obtain t data where
    t: "client_thread_round sample_client_env sample_clients = Some t"
    "outputs t = outputs sample_clients @ [Udp (broadcast_address (ipAddress sample_clients)) data]"
    "report_info (lit ''10.10.100.7'') (received_msg data) =
      (announced sample_client_env sample_clients)(C_ip_addr := lit ''10.10.100.7'')" by blast
  have "report_info (lit ''10.10.100.7'') (received_msg data) C_eCos_ver = lit ''9.99''"
    unfolding t(3) by (simp add: announced_simps sample_client_env_def)
  then show ?thesis using t(1,2) c(3,4) by (intro exI [of _ t] exI [of _ data]) simp
qed

theorem unreadable_announcement_witness:
  "\<exists>s :: bytes client_state. client_view s = (\<lambda>_. None) \<and>
     populate_new_client sample_client_env (lit ''10.10.100.7'') (received_msg (replicate 20 65 @ lit ''%n'')) s = None"
proof -
  obtain s :: "bytes client_state" where s: "table_inv sample_client_env (lit ''10.10.100.254'') s"
    "client_view s = (\<lambda>_. None)" by (rule sample_started) blast
  have ne: "lit ''10.10.100.7'' \<noteq> lit ''10.10.100.254''" by (simp add: lit_eq_iff del: lit_simps)
  have cap: "lit ''10.10.100.7'' \<in> dom (client_view s) \<or> card (dom (client_view s)) < 23" using s(2) by simp
  have c: "is_cstr (lit ''10.10.100.7'')" "(C_universe, 20) \<in> set msg_members" by (simp_all add: msg_members_def)
  have "report_value (received_msg (replicate 20 65 @ lit ''%n'')) (C_universe, 20) = None"
    by (simp add: report_value_def received_msg_def terminate_msg_def poke_def MAX_MSG_def str_at_def
        list_update_append drop_update_swap replicate_update c_str_replicate)
  then show ?thesis using unreadable_announcement [OF s(1) ne c(1) cap c(2)] s(2) by blast
qed

end
