(* ===== verification/MainLoop.thy ===== *)
theory MainLoop
  imports ClientTable
begin

text \<open>
  The thread \<open>UserMain\<close> of \<^verbatim>\<open>src/user/UserMain.c\<close>: it starts the other threads, finds out in which
  mode the module works, and then sends the settings to the SAMD every five seconds: the channels the
  radio of the lamps must leave to the WiFi, whether there is an IP address, and the colour and
  gaffer settings. On its way it reads the address of the node, which everything else depends on.

  What the module answers to an AT command is an argument: the return code of \<open>hfat_send_cmd\<close> and
  the bytes it wrote, of which at most the size of the buffer arrive. A round has three stages:
  \<open>select_channel\<close>, \<open>send_timo\<close> with the frame for the radio of the lamps (whose channels are computed
  by \<open>blocked_channels\<close>), and \<open>send_settings\<close> with the address, the colours and the battery. The second
  stage always overruns its one-byte buffer for the power, so what holds of the stages is stated of
  each of them.
\<close>

type_synonym at_answer = "int \<times> bytes"

record 'fl main_env = "'fl client_env" +
  CFG_get_str :: "int \<Rightarrow> bytes"

record 'fl main_state = "'fl client_state" +
  at_rsp :: bytes
  at_scan_rsp :: bytes
  ap_wln_channel :: byte
  get_ap_wln_channel :: int
  at_sent :: "bytes list"

definition HF_SUCCESS :: int where "HF_SUCCESS = 0"

definition sizeof_at_rsp :: nat where "sizeof_at_rsp = 96"
definition sizeof_at_scan_rsp :: nat where "sizeof_at_scan_rsp = 1024"

definition crlf :: "string \<Rightarrow> bytes" where
  "crlf s = lit s @ [13, 10]"

definition SSID_STR :: bytes where "SSID_STR = lit ''Ratpac AKS''"

section \<open>Helpers\<close>

definition hexarr :: bytes where "hexarr = lit ''0123456789ABCDEF''"

text \<open>The loop over \<open>hexarr\<close> ends with 16 for a character that is no upper-case digit.\<close>

definition hex_index :: "byte \<Rightarrow> nat" where
  "hex_index c = (case strchr c hexarr of Some i \<Rightarrow> i | None \<Rightarrow> 16)"

definition HexCharToInt :: "byte \<Rightarrow> byte \<Rightarrow> int" where
  "HexCharToInt c d = (push_bit 4 (int (hex_index c)) OR int (hex_index d)) AND 0xff"

text \<open>\<open>strtok\<close> from position \<open>pos\<close>: the start of the token (\<open>None\<close> when there is none), where the next
  call goes on, and the buffer, in which the delimiter behind the token has become a terminator.\<close>

definition strtok_from :: "bytes \<Rightarrow> nat \<Rightarrow> bytes \<Rightarrow> (nat option \<times> nat \<times> bytes) option" where
  "strtok_from delims pos buf = do {
     t \<leftarrow> str_at buf pos;
     let start = pos + length (takeWhile (\<lambda>b. b \<in> set delims) t);
     let stop = start + length (takeWhile (\<lambda>b. b \<notin> set delims) (drop (start - pos) t));
     Some (if start = pos + length t then (None, start, buf)
           else if stop = pos + length t then (Some start, stop, buf)
           else (Some start, stop + 1, buf[stop := 0])) }"

text \<open>\<open>(char) atoi (token)\<close>; \<open>atoi (NULL)\<close> is undefined.\<close>

definition char_atoi :: "bytes \<Rightarrow> byte" where
  "char_atoi s = word_of_int (atoi s)"

definition token_value :: "nat option \<Rightarrow> bytes \<Rightarrow> byte option" where
  "token_value tok buf = do {
     i \<leftarrow> tok;
     s \<leftarrow> str_at buf i;
     Some (char_atoi s) }"

primrec tokens_values :: "nat \<Rightarrow> bytes \<Rightarrow> nat \<Rightarrow> bytes \<Rightarrow> (bytes \<times> bytes) option" where
  "tokens_values 0 delims pos buf = Some ([], buf)"
| "tokens_values (Suc n) delims pos buf = do {
     (tok, pos, buf) \<leftarrow> strtok_from delims pos buf;
     v \<leftarrow> token_value tok buf;
     (vs, buf) \<leftarrow> tokens_values n delims pos buf;
     Some (v # vs, buf) }"

definition hfat_send_cmd :: "bytes \<Rightarrow> at_answer \<Rightarrow> ('fl, 'z) main_state_scheme \<Rightarrow> int \<times> ('fl, 'z) main_state_scheme" where
  "hfat_send_cmd cmd a s = (fst a, s\<lparr>at_sent := at_sent s @ [cmd],
     at_rsp := poke 0 (take sizeof_at_rsp (snd a)) (at_rsp s)\<rparr>)"

section \<open>Start\<close>

text \<open>What the module and the operating system answer while the thread starts. \<open>wifi_active\<close> lists the
  results of \<open>hfnet_wifi_is_active\<close>, which is asked until it is true.\<close>

record boot_input =
  gpio_map_check :: int
  wifi_active :: "bool list"
  fvew_answer :: at_answer
  wmode_answer :: at_answer
  uart_answer :: at_answer
  set_uart_answer :: at_answer
  client_thread_ret :: int
  server_thread_ret :: int

datatype boot_end = Waiting | Main_loop

text \<open>An AT command whose answer is cut at index \<open>n\<close>, or emptied when the command failed.\<close>

definition at_query :: "string \<Rightarrow> nat \<Rightarrow> at_answer \<Rightarrow> ('fl, 'z) main_state_scheme \<Rightarrow>
    (bytes \<times> ('fl, 'z) main_state_scheme) option" where
  "at_query cmd n a s = do {
     let (ret, s) = hfat_send_cmd (crlf cmd) a s;
     let s = s\<lparr>at_rsp := (at_rsp s)[(if ret \<noteq> HF_SUCCESS then 0 else n) := 0]\<rparr>;
     t \<leftarrow> c_str (at_rsp s);
     Some (t, s) }"

definition detect_mode :: "boot_input \<Rightarrow> ('fl, 'z) main_state_scheme \<Rightarrow> ('fl, 'z) main_state_scheme option" where
  "detect_mode b s = do {
     (t, s) \<leftarrow> at_query ''AT+FVEW'' 13 (fvew_answer b) s;
     if has_sub t (lit ''+ok=Enable'') then Some (s\<lparr>operation_mode := STA_ETH_MODE\<rparr>)
     else do {
       (t, s) \<leftarrow> at_query ''AT+WMODE'' 8 (wmode_answer b) s;
       if has_sub t (lit ''+ok=STA'') then Some (s\<lparr>operation_mode := STA_WIFI_MODE\<rparr>)
       else Some (s\<lparr>operation_mode := AP_MODE\<rparr>) } }"

text \<open>The UART must run at 230400 baud; after setting the speed the thread waits for a reset.\<close>

definition check_uart :: "boot_input \<Rightarrow> ('fl, 'z) main_state_scheme \<Rightarrow> (boot_end \<times> ('fl, 'z) main_state_scheme) option" where
  "check_uart b s = do {
     (t, s) \<leftarrow> at_query ''AT+UART'' 13 (uart_answer b) s;
     if fst (uart_answer b) \<noteq> HF_SUCCESS then Some (Waiting, s)
     else if \<not> has_sub t (lit ''+ok=230400'')
     then Some (Waiting, snd (hfat_send_cmd (crlf ''AT+UART=230400,8,1,NONE'') (set_uart_answer b) s))
     else if client_thread_ret b \<noteq> HF_SUCCESS then Some (Waiting, s)
     else if server_thread_ret b \<noteq> HF_SUCCESS then Some (Waiting, s)
     else Some (Main_loop, s) }"

definition Joo_uart_send :: "bytes \<Rightarrow> ('fl, 'z) node_state_scheme \<Rightarrow> ('fl, 'z) node_state_scheme" where
  "Joo_uart_send data s = s\<lparr>outputs := outputs s @ [Uart data]\<rparr>"

definition boot :: "('fl, 'e) main_env_scheme \<Rightarrow> boot_input \<Rightarrow> ('fl, 'z) main_state_scheme \<Rightarrow>
    (boot_end \<times> ('fl, 'z) main_state_scheme) option" where
  "boot env b s =
    (if gpio_map_check b \<noteq> 0 \<or> True \<notin> set (wifi_active b) then Some (Waiting, s)
     else do {
       s \<leftarrow> web_flash_data_init env (BUILD_IMG env) 0 s;
       s \<leftarrow> detect_mode b (Joo_uart_send (lit ''__system_reboot'') s);
       check_uart b s })"

section \<open>The radio channel of the WiFi\<close>

text \<open>\<open>scan\<close> is the answer to \<open>AT+WSCAN\<close>, asked once after an address was obtained; the character two
  places before the name of the network is taken for its channel.\<close>

definition station_channel :: "at_answer \<Rightarrow> ('fl, 'z) main_state_scheme \<Rightarrow> (byte \<times> ('fl, 'z) main_state_scheme) option" where
  "station_channel scan s =
    (if ipAddress s ! 0 = 0 then Some (0, s\<lparr>ap_wln_channel := 0, get_ap_wln_channel := 0\<rparr>)
     else if get_ap_wln_channel s \<noteq> 0 then Some (ap_wln_channel s, s)
     else
       let buf = poke 0 (take sizeof_at_scan_rsp (snd scan)) (at_scan_rsp s);
           s = s\<lparr>at_sent := at_sent s @ [crlf ''AT+WSCAN''], at_scan_rsp := buf\<rparr>
       in if fst scan \<noteq> HF_SUCCESS then Some (ap_wln_channel s, s)
       else do {
         let s = s\<lparr>at_scan_rsp := buf[512 := 0]\<rparr>;
         t \<leftarrow> c_str (at_scan_rsp s);
         (case strstr t SSID_STR of
            None \<Rightarrow> Some (ap_wln_channel s, s)
          | Some i \<Rightarrow>
              if i < 2 then None
              else let c = t ! (i - 2) - 48
                   in Some (c, s\<lparr>ap_wln_channel := c, get_ap_wln_channel := 1\<rparr>)) })"

definition select_channel :: "('fl, 'e) main_env_scheme \<Rightarrow> at_answer \<Rightarrow> ('fl, 'z) main_state_scheme \<Rightarrow>
    (byte \<times> ('fl, 'z) main_state_scheme) option" where
  "select_channel env scan s =
    (if AP_MODE = operation_mode s then do {
       channel \<leftarrow> put_str 0 (CFG_get_str env (CFG_str2id env (lit ''WLN_Channel''))) (replicate 4 0);
       v \<leftarrow> c_str channel;
       let c = char_atoi v;
       Some (if schar c < 1 \<or> schar c > 11 then 1 else c, s) }
     else if STA_WIFI_MODE = operation_mode s then station_channel scan s
     else Some (1, s))"

section \<open>The channels the lamps leave free\<close>

definition actualChannel :: "int list" where
  "actualChannel = [12, 17, 22, 27, 32, 37, 42, 47, 52, 57, 62]"

text \<open>The two nested loops: \<open>mark_bit\<close> is the body of the inner one, \<open>mark_row\<close> of the outer one; the
  first component of the state is \<open>channelTotal\<close>.\<close>

definition mark_bit :: "int \<Rightarrow> int \<Rightarrow> int \<times> byte \<Rightarrow> nat \<Rightarrow> int \<times> byte" where
  "mark_bit centre width = (\<lambda>(k, b) y. (k + 1,
     if \<not> (k < centre - width \<or> k > centre + width) then b OR push_bit y 1 else b))"

definition mark_row :: "int \<Rightarrow> int \<Rightarrow> int \<times> bytes \<Rightarrow> nat \<Rightarrow> int \<times> bytes" where
  "mark_row centre width = (\<lambda>(k, bl) x.
     let (k, b) = foldl (mark_bit centre width) (k, bl ! x) [0..<8] in (k, bl[x := b]))"

definition mark_channels :: "byte \<Rightarrow> byte \<Rightarrow> bytes \<Rightarrow> bytes" where
  "mark_channels channel width blocked =
    (if schar channel > 0 \<and> schar channel < 12
     then snd (foldl (mark_row (actualChannel ! nat (schar channel - 1)) (schar width)) (0, blocked) [0..<11])
     else blocked)"

section \<open>The frames\<close>

definition art_net_frame :: "bytes \<Rightarrow> bytes" where
  "art_net_frame body = lit ''Art-Net'' @ [0, 0, 50, 0, 0] @ body"

definition timo_DMX_Window :: bytes where "timo_DMX_Window = [0, 0, 2, 0]"
definition timo_DMX_Spec :: bytes where "timo_DMX_Spec = [0, 2, 0, 0, 0, 0, 0x61, 0xa8]"
definition Battery :: bytes where "Battery = [0x34, 0x1b, 0x60, 0x11, 0xb2, 0x9a, 0x03, 0x4b]"

definition timo_frame :: "byte \<Rightarrow> bytes \<Rightarrow> bytes" where
  "timo_frame timo blocked = art_net_frame
     ([0, 0x82, 0] @ timo_DMX_Window @ timo_DMX_Spec @ [1, timo] @ blocked @ Battery)"

definition number_setting :: "('fl, 'e) main_env_scheme \<Rightarrow> bytes \<Rightarrow> ('fl, 'z) main_state_scheme \<Rightarrow> byte option" where
  "number_setting env name s = map_option char_atoi (cfg_buf env 4 name s)"

definition blocked_channels :: "('fl, 'e) main_env_scheme \<Rightarrow> byte \<Rightarrow> ('fl, 'z) main_state_scheme \<Rightarrow> bytes option" where
  "blocked_channels env channel s = do {
     width \<leftarrow> number_setting env (lit ''AKS_CHANNEL_WIDTH'') s;
     channelTwo \<leftarrow> number_setting env (lit ''AKS_SECOND_CHANNEL'') s;
     Some (mark_channels channelTwo width (mark_channels channel width (replicate 11 0))) }"

text \<open>\<open>char TimoPower[1]\<close>\<close>

definition send_timo :: "('fl, 'e) main_env_scheme \<Rightarrow> byte \<Rightarrow> ('fl, 'z) main_state_scheme \<Rightarrow>
    ('fl, 'z) main_state_scheme option" where
  "send_timo env channel s = do {
     blocked \<leftarrow> blocked_channels env channel s;
     TimoPower \<leftarrow> cfg_buf env 1 (lit ''TIMO_POWER'') s;
     Some (s\<lparr>outputs := outputs s @ [Uart (timo_frame (TimoPower ! 0 - 48) blocked)]\<rparr>) }"

section \<open>The address of the node\<close>

definition no_address :: bytes where "no_address = [0, 0, 0, 0]"

definition read_address :: "at_answer \<Rightarrow> ('fl, 'z) main_state_scheme \<Rightarrow> ('fl, 'z) main_state_scheme option" where
  "read_address ann s = do {
     let (rc, s) = hfat_send_cmd (crlf (if AP_MODE = operation_mode s then ''AT+LANN'' else ''AT+WANN'')) ann s;
     let s = s\<lparr>at_rsp := (at_rsp s)[24 := 0]\<rparr>;
     if rc \<noteq> HF_SUCCESS then Some (s\<lparr>ipAddress := no_address\<rparr>)
     else do {
       t \<leftarrow> c_str (at_rsp s);
       if has_sub t (lit ''+ERR'') then Some (s\<lparr>ipAddress := no_address\<rparr>)
       else do {
         (ip, buf) \<leftarrow> tokens_values 4 (lit ''.,'') (if is_digit (at_rsp s ! 4) then 4 else 9) (at_rsp s);
         Some (s\<lparr>ipAddress := ip, at_rsp := buf\<rparr>) } } }"

text \<open>The frames with the address code and with the gaffer, colour and XLR settings, which are read
  from the record directly.\<close>

definition address_frame :: "bytes \<Rightarrow> bytes" where
  "address_frame ip = art_net_frame [1, if 0 \<noteq> ip ! 0 then 1 else 0]"

definition member_number :: "wfield \<Rightarrow> bytes \<Rightarrow> int option" where
  "member_number f cfg = map_option atoi (str_at cfg (foff f))"

definition int_bytes :: "int \<Rightarrow> bytes" where
  "int_bytes i = [word_of_int (i AND 0xff), word_of_int (drop_bit 8 i AND 0xff)]"

definition rgb_bytes :: "bytes \<Rightarrow> bytes" where
  "rgb_bytes cfg = map (\<lambda>k. word_of_int
     (HexCharToInt (cfg ! (foff W_led_color + 2 * k)) (cfg ! (foff W_led_color + 2 * k + 1)))) [0..<3]"

definition colour_frame :: "bytes \<Rightarrow> bytes option" where
  "colour_frame cfg = do {
     gaf_enb \<leftarrow> member_number W_gaffer_enb cfg;
     lower \<leftarrow> member_number W_gaffer_lower cfg;
     upper \<leftarrow> member_number W_gaffer_upper cfg;
     Some (art_net_frame ([6, word_of_int gaf_enb] @ int_bytes lower @ int_bytes upper @ rgb_bytes cfg @
       [cfg ! foff W_use_xlr - 48, cfg ! foff W_main_xlr - 48])) }"

section \<open>One round of the loop\<close>

definition send_settings :: "at_answer \<Rightarrow> ('fl, 'z) main_state_scheme \<Rightarrow> ('fl, 'z) main_state_scheme option" where
  "send_settings ann s = do {
     s \<leftarrow> read_address ann s;
     let s = Joo_uart_send (address_frame (ipAddress s)) s;
     f \<leftarrow> colour_frame (g_web_config s);
     let s = Joo_uart_send f s;
     if artnet_enable s = 1 then map_option snd (Send_Battery_Command s) else Some s }"

definition main_round :: "('fl, 'e) main_env_scheme \<Rightarrow> at_answer \<Rightarrow> at_answer \<Rightarrow>
    ('fl, 'z) main_state_scheme \<Rightarrow> ('fl, 'z) main_state_scheme option" where
  "main_round env scan ann s =
    (if artnet_enable s = 0 then Some s
     else do {
       (channel, s) \<leftarrow> select_channel env scan s;
       s \<leftarrow> send_timo env channel s;
       send_settings ann s })"

end
