(* ===== verification/MainLoopFacts.thy ===== *)
theory MainLoopFacts
  imports MainLoop
begin

text \<open>
  What the thread of \<^theory_text>\<open>MainLoop\<close> achieves: the channels it blocks, the address and the channel it
  reads out of the module's answers, the frames with the settings it sends for every sequence of
  answers, the mode it starts in, and that the one-byte buffer for the power is overrun in every
  enabled round.
\<close>

section \<open>Blocked channels\<close>

text \<open>\<open>busy c w k\<close>: the lamps must not use channel \<open>k\<close> because of the WiFi channel \<open>c\<close>.\<close>

definition busy :: "byte \<Rightarrow> byte \<Rightarrow> int \<Rightarrow> bool" where
  "busy c w k \<longleftrightarrow> 0 < schar c \<and> schar c < 12 \<and> \<bar>k - (12 + 5 * (schar c - 1))\<bar> \<le> schar w"

lemma mark_bits:
  assumes "n \<le> 8" and "foldl (mark_bit centre width) (k, b) [0..<n] = (k', b')"
  shows "k' = k + int n \<and> (\<forall>y. bit b' y \<longleftrightarrow> bit b y \<or> (y < n \<and> \<bar>k + int y - centre\<bar> \<le> width))"
  using assms
proof (induction n arbitrary: k' b')
  case (Suc n)
  obtain t v where tv: "foldl (mark_bit centre width) (k, b) [0..<n] = (t, v)" by fastforce
  have IH: "t = k + int n" "\<And>y. bit v y \<longleftrightarrow> bit b y \<or> (y < n \<and> \<bar>k + int y - centre\<bar> \<le> width)"
    using Suc.IH [OF _ tv] Suc.prems(1) by simp_all
  have push: "bit (2 ^ n :: byte) y \<longleftrightarrow> y = n" for y using Suc.prems(1) by (auto simp: bit_simps)
  have kb: "k' = t + 1" "b' = (if \<not> (t < centre - width \<or> t > centre + width) then v OR push_bit n 1 else v)"
    using Suc.prems(2) unfolding upt_Suc_append [OF le0] foldl_append tv by (simp_all add: mark_bit_def)
  have "bit b' y \<longleftrightarrow> bit b y \<or> (y < Suc n \<and> \<bar>k + int y - centre\<bar> \<le> width)" for y
    unfolding kb(2) by (cases "y = n") (auto simp: bit_or_iff IH push)
  then show ?case using kb(1) IH(1) by simp
qed simp

lemma mark_rows:
  assumes "n \<le> length bl" and "foldl (mark_row centre width) (0, bl) [0..<n] = (k', bl')"
  shows "k' = int (8 * n) \<and> length bl' = length bl \<and>
    (\<forall>x<length bl. \<forall>y<8. bit (bl' ! x) y \<longleftrightarrow> bit (bl ! x) y \<or> (x < n \<and> \<bar>int (8 * x + y) - centre\<bar> \<le> width))"
  using assms
proof (induction n arbitrary: k' bl')
  case (Suc n)
  obtain t v where tv: "foldl (mark_row centre width) (0, bl) [0..<n] = (t, v)" by fastforce
  have IH: "t = int (8 * n)" "length v = length bl"
    "\<And>x y. x < length bl \<Longrightarrow> y < 8 \<Longrightarrow> bit (v ! x) y \<longleftrightarrow> bit (bl ! x) y \<or> (x < n \<and> \<bar>int (8 * x + y) - centre\<bar> \<le> width)"
    using Suc.IH [OF _ tv] Suc.prems(1) by simp_all
  obtain t' b where row: "foldl (mark_bit centre width) (t, v ! n) [0..<8] = (t', b)" by fastforce
  note bits = mark_bits [OF order_refl row]
  have kb: "k' = t'" "bl' = v[n := b]"
    using Suc.prems(2) unfolding upt_Suc_append [OF le0] foldl_append tv by (simp_all add: mark_row_def row)
  have "bit (bl' ! x) y \<longleftrightarrow> bit (bl ! x) y \<or> (x < Suc n \<and> \<bar>int (8 * x + y) - centre\<bar> \<le> width)"
    if "x < length bl" "y < 8" for x y
    using that IH(2) IH(3) [OF that] bits IH(1) Suc.prems(1) by (cases "x = n") (auto simp: kb nth_list_update)
  then show ?case using bits IH(1,2) by (simp add: kb)
qed simp

lemma actual_channel:
  assumes "0 < c" and "c < 12"
  shows "actualChannel ! nat (c - 1) = 12 + 5 * (c - 1)"
proof -
  have "c = 1 \<or> c = 2 \<or> c = 3 \<or> c = 4 \<or> c = 5 \<or> c = 6 \<or> c = 7 \<or> c = 8 \<or> c = 9 \<or> c = 10 \<or> c = 11"
    using assms by presburger
  then show ?thesis by (elim disjE) (simp_all add: actualChannel_def)
qed

lemma mark_channels_bits:
  assumes "length bl = 11"
  shows "length (mark_channels c w bl) = 11"
    and "x < 11 \<Longrightarrow> y < 8 \<Longrightarrow> bit (mark_channels c w bl ! x) y \<longleftrightarrow> bit (bl ! x) y \<or> busy c w (int (8 * x + y))"
proof -
  let ?a = "actualChannel ! nat (schar c - 1)"
  obtain k' bl' where r: "foldl (mark_row ?a (schar w)) (0, bl) [0..<11] = (k', bl')" by fastforce
  have "11 \<le> length bl" using assms by simp
  note rows = mark_rows [OF this r, unfolded assms]
  show "length (mark_channels c w bl) = 11" using rows assms by (simp add: mark_channels_def r)
  show "bit (mark_channels c w bl ! x) y \<longleftrightarrow> bit (bl ! x) y \<or> busy c w (int (8 * x + y))" if "x < 11" "y < 8"
    
  proof (cases "schar c > 0 \<and> schar c < 12")
    case True
    then have "mark_channels c w bl = bl'" using r by (simp add: mark_channels_def)
    moreover have "?a = 12 + 5 * (schar c - 1)" using True by (simp add: actual_channel)
    ultimately show ?thesis using rows that True by (simp add: busy_def)
  qed (auto simp: mark_channels_def busy_def)
qed

section \<open>Settings the loop reads\<close>

lemma loop_names:
  assumes "str2id_ok env"
  shows "CFG_str2id env (lit ''AKS_CHANNEL_WIDTH'') = CFG_AKS_CHANNEL_WIDTH"
    "CFG_str2id env (lit ''AKS_SECOND_CHANNEL'') = CFG_AKS_SECOND_CHANNEL"
    "CFG_str2id env (lit ''TIMO_POWER'') = CFG_TIMO_POWER"
  using assms by (simp_all add: str2id_ok_def cfg_userid_str_table_def del: lit_simps)

lemma loop_switches:
  "get_switch CFG_AKS_CHANNEL_WIDTH = Some (W_channelWidth, None)"
  "get_switch CFG_AKS_SECOND_CHANNEL = Some (W_secondChannel, None)"
  "get_switch CFG_TIMO_POWER = Some (W_timopower, None)"
  by (simp_all add: get_switch_def get_cases_def cfg_ids)

lemma loop_setting:
  assumes "web_ok (g_web_config s)" and "get_switch (CFG_str2id env name) = Some (f, b)"
    and "f \<in> set str_fields" and "1 < fsize f" and "fsize f \<le> n"
  shows "cfg_buf env n name s = Some (get_setting (CFG_str2id env name) (g_web_config s))"
    and "get_setting (CFG_str2id env name) (g_web_config s) \<noteq> []"
proof -
  obtain v where "ratpac_get_str (CFG_str2id env name) (g_web_config s) (client_valid_num s) = Some (0, v)"
    "length v < fsize f" "v \<noteq> []" "v = get_setting (CFG_str2id env name) (g_web_config s)"
    by (rule get_value [OF assms(1-4)]) blast
  then show "cfg_buf env n name s = Some (get_setting (CFG_str2id env name) (g_web_config s))"
    "get_setting (CFG_str2id env name) (g_web_config s) \<noteq> []" using assms(5) by (simp_all add: cfg_buf_def)
qed

definition number_of :: "int \<Rightarrow> bytes \<Rightarrow> byte" where
  "number_of cid cfg = char_atoi (get_setting cid cfg)"

lemma blocked_channels_step:
  assumes "web_ok (g_web_config s)" and "str2id_ok env"
  defines "width \<equiv> number_of CFG_AKS_CHANNEL_WIDTH (g_web_config s)"
  shows "blocked_channels env channel s = Some (mark_channels (number_of CFG_AKS_SECOND_CHANNEL (g_web_config s)) width
    (mark_channels channel width (replicate 11 0)))"
proof -
  note ids = loop_names [OF assms(2)]
  have member: "W_channelWidth \<in> set str_fields" "W_secondChannel \<in> set str_fields"
    by (simp_all add: set_str_fields)
  have "cfg_buf env 4 (lit ''AKS_CHANNEL_WIDTH'') s = Some (get_setting CFG_AKS_CHANNEL_WIDTH (g_web_config s))"
    using loop_setting(1) [OF assms(1), of env "lit ''AKS_CHANNEL_WIDTH''"] loop_switches member ids by simp
  moreover have "cfg_buf env 4 (lit ''AKS_SECOND_CHANNEL'') s = Some (get_setting CFG_AKS_SECOND_CHANNEL (g_web_config s))"
    using loop_setting(1) [OF assms(1), of env "lit ''AKS_SECOND_CHANNEL''"] loop_switches member ids by simp
  ultimately show ?thesis
    unfolding blocked_channels_def number_setting_def by (simp add: width_def number_of_def Let_def del: lit_simps)
qed

lemma length_timo: "length blocked = 11 \<Longrightarrow> length (timo_frame p blocked) = 48"
  by (simp add: timo_frame_def art_net_frame_def timo_DMX_Window_def timo_DMX_Spec_def Battery_def)

lemma nth_timo: "length blocked = 11 \<Longrightarrow> x < 11 \<Longrightarrow> timo_frame p blocked ! (29 + x) = blocked ! x"
  by (simp add: timo_frame_def art_net_frame_def timo_DMX_Window_def timo_DMX_Spec_def nth_append)

text \<open>
  C23. The frame that is built for the radio of the lamps names exactly the radio channels that the given
  WiFi channel or the second channel of the settings occupies: those within the configured width of the
  centre of one of the two. The power is another byte of the frame and does not matter.
\<close>

theorem lamps_avoid_wifi:
  assumes "web_ok (g_web_config s)" and "str2id_ok env"
  shows "\<exists>blocked. blocked_channels env channel s = Some blocked \<and>
    (\<forall>power. length (timo_frame power blocked) = 48 \<and> take 7 (timo_frame power blocked) = lit ''Art-Net'' \<and>
      (\<forall>k<88. bit (timo_frame power blocked ! (29 + k div 8)) (k mod 8) \<longleftrightarrow>
         busy channel (number_of CFG_AKS_CHANNEL_WIDTH (g_web_config s)) (int k) \<or>
         busy (number_of CFG_AKS_SECOND_CHANNEL (g_web_config s))
           (number_of CFG_AKS_CHANNEL_WIDTH (g_web_config s)) (int k)))"
proof -
  let ?w = "number_of CFG_AKS_CHANNEL_WIDTH (g_web_config s)"
  let ?two = "number_of CFG_AKS_SECOND_CHANNEL (g_web_config s)"
  let ?one = "mark_channels channel ?w (replicate 11 0)"
  let ?b = "mark_channels ?two ?w ?one"
  have len: "length ?one = 11" "length ?b = 11" by (simp_all add: mark_channels_bits(1))
  have "bit (timo_frame power ?b ! (29 + k div 8)) (k mod 8) \<longleftrightarrow>
      busy channel ?w (int k) \<or> busy ?two ?w (int k)" if "k < 88" for k power
  proof -
    have x: "k div 8 < 11" "k mod 8 < 8" "8 * (k div 8) + k mod 8 = k" using that by auto
    have "bit (?b ! (k div 8)) (k mod 8) \<longleftrightarrow> busy channel ?w (int k) \<or> busy ?two ?w (int k)"
      using mark_channels_bits(2) [OF len(1) x(1,2), of ?two ?w]
        mark_channels_bits(2) [of "replicate 11 0", OF _ x(1,2), of channel ?w] x(1) unfolding x(3) by auto
    then show ?thesis unfolding nth_timo [OF len(2) x(1)] .
  qed
  moreover have "take 7 (timo_frame power ?b) = lit ''Art-Net''" for power
    by (simp add: timo_frame_def art_net_frame_def)
  ultimately show ?thesis using blocked_channels_step [OF assms, of channel] length_timo [OF len(2)]
    by (intro exI [of _ ?b] conjI allI impI) simp_all
qed

section \<open>Reading the address\<close>

fun dotted :: "bytes list \<Rightarrow> bytes" where
  "dotted [] = []"
| "dotted [t] = t"
| "dotted (t # ts) = t @ 46 # dotted ts"

definition dotted_quad :: "nat list \<Rightarrow> bytes" where
  "dotted_quad ns = dotted (map dec_nat ns)"

lemma drop_update_in: "drop pos (buf[pos + n := x]) = (drop pos buf)[n := x]"
  by (cases "pos \<le> length buf") (simp_all add: drop_update_swap list_update_beyond)

lemma str_at_iff: "str_at buf pos = Some s \<longleftrightarrow> is_cstr s \<and> (\<exists>r. drop pos buf = s @ 0 # r)"
  by (simp add: str_at_def c_str_Some_iff)

lemma strtok_step:
  assumes "str_at buf pos = Some (tok @ d # rest)" and "tok \<noteq> []" and "set tok \<inter> set delims = {}" and "d \<in> set delims"
  defines "buf' \<equiv> buf[pos + length tok := 0]"
  shows "strtok_from delims pos buf = Some (Some pos, pos + length tok + 1, buf')"
    and "str_at buf' pos = Some tok" and "str_at buf' (pos + length tok + 1) = Some rest"
proof -
  have none: "takeWhile (\<lambda>b. b \<in> set delims) (tok @ d # rest) = []" using assms(2,3) by (cases tok) auto
  have all: "takeWhile (\<lambda>b. b \<notin> set delims) (tok @ d # rest) = tok"
    using assms(3,4) by (simp add: takeWhile_append2 disjoint_iff)
  show "strtok_from delims pos buf = Some (Some pos, pos + length tok + 1, buf')"
    unfolding strtok_from_def assms(1) using none all by (simp add: Let_def buf'_def)
  obtain r where r: "is_cstr (tok @ d # rest)" "drop pos buf = (tok @ d # rest) @ 0 # r"
    using assms(1) by (auto simp: str_at_iff)
  have d: "drop pos buf' = tok @ 0 # rest @ 0 # r" by (simp add: buf'_def drop_update_in r(2))
  show "str_at buf' pos = Some tok" unfolding str_at_iff d using r(1) by auto
  have "drop (pos + length tok + 1) buf' = drop (length tok + 1) (drop pos buf')" by (simp add: add.commute add.left_commute)
  also have "\<dots> = rest @ 0 # r" unfolding d by simp
  finally show "str_at buf' (pos + length tok + 1) = Some rest" unfolding str_at_iff using r(1) by auto
qed

lemma strtok_last:
  assumes "str_at buf pos = Some tok" and "tok \<noteq> []" and "set tok \<inter> set delims = {}"
  shows "strtok_from delims pos buf = Some (Some pos, pos + length tok, buf)"
proof -
  have "takeWhile (\<lambda>b. b \<in> set delims) tok = []" using assms(2,3) by (cases tok) auto
  moreover have "length (takeWhile (\<lambda>b. b \<notin> set delims) tok) = length tok"
    using assms(3) by (intro arg_cong [of _ _ length]) (auto simp: takeWhile_eq_all_conv)
  ultimately show ?thesis unfolding strtok_from_def assms(1) using assms(2) by simp
qed

lemma tokens_of_text:
  assumes "str_at buf pos = Some (dotted ts @ tail)" and "ts \<noteq> []"
    and "\<forall>t\<in>set ts. t \<noteq> [] \<and> set t \<inter> set delims = {}" and "46 \<in> set delims" and "tail = [] \<or> hd tail \<in> set delims"
  shows "\<exists>buf'. tokens_values (length ts) delims pos buf = Some (map char_atoi ts, buf')"
  using assms(1-3)
proof (induction ts arbitrary: pos buf rule: dotted.induct)
  case (2 t)
  show ?case
  proof (cases tail)
    case Nil
    then have s: "str_at buf pos = Some t" using "2.prems"(1) by simp
    then show ?thesis using strtok_last [OF s, of delims] "2.prems"(3) by (simp add: token_value_def)
  next
    case (Cons d rest)
    then have s: "str_at buf pos = Some (t @ d # rest)" "d \<in> set delims" using "2.prems"(1) assms(5) by simp_all
    show ?thesis using strtok_step [OF s(1) _ _ s(2)] "2.prems"(3) by (simp add: token_value_def)
  qed
next
  case (3 t u ts)
  have s: "str_at buf pos = Some (t @ 46 # (dotted (u # ts) @ tail))" using "3.prems"(1) by simp
  note step = strtok_step [OF s _ _ assms(4)]
  have t: "t \<noteq> []" "set t \<inter> set delims = {}" using "3.prems"(3) by simp_all
  have ts: "\<forall>t\<in>set (u # ts). t \<noteq> [] \<and> set t \<inter> set delims = {}" using "3.prems"(3) by simp
  obtain buf' where b: "tokens_values (length (u # ts)) delims (pos + length t + 1) (buf[pos + length t := 0]) =
      Some (map char_atoi (u # ts), buf')"
    using "3.IH" [OF step(3) [OF t] list.distinct(2) ts] by blast
  have len: "length (t # u # ts) = Suc (length (u # ts))" by simp
  show ?case
    unfolding len tokens_values.simps step(1) [OF t] using b step(2) [OF t]
    by (simp add: token_value_def del: tokens_values.simps)
qed simp

lemma dec_nat_no_delim: "set (dec_nat n) \<inter> {44, 46} = {}"
  using dec_nat_digits [of n] by (auto simp: list_all_iff is_digit_def word_le_def)
text \<open>An answer ends at its terminator or where the code puts one.\<close>

lemma reply_buffer:
  assumes "length m = n" and "is_cstr t" and "k < n"
  shows "\<exists>r. (poke 0 (take n (t @ [0])) m)[k := 0] = take k t @ 0 # r"
proof (cases "length t < k")
  case True
  then have "poke 0 (take n (t @ [0])) m = t @ 0 # drop (Suc (length t)) m" using assms(3) by (simp add: poke_def)
  moreover obtain j where "k - length t = Suc j" using True by (cases "k - length t") auto
  ultimately show ?thesis using True by (simp add: list_update_append)
next
  case False
  let ?p = "poke 0 (take n (t @ [0])) m"
  have p: "take k ?p = take k t" "k < length ?p" using False assms(1,3) by (simp_all add: poke_def min_def)
  then have "?p[k := 0] = take k ?p @ 0 # drop (Suc k) ?p" by (simp add: upd_conv_take_nth_drop)
  then show ?thesis using p(1) by auto
qed

lemma strstr_absent: "p = c # q \<Longrightarrow> c \<notin> set s \<Longrightarrow> strstr s p = None"
  by (induction s) (auto simp: is_prefix_def)

lemma no_error_text:
  assumes "43 \<notin> set s" and "b = 43" and "s = [] \<or> hd s \<noteq> 69"
  shows "\<not> has_sub (b # s) (lit ''+ERR'')"
proof -
  have "\<not> is_prefix (lit ''+ERR'') (b # s)" using assms(3) by (cases s) (auto simp: is_prefix_def)
  moreover have "strstr s (lit ''+ERR'') = None" by (rule strstr_absent [OF _ assms(1)]) simp
  ultimately show ?thesis by (simp add: has_sub_def del: lit_simps)
qed

lemma dotted_chars:
  "\<forall>t\<in>set ts. list_all is_digit t \<Longrightarrow> \<forall>b\<in>set (dotted ts). is_digit b \<or> b = 46"
  by (induction ts rule: dotted.induct) (auto simp: list_all_iff)

lemma quad_chars: "\<forall>b\<in>set (dotted_quad ns). is_digit b \<or> b = 46"
  unfolding dotted_quad_def by (rule dotted_chars) (simp add: dec_nat_digits)

definition plain_rest :: "bytes \<Rightarrow> bool" where
  "plain_rest s \<longleftrightarrow> (\<forall>b\<in>set s. is_digit b \<or> b = 44 \<or> b = 46)"

lemma plain_facts: "is_digit b \<or> b = 44 \<or> b = 46 \<Longrightarrow> b \<noteq> 0 \<and> b \<noteq> 43"
  by (auto simp: is_digit_def)

lemma plain_cstr: "plain_rest s \<Longrightarrow> is_cstr s \<and> 43 \<notin> set s"
  using plain_facts by (auto simp: plain_rest_def is_cstr_def)

lemma plain_append [simp]: "plain_rest (s @ t) \<longleftrightarrow> plain_rest s \<and> plain_rest t"
  by (auto simp: plain_rest_def)

lemma plain_quad: "plain_rest (dotted_quad ns)"
  using quad_chars by (auto simp: plain_rest_def)

lemma plain_comma: "plain_rest [44]"
  by (simp add: plain_rest_def)

lemma read_address_step:
  fixes s :: "('fl, 'z) main_state_scheme" and ann :: at_answer
  defines "s0 \<equiv> s\<lparr>at_sent := at_sent s @ [crlf (if AP_MODE = operation_mode s then ''AT+LANN'' else ''AT+WANN'')]\<rparr>"
    and "buf \<equiv> (poke 0 (take 96 (snd ann)) (at_rsp s))[24 := 0]"
  shows "read_address ann s = (if fst ann \<noteq> 0 then Some (s0\<lparr>at_rsp := buf, ipAddress := no_address\<rparr>)
    else do {
      t \<leftarrow> c_str buf;
      if has_sub t (lit ''+ERR'') then Some (s0\<lparr>at_rsp := buf, ipAddress := no_address\<rparr>)
      else do {
        (ip, b) \<leftarrow> tokens_values 4 (lit ''.,'') (if is_digit (buf ! 4) then 4 else 9) buf;
        Some (s0\<lparr>ipAddress := ip, at_rsp := b\<rparr>) } })"
  unfolding read_address_def hfat_send_cmd_def HF_SUCCESS_def sizeof_at_rsp_def Let_def prod.case
  by (simp add: s0_def buf_def del: lit_simps take_append cong: if_cong)

text \<open>Reading an answer from whose text, cut to 24 characters, the tokens have the values \<open>vs\<close>.\<close>

lemma read_address_tokens:
  assumes "length (at_rsp s) = 96" and "is_cstr t" and "\<not> has_sub (take 24 t) (lit ''+ERR'')"
    and "4 < length (take 24 t)" and "pos = (if is_digit (t ! 4) then 4 else 9)" and "pos \<le> length (take 24 t)"
    and "\<And>buf. str_at buf pos = Some (drop pos (take 24 t)) \<Longrightarrow>
      \<exists>buf'. tokens_values 4 (lit ''.,'') pos buf = Some (vs, buf')"
  shows "\<exists>buf sent. read_address (0, t @ [0]) s =
    Some (s\<lparr>at_sent := sent, ipAddress := vs, at_rsp := buf\<rparr>)"
proof -
  define buf where "buf = (poke 0 (take 96 (t @ [0])) (at_rsp s))[24 := 0]"
  obtain r where r: "buf = take 24 t @ 0 # r" using reply_buffer [OF assms(1,2), of 24] by (auto simp: buf_def)
  have c: "c_str buf = Some (take 24 t)" unfolding r using assms(2) by simp
  have four: "buf ! 4 = t ! 4" unfolding r using assms(4) by (simp add: nth_append)
  have "drop pos buf = drop pos (take 24 t) @ 0 # r" unfolding r using assms(6) by simp
  moreover have "is_cstr (drop pos (take 24 t))" using assms(2) by (auto simp: is_cstr_def dest: in_set_dropD in_set_takeD)
  ultimately obtain buf' where b: "tokens_values 4 (lit ''.,'') pos buf = Some (vs, buf')"
    using assms(7) by (auto simp: str_at_iff)
  have "read_address (0, t @ [0]) s = Some (s\<lparr>at_sent := at_sent s @
      [crlf (if AP_MODE = operation_mode s then ''AT+LANN'' else ''AT+WANN'')], ipAddress := vs, at_rsp := buf'\<rparr>)"
    unfolding read_address_step fst_conv snd_conv buf_def [symmetric] c bind.bind_lunit four
    using b assms(3,5) by (simp del: lit_simps)
  then show ?thesis by blast
qed

lemma char_atoi_dec: "n < 256 \<Longrightarrow> char_atoi (dec_nat n) = word_of_nat n"
  by (simp add: char_atoi_def atoi_dec_nat)

lemma quad_length: "list_all (\<lambda>n. n < 256) ns \<Longrightarrow> length ns = 4 \<Longrightarrow> length (dotted_quad ns) \<le> 15 \<and> 7 \<le> length (dotted_quad ns)"
proof -
  assume ns: "list_all (\<lambda>n. n < 256) ns" "length ns = 4"
  then obtain a b c d where abcd: "ns = [a, b, c, d]" by (auto simp: length_Suc_conv eval_nat_numeral)
  have "length (dec_nat n) \<le> 3 \<and> 1 \<le> length (dec_nat n)" if "n < 256" for n
    using dec_nat_length [of 3 n] that dec_nat_not_Nil [of n] by (cases "dec_nat n") auto
  from this [of a] this [of b] this [of c] this [of d] show ?thesis using ns(1) by (simp add: abcd dotted_quad_def)
qed

lemma quad_tokens:
  assumes "list_all (\<lambda>n. n < 256) ns" and "ns \<noteq> []" and "tail = [] \<or> hd tail \<in> {46, 44}"
    and "str_at buf pos = Some (dotted_quad ns @ tail)"
  shows "\<exists>buf'. tokens_values (length ns) (lit ''.,'') pos buf = Some (map word_of_nat ns, buf')"
proof -
  have "\<forall>t\<in>set (map dec_nat ns). t \<noteq> [] \<and> set t \<inter> set (lit ''.,'') = {}"
    using dec_nat_no_delim by (auto simp: disjoint_iff)
  then obtain buf' where b: "tokens_values (length (map dec_nat ns)) (lit ''.,'') pos buf = Some (map char_atoi (map dec_nat ns), buf')"
    using tokens_of_text [of buf pos "map dec_nat ns" tail "lit ''.,''"] assms(2-4) by (auto simp: dotted_quad_def)
  have "map char_atoi (map dec_nat ns) = map word_of_nat ns"
    unfolding map_map by (rule map_cong) (use assms(1) char_atoi_dec in \<open>auto simp: list_all_iff\<close>)
  then show ?thesis using b by simp
qed

lemma own_ip_quad:
  assumes "list_all (\<lambda>n. n < 256) ns" and "length ns = 4" and "ipAddress t = map word_of_nat ns"
  shows "own_ip_text t = dotted_quad ns"
proof -
  obtain a b c d where abcd: "ns = [a, b, c, d]" using assms(2) by (auto simp: length_Suc_conv eval_nat_numeral)
  have "unat (word_of_nat n :: byte) = n" if "n < 256" for n using that by (simp add: unat_of_nat)
  then show ?thesis using assms(1,3)
    by (simp add: own_ip_text_def inet_ntoa_def le32_ld32 abcd dotted_quad_def numeral_2_eq_2 numeral_3_eq_3)
qed

lemma quad_read:
  assumes "length (at_rsp s) = 96" and "list_all (\<lambda>n. n < 256) ns" and "length ns = 4" and "plain_rest rest"
    and "pre = lit ''+ok='' \<or> pre = lit ''+ok=DHCP,''"
  shows "\<exists>buf sent. read_address (0, pre @ dotted_quad ns @ 44 # rest @ [0]) s =
    Some (s\<lparr>at_sent := sent, ipAddress := map word_of_nat ns, at_rsp := buf\<rparr>)"
proof -
  define t where "t = pre @ dotted_quad ns @ 44 # rest"
  define pos where "pos = length pre"
  have len: "length (dotted_quad ns) \<le> 15" "7 \<le> length (dotted_quad ns)" using quad_length [OF assms(2,3)] by simp_all
  obtain x q where xq: "dotted_quad ns = x # q" using len(2) by (cases "dotted_quad ns") auto
  have x: "is_digit x" using dec_nat_digits [of "hd ns"] xq dec_nat_not_Nil [of "hd ns"] assms(3)
    by (cases "dec_nat (hd ns)"; cases ns; cases "tl ns") (auto simp: dotted_quad_def)
  have pos: "pos = (if is_digit (t ! 4) then 4 else 9)" using x xq assms(5)
    by (auto simp: pos_def t_def is_digit_def)
  have pre: "\<exists>p. pre = 43 # 111 # p \<and> 43 \<notin> set p \<and> is_cstr pre" using assms(5) by auto
  have plain: "plain_rest (dotted_quad ns @ 44 # rest)" using plain_quad assms(4) plain_comma plain_append [of "[44]" rest] by simp
  have cstr: "is_cstr t" unfolding t_def using pre plain_cstr [OF plain] by auto
  have t24: "take 24 t = pre @ dotted_quad ns @ take (24 - length pre - length (dotted_quad ns)) (44 # rest)"
    using len assms(5) by (auto simp: t_def)
  have noerr: "\<not> has_sub (take 24 t) (lit ''+ERR'')"
  proof -
    obtain p where p: "pre = 43 # 111 # p" "43 \<notin> set p" using pre by blast
    have "43 \<notin> set (dotted_quad ns @ 44 # rest)" using plain_cstr [OF plain] by simp
    then have "43 \<notin> set (p @ dotted_quad ns @ take (24 - length pre - length (dotted_quad ns)) (44 # rest))"
      using p(2) by (auto dest: in_set_takeD)
    then show ?thesis unfolding t24 p(1) append_Cons by (intro no_error_text) simp_all
  qed
  have tail: "drop pos (take 24 t) = dotted_quad ns @ take (24 - length pre - length (dotted_quad ns)) (44 # rest)"
    unfolding t24 pos_def by simp
  have cut: "take k (44 # rest) = [] \<or> hd (take k (44 # rest)) \<in> {46, 44 :: byte}" for k by (cases k) simp_all
  have "ns \<noteq> []" using assms(3) by auto
  then have "\<exists>buf'. tokens_values 4 (lit ''.,'') pos buf = Some (map word_of_nat ns, buf')"
    if "str_at buf pos = Some (drop pos (take 24 t))" for buf
    using quad_tokens [OF assms(2) _ cut that [unfolded tail]] unfolding assms(3) by blast
  then show ?thesis
    using read_address_tokens [OF assms(1) cstr noerr _ pos, of "map word_of_nat ns"] len assms(5)
    unfolding t24 by (auto simp: pos_def t_def)
qed

lemma static_read:
  assumes "length (at_rsp s) = 96" and "list_all (\<lambda>n. n < 256) [a, b, c, d]" and "plain_rest rest"
  shows "\<exists>buf sent. read_address (0, lit ''+ok=STATIC,'' @ dotted_quad [a, b, c, d] @ 44 # rest @ [0]) s =
    Some (s\<lparr>at_sent := sent, ipAddress := 0 # map word_of_nat [a, b, c], at_rsp := buf\<rparr>)"
proof -
  define t where "t = lit ''+ok=STATIC,'' @ dotted_quad [a, b, c, d] @ 44 # rest"
  define u where "u = take 13 (dotted_quad [a, b, c, d] @ 44 # rest)"
  define q where "q = drop (length (dotted_quad [a, b, c])) u"
  have small: "length (dec_nat n) \<le> 3" if "n < 256" for n using dec_nat_length [of 3 n] that by simp
  have "length (dec_nat a) \<le> 3" "length (dec_nat b) \<le> 3" "length (dec_nat c) \<le> 3"
    using assms(2) by (simp_all add: small)
  then have len3: "length (dotted_quad [a, b, c]) \<le> 11" by (simp add: dotted_quad_def)
  have quad: "dotted_quad [a, b, c, d] = dotted_quad [a, b, c] @ 46 # dec_nat d" by (simp add: dotted_quad_def)
  have plain: "plain_rest (dotted_quad [a, b, c, d] @ 44 # rest)"
    using plain_quad assms(3) plain_comma plain_append [of "[44]" rest] by simp
  then have plain_u: "plain_rest u" unfolding u_def plain_rest_def using set_take_subset by fast
  have cstr: "is_cstr t" unfolding t_def using plain_cstr [OF plain] by simp
  have t24: "take 24 t = lit ''+ok=STATIC,'' @ u" by (simp add: t_def u_def)
  have noerr: "\<not> has_sub (take 24 t) (lit ''+ERR'')"
    using no_error_text [of "lit ''ok=STATIC,'' @ u" 43] plain_cstr [OF plain_u] by (simp add: t24)
  have pos: "9 = (if is_digit (t ! 4) then 4 else 9)" by (simp add: t_def is_digit_def)
  have uq: "u = dotted_quad [a, b, c] @ q" "hd q \<in> {46, 44}" "q \<noteq> []"
  proof -
    have "u = dotted_quad [a, b, c] @ take (13 - length (dotted_quad [a, b, c])) (46 # dec_nat d @ 44 # rest)"
      unfolding u_def quad using len3 by simp
    moreover obtain k where "13 - length (dotted_quad [a, b, c]) = Suc k" using len3
      by (cases "13 - length (dotted_quad [a, b, c])") auto
    ultimately show "u = dotted_quad [a, b, c] @ q" "hd q \<in> {46, 44}" "q \<noteq> []" by (simp_all add: q_def)
  qed
  have "\<exists>buf'. tokens_values 4 (lit ''.,'') 9 buf = Some (0 # map word_of_nat [a, b, c], buf')"
    if "str_at buf 9 = Some (drop 9 (take 24 t))" for buf
  proof -
    have s: "str_at buf 9 = Some ([67] @ 44 # u)" using that unfolding t24 by simp
    have step: "strtok_from (lit ''.,'') 9 buf = Some (Some 9, 11, buf[10 := 0])"
      "str_at (buf[10 := 0]) 9 = Some [67]" "str_at (buf[10 := 0]) 11 = Some u"
      using strtok_step [OF s, of "lit ''.,''"] by simp_all
    have "str_at (buf[10 := 0]) 11 = Some (dotted_quad [a, b, c] @ q)" using step(3) uq(1) by simp
    then obtain buf' where "tokens_values (length [a, b, c]) (lit ''.,'') 11 (buf[10 := 0]) = Some (map word_of_nat [a, b, c], buf')"
      using quad_tokens [of "[a, b, c]" q] assms(2) uq(2) by auto
    moreover have "char_atoi [67] = 0" by (simp add: char_atoi_def atoi_def is_space_def clamp32_def is_digit_def)
    moreover have four: "4 = Suc (length [a, b, c])" by simp
    ultimately show ?thesis unfolding four tokens_values.simps(2) step(1)
      using step(2) by (simp add: token_value_def del: tokens_values.simps lit_simps)
  qed
  then obtain buf sent where r: "read_address (0, t @ [0]) s =
      Some (s\<lparr>at_sent := sent, ipAddress := 0 # map word_of_nat [a, b, c], at_rsp := buf\<rparr>)"
    using read_address_tokens [OF assms(1) cstr noerr _ pos, of "0 # map word_of_nat [a, b, c]"] unfolding t24 by auto
  then show ?thesis by (auto simp: t_def)
qed

text \<open>
  C24. What the node makes of the address the module reports, for each form of the answer. In
  access-point mode (\<open>+ok=\<close>) and for an address from DHCP (\<open>+ok=DHCP,\<close>) the node has the four numbers of
  the answer, and announces itself with the text of the answer. For an address configured by hand
  (\<open>+ok=STATIC,\<close>) reading starts inside the word: the first number becomes 0 and the others move by one
  place, so the SAMD is told that there is no address and the node announces itself to nobody.
\<close>

theorem dhcp_address_read:
  assumes "length (at_rsp s) = 96" and "list_all (\<lambda>n. n < 256) [a, b, c, d]" and "plain_rest rest"
    and "pre \<in> {lit ''+ok='', lit ''+ok=DHCP,'', lit ''+ok=STATIC,''}"
  shows "\<exists>t. read_address (0, pre @ dotted_quad [a, b, c, d] @ 44 # rest @ [0]) s = Some t \<and>
    (if pre = lit ''+ok=STATIC,''
     then ipAddress t = 0 # map word_of_nat [a, b, c] \<and> address_frame (ipAddress t) = art_net_frame [1, 0] \<and>
       client_thread_round env t = Some t
     else ipAddress t = map word_of_nat [a, b, c, d] \<and> own_ip_text t = dotted_quad [a, b, c, d])"
proof (cases "pre = lit ''+ok=STATIC,''")
  case True
  then show ?thesis using static_read [OF assms(1-3)]
    by (auto simp: address_frame_def client_thread_round_def simp del: lit_simps)
next
  case False
  then have "pre = lit ''+ok='' \<or> pre = lit ''+ok=DHCP,''" using assms(4) by blast
  from quad_read [OF assms(1,2) _ assms(3) this] obtain buf sent where
    r: "read_address (0, pre @ dotted_quad [a, b, c, d] @ 44 # rest @ [0]) s =
      Some (s\<lparr>at_sent := sent, ipAddress := map word_of_nat [a, b, c, d], at_rsp := buf\<rparr>)" by auto
  have "own_ip_text (s\<lparr>at_sent := sent, ipAddress := map word_of_nat [a, b, c, d], at_rsp := buf\<rparr>) = dotted_quad [a, b, c, d]"
    by (rule own_ip_quad [OF assms(2)]) simp_all
  then show ?thesis unfolding r using False by simp
qed

section \<open>What the battery command leaves alone\<close>

definition outside :: "('fl, 'z) samd_state_scheme \<Rightarrow> _" where
  "outside s = (at_state.truncate s, ipAddress s, outputs s, samd_state.more s)"

lemma outside_updates [simp]:
  "outside (s\<lparr>uart_rcv_data := a\<rparr>) = outside s" "outside (s\<lparr>uart_rvc_len := l\<rparr>) = outside s"
  "outside (s\<lparr>uart_rvc_done := d\<rparr>) = outside s" "outside (s\<lparr>ret_buff := a\<rparr>) = outside s"
  "outside (s\<lparr>arrivals := q\<rparr>) = outside s" "outside (s\<lparr>sent := q'\<rparr>) = outside s"
  "outside (s\<lparr>samd_locked := d\<rparr>) = outside s" "outside (s\<lparr>samd_ver := a\<rparr>) = outside s"
  "outside (s\<lparr>battery_info := a\<rparr>) = outside s"
  by (simp_all add: outside_def at_state.truncate_def)

lemma callback_outside: "uart_recv_callback c s = Some t \<Longrightarrow> outside t = outside s"
  by (auto simp: uart_recv_callback_def Let_def split: if_splits bind_splits)

lemma run_callback_outside: "run uart_recv_callback cs s = Some t \<Longrightarrow> outside t = outside s"
  by (induction cs arbitrary: s) (auto dest: callback_outside split: option.splits bind_splits)

lemma samd_try_outside: "samd_try k cmd s = Some (ret, t) \<Longrightarrow> outside t = outside s"
proof (induction k arbitrary: s)
  case (Suc k)
  obtain s1 where s1: "transmit cmd (clear_uart_recv s) = Some s1" using Suc.prems by (auto split: bind_splits)
  then have "outside s1 = outside s"
    by (auto simp: transmit_def Let_def clear_uart_recv_def dest!: run_callback_outside)
  then show ?case using Suc.prems s1 Suc.IH [of s1]
    by (auto simp: Let_def split: if_splits bind_splits)
qed auto

lemma battery_outside: "Send_Battery_Command s = Some (ret, t) \<Longrightarrow> outside t = outside s"
  by (auto simp: Send_Battery_Command_def samd_lock_def samd_unlock_def Send_SAMD_CMD_def Let_def
      dest!: samd_try_outside split: if_splits bind_splits)

lemma outside_fields:
  fixes s t :: "('fl, 'z) main_state_scheme"
  assumes "outside t = outside s"
  shows "g_web_config t = g_web_config s" "artnet_enable t = artnet_enable s" "client_valid_num t = client_valid_num s"
    "ipAddress t = ipAddress s" "outputs t = outputs s" "at_rsp t = at_rsp s" "at_scan_rsp t = at_scan_rsp s"
    "operation_mode t = operation_mode s"
  using assms by (cases s; cases t; simp add: outside_def at_state.truncate_def)+
section \<open>The stages stay in their buffers\<close>

text \<open>Choosing the channel: the scan must not show the name of the network within its first two
  characters.\<close>

definition channel_ok :: "('fl, 'e) main_env_scheme \<Rightarrow> ('fl, 'z) main_state_scheme \<Rightarrow> bool" where
  "channel_ok env s \<longleftrightarrow> is_cstr (CFG_get_str env (CFG_str2id env (lit ''WLN_Channel''))) \<and>
     length (CFG_get_str env (CFG_str2id env (lit ''WLN_Channel''))) < 4 \<and>
     length (at_scan_rsp s) = sizeof_at_scan_rsp"

definition good_scan :: "at_answer \<Rightarrow> bool" where
  "good_scan scan \<longleftrightarrow> fst scan \<noteq> 0 \<or> (\<exists>t. snd scan = t @ [0] \<and> is_cstr t \<and>
     (case strstr (take 512 t) SSID_STR of None \<Rightarrow> True | Some i \<Rightarrow> 2 \<le> i))"

lemma poke0_length: "length xs \<le> length m \<Longrightarrow> length (poke 0 xs m) = length m"
  by simp

lemma station_channel_ok:
  assumes "channel_ok env s" and "good_scan scan"
  shows "\<exists>c ap g sent buf. station_channel scan s = Some (c, s\<lparr>at_sent := sent, at_scan_rsp := buf, ap_wln_channel := ap,
     get_ap_wln_channel := g\<rparr>) \<and> length buf = sizeof_at_scan_rsp"
proof -
  have len: "length (at_scan_rsp s) = 1024" using assms(1) by (simp add: channel_ok_def sizeof_at_scan_rsp_def)
  have plain: "\<exists>ap g sent buf. s\<lparr>ap_wln_channel := x, get_ap_wln_channel := y\<rparr> =
      s\<lparr>at_sent := sent, at_scan_rsp := buf, ap_wln_channel := ap, get_ap_wln_channel := g\<rparr> \<and> length buf = sizeof_at_scan_rsp" for x y
    by (rule exI [of _ x], rule exI [of _ y], rule exI [of _ "at_sent s"], rule exI [of _ "at_scan_rsp s"])
      (simp add: len sizeof_at_scan_rsp_def)
  let ?sent = "at_sent s @ [crlf ''AT+WSCAN'']"
  let ?p = "poke 0 (take 1024 (snd scan)) (at_scan_rsp s)"
  have lp: "length ?p = 1024" using len by (subst poke0_length) simp_all
  consider "ipAddress s ! 0 = 0" | "ipAddress s ! 0 \<noteq> 0" "get_ap_wln_channel s \<noteq> 0"
    | "ipAddress s ! 0 \<noteq> 0" "get_ap_wln_channel s = 0" "fst scan \<noteq> 0"
    | "ipAddress s ! 0 \<noteq> 0" "get_ap_wln_channel s = 0" "fst scan = 0" by blast
  then show ?thesis
  proof cases
    case 1
    then show ?thesis using plain [where x = 0 and y = 0] by (auto simp: station_channel_def)
  next
    case 2
    then show ?thesis using plain [where x = "ap_wln_channel s" and y = "get_ap_wln_channel s"] by (auto simp: station_channel_def)
  next
    case 3
    then have "station_channel scan s = Some (ap_wln_channel s, s\<lparr>at_sent := ?sent, at_scan_rsp := ?p, ap_wln_channel := ap_wln_channel s,
     get_ap_wln_channel := get_ap_wln_channel s\<rparr>)"
      by (simp add: station_channel_def HF_SUCCESS_def Let_def sizeof_at_scan_rsp_def)
    then show ?thesis using lp unfolding sizeof_at_scan_rsp_def by blast
  next
    case 4
    then obtain t where t: "snd scan = t @ [0]" "is_cstr t" "\<And>i. strstr (take 512 t) SSID_STR = Some i \<Longrightarrow> 2 \<le> i"
      using assms(2) by (auto simp: good_scan_def split: option.splits)
    obtain r where r: "?p[512 := 0] = take 512 t @ 0 # r"
      using reply_buffer [OF len t(2), of 512] t(1) by auto
    have c: "c_str (?p[512 := 0]) = Some (take 512 t)" unfolding r using t(2) by simp
    have step: "station_channel scan s = (case strstr (take 512 t) SSID_STR of
        None \<Rightarrow> Some (ap_wln_channel s, s\<lparr>at_sent := ?sent, at_scan_rsp := ?p[512 := 0]\<rparr>)
      | Some i \<Rightarrow> if i < 2 then None else Some (take 512 t ! (i - 2) - 48,
          s\<lparr>at_sent := ?sent, at_scan_rsp := ?p[512 := 0], ap_wln_channel := take 512 t ! (i - 2) - 48,
     get_ap_wln_channel := 1\<rparr>))"
      using 4 c by (simp add: station_channel_def HF_SUCCESS_def sizeof_at_scan_rsp_def Let_def cong: option.case_cong if_cong)
    have l: "length (?p[512 := 0]) = sizeof_at_scan_rsp" using lp by (simp add: sizeof_at_scan_rsp_def)
    show ?thesis
    proof (cases "strstr (take 512 t) SSID_STR")
      case None
      then have "station_channel scan s = Some (ap_wln_channel s, s\<lparr>at_sent := ?sent, at_scan_rsp := ?p[512 := 0], ap_wln_channel := ap_wln_channel s,
     get_ap_wln_channel := get_ap_wln_channel s\<rparr>)"
        unfolding step by simp
      then show ?thesis using l by blast
    next
      case (Some i)
      then have "station_channel scan s = Some (take 512 t ! (i - 2) - 48, s\<lparr>at_sent := ?sent, at_scan_rsp := ?p[512 := 0],
        ap_wln_channel := take 512 t ! (i - 2) - 48, get_ap_wln_channel := 1\<rparr>)"
        unfolding step using t(3) [OF Some] by simp
      then show ?thesis using l by blast
    qed
  qed
qed

lemma select_channel_ok:
  assumes "channel_ok env s" and "good_scan scan"
  shows "\<exists>c ap g sent buf. select_channel env scan s = Some (c, s\<lparr>at_sent := sent, at_scan_rsp := buf, ap_wln_channel := ap,
     get_ap_wln_channel := g\<rparr>) \<and> length buf = sizeof_at_scan_rsp"
proof -
  have keep: "\<exists>ap g sent buf. s = s\<lparr>at_sent := sent, at_scan_rsp := buf, ap_wln_channel := ap,
     get_ap_wln_channel := g\<rparr> \<and> length buf = sizeof_at_scan_rsp"
    by (rule exI [of _ "ap_wln_channel s"], rule exI [of _ "get_ap_wln_channel s"], rule exI [of _ "at_sent s"],
        rule exI [of _ "at_scan_rsp s"]) (use assms(1) in \<open>simp add: channel_ok_def\<close>)
  let ?v = "CFG_get_str env (CFG_str2id env (lit ''WLN_Channel''))"
  have v: "is_cstr ?v" "length ?v < 4" using assms(1) by (simp_all add: channel_ok_def)
  then have "put_str 0 ?v (replicate 4 0) = Some (poke 0 (?v @ [0]) (replicate 4 0))" by simp
  moreover have "c_str (poke 0 (?v @ [0]) (replicate 4 0)) = Some ?v"
    using str_at_poke_same [of 0 ?v "replicate 4 0"] v by (simp add: str_at_def)
  ultimately have "AP_MODE = operation_mode s \<Longrightarrow> \<exists>c. select_channel env scan s = Some (c, s)"
    unfolding select_channel_def by (simp add: Let_def del: lit_simps put_str_eq_Some)
  moreover have "AP_MODE \<noteq> operation_mode s \<Longrightarrow> STA_WIFI_MODE = operation_mode s \<Longrightarrow> select_channel env scan s = station_channel scan s"
    "AP_MODE \<noteq> operation_mode s \<Longrightarrow> STA_WIFI_MODE \<noteq> operation_mode s \<Longrightarrow> select_channel env scan s = Some (1, s)"
    by (simp_all add: select_channel_def)
  ultimately show ?thesis using station_channel_ok [OF assms] keep by metis
qed

lemma tokens_length: "tokens_values n delims pos buf = Some (vs, buf') \<Longrightarrow> length buf' = length buf \<and> length vs = n"
  by (induction n arbitrary: pos buf vs) (fastforce simp: strtok_from_def Let_def split: if_splits bind_splits)+

text \<open>The answers to the question for the address: a failed command, an error message, or an address in
  one of the three forms; and the address the node takes from each.\<close>

datatype lan_answer = Failed int bytes | Error_message bytes | Access_point "nat list" bytes
  | From_dhcp "nat list" bytes | By_hand "nat list" bytes

primrec answer_of :: "lan_answer \<Rightarrow> at_answer" where
  "answer_of (Failed rc t) = (rc, t)"
| "answer_of (Error_message t) = (0, t @ [0])"
| "answer_of (Access_point ns rest) = (0, lit ''+ok='' @ dotted_quad ns @ 44 # rest @ [0])"
| "answer_of (From_dhcp ns rest) = (0, lit ''+ok=DHCP,'' @ dotted_quad ns @ 44 # rest @ [0])"
| "answer_of (By_hand ns rest) = (0, lit ''+ok=STATIC,'' @ dotted_quad ns @ 44 # rest @ [0])"

definition quad_ok :: "nat list \<Rightarrow> bytes \<Rightarrow> bool" where
  "quad_ok ns rest \<longleftrightarrow> length ns = 4 \<and> list_all (\<lambda>n. n < 256) ns \<and> plain_rest rest"

primrec answer_ok :: "lan_answer \<Rightarrow> bool" where
  "answer_ok (Failed rc t) = (rc \<noteq> 0)"
| "answer_ok (Error_message t) = (is_cstr t \<and> has_sub (take 24 t) (lit ''+ERR''))"
| "answer_ok (Access_point ns rest) = quad_ok ns rest"
| "answer_ok (From_dhcp ns rest) = quad_ok ns rest"
| "answer_ok (By_hand ns rest) = quad_ok ns rest"

primrec ip_of :: "lan_answer \<Rightarrow> bytes" where
  "ip_of (Failed rc t) = [0, 0, 0, 0]"
| "ip_of (Error_message t) = [0, 0, 0, 0]"
| "ip_of (Access_point ns rest) = map word_of_nat ns"
| "ip_of (From_dhcp ns rest) = map word_of_nat ns"
| "ip_of (By_hand ns rest) = 0 # map word_of_nat (butlast ns)"

lemma read_address_length:
  assumes "read_address ann s = Some t" and "length (at_rsp s) = 96"
  shows "length (at_rsp t) = 96"
proof -
  let ?buf = "(poke 0 (take 96 (snd ann)) (at_rsp s))[24 := 0]"
  have len: "length ?buf = 96" using assms(2) by (simp add: poke0_length)
  have "length b = 96" if "tokens_values 4 d pos ?buf = Some (ip, b)" for d pos ip b
    using tokens_length [OF that] len by simp
  then show ?thesis using assms(1) len unfolding read_address_step
    by (auto simp del: lit_simps split: if_splits bind_splits)
qed

lemma read_ip:
  assumes "length (at_rsp s) = 96" and "answer_ok a"
  shows "\<exists>sent buf. read_address (answer_of a) s = Some (s\<lparr>at_sent := sent, ipAddress := ip_of a, at_rsp := buf\<rparr>) \<and>
    length buf = 96"
proof -
  have four: "\<exists>i j k l. ns = [i, j, k, l]" if "length ns = 4" for ns :: "nat list"
    using that by (auto simp: length_Suc_conv eval_nat_numeral)
  have "\<exists>sent buf. read_address (answer_of a) s = Some (s\<lparr>at_sent := sent, ipAddress := ip_of a, at_rsp := buf\<rparr>)"
  proof (cases a)
    case (Failed rc t)
    have "\<exists>sent buf. s\<lparr>at_sent := x, at_rsp := b, ipAddress := no_address\<rparr> =
        s\<lparr>at_sent := sent, ipAddress := [0, 0, 0, 0], at_rsp := buf\<rparr>" for x b
      by (rule exI [of _ x], rule exI [of _ b]) (simp add: no_address_def)
    then show ?thesis unfolding read_address_step using Failed assms(2) by (simp del: lit_simps)
  next
    case (Error_message t)
    have same: "\<exists>sent buf. s\<lparr>at_sent := x, at_rsp := b, ipAddress := no_address\<rparr> =
        s\<lparr>at_sent := sent, ipAddress := [0, 0, 0, 0], at_rsp := buf\<rparr>" for x b
      by (rule exI [of _ x], rule exI [of _ b]) (simp add: no_address_def)
    have t: "is_cstr t" "has_sub (take 24 t) (lit ''+ERR'')" using Error_message assms(2) by simp_all
    obtain r where "(poke 0 (take 96 (t @ [0])) (at_rsp s))[24 := 0] = take 24 t @ 0 # r"
      using reply_buffer [OF assms(1) t(1), of 24] by auto
    then have "c_str ((poke 0 (take 96 (t @ [0])) (at_rsp s))[24 := 0]) = Some (take 24 t)" using t(1) by simp
    then show ?thesis unfolding read_address_step using Error_message t(2) same by (simp del: lit_simps)
  next
    case (Access_point ns rest)
    then show ?thesis using quad_read [OF assms(1), of ns rest "lit ''+ok=''"] assms(2)
      by (auto simp: quad_ok_def simp del: lit_simps)
  next
    case (From_dhcp ns rest)
    then show ?thesis using quad_read [OF assms(1), of ns rest "lit ''+ok=DHCP,''"] assms(2)
      by (auto simp: quad_ok_def simp del: lit_simps)
  next
    case (By_hand ns rest)
    then have "length ns = 4" using assms(2) by (simp add: quad_ok_def)
    then obtain i j k l where "ns = [i, j, k, l]" using four by blast
    then show ?thesis using static_read [OF assms(1), of i j k l rest] By_hand assms(2)
      by (auto simp: quad_ok_def simp del: lit_simps)
  qed
  then obtain sent buf where r: "read_address (answer_of a) s = Some (s\<lparr>at_sent := sent, ipAddress := ip_of a, at_rsp := buf\<rparr>)"
    by blast
  then show ?thesis using read_address_length [OF r assms(1)] by auto
qed

lemma colour_frame_ok:
  assumes "web_ok cfg"
  shows "\<exists>f. colour_frame cfg = Some f"
proof -
  have "\<exists>v. member_number f cfg = Some v" if "f \<in> set str_fields" for f
    using web_okD [OF assms that] by (auto simp: member_number_def)
  then have "\<exists>v. member_number W_gaffer_enb cfg = Some v" "\<exists>v. member_number W_gaffer_lower cfg = Some v"
    "\<exists>v. member_number W_gaffer_upper cfg = Some v" by (simp_all add: set_str_fields)
  then show ?thesis by (auto simp: colour_frame_def)
qed

definition settings_ok :: "('fl, 'z) main_state_scheme \<Rightarrow> bool" where
  "settings_ok s \<longleftrightarrow> web_ok (g_web_config s) \<and> length (at_rsp s) = sizeof_at_rsp \<and> calm s \<and> \<not> samd_locked s"

lemma send_settings_step:
  fixes s :: "('fl, 'z) main_state_scheme"
  assumes ok: "settings_ok s" and a: "answer_ok a" and f: "colour_frame (g_web_config s) = Some f"
  shows "\<exists>t. send_settings (answer_of a) s = Some t \<and> settings_ok t \<and> g_web_config t = g_web_config s \<and>
    ipAddress t = ip_of a \<and> outputs t = outputs s @ [Uart (address_frame (ip_of a)), Uart f]"
proof -
  have len: "length (at_rsp s) = 96" using ok by (simp add: settings_ok_def sizeof_at_rsp_def)
  obtain q buf where r: "read_address (answer_of a) s = Some (s\<lparr>at_sent := q, ipAddress := ip_of a, at_rsp := buf\<rparr>)"
    "length buf = 96" using read_ip [OF len a] by blast
  define u where "u = Joo_uart_send f (Joo_uart_send (address_frame (ip_of a))
    (s\<lparr>at_sent := q, ipAddress := ip_of a, at_rsp := buf\<rparr>))"
  have u: "outputs u = outputs s @ [Uart (address_frame (ip_of a)), Uart f]" "g_web_config u = g_web_config s"
    "artnet_enable u = artnet_enable s" "ipAddress u = ip_of a" "length (at_rsp u) = 96" "calm u" "\<not> samd_locked u"
    using ok r(2) by (simp_all add: u_def Joo_uart_send_def settings_ok_def calm_def samd_ok_def)
  have step: "send_settings (answer_of a) s =
      (if artnet_enable s = 1 then map_option snd (Send_Battery_Command u) else Some u)"
    unfolding send_settings_def r(1) using f by (simp add: Let_def u_def Joo_uart_send_def)
  have ok_of: "settings_ok t" if "calm t" "\<not> samd_locked t" "g_web_config t = g_web_config u" "at_rsp t = at_rsp u"
    for t :: "('fl, 'z) main_state_scheme"
    using ok that u by (simp add: settings_ok_def sizeof_at_rsp_def)
  show ?thesis
  proof (cases "artnet_enable s = 1")
    case True
    obtain ret t where t: "Send_Battery_Command u = Some (ret, t)" "calm t" "\<not> samd_locked t"
      using battery_calm [OF u(6,7)] by blast
    note keep = outside_fields [OF battery_outside [OF t(1)]]
    show ?thesis using step t(1) True ok_of [OF t(2,3)] keep u by (intro exI [of _ t]) simp
  next
    case False
    then show ?thesis using step ok_of [OF u(6,7)] u by (intro exI [of _ u]) simp
  qed
qed


text \<open>
  The one-byte buffer for the power of the lamps' radio is overrun in every round of the enabled loop:
  the setting has at least one character, and its terminator lands behind \<open>TimoPower\<close>.
\<close>

theorem timo_power_overruns:
  assumes "web_ok (g_web_config s)" and "str2id_ok env" and "artnet_enable s \<noteq> 0"
  shows "main_round env scan ann s = None"
proof -
  have send: "send_timo env c t = None" if "g_web_config t = g_web_config s" for c and t :: "('a, 'b) main_state_scheme"
  proof -
    have "web_ok (g_web_config t)" using assms(1) that by simp
    then obtain v where "ratpac_get_str CFG_TIMO_POWER (g_web_config t) (client_valid_num t) = Some (0, v)" "v \<noteq> []"
      by (rule get_value [OF _ loop_switches(3)]) (simp_all add: set_str_fields)
    then have "cfg_buf env 1 (lit ''TIMO_POWER'') t = None"
      using loop_names(3) [OF assms(2)] by (cases v) (simp_all add: cfg_buf_def del: lit_simps)
    then show ?thesis by (simp add: send_timo_def Let_def del: lit_simps split: bind_splits)
  qed
  have cfg: "g_web_config t = g_web_config s" if "select_channel env scan s = Some (c, t)" for c t
    using that by (auto simp: select_channel_def station_channel_def Let_def simp del: lit_simps
        split: if_splits bind_splits option.splits)
  show ?thesis
  proof (cases "select_channel env scan s")
    case (Some p)
    then obtain c t where sel: "select_channel env scan s = Some (c, t)" by (cases p) simp
    show ?thesis using assms(3) sel send [OF cfg [OF sel], of c] by (simp add: main_round_def)
  qed (use assms(3) in \<open>simp add: main_round_def\<close>)
qed

lemma strstr_found: "p = c # q \<Longrightarrow> c \<notin> set s \<Longrightarrow> strstr (s @ p @ r) p = Some (length s)"
  by (induction s) (auto simp: is_prefix_def)

lemma last_digit: "last (dec_nat n) = word_of_nat (48 + n mod 10)"
  by (subst dec_nat.simps) simp

text \<open>
  A scan result with a two-digit channel is misread: only the last digit of the channel number
  survives, so that the network on channel 10 switches the blocking off and the one on channel 11 blocks
  the frequencies of channel 1.
\<close>

theorem scan_reads_last_digit:
  assumes "length (at_scan_rsp s) = sizeof_at_scan_rsp" and "ipAddress s ! 0 \<noteq> 0" and "get_ap_wln_channel s = 0"
    and "plain_rest pre" and "is_cstr rest" and "c < 100" and "length pre < 490"
  shows "\<exists>t. station_channel (0, pre @ dec_nat c @ 44 # SSID_STR @ rest @ [0]) s = Some (word_of_nat (c mod 10), t) \<and>
    g_web_config t = g_web_config s"
proof -
  let ?t = "pre @ dec_nat c @ 44 # SSID_STR @ rest"
  let ?n = "length pre + length (dec_nat c) + 1"
  have len: "length (at_scan_rsp s) = 1024" using assms(1) by (simp add: sizeof_at_scan_rsp_def)
  have dlen: "length (dec_nat c) \<le> 2" using dec_nat_length [of 2 c] assms(6) by simp
  have cstr: "is_cstr ?t" using plain_cstr [OF assms(4)] assms(5) by (simp add: SSID_STR_def)
  obtain r where r: "(poke 0 (take 1024 (?t @ [0])) (at_scan_rsp s))[512 := 0] = take 512 ?t @ 0 # r"
    using reply_buffer [OF len cstr, of 512] by auto
  have cs: "c_str ((poke 0 (take 1024 (?t @ [0])) (at_scan_rsp s))[512 := 0]) = Some (take 512 ?t)"
    unfolding r by (rule c_str_terminated [OF is_cstr_take [OF cstr]])
  define A where "A = (pre @ dec_nat c @ [44]) @ SSID_STR"
  have "length A \<le> 512" using dlen assms(7) by (simp add: A_def SSID_STR_def)
  then have "take 512 (A @ rest) = A @ take (512 - length A) rest" by simp
  then obtain q where q: "take 512 ?t = (pre @ dec_nat c @ [44]) @ SSID_STR @ q" by (simp add: A_def)
  have "of_char (CHR ''R'') \<notin> set (pre @ dec_nat c @ [44])"
    using assms(4) dec_nat_digits [of c] by (auto simp: plain_rest_def is_digit_def list_all_iff)
  then have found: "strstr (take 512 ?t) SSID_STR = Some ?n"
    unfolding q using strstr_found [of SSID_STR "of_char (CHR ''R'')" "lit ''atpac AKS''" "pre @ dec_nat c @ [44]" q]
    by (simp add: SSID_STR_def)
  have pos: "2 \<le> ?n" "?n - 2 = length pre + (length (dec_nat c) - 1)"
    using dec_nat_not_Nil [of c] by (cases "dec_nat c"; simp)+
  have "take 512 ?t ! (?n - 2) = last (dec_nat c)"
    unfolding q pos(2) using dec_nat_not_Nil [of c] by (simp add: nth_append last_conv_nth)
  then have digit: "take 512 ?t ! (?n - 2) - 48 = word_of_nat (c mod 10)" by (simp add: last_digit)
  let ?p = "poke 0 (take 1024 (?t @ [0])) (at_scan_rsp s)"
  have "station_channel (0, ?t @ [0]) s = Some (word_of_nat (c mod 10), s\<lparr>at_sent := at_sent s @ [crlf ''AT+WSCAN''],
      at_scan_rsp := ?p[512 := 0], ap_wln_channel := word_of_nat (c mod 10), get_ap_wln_channel := 1\<rparr>)"
    unfolding station_channel_def Let_def using assms(2,3) cs found pos(1) digit
    by (simp add: HF_SUCCESS_def sizeof_at_scan_rsp_def del: take_append)
  then show ?thesis by simp
qed

section \<open>The colour of the lamp\<close>

definition hex2 :: "byte \<Rightarrow> bytes" where
  "hex2 b = [hexarr ! (unat b div 16), hexarr ! (unat b mod 16)]"

lemma hex_index_digit: "n < 16 \<Longrightarrow> hex_index (hexarr ! n) = n"
proof -
  assume "n < 16"
  then have "n \<in> {0..<16}" by simp
  moreover have "\<forall>n\<in>{0..<16}. hex_index (hexarr ! n) = n" by code_simp
  ultimately show ?thesis by blast
qed

lemma nibbles: "h < 16 \<Longrightarrow> l < 16 \<Longrightarrow> (push_bit 4 (int h) OR int l) AND 0xff = 16 * int h + int l"
proof -
  assume h: "h < 16" and l: "l < 16"
  have "push_bit 4 (int h) OR int l = concat_bit 4 (int l) (int h)"
    using l by (simp add: concat_bit_def take_bit_int_eq_self or.commute)
  also have "\<dots> = 16 * int h + int l"
    using l by (simp add: concat_bit_eq take_bit_int_eq_self push_bit_eq_mult mult.commute)
  finally have "push_bit 4 (int h) OR int l = 16 * int h + int l" .
  moreover have "x AND 0xff = take_bit 8 x" for x :: int by (simp add: take_bit_eq_mask mask_eq_exp_minus_1)
  ultimately show ?thesis using h l by (simp add: take_bit_int_eq_self)
qed

lemma hex_value: "HexCharToInt (hexarr ! (unat (b :: byte) div 16)) (hexarr ! (unat b mod 16)) = uint b"
proof -
  have "unat b < 2 ^ LENGTH(8)" by (rule unsigned_less)
  then have b: "unat b < 256" by simp
  have "16 * int (unat b div 16) + int (unat b mod 16) = uint b"
    by (metis mult_div_mod_eq of_nat_add of_nat_mult of_nat_numeral uint_nat)
  then show ?thesis using b nibbles [of "unat b div 16" "unat b mod 16"]
    by (simp add: HexCharToInt_def hex_index_digit)
qed

text \<open>
  The colour of a node, stored as six upper-case hexadecimal digits, is sent to the lamp as the three
  bytes it stands for.
\<close>

theorem led_colour_sent:
  assumes "web_ok cfg" and "field_str cfg W_led_color = hex2 r @ hex2 g @ hex2 b"
  shows "rgb_bytes cfg = [r, g, b] \<and> (\<exists>f. colour_frame cfg = Some f \<and> take 3 (drop 18 f) = [r, g, b])"
proof -
  obtain v where v: "str_at cfg (foff W_led_color) = Some v" "v = hex2 r @ hex2 g @ hex2 b"
    using web_okD [OF assms(1), of W_led_color] assms(2) by (auto simp: set_str_fields)
  then obtain q where q: "drop 67 cfg = hex2 r @ hex2 g @ hex2 b @ 0 # q" by (auto simp: str_at_iff)
  have len: "length cfg = 101" using web_ok_length [OF assms(1)] by (simp add: sizeof_WEB_DATA_T_def)
  have "cfg ! (67 + k) = (hex2 r @ hex2 g @ hex2 b @ 0 # q) ! k" for k
    unfolding q [symmetric] using len by (simp add: nth_drop)
  from this [of 0] this [of 1] this [of 2] this [of 3] this [of 4] this [of 5]
  have rgb: "rgb_bytes cfg = [r, g, b]"
    by (simp add: rgb_bytes_def hex2_def hex_value upt_rec)
  obtain f where f: "colour_frame cfg = Some f" using colour_frame_ok [OF assms(1)] by blast
  then have "take 3 (drop 18 f) = [r, g, b]"
    by (auto simp: colour_frame_def art_net_frame_def int_bytes_def rgb split: bind_splits)
  then show ?thesis using rgb f by simp
qed

section \<open>Starting up\<close>

lemma at_query_text:
  assumes "length (at_rsp s) = 96" and "snd a = t @ [0]" and "is_cstr t" and "n < 96"
  shows "\<exists>sent buf. at_query cmd n a s = Some (if fst a = 0 then take n t else [], s\<lparr>at_sent := sent, at_rsp := buf\<rparr>) \<and>
    length buf = 96"
proof -
  define k where "k = (if fst a = 0 then n else 0)"
  let ?buf = "(poke 0 (take 96 (t @ [0])) (at_rsp s))[k := 0]"
  have k: "k < 96" using assms(4) by (simp add: k_def)
  obtain r where r: "?buf = take k t @ 0 # r" using reply_buffer [OF assms(1,3) k] by blast
  then have "c_str ?buf = Some (take k t)" using assms(3) c_str_terminated [of "take k t" r] is_cstr_take by metis
  moreover have len: "length ?buf = 96" using assms(1) by (simp add: poke0_length)
  moreover have "take k t = (if fst a = 0 then take n t else [])" by (simp add: k_def)
  ultimately have "at_query cmd n a s = Some (if fst a = 0 then take n t else [],
      s\<lparr>at_sent := at_sent s @ [crlf cmd], at_rsp := ?buf\<rparr>)"
    unfolding k_def using assms(2)
    by (cases "fst a = 0") (simp_all add: at_query_def hfat_send_cmd_def HF_SUCCESS_def sizeof_at_rsp_def Let_def del: take_append)
  then show ?thesis using len by blast
qed

definition reports :: "nat \<Rightarrow> string \<Rightarrow> at_answer \<Rightarrow> bool" where
  "reports n w a \<longleftrightarrow> fst a = 0 \<and> has_sub (take n (takeWhile (\<lambda>b. b \<noteq> 0) (snd a))) (lit w)"

definition text_answer :: "at_answer \<Rightarrow> bool" where
  "text_answer a \<longleftrightarrow> (\<exists>t. snd a = t @ [0] \<and> is_cstr t)"

lemma at_query_reports:
  assumes "length (at_rsp s) = 96" and "text_answer a" and "n < 96" and "w \<noteq> []"
  obtains t sent buf where "at_query cmd n a s = Some (t, s\<lparr>at_sent := sent, at_rsp := buf\<rparr>)" "length buf = 96"
    "has_sub t (lit w) \<longleftrightarrow> reports n w a"
proof -
  obtain u where u: "snd a = u @ [0]" "is_cstr u" using assms(2) by (auto simp: text_answer_def)
  have "takeWhile (\<lambda>b. b \<noteq> 0) (u @ [0]) = u" using u(2) by (induction u) auto
  moreover have "\<not> has_sub [] (lit w)" using assms(4) by (cases w) (simp_all add: has_sub_def)
  ultimately show thesis using at_query_text [OF assms(1) u assms(3), of cmd] that u(1)
    by (auto simp: reports_def split: if_splits)
qed

lemma boot_flash:
  assumes "length (hfuflash_read env WEB_DATA_FLASH_ADDR sizeof_WEB_DATA_T (user_flash s)) = sizeof_WEB_DATA_T"
  shows "\<exists>cfg fl. web_flash_data_init env img 0 s = Some (s\<lparr>g_web_config := cfg, user_flash := fl\<rparr>)"
proof (cases "cfg_valid (hfuflash_read env WEB_DATA_FLASH_ADDR sizeof_WEB_DATA_T (user_flash s))")
  case True
  let ?m = "hfuflash_read env WEB_DATA_FLASH_ADDR sizeof_WEB_DATA_T (user_flash s)"
  have "web_flash_data_init env img 0 s = Some (s\<lparr>g_web_config := ?m, user_flash := user_flash s\<rparr>)"
    using init_valid [OF refl True, of 0 img] by simp
  then show ?thesis by blast
next
  case False
  obtain d where d: "default_config img = Some d" by (rule default_config_view) blast
  show ?thesis using init_invalid [OF refl assms _ d, of 0] False by (auto simp: write_data_to_flash_def Let_def)
qed

text \<open>
  The start ends in the loop exactly when the UART already runs at 230400 baud and both threads could
  be created, and then the mode is the one the module reports: the cable when the Ethernet function is
  on, otherwise the WiFi client, otherwise the access point.
\<close>

theorem boot_outcome:
  assumes "length (at_rsp s) = sizeof_at_rsp" and "gpio_map_check b = 0" and "True \<in> set (wifi_active b)"
    and "length (hfuflash_read env WEB_DATA_FLASH_ADDR sizeof_WEB_DATA_T (user_flash s)) = sizeof_WEB_DATA_T"
    and "text_answer (fvew_answer b)" and "text_answer (wmode_answer b)" and "text_answer (uart_answer b)"
  shows "\<exists>r t. boot env b s = Some (r, t) \<and>
    operation_mode t = (if reports 13 ''+ok=Enable'' (fvew_answer b) then STA_ETH_MODE
      else if reports 8 ''+ok=STA'' (wmode_answer b) then STA_WIFI_MODE else AP_MODE) \<and>
    (r = Main_loop \<longleftrightarrow> reports 13 ''+ok=230400'' (uart_answer b) \<and> client_thread_ret b = 0 \<and> server_thread_ret b = 0)"
proof -
  obtain cfg fl where init: "web_flash_data_init env (BUILD_IMG env) 0 s = Some (s\<lparr>g_web_config := cfg, user_flash := fl\<rparr>)"
    using boot_flash [OF assms(4)] by blast
  define s1 where "s1 = Joo_uart_send (lit ''__system_reboot'') (s\<lparr>g_web_config := cfg, user_flash := fl\<rparr>)"
  have len1: "length (at_rsp s1) = 96" using assms(1) by (simp add: s1_def Joo_uart_send_def sizeof_at_rsp_def)
  let ?mode = "if reports 13 ''+ok=Enable'' (fvew_answer b) then STA_ETH_MODE
      else if reports 8 ''+ok=STA'' (wmode_answer b) then STA_WIFI_MODE else AP_MODE"
  obtain s2 where s2: "detect_mode b s1 = Some s2" "operation_mode s2 = ?mode" "length (at_rsp s2) = 96"
  proof -
    obtain t sent buf where q: "at_query ''AT+FVEW'' 13 (fvew_answer b) s1 = Some (t, s1\<lparr>at_sent := sent, at_rsp := buf\<rparr>)"
      "length buf = 96" "has_sub t (lit ''+ok=Enable'') \<longleftrightarrow> reports 13 ''+ok=Enable'' (fvew_answer b)"
      by (rule at_query_reports [OF len1 assms(5), where n = 13 and w = "''+ok=Enable''" and cmd = "''AT+FVEW''", OF _ list.distinct(2)]) (simp, rule that)
    have len2: "length (at_rsp (s1\<lparr>at_sent := sent, at_rsp := buf\<rparr>)) = 96" using q(2) by simp
    obtain u sent' buf' where w: "at_query ''AT+WMODE'' 8 (wmode_answer b) (s1\<lparr>at_sent := sent, at_rsp := buf\<rparr>) =
      Some (u, s1\<lparr>at_sent := sent, at_rsp := buf, at_sent := sent', at_rsp := buf'\<rparr>)"
      "length buf' = 96" "has_sub u (lit ''+ok=STA'') \<longleftrightarrow> reports 8 ''+ok=STA'' (wmode_answer b)"
      by (rule at_query_reports [OF len2 assms(6), where n = 8 and w = "''+ok=STA''" and cmd = "''AT+WMODE''", OF _ list.distinct(2)]) (simp, rule that)
    show thesis
    proof (cases "has_sub t (lit ''+ok=Enable'')")
      case True
      then show thesis using that q by (simp add: detect_mode_def del: lit_simps)
    next
      case False
      then show thesis using that q w by (cases "has_sub u (lit ''+ok=STA'')") (simp_all add: detect_mode_def del: lit_simps)
    qed
  qed
  obtain t sent buf where q: "at_query ''AT+UART'' 13 (uart_answer b) s2 = Some (t, s2\<lparr>at_sent := sent, at_rsp := buf\<rparr>)"
    "has_sub t (lit ''+ok=230400'') \<longleftrightarrow> reports 13 ''+ok=230400'' (uart_answer b)"
    by (rule at_query_reports [OF s2(3) assms(7), where n = 13 and w = "''+ok=230400''" and cmd = "''AT+UART''", OF _ list.distinct(2)]) (simp, rule that)
  let ?up = "reports 13 ''+ok=230400'' (uart_answer b) \<and> client_thread_ret b = 0 \<and> server_thread_ret b = 0"
  obtain r u where u: "check_uart b s2 = Some (r, u)" "operation_mode u = operation_mode s2" "r = Main_loop \<longleftrightarrow> ?up"
  proof (cases "fst (uart_answer b) = 0 \<and> has_sub t (lit ''+ok=230400'')")
    case True
    then show thesis using that q
      by (cases "client_thread_ret b = 0"; cases "server_thread_ret b = 0") (simp_all add: check_uart_def HF_SUCCESS_def del: lit_simps)
  next
    case False
    then show thesis using that q
      by (cases "fst (uart_answer b) = 0") (auto simp: check_uart_def HF_SUCCESS_def hfat_send_cmd_def reports_def simp del: lit_simps)
  qed
  have "boot env b s = Some (r, u)"
  proof -
    have up: "\<not> (gpio_map_check b \<noteq> 0 \<or> True \<notin> set (wifi_active b))" using assms(2,3) by simp
    show ?thesis
      unfolding boot_def if_not_P [OF up] init bind.bind_lunit s1_def [symmetric] s2(1) u(1) ..
  qed
  then show ?thesis using u(2,3) unfolding s2(2) by (intro exI [of _ r] exI [of _ u] conjI)
qed

section \<open>A sample module\<close>

definition sample_main_env :: "bytes main_env" where
  "sample_main_env = client_env.extend sample_client_env (main_env.fields (\<lambda>_. lit ''6''))"

definition sample_main :: "int \<Rightarrow> bytes main_state" where
  "sample_main mode = client_state.extend (sample_clients\<lparr>operation_mode := mode, user_flash := replicate 4096 0xff\<rparr>)
     (main_state.fields (replicate 96 0) (replicate 1024 0) 0 0 [])"

lemma sample_main_simps [simp]:
  "g_web_config (sample_main mode) = replicate sizeof_WEB_DATA_T 0" "artnet_enable (sample_main mode) = 1"
  "operation_mode (sample_main mode) = mode" "at_rsp (sample_main mode) = replicate 96 0"
  "at_scan_rsp (sample_main mode) = replicate 1024 0" "ipAddress (sample_main mode) = [10, 10, 100, 254]"
  "get_ap_wln_channel (sample_main mode) = 0" "samd_locked (sample_main mode) = False" "arrivals (sample_main mode) = []"
  "outputs (sample_main mode) = []" "user_flash (sample_main mode) = replicate 4096 0xff"
  by (simp_all add: sample_main_def client_state.defs main_state.defs sample_clients_def)

lemma sample_main_env_simps [simp]:
  "CFG_str2id sample_main_env = CFG_str2id sample_env"
  "CFG_get_str sample_main_env = (\<lambda>_. lit ''6'')"
  "hfuflash_read sample_main_env = hfuflash_read nor_flash"
  by (simp_all add: sample_main_env_def client_env.defs main_env.defs sample_client_env_def sample_env_def)

lemma sample_main_ok: "settings_ok (sample_main mode)" "str2id_ok sample_main_env" "web_ok (g_web_config (sample_main mode))"
proof -
  show "str2id_ok sample_main_env" using sample_env_ok(2) by (simp add: str2id_ok_def)
  show web: "web_ok (g_web_config (sample_main mode))" using zero_record_ok by simp
  have "calm (sample_main mode)"
    by (simp add: calm_def samd_ok_def sample_main_def client_state.defs main_state.defs sample_clients_def)
  then show "settings_ok (sample_main mode)" using web by (simp add: settings_ok_def sizeof_at_rsp_def)
qed

lemma zero_setting:
  assumes "get_switch cid = Some (f, b)" and "f \<in> set str_fields"
  shows "get_setting cid (replicate sizeof_WEB_DATA_T 0) = lit ''0''"
proof -
  have "foff f < sizeof_WEB_DATA_T" by (cases f rule: wfield.exhaust) (simp_all add: sizeof_WEB_DATA_T_def)
  then have "str_at (replicate sizeof_WEB_DATA_T 0) (foff f) = Some []" by (simp add: str_at_def c_str_replicate)
  then show ?thesis using assms(1) by (simp add: get_setting_def ratpac_get_str_def cut_def split: option.split)
qed

lemma zero_numbers:
  "number_of CFG_AKS_CHANNEL_WIDTH (replicate sizeof_WEB_DATA_T 0) = 0"
  "number_of CFG_AKS_SECOND_CHANNEL (replicate sizeof_WEB_DATA_T 0) = 0"
  using zero_setting [OF loop_switches(1)] zero_setting [OF loop_switches(2)]
  by (simp_all add: number_of_def set_str_fields char_atoi_def atoi_def is_space_def is_digit_def clamp32_def)

theorem lamps_avoid_wifi_witness:
  "\<exists>blocked. blocked_channels sample_main_env 6 (sample_main AP_MODE) = Some blocked \<and>
     bit (timo_frame 3 blocked ! 33) 5 \<and> \<not> bit (timo_frame 3 blocked ! 33) 4"
proof -
  have six: "schar 6 = 6" "schar 0 = 0" by (simp_all add: schar_def)
  obtain bl where f: "blocked_channels sample_main_env 6 (sample_main AP_MODE) = Some bl"
    "\<forall>k<88. bit (timo_frame 3 bl ! (29 + k div 8)) (k mod 8) \<longleftrightarrow> busy 6 0 (int k) \<or> busy 0 0 (int k)"
    using lamps_avoid_wifi [of "sample_main AP_MODE" sample_main_env 6] sample_main_ok
    by (auto simp: zero_numbers)
  then show ?thesis using f(2) [rule_format, of 37] f(2) [rule_format, of 36] six by (auto simp: busy_def)
qed

theorem dhcp_address_read_witness:
  "\<exists>t u. read_address (0, lit ''+ok='' @ dotted_quad [10, 10, 100, 254] @ 44 # lit ''255.255.255.0'' @ [0]) (sample_main AP_MODE) = Some t \<and>
     own_ip_text t = dotted_quad [10, 10, 100, 254] \<and>
     read_address (0, lit ''+ok=STATIC,'' @ dotted_quad [192, 168, 1, 5] @ 44 # [] @ [0]) (sample_main STA_WIFI_MODE) = Some u \<and>
     ipAddress u = [0, 192, 168, 1]"
proof -
  have p: "plain_rest (lit ''255.255.255.0'')" "plain_rest []" by (simp_all add: plain_rest_def is_digit_def)
  have l: "length (at_rsp (sample_main mode)) = 96" for mode by simp
  have n: "list_all (\<lambda>n. n < 256) [10, 10, 100, 254 :: nat]" "list_all (\<lambda>n. n < 256) [192, 168, 1, 5 :: nat]" by simp_all
  show ?thesis using dhcp_address_read [OF l n(1) p(1), of "lit ''+ok=''" AP_MODE sample_client_env]
      dhcp_address_read [OF l n(2) p(2), of "lit ''+ok=STATIC,''" STA_WIFI_MODE sample_client_env]
    by auto
qed


theorem timo_power_overruns_witness:
  "main_round sample_main_env (1, []) (1, []) (sample_main AP_MODE) = None"
  using timo_power_overruns [OF sample_main_ok(3,2), of AP_MODE "(1, [])" "(1, [])"] by simp

theorem scan_reads_last_digit_witness:
  "\<exists>t. station_channel (0, [] @ dec_nat 11 @ 44 # SSID_STR @ [] @ [0]) (sample_main STA_WIFI_MODE) = Some (1, t)"
  using scan_reads_last_digit [of "sample_main STA_WIFI_MODE" "[]" "[]" 11]
  by (auto simp: sizeof_at_scan_rsp_def plain_rest_def)

theorem led_colour_sent_witness:
  "\<exists>cfg f. colour_frame cfg = Some f \<and> take 3 (drop 18 f) = [0x1e, 0xe7, 0xe8]"
proof -
  obtain d where d: "web_ok d" "\<And>f. f \<in> set str_fields \<Longrightarrow> map_of (rev (default_settings [])) f = Some (field_str d f)"
    by (rule default_config_view [of "[]"]) blast
  have "field_str d W_led_color = hex2 0x1e @ hex2 0xe7 @ hex2 0xe8"
    using d(2) [of W_led_color] by (simp add: default_settings_def set_str_fields hex2_def hexarr_def)
  then show ?thesis using led_colour_sent [OF d(1)] by blast
qed

theorem boot_outcome_witness:
  "\<exists>t. boot sample_main_env \<lparr>gpio_map_check = 0, wifi_active = [False, True], fvew_answer = (0, lit ''+ok=Disable'' @ [0]),
      wmode_answer = (0, lit ''+ok=STA'' @ [0]), uart_answer = (0, lit ''+ok=230400,8,1,NONE'' @ [0]), set_uart_answer = (0, []),
      client_thread_ret = 0, server_thread_ret = 0\<rparr> (sample_main AP_MODE) = Some (Main_loop, t) \<and>
    operation_mode t = STA_WIFI_MODE"
proof -
  let ?b = "\<lparr>gpio_map_check = 0, wifi_active = [False, True], fvew_answer = (0, lit ''+ok=Disable'' @ [0]),
      wmode_answer = (0, lit ''+ok=STA'' @ [0]), uart_answer = (0, lit ''+ok=230400,8,1,NONE'' @ [0]), set_uart_answer = (0, []),
      client_thread_ret = 0, server_thread_ret = 0\<rparr> :: boot_input"
  have tx: "text_answer (0, lit w @ [0]) \<longleftrightarrow> (\<exists>t. lit w @ [0] = t @ [0] \<and> is_cstr t)" for w by (simp add: text_answer_def)
  have t: "text_answer (fvew_answer ?b)" "text_answer (wmode_answer ?b)" "text_answer (uart_answer ?b)"
    unfolding boot_input.select_convs tx by (rule exI, rule conjI, rule refl, simp)+
  have r: "\<not> reports 13 ''+ok=Enable'' (fvew_answer ?b)" "reports 8 ''+ok=STA'' (wmode_answer ?b)"
    "reports 13 ''+ok=230400'' (uart_answer ?b)"
    by (simp_all add: reports_def has_sub_def is_prefix_def)
  have l: "length (hfuflash_read sample_main_env WEB_DATA_FLASH_ADDR sizeof_WEB_DATA_T (user_flash (sample_main AP_MODE))) = sizeof_WEB_DATA_T"
    by (simp add: nor_flash_def WEB_DATA_FLASH_ADDR_def sizeof_WEB_DATA_T_def)
  obtain x t where xt: "boot sample_main_env ?b (sample_main AP_MODE) = Some (x, t)" "operation_mode t = STA_WIFI_MODE" "x = Main_loop"
    using boot_outcome [of "sample_main AP_MODE" ?b sample_main_env, OF _ _ _ l t] r
    by (auto simp: sizeof_at_rsp_def simp del: lit_simps)
  then show ?thesis by blast
qed
end
