(* ===== verification/ImageTools.thy ===== *)
theory ImageTools
  imports AtCommands
begin

text \<open>
  The host programs that finish a firmware image: \<^verbatim>\<open>src/scripts/imghdr/imghdr.c\<close> and
  \<^verbatim>\<open>imghdr_bn.c\<close> fill in the header at the start of the compressed image and make the sum of its words
  zero, \<^verbatim>\<open>src/scripts/HfMkImage/HfMkImage.c\<close> appends the profile area with its own checksum.

  The host has 32-bit \<open>int\<close> and is little-endian, and image sizes are below \<open>2 ^ 31\<close>. A file system maps
  names to contents; \<open>host\<close> says which files can be opened, how much memory there is and how many bytes
  a final \<open>fwrite\<close> manages to write. The messages the programs print are not modelled. The layout is that of
  \<open>fmw_hdr\<close> in \<^verbatim>\<open>src/include/cfg_hdr.h\<close>.
\<close>

type_synonym file_system = "bytes \<Rightarrow> bytes option"

record host =
  can_read :: "bytes \<Rightarrow> bool"
  can_write :: "bytes \<Rightarrow> bool"
  can_alloc :: "nat \<Rightarrow> bool"
  write_limit :: nat

section \<open>The header of an image\<close>

definition hdr_flags :: nat where "hdr_flags = 12"
definition hdr_ver :: nat where "hdr_ver = 16"
definition hdr_size :: nat where "hdr_size = 24"
definition hdr_timestamp :: nat where "hdr_timestamp = 28"
definition hdr_chksum :: nat where "hdr_chksum = 32"
definition hdr_desc :: nat where "hdr_desc = 40"
definition sizeof_desc :: nat where "sizeof_desc = 24"

definition COMP_GZIP :: byte where "COMP_GZIP = 1"
definition CHKSUM_SUM :: byte where "CHKSUM_SUM = 1"

text \<open>The bit-fields \<open>comp\<close> (bits 0 to 2) and \<open>chksum\<close> (bits 3 to 5) of the first byte of \<open>flags\<close>.\<close>

definition put_flags :: "byte \<Rightarrow> byte \<Rightarrow> byte \<Rightarrow> byte" where
  "put_flags cmp chksum b = ((b AND 0xf8 OR (cmp AND 7)) AND 0xc7) OR push_bit 3 (chksum AND 7)"

text \<open>\<open>sscanf\<close> with \<open>%x\<close> and \<open>%u\<close>: the conversion is done in 64 bits, where it saturates, and stored in an
  \<open>unsigned int\<close>; without digits the variable keeps its 0.\<close>

definition host_unsigned :: "bool \<Rightarrow> int \<Rightarrow> u32" where
  "host_unsigned neg n = word_of_int (if n \<ge> 2 ^ 64 then 2 ^ 64 - 1 else if neg then - n else n)"

definition sscanf_x :: "bytes \<Rightarrow> u32" where
  "sscanf_x s = (case dropWhile is_space s of
       [] \<Rightarrow> 0
     | b # t \<Rightarrow>
        let u = (if b = 45 \<or> b = 43 then t else b # t);
            digits = (if length u \<ge> 2 \<and> u ! 0 = 48 \<and> (u ! 1 = 120 \<or> u ! 1 = 88) then drop 2 u else u)
        in host_unsigned (b = 45) (hex_val 0 digits))"

definition sscanf_u :: "bytes \<Rightarrow> u32" where
  "sscanf_u s = (case dropWhile is_space s of
       [] \<Rightarrow> 0
     | b # t \<Rightarrow> host_unsigned (b = 45) (digits_val 0 (if b = 45 \<or> b = 43 then t else b # t)))"

text \<open>The sum over the words at the start of a buffer; \<open>swap\<close> is what is applied to each word.\<close>

primrec add_words :: "(u32 \<Rightarrow> u32) \<Rightarrow> nat \<Rightarrow> u32 \<Rightarrow> bytes \<Rightarrow> u32" where
  "add_words swap 0 ck m = ck"
| "add_words swap (Suc k) ck m = add_words swap k (ck + swap (ld32 m 0)) (drop 4 m)"

definition padded :: "nat \<Rightarrow> nat" where
  "padded len = (len + 3) div 4 * 4"

definition finish_image :: "(u32 \<Rightarrow> u32) \<Rightarrow> u32 \<Rightarrow> u32 \<Rightarrow> bytes \<Rightarrow> nat \<Rightarrow> bytes \<Rightarrow> bytes" where
  "finish_image swap ver bt info len fbuf =
    (let len = padded len;
         ver = htonl ver;
         fbuf = poke hdr_desc (take sizeof_desc (info @ replicate sizeof_desc 0)) fbuf;
         fbuf = fbuf[hdr_desc + sizeof_desc - 1 := 0];
         fbuf = poke hdr_ver (le32 (swap ver)) fbuf;
         fbuf = poke hdr_timestamp (le32 (swap bt)) fbuf;
         fbuf = poke hdr_size (le32 (swap (word_of_nat len))) fbuf;
         fbuf = fbuf[hdr_flags := put_flags COMP_GZIP CHKSUM_SUM (fbuf ! hdr_flags)];
         fbuf = poke hdr_chksum (le32 0) fbuf;
         chksum = add_words swap (len div 4) 0 fbuf;
         chksum = (chksum XOR 0xffffffff) + 1;
         fbuf = poke hdr_chksum (le32 (swap chksum)) fbuf
     in take len fbuf)"

text \<open>\<open>build_hdr\<close> runs into its error exit also after success; every path returns -1.\<close>

definition build_hdr_with :: "(u32 \<Rightarrow> u32) \<Rightarrow> host \<Rightarrow> bytes \<Rightarrow> bytes \<Rightarrow> bytes \<Rightarrow> bytes \<Rightarrow> bytes \<Rightarrow>
    file_system \<Rightarrow> int \<times> file_system" where
  "build_hdr_with swap host infile outfile vstr btstr info fs =
    (case fs infile of
       None \<Rightarrow> (-1, fs)
     | Some c \<Rightarrow>
        if length c = 0 then (-1, fs)
        else if \<not> can_read host infile then (-1, fs)
        else if \<not> can_write host outfile then (-1, fs)
        else
          let fs = fs(outfile \<mapsto> []);
              len = length c
          in if \<not> can_alloc host (len + 256) then (-1, fs)
             else
               let c = the (fs infile)
               in if length c < len then (-1, fs)
                  else
                    let img = finish_image swap (sscanf_x vstr) (sscanf_u btstr) info len
                                (c @ replicate 256 0)
                    in (-1, fs(outfile \<mapsto> take (write_limit host) img)))"

definition build_hdr :: "host \<Rightarrow> bytes \<Rightarrow> bytes \<Rightarrow> bytes \<Rightarrow> bytes \<Rightarrow> bytes \<Rightarrow> file_system \<Rightarrow> int \<times> file_system" where
  "build_hdr = build_hdr_with (\<lambda>w. w)"

definition build_hdr_bn :: "host \<Rightarrow> bytes \<Rightarrow> bytes \<Rightarrow> bytes \<Rightarrow> bytes \<Rightarrow> bytes \<Rightarrow> file_system \<Rightarrow> int \<times> file_system" where
  "build_hdr_bn = build_hdr_with htonl"

text \<open>The exit status of \<open>main\<close>; \<open>usage\<close> ends the program with 2.\<close>

definition usage :: int where "usage = 2"

definition imghdr_main :: "host \<Rightarrow> bytes list \<Rightarrow> file_system \<Rightarrow> int \<times> file_system" where
  "imghdr_main host argv fs =
    (if length argv \<noteq> 6 then (usage, fs)
     else
       let (r, fs) = build_hdr host (argv ! 1) (argv ! 2) (argv ! 3) (argv ! 4) (argv ! 5) fs
       in (if r < 0 then -1 else 0, fs))"

definition imghdr_bn_main :: "host \<Rightarrow> bytes list \<Rightarrow> file_system \<Rightarrow> int \<times> file_system" where
  "imghdr_bn_main host argv fs =
    (if length argv \<noteq> 6 then (usage, fs)
     else
       let (r, fs) = build_hdr_bn host (argv ! 1) (argv ! 2) (argv ! 3) (argv ! 4) (argv ! 5) fs
       in (if r < 0 then -1 else 0, fs))"

section \<open>The profile area\<close>

definition MAX_PROFILE_SIZE :: nat where "MAX_PROFILE_SIZE = 15 * 1024"
definition HDR_SIZE :: nat where "HDR_SIZE = 32"

definition chk_sum :: "bytes \<Rightarrow> nat \<Rightarrow> u32" where
  "chk_sum p len = add_words (\<lambda>w. w) (len div 4) 0 p"

definition be32_bytes :: "u32 \<Rightarrow> bytes" where
  "be32_bytes w = [ucast (drop_bit 24 w), ucast (drop_bit 16 w), ucast (drop_bit 8 w), ucast w]"

text \<open>An unknown size of the flash leaves the default.\<close>

definition dst_image_size :: "bytes \<Rightarrow> nat" where
  "dst_image_size mb =
    (if mb = lit ''1M'' then (704 - 1) * 1024
     else if mb = lit ''2M'' then (832 - 1) * 1024
     else if mb = lit ''4M'' then (832 - 1) * 1024
     else 704 * 1024)"

definition profile_area :: "nat \<Rightarrow> bytes \<Rightarrow> bytes" where
  "profile_area max_profile_size profile =
    (let area = max_profile_size - MAX_PROFILE_SIZE;
         data = replicate max_profile_size 0xff;
         data = poke area (replicate MAX_PROFILE_SIZE 0) data;
         data = poke (area + 32) (take MAX_PROFILE_SIZE profile) data;
         cfg_len = MAX_PROFILE_SIZE - HDR_SIZE - 16;
         check_sum = chk_sum (drop (area + 32) data) cfg_len;
         hdr = be32_bytes check_sum @ be32_bytes (word_of_nat cfg_len) @ lit ''dcfg'' @ replicate 20 0
     in poke area hdr data)"

text \<open>\<open>fopen (image, "a")\<close> creates the image when there is none; what is written is appended.\<close>

definition HfMkImage_main :: "host \<Rightarrow> bytes list \<Rightarrow> file_system \<Rightarrow> int \<times> file_system" where
  "HfMkImage_main host argv fs =
    (if length argv < 7 then (1, fs)
     else
       let image = argv ! 2; profile = argv ! 4
       in if \<not> can_write host image then (1, fs)
          else
            let fs = (if fs image = None then fs(image \<mapsto> []) else fs)
            in if fs profile = None \<or> \<not> can_read host profile then (1, fs)
               else
                 let image_file_size = length (the (fs image)); profile_size = length (the (fs profile))
                 in if profile_size + HDR_SIZE + 16 > MAX_PROFILE_SIZE then (1, fs)
                    else
                      let max_profile_size = int (dst_image_size (argv ! 6)) - int image_file_size
                      in if max_profile_size \<le> int MAX_PROFILE_SIZE then (0, fs)
                         else if \<not> can_alloc host (nat max_profile_size) then (0, fs)
                         else
                           let data = profile_area (nat max_profile_size) (the (fs profile))
                           in (0, fs(image \<mapsto> the (fs image) @ take (write_limit host) data)))"

section \<open>Words of an image\<close>

interpretation ck32: checksum_alg "(+) :: u32 \<Rightarrow> u32 \<Rightarrow> u32" 0
  by unfold_locales (simp_all add: ac_simps)

definition words_of :: "(u32 \<Rightarrow> u32) \<Rightarrow> nat \<Rightarrow> bytes \<Rightarrow> u32 list" where
  "words_of swap n m = map (\<lambda>k. swap (ld32 m (4 * k))) [0..<n]"

definition word_sum :: "u32 list \<Rightarrow> u32" where
  "word_sum ws = foldl (+) 0 ws"

lemma ld32_drop: "4 * n + 4 \<le> length m \<Longrightarrow> ld32 (drop (4 * n) m) 0 = ld32 m (4 * n)"
  by (simp add: ld32_def nth_drop)

lemma words_of_Suc: "4 * Suc n \<le> length m \<Longrightarrow> words_of swap (Suc n) m = swap (ld32 m 0) # words_of swap n (drop 4 m)"
proof -
  assume len: "4 * Suc n \<le> length m"
  have "ld32 m (4 * Suc k) = ld32 (drop 4 m) (4 * k)" if "k < n" for k
    using that len by (simp add: ld32_def nth_drop add.commute add.left_commute)
  then show ?thesis unfolding words_of_def upt_conv_Cons [OF zero_less_Suc] map_Suc_upt [symmetric]
    by (simp del: upt_Suc)
qed

lemma add_words_fold: "4 * n \<le> length m \<Longrightarrow> add_words swap n ck m = foldl (+) ck (words_of swap n m)"
proof (induction n arbitrary: ck m)
  case (Suc n)
  have "4 * n \<le> length (drop 4 m)" using Suc.prems by simp
  from Suc.IH [OF this] show ?case using words_of_Suc [OF Suc.prems, of swap] by simp
qed (simp add: words_of_def)

lemma add_words_sum: "4 * n \<le> length m \<Longrightarrow> add_words swap n 0 m = word_sum (words_of swap n m)"
  by (simp add: add_words_fold word_sum_def)

lemma ld32_le32: "i + 4 \<le> length m \<Longrightarrow> ld32 (poke i (le32 w) m) i = w"
proof -
  assume len: "i + 4 \<le> length m"
  have b: "poke i (le32 w) m ! (i + j) = le32 w ! j" if "j < 4" for j
    using len that by (simp add: nth_poke)
  have "ld32 (poke i (le32 w) m) i = ld32 (le32 w) 0"
    using b [of 0] b [of 1] b [of 2] b [of 3] by (simp add: ld32_def numeral_2_eq_2)
  also have "\<dots> = w"
  proof (rule bit_word_eqI)
    fix n assume "n < LENGTH(32)"
    then have "n < 32" by simp
    have l: "le32 w ! 0 = ucast w" "le32 w ! 1 = ucast (drop_bit 8 w)" "le32 w ! 2 = ucast (drop_bit 16 w)"
      "le32 w ! 3 = ucast (drop_bit 24 w)" by (simp_all add: le32_def numeral_2_eq_2 numeral_3_eq_3)
    show "bit (ld32 (le32 w) 0) n = bit w n"
      unfolding ld32_def One_nat_def [symmetric] add_0 l using \<open>n < 32\<close> by (cases rule: quarters) (simp_all add: bit_simps)
  qed
  finally show ?thesis .
qed

lemma ld32_other: "i + length xs \<le> length m \<Longrightarrow> j + 4 \<le> length m \<Longrightarrow> j + 4 \<le> i \<or> i + length xs \<le> j \<Longrightarrow>
    ld32 (poke i xs m) j = ld32 m j"
  by (auto simp: ld32_def nth_poke)

lemma words_of_poke:
  assumes "4 * n \<le> length m" and "k < n"
  shows "words_of swap n (poke (4 * k) (le32 w) m) = (words_of swap n m)[k := swap w]"
proof (rule nth_equalityI)
  fix j assume "j < length (words_of swap n (poke (4 * k) (le32 w) m))"
  then have j: "j < n" by (simp add: words_of_def)
  show "words_of swap n (poke (4 * k) (le32 w) m) ! j = (words_of swap n m)[k := swap w] ! j"
  proof (cases "j = k")
    case True
    then show ?thesis using assms ld32_le32 [of "4 * k" m w] j by (simp add: words_of_def)
  next
    case False
    then have "4 * j + 4 \<le> 4 * k \<or> 4 * k + 4 \<le> 4 * j" by linarith
    moreover have "4 * j + 4 \<le> length m" "4 * k + 4 \<le> length m" using j assms by linarith+
    ultimately have "ld32 (poke (4 * k) (le32 w) m) (4 * j) = ld32 m (4 * j)" by (intro ld32_other) simp_all
    then show ?thesis using False j by (simp add: words_of_def)
  qed
qed (simp add: words_of_def)

lemma words_of_take: "4 * n \<le> len \<Longrightarrow> words_of swap n (take len m) = words_of swap n m"
  by (auto simp: words_of_def ld32_def)

lemma length_words_of [simp]: "length (words_of swap n m) = n"
  by (simp add: words_of_def)

section \<open>The finished image\<close>

lemma htonl_simps [simp]: "htonl 0 = 0" "htonl (htonl w) = w"
proof -
  show "htonl 0 = 0" by (simp add: htonl_def)
  show "htonl (htonl w) = w"
  proof (rule bit_word_eqI)
    fix n assume "n < LENGTH(32)"
    then have "n < 32" by simp
    then show "bit (htonl (htonl w)) n = bit w n"
      by (cases rule: quarters) (simp_all add: htonl_def bit_simps)
  qed
qed

lemma padded_bounds: "len \<le> padded len" "padded len \<le> len + 3" "4 * (padded len div 4) = padded len"
proof -
  show "len \<le> padded len" "padded len \<le> len + 3" unfolding padded_def by linarith+
  show "4 * (padded len div 4) = padded len" by (simp add: padded_def)
qed

definition header_bytes :: "nat set" where
  "header_bytes = {12} \<union> {16..<20} \<union> {24..<36} \<union> {40..<64}"

lemmas header_layout = hdr_flags_def hdr_ver_def hdr_size_def hdr_timestamp_def hdr_chksum_def hdr_desc_def sizeof_desc_def

lemma negated: "(w XOR 0xffffffff) + 1 = - (w :: u32)"
proof -
  have m: "(0xffffffff :: u32) = - 1" by simp
  have x: "w XOR - 1 = NOT w" by (rule bit_word_eqI) (simp add: bit_simps)
  show ?thesis unfolding m x by (simp only: minus_eq_not_plus_1)
qed

lemma nth_poke_other: "i + length xs \<le> length m \<Longrightarrow> j < length m \<Longrightarrow> j < i \<or> i + length xs \<le> j \<Longrightarrow> poke i xs m ! j = m ! j"
  by (auto simp: nth_poke)

lemma finish_image_facts:
  fixes ver bt :: u32 and info :: bytes
  assumes swap: "swap 0 = 0" "\<And>w. swap (swap w) = w" and len: "36 \<le> len" "length c = len"
  defines "img \<equiv> finish_image swap ver bt info len (c @ replicate 256 0)"
  shows "length img = padded len" and "word_sum (words_of swap (padded len div 4) img) = 0"
    and "\<And>i. i < padded len \<Longrightarrow> i \<notin> header_bytes \<Longrightarrow> img ! i = (if i < len then c ! i else 0)"
    and "ld32 img 24 = swap (word_of_nat (padded len))"
proof -
  define n where "n = padded len div 4"
  have n: "4 * n = padded len" "8 < n" using padded_bounds [of len] len(1) by (simp_all add: n_def padded_def)
  define b0 where "b0 = poke hdr_size (le32 (swap (word_of_nat (padded len)))) (poke hdr_timestamp (le32 (swap bt))
    (poke hdr_ver (le32 (swap (htonl ver)))
      ((poke hdr_desc (take sizeof_desc (info @ replicate sizeof_desc 0)) (c @ replicate 256 0))[hdr_desc + sizeof_desc - 1 := 0])))"
  define b1 where "b1 = b0[hdr_flags := put_flags COMP_GZIP CHKSUM_SUM (b0 ! hdr_flags)]"
  define b2 where "b2 = poke hdr_chksum (le32 0) b1"
  define S where "S = word_sum (words_of swap n b2)"
  define b3 where "b3 = poke hdr_chksum (le32 (swap (- S))) b2"
  have lens: "length b0 = len + 256" "length b1 = len + 256" "length b2 = len + 256" "length b3 = len + 256"
    using len by (simp_all add: b0_def b1_def b2_def b3_def header_layout)
  have fits: "4 * n \<le> length b1" "4 * n \<le> length b2" "4 * n \<le> length b3"
    using lens n(1) padded_bounds(2) [of len] by simp_all
  have sum: "add_words swap n 0 b2 = S" using add_words_sum [OF fits(2)] by (simp add: S_def)
  have img: "img = take (padded len) b3"
    unfolding img_def finish_image_def Let_def b0_def [symmetric] b1_def [symmetric] b2_def [symmetric]
      n_def [symmetric] sum negated b3_def ..
  show "length img = padded len" using lens padded_bounds(2) [of len] by (simp add: img)
  have w2: "words_of swap n b2 = (words_of swap n b1)[8 := 0]"
    using words_of_poke [OF fits(1) n(2), of swap 0] swap(1) by (simp add: b2_def hdr_chksum_def)
  have w3: "words_of swap n b3 = (words_of swap n b2)[8 := - S]"
    using words_of_poke [OF fits(2) n(2), of swap "swap (- S)"] swap(2) by (simp add: b3_def hdr_chksum_def)
  have "words_of swap n b2 ! 8 = 0" using n(2) by (simp add: w2)
  then have "word_sum (words_of swap n b3) = - S + S"
    using ck32.sum_replace [of 8 "words_of swap n b2" "- S"] n(2) by (simp add: w3 word_sum_def S_def)
  then show "word_sum (words_of swap (padded len div 4) img) = 0"
    unfolding img n_def [symmetric] words_of_take [OF eq_imp_le [OF n(1)]] by simp
  have unchanged: "b3 ! i = (c @ replicate 256 0) ! i" if i: "i < padded len" "i \<notin> header_bytes" for i
  proof -
    let ?desc = "take sizeof_desc (info @ replicate sizeof_desc 0)"
    have desc: "length ?desc = sizeof_desc" by simp
    have "i < 16 \<or> 20 \<le> i" "i < 24 \<or> 28 \<le> i" "i < 28 \<or> 32 \<le> i" "i < 32 \<or> 36 \<le> i" "i < 40 \<or> 64 \<le> i"
      "i \<noteq> 63" "i \<noteq> 12" "i < len + 256"
      using i padded_bounds(2) [of len] by (auto simp: header_bytes_def)
    then show ?thesis using lens len desc
      by (simp add: b3_def b2_def b1_def b0_def header_layout nth_poke_other del: take_append)
  qed
  show "img ! i = (if i < len then c ! i else 0)" if "i < padded len" "i \<notin> header_bytes" for i
    using unchanged [OF that] that len padded_bounds(2) [of len] by (simp add: img nth_append)
  have "ld32 b3 24 = ld32 b1 24"
    unfolding b3_def b2_def using lens len by (simp add: ld32_other hdr_chksum_def)
  also have "\<dots> = ld32 b0 24"
    using lens len by (simp add: b1_def ld32_def hdr_flags_def)
  also have "\<dots> = swap (word_of_nat (padded len))"
    unfolding b0_def hdr_size_def using len by (intro ld32_le32) (simp add: header_layout)
  finally have "ld32 b3 24 = swap (word_of_nat (padded len))" .
  then show "ld32 img 24 = swap (word_of_nat (padded len))"
    using len padded_bounds(1) [of len] by (simp add: img ld32_def)
qed

text \<open>What both tools promise for an image of at least 36 bytes when the host lets them work: the output file
  holds the padded image, its words add up to zero, replacing any one word makes the sum nonzero, the
  size field holds its length, and everything but the header members is the input.\<close>

definition finished :: "(u32 \<Rightarrow> u32) \<Rightarrow> bytes \<Rightarrow> bytes \<Rightarrow> bool" where
  "finished swap c img \<longleftrightarrow> length img = padded (length c) \<and>
     word_sum (words_of swap (length img div 4) img) = 0 \<and>
     (\<forall>k<length img div 4. \<forall>w. w \<noteq> words_of swap (length img div 4) img ! k \<longrightarrow>
        word_sum ((words_of swap (length img div 4) img)[k := w]) \<noteq> 0) \<and>
     ld32 img hdr_size = swap (word_of_nat (length img)) \<and>
     (\<forall>i<length img. i \<notin> header_bytes \<longrightarrow> img ! i = (if i < length c then c ! i else 0))"

lemma finish_image_finished:
  assumes "swap 0 = 0" and "\<And>w. swap (swap w) = w" and "36 \<le> length c"
  shows "finished swap c (finish_image swap ver bt info (length c) (c @ replicate 256 0))"
proof -
  note facts = finish_image_facts [where swap = swap and len = "length c" and c = c and ver = ver and bt = bt and info = info,
      OF assms(1,2,3) refl]
  let ?ws = "words_of swap (padded (length c) div 4) (finish_image swap ver bt info (length c) (c @ replicate 256 0))"
  have "word_sum (?ws[k := w]) \<noteq> 0" if "k < padded (length c) div 4" "w \<noteq> ?ws ! k" for k w
    using ck32.sum_update_neq [of k ?ws w] that facts(2) by (simp add: word_sum_def)
  then show ?thesis unfolding finished_def facts(1) hdr_size_def using facts(2-4) by blast
qed

lemma build_hdr_with_done:
  assumes "fs infile = Some c" and "36 \<le> length c" and "infile \<noteq> outfile" and "can_read host infile" and "can_write host outfile"
    and "can_alloc host (length c + 256)" and "padded (length c) \<le> write_limit host"
    and "swap 0 = 0" and "\<And>w. swap (swap w) = w"
  shows "\<exists>img. build_hdr_with swap host infile outfile vstr btstr info fs = (-1, fs(outfile \<mapsto> img)) \<and> finished swap c img"
proof -
  let ?img = "finish_image swap (sscanf_x vstr) (sscanf_u btstr) info (length c) (c @ replicate 256 0)"
  have fin: "finished swap c ?img" by (rule finish_image_finished [OF assms(8,9,2)])
  then have "take (write_limit host) ?img = ?img" using assms(7) by (simp add: finished_def)
  moreover have "c \<noteq> []" using assms(2) by auto
  ultimately have "build_hdr_with swap host infile outfile vstr btstr info fs = (-1, fs(outfile \<mapsto> ?img))"
    using assms(1,3-6) by (simp add: build_hdr_with_def Let_def)
  then show ?thesis using fin by blast
qed

text \<open>
  C26. \<open>imghdr\<close> writes an image whose 32-bit words add up to zero, so that the loader notices any single
  changed word; apart from the members of the header it is the input, padded with zeros to a multiple of
  four, and the size is in the header. The program nevertheless reports failure.
\<close>

theorem imghdr_sum_zero:
  assumes "fs infile = Some c" and "36 \<le> length c" and "infile \<noteq> outfile" and "can_read host infile" and "can_write host outfile"
    and "can_alloc host (length c + 256)" and "padded (length c) \<le> write_limit host"
  shows "\<exists>img. imghdr_main host [prog, infile, outfile, vstr, btstr, info] fs = (-1, fs(outfile \<mapsto> img)) \<and>
    finished (\<lambda>w. w) c img"
  using build_hdr_with_done [where swap = "\<lambda>w. w" and fs = fs and infile = infile and outfile = outfile and c = c and host = host
      and vstr = vstr and btstr = btstr and info = info, OF assms]
  by (auto simp: imghdr_main_def build_hdr_def)

text \<open>
  \<open>imghdr_bn\<close> does the same for a big-endian target: the words, read in the other byte order, add up
  to zero.
\<close>

theorem imghdr_bn_sum_zero:
  assumes "fs infile = Some c" and "36 \<le> length c" and "infile \<noteq> outfile" and "can_read host infile" and "can_write host outfile"
    and "can_alloc host (length c + 256)" and "padded (length c) \<le> write_limit host"
  shows "\<exists>img. imghdr_bn_main host [prog, infile, outfile, vstr, btstr, info] fs = (-1, fs(outfile \<mapsto> img)) \<and>
    finished htonl c img"
  using build_hdr_with_done [where swap = htonl and fs = fs and infile = infile and outfile = outfile and c = c and host = host
      and vstr = vstr and btstr = btstr and info = info, OF assms]
  by (auto simp: imghdr_bn_main_def build_hdr_bn_def)

section \<open>The profile area\<close>

lemma profile_area_eq:
  assumes "MAX_PROFILE_SIZE < m" and "length p \<le> MAX_PROFILE_SIZE - HDR_SIZE - 16"
  defines "cfg \<equiv> p @ replicate (MAX_PROFILE_SIZE - HDR_SIZE - length p) 0"
  shows "profile_area m p = replicate (m - MAX_PROFILE_SIZE) 0xff @
    be32_bytes (word_sum (words_of (\<lambda>w. w) 3828 cfg)) @ be32_bytes 15312 @ lit ''dcfg'' @ replicate 20 0 @ cfg"
proof -
  define area where "area = m - 15360"
  have m: "m = area + 15360" and p: "length p \<le> 15312"
    using assms(1,2) by (simp_all add: area_def MAX_PROFILE_SIZE_def HDR_SIZE_def)
  have cfg: "cfg = p @ replicate (15328 - length p) 0" by (simp add: cfg_def MAX_PROFILE_SIZE_def HDR_SIZE_def)
  have len: "length cfg = 15328" using p by (simp add: cfg)
  let ?ff = "replicate area (0xff :: byte)"
  have d1: "poke area (replicate 15360 0) (replicate m 0xff) = ?ff @ replicate 15360 0"
    by (simp add: poke_def m replicate_add)
  have "(replicate 15360 0 :: bytes) = replicate 32 0 @ replicate 15328 0" by (simp flip: replicate_add)
  then have d2: "poke (area + 32) (take 15360 p) (?ff @ replicate 15360 0) = ?ff @ replicate 32 0 @ cfg"
    using p by (simp add: poke_def cfg)
  have sum: "chk_sum cfg 15312 = word_sum (words_of (\<lambda>w. w) 3828 cfg)"
    using add_words_sum [of 3828 cfg "\<lambda>w. w"] len by (simp add: chk_sum_def)
  let ?hdr = "be32_bytes (word_sum (words_of (\<lambda>w. w) 3828 cfg)) @ be32_bytes 15312 @ lit ''dcfg'' @ replicate 20 0"
  have "length ?hdr = 32" by (simp add: be32_bytes_def)
  then have "poke area ?hdr (?ff @ replicate 32 0 @ cfg) = ?ff @ ?hdr @ cfg" by (simp add: poke_def)
  then show ?thesis
    unfolding profile_area_def Let_def
    by (simp add: MAX_PROFILE_SIZE_def HDR_SIZE_def area_def [symmetric] d1 d2 sum del: lit_simps append_assoc)
qed

text \<open>
  \<open>HfMkImage\<close> fills the image up to the size for the flash with \<open>0xff\<close> and puts the profile, padded with
  zeros, into the last 15 KiB, behind a header of its checksum, its length and \<open>dcfg\<close>.
\<close>

theorem profile_appended:
  assumes "fs image' = Some img" and "fs profile = Some p" and "can_write host image'" and "can_read host profile"
    and "length p + HDR_SIZE + 16 \<le> MAX_PROFILE_SIZE" and "length img + MAX_PROFILE_SIZE < dst_image_size mb"
    and "can_alloc host (dst_image_size mb - length img)" and "dst_image_size mb \<le> write_limit host"
  defines "cfg \<equiv> p @ replicate (MAX_PROFILE_SIZE - HDR_SIZE - length p) 0"
  shows "\<exists>out. HfMkImage_main host [prog, o1, image', o2, profile, o3, mb] fs = (0, fs(image' \<mapsto> out)) \<and>
    length out = dst_image_size mb \<and>
    out = img @ replicate (dst_image_size mb - length img - MAX_PROFILE_SIZE) 0xff @
      be32_bytes (word_sum (words_of (\<lambda>w. w) 3828 cfg)) @ be32_bytes 15312 @ lit ''dcfg'' @ replicate 20 0 @ cfg"
proof -
  let ?m = "dst_image_size mb - length img"
  let ?data = "profile_area ?m p"
  have m: "MAX_PROFILE_SIZE < ?m" using assms(6) by simp
  have p: "length p \<le> MAX_PROFILE_SIZE - HDR_SIZE - 16" using assms(5) by simp
  note area = profile_area_eq [OF m p, folded cfg_def]
  have len: "length ?data = ?m"
    using m p by (simp add: area cfg_def be32_bytes_def MAX_PROFILE_SIZE_def HDR_SIZE_def)
  have max: "nat (int (dst_image_size mb) - int (length img)) = ?m" by linarith
  have room: "\<not> int (dst_image_size mb) - int (length img) \<le> int MAX_PROFILE_SIZE" using assms(6) by linarith
  have whole: "take (write_limit host) ?data = ?data" using len assms(8) by simp
  have "HfMkImage_main host [prog, o1, image', o2, profile, o3, mb] fs = (0, fs(image' \<mapsto> img @ ?data))"
    unfolding HfMkImage_main_def using assms(1-5,7) room whole by (simp add: Let_def max)
  moreover have "length (img @ ?data) = dst_image_size mb" using len assms(6) by simp
  ultimately show ?thesis using area by (intro exI [of _ "img @ ?data"]) simp
qed

text \<open>
  \<open>HfMkImage\<close> ends with the status 0 and leaves the image as it is when the image is too big for the
  flash: the build goes on with an image that has no profile.
\<close>

theorem too_big_image_accepted:
  assumes "fs image' = Some img" and "fs profile = Some p" and "can_write host image'" and "can_read host profile"
    and "length p + HDR_SIZE + 16 \<le> MAX_PROFILE_SIZE" and "dst_image_size mb \<le> length img + MAX_PROFILE_SIZE"
  shows "HfMkImage_main host [prog, o1, image', o2, profile, o3, mb] fs = (0, fs)"
  unfolding HfMkImage_main_def using assms by (simp add: Let_def)

section \<open>Witnesses\<close>

lemma finished_sum: "finished swap c img \<Longrightarrow> length img = padded (length c) \<and> word_sum (words_of swap (padded (length c) div 4) img) = 0"
  unfolding finished_def by metis

definition sample_host :: host where
  "sample_host = \<lparr>can_read = (\<lambda>_. True), can_write = (\<lambda>_. True), can_alloc = (\<lambda>_. True), write_limit = 10 ^ 6\<rparr>"

theorem imghdr_sum_zero_witness:
  "\<exists>img. imghdr_main sample_host [lit ''imghdr'', lit ''in'', lit ''out'', lit ''0x0100'', lit ''7'', lit ''A21'']
      [lit ''in'' \<mapsto> replicate 70 1] = (-1, [lit ''in'' \<mapsto> replicate 70 1, lit ''out'' \<mapsto> img]) \<and>
    length img = 72 \<and> word_sum (words_of (\<lambda>w. w) 18 img) = 0"
proof -
  have "lit ''in'' \<noteq> lit ''out''" by simp
  then obtain img where "imghdr_main sample_host [lit ''imghdr'', lit ''in'', lit ''out'', lit ''0x0100'', lit ''7'', lit ''A21'']
      [lit ''in'' \<mapsto> replicate 70 1] = (-1, [lit ''in'' \<mapsto> replicate 70 1, lit ''out'' \<mapsto> img])" "finished (\<lambda>w. w) (replicate 70 1) img"
    using imghdr_sum_zero [of "[lit ''in'' \<mapsto> replicate 70 1]" "lit ''in''" "replicate 70 1" "lit ''out''" sample_host
        "lit ''imghdr''" "lit ''0x0100''" "lit ''7''" "lit ''A21''"]
    by (auto simp: sample_host_def padded_def simp del: lit_simps)
  moreover have "length img = 72" "word_sum (words_of (\<lambda>w. w) 18 img) = 0"
    using finished_sum [OF calculation(2)] by (simp_all add: padded_def)
  ultimately show ?thesis by (intro exI [of _ img]) (simp del: lit_simps)
qed

theorem imghdr_bn_sum_zero_witness:
  "\<exists>img. imghdr_bn_main sample_host [lit ''imghdr'', lit ''in'', lit ''out'', lit ''0x0100'', lit ''7'', lit ''A21'']
      [lit ''in'' \<mapsto> replicate 64 1] = (-1, [lit ''in'' \<mapsto> replicate 64 1, lit ''out'' \<mapsto> img]) \<and>
    length img = 64 \<and> word_sum (words_of htonl 16 img) = 0"
proof -
  have "lit ''in'' \<noteq> lit ''out''" by simp
  then obtain img where "imghdr_bn_main sample_host [lit ''imghdr'', lit ''in'', lit ''out'', lit ''0x0100'', lit ''7'', lit ''A21'']
      [lit ''in'' \<mapsto> replicate 64 1] = (-1, [lit ''in'' \<mapsto> replicate 64 1, lit ''out'' \<mapsto> img])" "finished htonl (replicate 64 1) img"
    using imghdr_bn_sum_zero [of "[lit ''in'' \<mapsto> replicate 64 1]" "lit ''in''" "replicate 64 1" "lit ''out''" sample_host
        "lit ''imghdr''" "lit ''0x0100''" "lit ''7''" "lit ''A21''"]
    by (auto simp: sample_host_def padded_def simp del: lit_simps)
  moreover have "length img = 64" "word_sum (words_of htonl 16 img) = 0"
    using finished_sum [OF calculation(2)] by (simp_all add: padded_def)
  ultimately show ?thesis by (intro exI [of _ img]) (simp del: lit_simps)
qed

theorem profile_appended_witness:
  "\<exists>out. HfMkImage_main sample_host (map lit [''HfMkImage'', ''-i'', ''i'', ''-p'', ''p'', ''-f'', ''1M''])
      [lit ''i'' \<mapsto> [1], lit ''p'' \<mapsto> [2]] = (0, [lit ''i'' \<mapsto> [1], lit ''p'' \<mapsto> [2]](lit ''i'' \<mapsto> out)) \<and> length out = 703 * 1024"
proof -
  let ?fs = "[lit ''i'' \<mapsto> [1], lit ''p'' \<mapsto> [2]]" and ?mb = "lit ''1M''"
  have dst: "dst_image_size ?mb = 703 * 1024" by (simp add: dst_image_size_def)
  have files: "?fs (lit ''i'') = Some [1]" "?fs (lit ''p'') = Some [2]" by simp_all
  have room: "length [2 :: byte] + HDR_SIZE + 16 \<le> MAX_PROFILE_SIZE" "length [1 :: byte] + MAX_PROFILE_SIZE < dst_image_size ?mb"
    "dst_image_size ?mb \<le> write_limit sample_host"
    unfolding dst by (simp_all add: HDR_SIZE_def MAX_PROFILE_SIZE_def sample_host_def)
  have host: "can_write sample_host x" "can_read sample_host x" "can_alloc sample_host n" for x n by (simp_all add: sample_host_def)
  obtain out where "HfMkImage_main sample_host [lit ''HfMkImage'', lit ''-i'', lit ''i'', lit ''-p'', lit ''p'', lit ''-f'', ?mb] ?fs =
      (0, ?fs(lit ''i'' \<mapsto> out))" "length out = dst_image_size ?mb"
    using profile_appended [OF files host(1,2) room(1,2) host(3) room(3)] by blast
  then show ?thesis unfolding dst list.map by blast
qed

theorem too_big_image_accepted_witness:
  "HfMkImage_main sample_host (map lit [''HfMkImage'', ''-i'', ''i'', ''-p'', ''p'', ''-f'', ''1M''])
     [lit ''i'' \<mapsto> replicate (704 * 1024) 1, lit ''p'' \<mapsto> [2]] = (0, [lit ''i'' \<mapsto> replicate (704 * 1024) 1, lit ''p'' \<mapsto> [2]])"
proof -
  have "lit ''i'' \<noteq> lit ''p''" by simp
  then show ?thesis
    using too_big_image_accepted [of "[lit ''i'' \<mapsto> replicate (704 * 1024) 1, lit ''p'' \<mapsto> [2]]" "lit ''i''"
        "replicate (704 * 1024) 1" "lit ''p''" "[2]" sample_host "lit ''1M''"
        "lit ''HfMkImage''" "lit ''-i''" "lit ''-p''" "lit ''-f''"]
    by (simp add: sample_host_def HDR_SIZE_def MAX_PROFILE_SIZE_def dst_image_size_def del: lit_simps)
qed
end
