(* ===== verification/Sha1.thy ===== *)
theory Sha1
  imports AtCommands Receiver
begin

text \<open>
  The hash of the host tools (\<^verbatim>\<open>src/scripts/imghdr/sha1.c\<close>) and the program that writes the download
  cookie with it (\<^verbatim>\<open>signature.c\<close>).

  The code's \<open>uint32\<close> is \<open>unsigned long int\<close>, which has 32 bits on some hosts and 64 on others. The model
  keeps the width of that type as a type parameter, so that the facts hold for every host on which it has
  at least 32 bits. \<open>None\<close> is a write behind \<open>ctx->buffer\<close>.
\<close>

record 'u sha1_context =
  total0 :: "'u"
  total1 :: "'u"
  hash :: "'u list"
  buffer :: bytes

section \<open>One block\<close>

definition GET_UINT32 :: "bytes \<Rightarrow> nat \<Rightarrow> 'w::len word" where
  "GET_UINT32 b i = push_bit 24 (ucast (b ! i)) OR push_bit 16 (ucast (b ! (i + 1)))
     OR push_bit 8 (ucast (b ! (i + 2))) OR ucast (b ! (i + 3))"

definition PUT_UINT32 :: "'w::len word \<Rightarrow> bytes" where
  "PUT_UINT32 n = [ucast (drop_bit 24 n), ucast (drop_bit 16 n), ucast (drop_bit 8 n), ucast n]"

definition sha1_starts :: "'w::len word sha1_context \<Rightarrow> 'w word sha1_context" where
  "sha1_starts ctx = ctx\<lparr>total0 := 0, total1 := 0,
     hash := [0x67452301, 0xEFCDAB89, 0x98BADCFE, 0x10325476, 0xC3D2E1F0]\<rparr>"

text \<open>The macros \<open>S\<close>, \<open>F\<close> with \<open>K\<close>, \<open>R\<close> and \<open>P\<close>. The variables \<open>A\<close> to \<open>E\<close> are the elements of a list; the calls
  of \<open>P\<close> pass them in rotated order, so that step \<open>t\<close> uses the one at \<open>4 t mod 5\<close> as \<open>a\<close>.\<close>

definition rot :: "'w::len word \<Rightarrow> nat \<Rightarrow> 'w word" where
  "rot x n = push_bit n x OR drop_bit (32 - n) (x AND 0xFFFFFFFF)"

definition round_F :: "nat \<Rightarrow> 'w::len word \<Rightarrow> 'w word \<Rightarrow> 'w word \<Rightarrow> 'w word" where
  "round_F t x y z =
    (if t < 20 then z XOR (x AND (y XOR z))
     else if t < 40 then x XOR y XOR z
     else if t < 60 then (x AND y) OR (z AND (x OR y))
     else x XOR y XOR z)"

definition round_K :: "nat \<Rightarrow> 'w::len word" where
  "round_K t = (if t < 20 then 0x5A827999 else if t < 40 then 0x6ED9EBA1
     else if t < 60 then 0x8F1BBCDC else 0xCA62C1D6)"

definition expand :: "nat \<Rightarrow> 'w::len word list \<Rightarrow> 'w word \<times> 'w word list" where
  "expand t W =
    (let temp = W ! ((t - 3) mod 16) XOR W ! ((t - 8) mod 16) XOR W ! ((t - 14) mod 16) XOR W ! (t mod 16);
         x = rot temp 1
     in (x, W[t mod 16 := x]))"

definition round_P :: "nat \<Rightarrow> 'w::len word \<Rightarrow> 'w word list \<Rightarrow> 'w word list" where
  "round_P t x v =
    (let a = v ! (4 * t mod 5); b = v ! ((4 * t + 1) mod 5); c = v ! ((4 * t + 2) mod 5);
         d = v ! ((4 * t + 3) mod 5); e = v ! ((4 * t + 4) mod 5)
     in v[(4 * t + 4) mod 5 := e + (rot a 5 + round_F t b c d + round_K t + x),
          (4 * t + 1) mod 5 := rot b 30])"

definition sha1_step :: "'w::len word list \<times> 'w word list \<Rightarrow> nat \<Rightarrow> 'w word list \<times> 'w word list" where
  "sha1_step = (\<lambda>(v, W) t.
     let (x, W) = (if t < 16 then (W ! t, W) else expand t W) in (round_P t x v, W))"

definition sha1_process :: "'w::len word sha1_context \<Rightarrow> bytes \<Rightarrow> 'w word sha1_context" where
  "sha1_process ctx data =
    (let W = map (\<lambda>j. GET_UINT32 data (4 * j)) [0..<16];
         v = fst (foldl sha1_step (hash ctx, W) [0..<80])
     in ctx\<lparr>hash := map2 (+) (hash ctx) v\<rparr>)"

section \<open>The stream\<close>

function sha1_blocks :: "'w::len word sha1_context \<Rightarrow> bytes \<Rightarrow> 'w word sha1_context \<times> bytes" where
  "sha1_blocks ctx input =
    (if length input \<ge> 64 then sha1_blocks (sha1_process ctx (take 64 input)) (drop 64 input)
     else (ctx, input))"
  by pat_completeness auto
termination by (relation "measure (\<lambda>(ctx, input). length input)") auto

declare sha1_blocks.simps [simp del]

definition sha1_update :: "bytes \<Rightarrow> 'w::len word sha1_context \<Rightarrow> 'w word sha1_context option" where
  "sha1_update input ctx =
    (let len = (word_of_nat (length input) :: 'w word)
     in if len = 0 then Some ctx
        else
          let left = unat (total0 ctx AND 0x3F);
              fill = 64 - left;
              t0 = (total0 ctx + len) AND 0xFFFFFFFF;
              ctx = ctx\<lparr>total0 := t0, total1 := (if t0 < len then total1 ctx + 1 else total1 ctx)\<rparr>
          in do {
            (ctx, input, left) \<leftarrow> (if left \<noteq> 0 \<and> length input \<ge> fill
               then do {
                 b \<leftarrow> mem_put left (take fill input) (buffer ctx);
                 Some (sha1_process (ctx\<lparr>buffer := b\<rparr>) b, drop fill input, 0) }
               else Some (ctx, input, left));
            let (ctx, input) = sha1_blocks ctx input;
            if length input \<noteq> 0
            then do {
              b \<leftarrow> mem_put left input (buffer ctx);
              Some (ctx\<lparr>buffer := b\<rparr>) }
            else Some ctx })"

definition sha1_padding :: bytes where
  "sha1_padding = 0x80 # replicate 63 0"

definition sha1_finish :: "'w::len word sha1_context \<Rightarrow> (bytes \<times> 'w word sha1_context) option" where
  "sha1_finish ctx =
    (let high = drop_bit 29 (total0 ctx) OR push_bit 3 (total1 ctx);
         low = push_bit 3 (total0 ctx);
         msglen = PUT_UINT32 high @ PUT_UINT32 low;
         last = unat (total0 ctx AND 0x3F);
         padn = (if last < 56 then 56 - last else 120 - last)
     in do {
       ctx \<leftarrow> sha1_update (take padn sha1_padding) ctx;
       ctx \<leftarrow> sha1_update msglen ctx;
       Some (concat (map PUT_UINT32 (hash ctx)), ctx) })"

section \<open>The cookie\<close>

text \<open>The result is the exit status and the header file, if one was written.\<close>

definition hex_escapes :: "bytes \<Rightarrow> bytes" where
  "hex_escapes sum1 = concat (map (\<lambda>b. lit [CHR 0x5c, CHR ''x''] @ hex_nat 2 (unat b)) sum1)"

definition cookie_text :: "bytes \<Rightarrow> bytes" where
  "cookie_text sum1 =
    lit ''#ifndef'' @ [9] @ lit ''__DL_COOKIE_H__'' @ [10] @
    lit ''#define __DL_COOKIE_H__'' @ [10] @
    lit ''#define'' @ [9] @ lit ''DL_COOKIE'' @ [9, 34] @ hex_escapes sum1 @ [34, 10] @
    lit ''#endif'' @ [10]"

definition signature_main :: "'w::len word sha1_context \<Rightarrow> bool \<Rightarrow> bytes list \<Rightarrow> (int \<times> bytes option) option" where
  "signature_main ctx can_open argv =
    (if length argv < 2 then Some (0, None)
     else do {
       ctx \<leftarrow> sha1_update (argv ! 1) (sha1_starts ctx);
       (sha1sum, _) \<leftarrow> sha1_finish ctx;
       Some (if can_open then (0, Some (cookie_text sha1sum)) else (1, None)) })"


section \<open>What has been absorbed\<close>

definition initial_hash :: "'w::len word list" where
  "initial_hash = [0x67452301, 0xEFCDAB89, 0x98BADCFE, 0x10325476, 0xC3D2E1F0]"

definition compress :: "'w::len word list \<Rightarrow> bytes \<Rightarrow> 'w word list" where
  "compress h data = map2 (+) h (fst (foldl sha1_step (h, map (\<lambda>j. GET_UINT32 data (4 * j)) [0..<16]) [0..<80]))"

lemma process_compress: "sha1_process ctx data = ctx\<lparr>hash := compress (hash ctx) data\<rparr>"
  by (simp add: sha1_process_def compress_def Let_def)

function blocks :: "bytes \<Rightarrow> bytes list" where
  "blocks m = (if length m \<ge> 64 then take 64 m # blocks (drop 64 m) else [])"
  by pat_completeness auto
termination by (relation "measure length") auto

declare blocks.simps [simp del]

definition rest_of :: "bytes \<Rightarrow> bytes" where
  "rest_of m = drop (length m div 64 * 64) m"

lemma length_rest: "length (rest_of m) = length m mod 64"
  by (simp add: rest_of_def) (metis minus_div_mult_eq_mod)

lemma rest_of_step: "64 \<le> length m \<Longrightarrow> rest_of (drop 64 m) = rest_of m"
proof -
  assume "64 \<le> length m"
  then have "length m div 64 * 64 = 64 + (length m - 64) div 64 * 64" by (simp add: le_div_geq)
  then show ?thesis by (simp add: rest_of_def add.commute)
qed

lemma rest_of_short: "length m < 64 \<Longrightarrow> rest_of m = m"
  by (simp add: rest_of_def)

lemma sha1_blocks_eq: "sha1_blocks ctx m = (ctx\<lparr>hash := foldl compress (hash ctx) (blocks m)\<rparr>, rest_of m)"
proof (induction ctx m rule: sha1_blocks.induct)
  case (1 ctx m)
  show ?case
  proof (cases "64 \<le> length m")
    case True
    have "sha1_blocks ctx m = sha1_blocks (sha1_process ctx (take 64 m)) (drop 64 m)"
      using True by (subst sha1_blocks.simps) simp
    then show ?thesis using "1.IH" [OF True] True
      by (subst blocks.simps) (simp add: process_compress rest_of_step)
  next
    case False
    then have "sha1_blocks ctx m = (ctx, m)" by (subst sha1_blocks.simps) simp
    moreover have "blocks m = []" using False by (subst blocks.simps) simp
    ultimately show ?thesis using False by (simp add: rest_of_short)
  qed
qed

text \<open>Only the unprocessed rest of a message matters for what follows.\<close>

lemma blocks_append: "blocks (m @ n) = blocks m @ blocks (rest_of m @ n) \<and> rest_of (m @ n) = rest_of (rest_of m @ n)"
proof (induction m rule: blocks.induct)
  case (1 m)
  show ?case
  proof (cases "64 \<le> length m")
    case True
    then have split: "take 64 (m @ n) = take 64 m" "drop 64 (m @ n) = drop 64 m @ n" by simp_all
    have "blocks (m @ n) = take 64 m # blocks (drop 64 m @ n)"
      using True split by (subst blocks.simps) simp
    moreover have "blocks m = take 64 m # blocks (drop 64 m)" using True by (subst blocks.simps) simp
    moreover have "rest_of (m @ n) = rest_of (drop 64 m @ n)" using rest_of_step [of "m @ n"] True split(2) by simp
    ultimately show ?thesis using "1.IH" [OF True] rest_of_step [OF True] by simp
  next
    case False
    then have "blocks m = []" by (subst blocks.simps) simp
    moreover have "rest_of m = m" using False by (simp add: rest_of_short)
    ultimately show ?thesis by simp
  qed
qed

lemma blocks_one: "length m = 64 \<Longrightarrow> blocks (m @ n) = m # blocks n" "length m = 64 \<Longrightarrow> rest_of (m @ n) = rest_of n"
proof -
  assume m: "length m = 64"
  then show "blocks (m @ n) = m # blocks n" by (subst blocks.simps) simp
  show "rest_of (m @ n) = rest_of n" using rest_of_step [of "m @ n"] m by simp
qed

lemma blocks_short: "length m < 64 \<Longrightarrow> blocks m = []"
  by (subst blocks.simps) simp

definition absorbed :: "'w::len word sha1_context \<Rightarrow> bytes \<Rightarrow> bool" where
  "absorbed ctx msg \<longleftrightarrow> total0 ctx = word_of_nat (length msg mod 2 ^ 32) \<and> total1 ctx = word_of_nat (length msg div 2 ^ 32) \<and>
     hash ctx = foldl compress initial_hash (blocks msg) \<and> length (buffer ctx) = 64 \<and>
     take (length msg mod 64) (buffer ctx) = rest_of msg"

lemma starts_absorbed: "length (buffer ctx) = 64 \<Longrightarrow> absorbed (sha1_starts ctx) []"
  by (simp add: absorbed_def sha1_starts_def initial_hash_def blocks_short rest_of_short)

section \<open>Counting the bytes\<close>

lemma and_mask: "(w :: 'w::len word) AND 0x3F = take_bit 6 w" "w AND 0xFFFFFFFF = take_bit 32 w"
  by (simp_all add: take_bit_eq_mask mask_eq_exp_minus_1)

lemma take_of_nat: "take_bit n (word_of_nat a :: 'w::len word) = word_of_nat (a mod 2 ^ n)" if "n \<le> LENGTH('w)"
  using that by (intro bit_word_eqI) (auto simp: bit_simps take_bit_eq_mod [symmetric])

lemma unat_small: "a < 2 ^ LENGTH('w) \<Longrightarrow> unat (word_of_nat a :: 'w::len word) = a"
  by (simp add: unat_of_nat)

lemma small_32: "32 \<le> n \<Longrightarrow> a < 2 ^ 32 \<Longrightarrow> (a :: nat) < 2 ^ n"
  using power_increasing [of 32 n "2 :: nat"] by simp

lemma left_bytes:
  assumes "32 \<le> LENGTH('w)"
  shows "unat (word_of_nat (n mod 2 ^ 32) AND 0x3F :: 'w::len word) = n mod 64"
proof -
  have "(word_of_nat (n mod 2 ^ 32) AND 0x3F :: 'w word) = word_of_nat (n mod 2 ^ 32 mod 2 ^ 6)"
    unfolding and_mask(1) using assms by (intro take_of_nat) simp
  also have "n mod 2 ^ 32 mod 2 ^ 6 = n mod 64" by (simp add: mod_mod_cancel)
  finally show ?thesis using small_32 [OF assms, of "n mod 64"] by (simp add: unat_small)
qed

lemma counted_low:
  assumes "32 \<le> LENGTH('w)"
  shows "(word_of_nat (a mod 2 ^ 32) + word_of_nat b) AND 0xFFFFFFFF = (word_of_nat ((a + b) mod 2 ^ 32) :: 'w::len word)"
proof -
  have "(word_of_nat (a mod 2 ^ 32) + word_of_nat b) AND 0xFFFFFFFF = take_bit 32 (word_of_nat (a mod 2 ^ 32 + b) :: 'w word)"
    by (simp add: and_mask(2))
  also have "\<dots> = word_of_nat ((a mod 2 ^ 32 + b) mod 2 ^ 32)" using assms by (intro take_of_nat) simp
  finally show ?thesis by (simp add: mod_add_left_eq)
qed

lemma carry_div:
  fixes a b m :: nat
  assumes "b < m"
  shows "(a + b) div m = a div m + (if (a + b) mod m < b then 1 else 0)"
proof -
  have m: "a mod m < m" using assms by simp
  have "a mod m + b < m + m" using assms m by linarith
  moreover have "(a + b) div m = a div m + (a mod m + b) div m"
    using assms by (metis add_0 div_mult_mod_eq div_mult_self3 group_cancel.add1 not_less_zero)
  moreover have "(a + b) mod m = (a mod m + b) mod m" by (simp add: mod_add_left_eq)
  ultimately show ?thesis
    using assms m by (cases "a mod m + b < m") (auto simp: le_div_geq le_mod_geq not_less less_diff_conv2)
qed

lemma counted_high:
  assumes "32 \<le> LENGTH('w)" and "b < 2 ^ 32"
  shows "(if word_of_nat ((a + b) mod 2 ^ 32) < (word_of_nat b :: 'w::len word)
      then word_of_nat (a div 2 ^ 32) + 1 else word_of_nat (a div 2 ^ 32)) = (word_of_nat ((a + b) div 2 ^ 32) :: 'w word)"
proof -
  have "word_of_nat ((a + b) mod 2 ^ 32) < (word_of_nat b :: 'w word) \<longleftrightarrow> (a + b) mod 2 ^ 32 < b"
    using small_32 [OF assms] small_32 [OF assms(1), of "(a + b) mod 2 ^ 32"] by (simp add: word_less_nat_alt unat_small)
  then show ?thesis by (simp only: carry_div [OF assms(2), of a] of_nat_add split: if_split) simp
qed

end
