(* ===== verification/Sha1Facts.thy ===== *)
theory Sha1Facts
  imports Sha1
begin

text \<open>
  What the streaming hash of the host tools computes: the standard's digest of everything it was given,
  however the bytes were cut into calls, on every host whose \<open>unsigned long\<close> has at least 32 bits.
\<close>


text \<open>\<open>sha1_update\<close> appends its input to what has been absorbed. Its last copy needs no case of its own: the
  copy of nothing leaves the buffer as it is.\<close>

lemma poke_nil: "poke l [] b = b"
  by (simp add: poke_def)

lemma take_poke_end: "l + length x \<le> length b \<Longrightarrow> take (l + length x) (poke l x b) = take l b @ x"
  by (cases x) (auto simp: poke_def min_def)

lemma poke_fill: "l + length x = length b \<Longrightarrow> poke l x b = take l b @ x"
  by (simp add: poke_def)

lemma nonempty_word:
  assumes "32 \<le> LENGTH('w)" and "length input < 2 ^ 32"
  shows "(word_of_nat (length input) :: 'w::len word) = 0 \<longleftrightarrow> input = []"
proof -
  have "unat (word_of_nat (length input) :: 'w word) = length input"
    using small_32 [OF assms] by (rule unat_small)
  then show ?thesis by (auto simp: unat_eq_zero [symmetric])
qed

definition counted :: "'w::len word sha1_context \<Rightarrow> nat \<Rightarrow> 'w word sha1_context" where
  "counted ctx n = ctx\<lparr>total0 := word_of_nat (n mod 2 ^ 32), total1 := word_of_nat (n div 2 ^ 32)\<rparr>"

definition take_in :: "nat \<Rightarrow> bytes \<Rightarrow> 'w::len word sha1_context \<Rightarrow> 'w word sha1_context option" where
  "take_in left input ctx = map_option (\<lambda>b. ctx\<lparr>buffer := b, hash := foldl compress (hash ctx) (blocks input)\<rparr>)
     (mem_put left (rest_of input) (buffer ctx))"

lemma update_cases:
  fixes ctx :: "'w::len word sha1_context"
  assumes w: "32 \<le> LENGTH('w)" and n: "length input < 2 ^ 32" and a: "absorbed ctx msg" and ne: "input \<noteq> []"
  shows "sha1_update input ctx =
    (let left = length msg mod 64; fill = 64 - left; ctx = counted ctx (length msg + length input)
     in if left \<noteq> 0 \<and> length input \<ge> fill
        then take_in 0 (drop fill input) (sha1_process (ctx\<lparr>buffer := rest_of msg @ take fill input\<rparr>) (rest_of msg @ take fill input))
        else take_in left input ctx)"
proof -
  have t: "total0 ctx = word_of_nat (length msg mod 2 ^ 32)" "total1 ctx = word_of_nat (length msg div 2 ^ 32)"
    and b: "length (buffer ctx) = 64" "take (length msg mod 64) (buffer ctx) = rest_of msg"
    using a by (simp_all add: absorbed_def)
  have nz: "(word_of_nat (length input) :: 'w word) \<noteq> 0" using nonempty_word [OF w n] ne by simp
  have tail: "(case sha1_blocks c i of (ctx, input) \<Rightarrow>
      if input \<noteq> [] then Option.bind (mem_put l input (buffer ctx)) (\<lambda>b. Some (ctx\<lparr>buffer := b\<rparr>)) else Some ctx) = take_in l i c"
    if "l \<le> length (buffer c)" for l i and c :: "'w word sha1_context"
    using that by (auto simp: sha1_blocks_eq take_in_def mem_put_def poke_nil)
  have fill: "poke (length msg mod 64) (take (64 - length msg mod 64) input) (buffer ctx) = rest_of msg @ take (64 - length msg mod 64) input"
    if "64 - length msg mod 64 \<le> length input"
    using that b by (simp add: poke_fill)
  have len: "length (rest_of msg) = length msg mod 64" by (rule length_rest)
  show ?thesis
    unfolding sha1_update_def Let_def t left_bytes [OF w] counted_low [OF w] counted_high [OF w n]
    using nz fill b len by (simp add: tail counted_def mem_put_def process_compress)
qed

lemma take_in_absorbed:
  assumes "length (buffer ctx) = 64" and "left + length (rest_of input) < 64"
    and "take left (buffer ctx) @ rest_of input = rest_of msg"
    and "foldl compress (hash ctx) (blocks input) = foldl compress initial_hash (blocks msg)"
    and "total0 ctx = word_of_nat (length msg mod 2 ^ 32)" and "total1 ctx = word_of_nat (length msg div 2 ^ 32)"
  shows "\<exists>ctx'. take_in left input ctx = Some ctx' \<and> absorbed ctx' msg"
proof -
  have "length (rest_of msg) = left + length (rest_of input)" using assms(1,2) by (simp flip: assms(3))
  then have "length msg mod 64 = left + length (rest_of input)" by (simp add: length_rest)
  then show ?thesis using assms
    by (simp add: take_in_def mem_put_def absorbed_def take_poke_end)
qed

lemma update_absorbed:
  fixes ctx :: "'w::len word sha1_context"
  assumes w: "32 \<le> LENGTH('w)" and n: "length input < 2 ^ 32" and a: "absorbed ctx msg"
  shows "\<exists>ctx'. sha1_update input ctx = Some ctx' \<and> absorbed ctx' (msg @ input)"
proof (cases "input = []")
  case True
  with a show ?thesis by (simp add: sha1_update_def)
next
  case False
  define left where "left = length msg mod 64"
  define c where "c = counted ctx (length msg + length input)"
  have b: "length (buffer c) = 64" "take left (buffer c) = rest_of msg" "hash c = foldl compress initial_hash (blocks msg)"
    "total0 c = word_of_nat (length (msg @ input) mod 2 ^ 32)" "total1 c = word_of_nat (length (msg @ input) div 2 ^ 32)"
    using a by (simp_all add: absorbed_def c_def counted_def left_def)
  have len: "length (rest_of msg) = left" by (simp add: length_rest left_def)
  note app = blocks_append [of msg input]
  have upd: "sha1_update input ctx = (if left \<noteq> 0 \<and> length input \<ge> 64 - left
        then take_in 0 (drop (64 - left) input)
          (sha1_process (c\<lparr>buffer := rest_of msg @ take (64 - left) input\<rparr>) (rest_of msg @ take (64 - left) input))
        else take_in left input c)"
    using update_cases [OF w n a False] by (simp add: left_def c_def Let_def)
  show ?thesis
  proof (cases "left \<noteq> 0 \<and> length input \<ge> 64 - left")
    case True
    define q where "q = rest_of msg @ take (64 - left) input"
    have q: "length q = 64" using True len by (simp add: q_def left_def)
    have cut: "rest_of msg @ input = q @ drop (64 - left) input" by (simp add: q_def)
    have "\<exists>ctx'. take_in 0 (drop (64 - left) input) (sha1_process (c\<lparr>buffer := q\<rparr>) q) = Some ctx' \<and> absorbed ctx' (msg @ input)"
      using q b app blocks_one [OF q] unfolding cut
      by (intro take_in_absorbed) (simp_all add: process_compress length_rest)
    then show ?thesis using upd True by (simp add: q_def)
  next
    case no: False
    have "blocks (rest_of msg @ input) = blocks input \<and> rest_of (rest_of msg @ input) = rest_of msg @ rest_of input
       \<and> left + length (rest_of input) < 64"
    proof (cases "left = 0")
      case True
      then have "rest_of msg = []" using len by simp
      then show ?thesis using True by (simp add: length_rest)
    next
      case False
      then have "left + length input < 64" using no by (simp add: left_def)
      then show ?thesis using len by (simp add: blocks_short rest_of_short)
    qed
    then have "\<exists>ctx'. take_in left input c = Some ctx' \<and> absorbed ctx' (msg @ input)"
      using b app by (intro take_in_absorbed) simp_all
    then show ?thesis using upd no by (simp only: if_False)
  qed
qed

section \<open>The end of the message\<close>

definition big_endian :: "nat \<Rightarrow> 'w::len word \<Rightarrow> bytes" where
  "big_endian n w = map (\<lambda>k. ucast (drop_bit (8 * k) w)) (rev [0..<n])"

definition padding_of :: "bytes \<Rightarrow> bytes" where
  "padding_of msg = 0x80 # replicate ((119 - length msg mod 64) mod 64) 0
     @ big_endian 8 (word_of_nat (8 * length msg) :: 64 word)"

lemma take_padding:
  assumes "k < 64"
  shows "take (if k < 56 then 56 - k else 120 - k) sha1_padding = 0x80 # replicate ((119 - k) mod 64) 0"
proof (cases "k < 56")
  case True
  then have "(119 - k) mod 64 = 55 - k" by (simp add: le_mod_geq)
  with True show ?thesis by (simp add: sha1_padding_def take_Cons')
next
  case False
  with assms show ?thesis by (simp add: sha1_padding_def take_Cons')
qed

lemma be_8: "rev [0..<8] = [7, 6, 5, 4, 3, 2, 1, 0]"
  by (simp add: upt_rec)

lemma length_field:
  fixes n :: nat
  assumes "32 \<le> LENGTH('w)"
  shows "PUT_UINT32 (drop_bit 29 (word_of_nat (n mod 2 ^ 32)) OR push_bit 3 (word_of_nat (n div 2 ^ 32)) :: 'w::len word)
      @ PUT_UINT32 (push_bit 3 (word_of_nat (n mod 2 ^ 32)) :: 'w word) = big_endian 8 (word_of_nat (8 * n) :: 64 word)"
proof -
  have eight: "8 * n = push_bit 3 n" by (simp add: push_bit_eq_mult)
  have cut: "n mod 2 ^ 32 = take_bit 32 n" "n div 2 ^ 32 = drop_bit 32 n"
    by (simp_all add: take_bit_eq_mod drop_bit_eq_div)
  have shift: "29 + k = 32 + (k - 3)" if "3 \<le> k" for k :: nat using that by simp
  show ?thesis
    unfolding PUT_UINT32_def big_endian_def be_8 list.map append.simps list.inject eight cut
    using assms by ((intro conjI TrueI bit_word_eqI; auto simp: bit_simps), metis shift not_less)
qed

definition digest_of :: "'w::len word itself \<Rightarrow> bytes \<Rightarrow> bytes" where
  "digest_of w msg = concat (map PUT_UINT32 (foldl compress (initial_hash :: 'w word list) (blocks (msg @ padding_of msg))))"

lemma finish_digest:
  fixes ctx :: "'w::len word sha1_context"
  assumes w: "32 \<le> LENGTH('w)" and a: "absorbed ctx msg"
  shows "\<exists>ctx'. sha1_finish ctx = Some (digest_of TYPE('w word) msg, ctx')"
proof -
  define pad where "pad = 0x80 # replicate ((119 - length msg mod 64) mod 64) (0 :: byte)"
  have t: "total0 ctx = word_of_nat (length msg mod 2 ^ 32)" "total1 ctx = word_of_nat (length msg div 2 ^ 32)"
    using a by (simp_all add: absorbed_def)
  have len: "length pad < 2 ^ 32" "length (big_endian 8 (word_of_nat (8 * length msg) :: 64 word)) < 2 ^ 32"
    using mod_less_divisor [of 64 "119 - length msg mod 64"] by (simp_all add: pad_def big_endian_def del: mod_less_divisor)
  obtain c where c: "sha1_update pad ctx = Some c" "absorbed c (msg @ pad)"
    using update_absorbed [OF w len(1) a] by blast
  obtain d where d: "sha1_update (big_endian 8 (word_of_nat (8 * length msg) :: 64 word)) c = Some d"
      "absorbed d ((msg @ pad) @ big_endian 8 (word_of_nat (8 * length msg) :: 64 word))"
    using update_absorbed [OF w len(2) c(2)] by blast
  have "hash d = foldl compress initial_hash (blocks (msg @ padding_of msg))"
    using d(2) by (simp add: absorbed_def padding_of_def pad_def)
  then show ?thesis
    unfolding sha1_finish_def Let_def t left_bytes [OF w] length_field [OF w]
    using c(1) d(1) take_padding [of "length msg mod 64"] by (simp add: digest_of_def pad_def)
qed

section \<open>The standard\<close>

text \<open>The hash as FIPS 180 defines it, over words of exactly 32 bits: an expanded schedule of 80 words, five
  chaining values shifted by one place in each round, the three round functions.\<close>

definition fips_f :: "nat \<Rightarrow> u32 \<Rightarrow> u32 \<Rightarrow> u32 \<Rightarrow> u32" where
  "fips_f t x y z =
    (if t < 20 then (x AND y) XOR (NOT x AND z)
     else if t < 40 then x XOR y XOR z
     else if t < 60 then (x AND y) XOR (x AND z) XOR (y AND z)
     else x XOR y XOR z)"

definition fips_K :: "nat \<Rightarrow> u32" where
  "fips_K t = [0x5A827999, 0x6ED9EBA1, 0x8F1BBCDC, 0xCA62C1D6] ! (t div 20)"

definition extend_schedule :: "u32 list \<Rightarrow> nat \<Rightarrow> u32 list" where
  "extend_schedule W t = W @ [word_rotl 1 (W ! (t - 3) XOR W ! (t - 8) XOR W ! (t - 14) XOR W ! (t - 16))]"

definition schedule :: "bytes \<Rightarrow> nat \<Rightarrow> u32 list" where
  "schedule blk n = foldl extend_schedule (map (\<lambda>j. word_rcat (take 4 (drop (4 * j) blk))) [0..<16]) [16..<n]"

definition fips_round :: "u32 list \<Rightarrow> u32 \<times> u32 \<times> u32 \<times> u32 \<times> u32 \<Rightarrow> nat \<Rightarrow> u32 \<times> u32 \<times> u32 \<times> u32 \<times> u32" where
  "fips_round W = (\<lambda>(a, b, c, d, e) t.
     (word_rotl 5 a + fips_f t b c d + e + fips_K t + W ! t, a, word_rotl 30 b, c, d))"

definition fips_block :: "u32 \<times> u32 \<times> u32 \<times> u32 \<times> u32 \<Rightarrow> bytes \<Rightarrow> u32 \<times> u32 \<times> u32 \<times> u32 \<times> u32" where
  "fips_block = (\<lambda>(a, b, c, d, e) blk.
     let (a', b', c', d', e') = foldl (fips_round (schedule blk 80)) (a, b, c, d, e) [0..<80]
     in (a + a', b + b', c + c', d + d', e + e'))"

definition fips_sha1 :: "bytes \<Rightarrow> bytes" where
  "fips_sha1 msg = (let (a, b, c, d, e) = foldl fips_block (0x67452301, 0xEFCDAB89, 0x98BADCFE, 0x10325476, 0xC3D2E1F0)
       (blocks (msg @ padding_of msg))
     in concat (map (big_endian 4) [a, b, c, d, e]))"

section \<open>The code computes the low 32 bits\<close>

named_theorems low32

definition lo :: "'w::len word \<Rightarrow> u32" where
  "lo w = ucast w"

lemma lo_bitwise [low32]:
  "lo (x AND y) = lo x AND lo y" "lo (x OR y) = lo x OR lo y" "lo (x XOR y) = lo x XOR lo y"
  by (auto simp: lo_def intro!: bit_word_eqI simp: bit_simps)

lemma lo_plus [low32]: "32 \<le> LENGTH('w) \<Longrightarrow> lo (x + y :: 'w::len word) = lo x + lo y"
proof -
  assume w: "32 \<le> LENGTH('w)"
  have "take_bit 32 (take_bit LENGTH('w) i) = take_bit 32 i" for i :: int
    using w by (simp add: take_bit_take_bit min_def)
  note cut = this
  have plus: "take_bit 32 (take_bit LENGTH('w) i + take_bit LENGTH('w) j) = take_bit 32 (i + j)" for i j :: int
    using take_bit_add [of 32 "take_bit LENGTH('w) i" "take_bit LENGTH('w) j"] take_bit_add [of 32 i j]
    by (simp only: cut)
  show ?thesis unfolding lo_def by transfer (use w in \<open>simp add: min_def plus\<close>)
qed

lemma lo_numeral [low32]: "32 \<le> LENGTH('w) \<Longrightarrow> lo (numeral n :: 'w::len word) = numeral n"
  by (auto simp: lo_def intro!: bit_word_eqI simp: bit_simps)

lemma lo_rot [low32]:
  assumes "32 \<le> LENGTH('w)" and "0 < n" and "n < 32"
  shows "lo (rot (x :: 'w::len word) n) = word_rotl n (lo x)"
proof (rule bit_word_eqI)
  fix k assume "k < LENGTH(32)"
  then have k: "k < 32" by simp
  show "bit (lo (rot x n)) k = bit (word_rotl n (lo x)) k"
  proof (cases "k < n")
    case True
    then have "(k + (32 - n)) mod 32 = k + (32 - n)" using assms k by simp
    then show ?thesis using assms k True
      by (simp add: lo_def rot_def and_mask bit_word_rotl_iff) (simp add: bit_simps add.commute [of 32 k])
  next
    case False
    then have "(k + (32 - n)) mod 32 = k - n" using assms k by (simp add: le_mod_geq)
    moreover have "k - n < 32" "\<not> 32 + k - n < 32" using False k assms(3) by auto
    ultimately show ?thesis using assms k False
      by (simp add: lo_def rot_def and_mask bit_word_rotl_iff) (simp add: bit_simps)
  qed
qed

lemma round_F_low: "lo (round_F t x y z) = fips_f t (lo x) (lo y) (lo z)"
  by (auto simp: round_F_def fips_f_def low32 intro!: bit_word_eqI simp: bit_simps)

lemma round_K_low: "32 \<le> LENGTH('w) \<Longrightarrow> t < 80 \<Longrightarrow> lo (round_K t :: 'w::len word) = fips_K t"
  by (auto simp: round_K_def fips_K_def low32 div_nat_eqI nth_Cons')

lemma bit_rcat: "bit (word_rcat ws :: u32) n \<longleftrightarrow> n < 32 \<and> n div 8 < length ws \<and> bit (rev ws ! (n div 8)) (n mod 8)"
  for ws :: bytes
  using bit_horner_sum_uint_exp_iff [of "rev ws" n] by (simp add: word_rcat_def bit_simps)

lemma GET_low:
  assumes "32 \<le> LENGTH('w)" and "4 * j + 4 \<le> length b"
  shows "lo (GET_UINT32 b (4 * j) :: 'w::len word) = word_rcat (take 4 (drop (4 * j) b))"
proof -
  define p q r s where "p = b ! (4 * j)" and "q = b ! (4 * j + 1)" and "r = b ! (4 * j + 2)" and "s = b ! (4 * j + 3)"
  have cut: "take 4 (drop (4 * j) b) = [p, q, r, s]"
    using assms(2) by (intro nth_equalityI) (auto simp: p_def q_def r_def s_def less_Suc_eq numeral_eq_Suc)
  show ?thesis
    unfolding cut
  proof (rule bit_word_eqI)
    fix n assume "n < LENGTH(32)"
    then consider "n < 8" | "8 \<le> n" "n < 16" | "16 \<le> n" "n < 24" | "24 \<le> n" "n < 32" by fastforce
    then show "bit (lo (GET_UINT32 b (4 * j) :: 'w word)) n = bit (word_rcat [p, q, r, s] :: u32) n"
      by cases (use assms(1) in \<open>auto simp: lo_def GET_UINT32_def p_def q_def r_def s_def bit_simps bit_rcat
        le_div_geq le_mod_geq dest: bit_imp_le_length\<close>)
  qed
qed

section \<open>The schedule in a window of sixteen words\<close>

lemma schedule_Suc: "16 \<le> n \<Longrightarrow> schedule blk (Suc n) = extend_schedule (schedule blk n) n"
  by (simp add: schedule_def)

lemma length_schedule: "16 \<le> n \<Longrightarrow> length (schedule blk n) = n"
proof (induction n rule: dec_induct)
  case base
  show ?case by (simp add: schedule_def)
next
  case (step n)
  then show ?case by (simp add: schedule_Suc extend_schedule_def)
qed

lemma schedule_mono: "n \<le> m \<Longrightarrow> 16 \<le> n \<Longrightarrow> k < n \<Longrightarrow> schedule blk m ! k = schedule blk n ! k"
proof (induction m rule: dec_induct)
  case base
  show ?case by simp
next
  case (step m)
  then show ?case by (simp add: schedule_Suc extend_schedule_def nth_append length_schedule)
qed

lemma schedule_start: "k < 16 \<Longrightarrow> 16 \<le> m \<Longrightarrow> schedule blk m ! k = word_rcat (take 4 (drop (4 * k) blk))"
  using schedule_mono [of 16 m k blk] by (simp add: schedule_def)

lemma schedule_next:
  assumes "16 \<le> k" and "k < m"
  shows "schedule blk m ! k = word_rotl 1 (schedule blk m ! (k - 3) XOR schedule blk m ! (k - 8)
     XOR schedule blk m ! (k - 14) XOR schedule blk m ! (k - 16))"
proof -
  have old: "schedule blk m ! j = schedule blk k ! j" if "j < k" for j
    using that assms by (intro schedule_mono) simp_all
  have "schedule blk m ! k = schedule blk (Suc k) ! k"
    using assms by (intro schedule_mono) simp_all
  then show ?thesis using assms
    by (simp add: old schedule_Suc extend_schedule_def nth_append length_schedule)
qed

definition window :: "nat \<Rightarrow> 'w::len word list \<Rightarrow> u32 list \<Rightarrow> bool" where
  "window t W S \<longleftrightarrow> length W = 16 \<and> (\<forall>k. k < max t 16 \<longrightarrow> max t 16 \<le> k + 16 \<longrightarrow> lo (W ! (k mod 16)) = S ! k)"

lemma windowD: "window t W S \<Longrightarrow> 16 \<le> t \<Longrightarrow> k < t \<Longrightarrow> t \<le> k + 16 \<Longrightarrow> lo (W ! (k mod 16)) = S ! k"
  by (simp add: window_def)

lemma other_slot: "k < t \<Longrightarrow> t < k + 16 \<Longrightarrow> t mod 16 \<noteq> k mod (16 :: nat)"
proof
  assume k: "k < t" "t < k + 16" and "t mod 16 = k mod 16"
  then have "16 dvd t - k" using mod_eq_dvd_iff_nat [of k t 16] by simp
  then show False using k nat_dvd_not_less [of "t - k" 16] by simp
qed

lemma expand_window:
  fixes W :: "'w::len word list"
  assumes w: "32 \<le> LENGTH('w)" and win: "window t W (schedule blk m)" and t: "16 \<le> t" "t < m"
  shows "lo (fst (expand t W)) = schedule blk m ! t \<and> window (Suc t) (snd (expand t W)) (schedule blk m)"
proof -
  have len: "length W = 16" using win by (simp add: window_def)
  have "(t - 16) mod 16 = t mod 16" using t by (simp add: le_mod_geq)
  then have read: "lo (W ! ((t - 3) mod 16)) = schedule blk m ! (t - 3)" "lo (W ! ((t - 8) mod 16)) = schedule blk m ! (t - 8)"
      "lo (W ! ((t - 14) mod 16)) = schedule blk m ! (t - 14)" "lo (W ! (t mod 16)) = schedule blk m ! (t - 16)"
    using windowD [OF win t(1), of "t - 3"] windowD [OF win t(1), of "t - 8"] windowD [OF win t(1), of "t - 14"]
      windowD [OF win t(1), of "t - 16"] t by simp_all
  have x: "lo (fst (expand t W)) = schedule blk m ! t"
    using w t by (simp add: expand_def Let_def lo_rot lo_bitwise read schedule_next)
  have "lo (snd (expand t W) ! (k mod 16)) = schedule blk m ! k" if "k < Suc t" "Suc t \<le> k + 16" for k
  proof (cases "k = t")
    case True
    then show ?thesis using x len by (simp add: expand_def Let_def)
  next
    case False
    with that have "k < t" "t < k + 16" by simp_all
    then show ?thesis using windowD [OF win t(1), of k] other_slot [of k t]
      by (simp add: expand_def Let_def)
  qed
  then have "window (Suc t) (snd (expand t W)) (schedule blk m)"
    using t len by (simp add: window_def expand_def Let_def)
  with x show ?thesis ..
qed

section \<open>The rounds\<close>

definition roles :: "nat \<Rightarrow> 'w::len word list \<Rightarrow> u32 \<times> u32 \<times> u32 \<times> u32 \<times> u32" where
  "roles t v = (lo (v ! (4 * t mod 5)), lo (v ! ((4 * t + 1) mod 5)), lo (v ! ((4 * t + 2) mod 5)),
     lo (v ! ((4 * t + 3) mod 5)), lo (v ! ((4 * t + 4) mod 5)))"

lemma role_slots:
  obtains r where "r < 5" and "\<And>k. (4 * t + k) mod 5 = (r + k) mod (5 :: nat)"
  by (rule that [of "4 * t mod 5"]) (simp_all add: mod_add_left_eq)

lemma round_P_roles:
  fixes v :: "'w::len word list"
  assumes w: "32 \<le> LENGTH('w)" and t: "t < 80" and v: "length v = 5" and x: "lo x = S ! t"
  shows "roles (Suc t) (round_P t x v) = fips_round S (roles t v) t"
proof -
  obtain r where r: "r < 5" "\<And>k. (4 * t + k) mod 5 = (r + k) mod 5" using role_slots [of t] by metis
  have r0: "4 * t mod 5 = r" using r(1) r(2) [of 0] by simp
  have Suc_t: "4 * Suc t = 4 * t + 4" by simp
  note low = lo_plus [OF w] lo_rot [OF w] round_F_low round_K_low [OF w t] x
  have shift: "(4 * t + 4 + k) mod 5 = (r + (4 + k)) mod 5" for k using r(2) [of "4 + k"] by (simp add: add.assoc)
  have shift0: "(4 * t + 4) mod 5 = (r + 4) mod 5" using r(2) [of 4] .
  from r(1) consider "r = 0" | "r = 1" | "r = 2" | "r = 3" | "r = 4" by fastforce
  then show ?thesis
    unfolding roles_def round_P_def Let_def Suc_t shift shift0 r0 r(2) fips_round_def case_prod_conv
    by cases (use v in \<open>simp_all add: low add.commute add.left_commute flip: numeral_2_eq_2\<close>)
qed

lemma steps_simulate:
  fixes h :: "'w::len word list" and W :: "'w word list"
  assumes w: "32 \<le> LENGTH('w)" and h: "length h = 5" and W: "window 0 W (schedule blk 80)" and n: "n \<le> 80"
  shows "length (fst (foldl sha1_step (h, W) [0..<n])) = 5 \<and>
    window n (snd (foldl sha1_step (h, W) [0..<n])) (schedule blk 80) \<and>
    roles n (fst (foldl sha1_step (h, W) [0..<n])) = foldl (fips_round (schedule blk 80)) (roles 0 h) [0..<n]"
  using n
proof (induction n)
  case 0
  show ?case using h W by simp
next
  case (Suc n)
  obtain v V where st: "foldl sha1_step (h, W) [0..<n] = (v, V)" by fastforce
  with Suc have v: "length v = 5" and win: "window n V (schedule blk 80)"
    and eq: "roles n v = foldl (fips_round (schedule blk 80)) (roles 0 h) [0..<n]" by simp_all
  define p where "p = (if n < 16 then (V ! n, V) else expand n V)"
  have p: "lo (fst p) = schedule blk 80 ! n \<and> window (Suc n) (snd p) (schedule blk 80)"
  proof (cases "n < 16")
    case True
    then have "max (Suc n) 16 = max n 16" by simp
    moreover have "lo (V ! (n mod 16)) = schedule blk 80 ! n" using win True by (simp add: window_def)
    ultimately show ?thesis using win True by (simp add: p_def window_def)
  next
    case False
    then show ?thesis using expand_window [OF w win] Suc.prems by (simp add: p_def)
  qed
  have step: "sha1_step (v, V) n = (round_P n (fst p) v, snd p)"
    by (simp add: sha1_step_def p_def split: prod.split)
  have "length (round_P n (fst p) v) = 5" using v by (simp add: round_P_def Let_def)
  moreover have "roles (Suc n) (round_P n (fst p) v) = fips_round (schedule blk 80) (roles n v) n"
    using round_P_roles [OF w _ v] p Suc.prems by simp
  ultimately show ?case using p by (simp add: st step eq)
qed

lemma first_window:
  assumes "32 \<le> LENGTH('w)" and "length blk = 64"
  shows "window 0 (map (\<lambda>j. GET_UINT32 blk (4 * j)) [0..<16] :: 'w::len word list) (schedule blk 80)"
  using assms by (simp add: window_def GET_low schedule_start)

lemma five: "length (v :: 'a list) = 5 \<Longrightarrow> v = [v ! 0, v ! 1, v ! 2, v ! 3, v ! 4]"
  by (rule nth_equalityI) (auto simp: less_Suc_eq numeral_eq_Suc)

lemma compress_simulates:
  fixes h :: "'w::len word list"
  assumes w: "32 \<le> LENGTH('w)" and h: "length h = 5" and blk: "length blk = 64"
  shows "length (compress h blk) = 5 \<and> roles 0 (compress h blk) = fips_block (roles 0 h) blk"
proof -
  define st where "st = foldl sha1_step (h, map (\<lambda>j. GET_UINT32 blk (4 * j)) [0..<16]) [0..<80]"
  have len: "length (fst st) = 5"
    and eq: "roles 80 (fst st) = foldl (fips_round (schedule blk 80)) (roles 0 h) [0..<80]"
    using steps_simulate [OF w h first_window [OF w blk], of 80] by (simp_all add: st_def)
  have c: "compress h blk = map2 (+) h (fst st)" by (simp add: compress_def st_def)
  have "roles 0 (compress h blk) = (case roles 0 h of (a, b, c, d, e) \<Rightarrow> case roles 80 (fst st) of
      (a', b', c', d', e') \<Rightarrow> (a + a', b + b', c + c', d + d', e + e'))"
    using h len by (simp add: c roles_def lo_plus [OF w] flip: numeral_2_eq_2)
  moreover obtain a b c' d e where "roles 0 h = (a, b, c', d, e)" by (cases "roles 0 h")
  ultimately have "roles 0 (compress h blk) = fips_block (roles 0 h) blk"
    by (simp only: eq fips_block_def Let_def case_prod_conv)
  moreover have "length (compress h blk) = 5" using h len by (simp add: c)
  ultimately show ?thesis by simp
qed

lemma blocks_are_blocks: "list_all (\<lambda>b. length b = 64) (blocks m)"
proof (induction m rule: blocks.induct)
  case (1 m)
  then show ?case by (cases "64 \<le> length m") (simp_all add: blocks.simps [of m])
qed

lemma blocks_simulate:
  fixes h :: "'w::len word list"
  assumes w: "32 \<le> LENGTH('w)" and "length h = 5" and "list_all (\<lambda>b. length b = 64) bs"
  shows "length (foldl compress h bs) = 5 \<and> roles 0 (foldl compress h bs) = foldl fips_block (roles 0 h) bs"
  using assms(2,3)
proof (induction bs arbitrary: h)
  case Nil
  then show ?case by simp
next
  case (Cons b bs)
  then show ?case using compress_simulates [OF w Cons.prems(1), of b] by simp
qed

lemma PUT_low: "32 \<le> LENGTH('w) \<Longrightarrow> PUT_UINT32 (x :: 'w::len word) = big_endian 4 (lo x)"
  by (auto simp: PUT_UINT32_def big_endian_def lo_def upt_rec intro!: bit_word_eqI simp: bit_simps)

lemma digest_is_fips:
  assumes w: "32 \<le> LENGTH('w)"
  shows "digest_of TYPE('w::len word) msg = fips_sha1 msg"
proof -
  define H :: "'w word list" where "H = foldl compress initial_hash (blocks (msg @ padding_of msg))"
  have H: "length H = 5" "roles 0 H = foldl fips_block (roles 0 (initial_hash :: 'w word list)) (blocks (msg @ padding_of msg))"
    using blocks_simulate [OF w _ blocks_are_blocks, of initial_hash "msg @ padding_of msg"]
    by (simp_all add: H_def initial_hash_def)
  have start: "roles 0 (initial_hash :: 'w word list) = (0x67452301, 0xEFCDAB89, 0x98BADCFE, 0x10325476, 0xC3D2E1F0)"
    using w by (simp add: roles_def initial_hash_def lo_numeral)
  have put: "PUT_UINT32 = big_endian 4 \<circ> (lo :: 'w word \<Rightarrow> u32)" using PUT_low [OF w] by (simp add: fun_eq_iff)
  have "digest_of TYPE('w word) msg = concat (map PUT_UINT32 H)" by (simp add: digest_of_def H_def)
  also have "\<dots> = concat (map (big_endian 4) (map lo H))" by (simp add: put)
  also have "map lo H = [lo (H ! 0), lo (H ! 1), lo (H ! 2), lo (H ! 3), lo (H ! 4)]"
    using arg_cong [OF five [OF H(1)], of "map lo"] by simp
  finally have d: "digest_of TYPE('w word) msg = concat (map (big_endian 4) [lo (H ! 0), lo (H ! 1), lo (H ! 2), lo (H ! 3), lo (H ! 4)])" .
  have "foldl fips_block (0x67452301, 0xEFCDAB89, 0x98BADCFE, 0x10325476, 0xC3D2E1F0) (blocks (msg @ padding_of msg)) =
      (lo (H ! 0), lo (H ! 1), lo (H ! 2), lo (H ! 3), lo (H ! 4))"
    using H(2) unfolding start by (simp add: roles_def flip: numeral_2_eq_2)
  then show ?thesis unfolding d fips_sha1_def by (simp only: Let_def case_prod_conv)
qed

section \<open>The whole hash\<close>

lemma run_absorbed:
  fixes ctx :: "'w::len word sha1_context"
  assumes w: "32 \<le> LENGTH('w)" and "list_all (\<lambda>c. length c < 2 ^ 32) chunks" and "absorbed ctx msg"
  shows "\<exists>ctx'. run sha1_update chunks ctx = Some ctx' \<and> absorbed ctx' (msg @ concat chunks)"
  using assms(2,3)
proof (induction chunks arbitrary: ctx msg)
  case Nil
  then show ?case by simp
next
  case (Cons c chunks)
  obtain ctx1 where "sha1_update c ctx = Some ctx1" "absorbed ctx1 (msg @ c)"
    using update_absorbed [OF w, of c ctx msg] Cons.prems by auto
  then show ?case using Cons.IH [of ctx1 "msg @ c"] Cons.prems(1) by simp
qed

text \<open>
  C3. The streaming hash of the host tools is SHA-1: after \<open>sha1_starts\<close>, however a message is cut into calls of
  \<open>sha1_update\<close> (each shorter than 4 GiB), no write leaves the 64-byte buffer and \<open>sha1_finish\<close> returns the digest
  that the standard defines for the whole message. It does so on every host whose \<open>unsigned long\<close> has at
  least 32 bits, although the code computes with the full width of that type.
\<close>

theorem sha1_streaming:
  fixes ctx :: "'w::len word sha1_context"
  assumes "32 \<le> LENGTH('w)" and "length (buffer ctx) = 64" and "list_all (\<lambda>c. length c < 2 ^ 32) chunks"
  shows "\<exists>ctx1 ctx2. run sha1_update chunks (sha1_starts ctx) = Some ctx1 \<and>
    sha1_finish ctx1 = Some (fips_sha1 (concat chunks), ctx2)"
proof -
  obtain ctx1 where "run sha1_update chunks (sha1_starts ctx) = Some ctx1" "absorbed ctx1 (concat chunks)"
    using run_absorbed [OF assms(1,3) starts_absorbed [OF assms(2)]] by auto
  then show ?thesis using finish_digest [OF assms(1), of ctx1 "concat chunks"] digest_is_fips [OF assms(1)] by simp
qed

theorem sha1_streaming_witness:
  "\<exists>ctx1 ctx2. run sha1_update [lit ''ab'', lit ''c'']
      (sha1_starts \<lparr>total0 = 7, total1 = 1, hash = [], buffer = replicate 64 0\<rparr> :: 64 word sha1_context) = Some ctx1 \<and>
    sha1_finish ctx1 = Some (fips_sha1 (concat [lit ''ab'', lit ''c'']), ctx2)"
  by (rule sha1_streaming) simp_all

text \<open>
  The program that writes the download cookie: without an argument it writes nothing and exits with
  0; otherwise, if the file can be opened, the header defines \<open>DL_COOKIE\<close> as a string of twenty escapes,
  the SHA-1 digest of the argument; if it cannot, the exit status is 1.
\<close>

theorem signature_writes_digest:
  fixes ctx :: "'w::len word sha1_context"
  assumes "32 \<le> LENGTH('w)" and "length (buffer ctx) = 64" and "list_all (\<lambda>a. length a < 2 ^ 32) argv"
  shows "signature_main ctx can_open argv =
    Some (if length argv < 2 then (0, None)
          else if can_open then (0, Some (cookie_text (fips_sha1 (argv ! 1)))) else (1, None))"
proof (cases "length argv < 2")
  case True
  then show ?thesis by (simp add: signature_main_def)
next
  case False
  then have "length (argv ! 1) < 2 ^ 32" using assms(3) by (simp add: list_all_length)
  then obtain ctx1 where "sha1_update (argv ! 1) (sha1_starts ctx) = Some ctx1" "absorbed ctx1 (argv ! 1)"
    using update_absorbed [OF assms(1) _ starts_absorbed [OF assms(2)], of "argv ! 1"] by auto
  then show ?thesis using False finish_digest [OF assms(1), of ctx1 "argv ! 1"] digest_is_fips [OF assms(1)]
    by (auto simp: signature_main_def)
qed

theorem signature_writes_digest_witness:
  "signature_main (\<lparr>total0 = 0, total1 = 0, hash = [], buffer = replicate 64 0\<rparr> :: u32 sha1_context) True
      [lit ''signature'', lit ''A21''] = Some (0, Some (cookie_text (fips_sha1 (lit ''A21''))))"
  by (subst signature_writes_digest) simp_all

end
