(* ===== verification/WebPage.thy ===== *)
theory WebPage
  imports ClientSort
begin

text \<open>
  What the web server writes into a page (\<^verbatim>\<open>src/websrc/cgi/cgi_v2/cgi_api.c\<close>): the variables of a page are
  identifiers, and \<open>CGI_var_map\<close> prints for each of them a call of a script function with the value. String
  values are escaped in place by \<open>sc_convert\<close>, columns are filled up by \<open>fill_space\<close>.

  Local and static buffers are their strings and their sizes: \<open>None\<close> is a string that does not fit. The
  configuration functions of the SDK (\<open>CFG_get_str\<close>, \<open>CFG_set_str\<close>, ...) are parameters that may depend on the
  calls made before, which the state lists. Code that the build leaves out (\<open>#if 0\<close>, the lines behind the
  \<open>return\<close> of \<open>ADVANCE_CONSTELLATION\<close>) is not modelled.
\<close>

section \<open>Escaping in place\<close>

definition is_special :: "byte \<Rightarrow> bool" where
  "is_special b \<longleftrightarrow> b = 34 \<or> b = 39 \<or> b = 92"

text \<open>The loop on the pointer \<open>p\<close>, here an index; \<open>memmove\<close> makes room for the backslash.\<close>

partial_function (option) sc_convert_from :: "bytes \<Rightarrow> nat \<Rightarrow> bytes option" where
  "sc_convert_from m p =
    (if p \<ge> length m then None
     else if m ! p = 0 then Some m
     else if is_special (m ! p)
     then do {
       s \<leftarrow> str_at m p;
       m \<leftarrow> mem_put (p + 1) (s @ [0]) m;
       sc_convert_from (m[p := 92]) (p + 2) }
     else sc_convert_from m (p + 1))"

definition sc_convert :: "bytes \<Rightarrow> bytes option" where
  "sc_convert m = sc_convert_from m 0"

definition fill_space :: "bytes \<Rightarrow> int \<Rightarrow> bytes option" where
  "fill_space datarray arrlen = do {
     s \<leftarrow> c_str datarray;
     m \<leftarrow> mem_put (length s) (replicate (nat (arrlen - 1) - length s) 32) datarray;
     if arrlen - 1 < 0 then None else mem_put (nat (arrlen - 1)) [0] m }"

text \<open>A string in a buffer of \<open>n\<close> bytes: written with \<open>sprintf\<close> or \<open>strcat\<close>, escaped, filled up.\<close>

definition fits :: "nat \<Rightarrow> bytes \<Rightarrow> bytes option" where
  "fits n v = (if length v < n then Some v else None)"

definition buf_of :: "nat \<Rightarrow> bytes \<Rightarrow> bytes" where
  "buf_of n v = v @ replicate (n - length v) 0"

definition sc_str :: "nat \<Rightarrow> bytes \<Rightarrow> bytes option" where
  "sc_str n v = do { m \<leftarrow> sc_convert (buf_of n v); c_str m }"

definition filled :: "nat \<Rightarrow> bytes \<Rightarrow> int \<Rightarrow> bytes option" where
  "filled n v arrlen = do { m \<leftarrow> fill_space (buf_of n v) arrlen; c_str m }"

primrec all_fit :: "nat list \<Rightarrow> bytes list \<Rightarrow> bytes list option" where
  "all_fit [] vs = Some []"
| "all_fit (n # ns) vs = (case vs of [] \<Rightarrow> Some []
     | v # vs \<Rightarrow> do { w \<leftarrow> fits n v; ws \<leftarrow> all_fit ns vs; Some (w # ws) })"

section \<open>Identifiers of page variables\<close>

definition cons_ids :: "int list" where
  "cons_ids = map (\<lambda>k. CFG_USER k CFG_TYPE_STR) ([8..23] @ [75..82])"

definition adva_ids :: "int list" where
  "adva_ids = map (\<lambda>k. CFG_USER k CFG_TYPE_STR) ([48..63] @ [91..98])"

definition set_univ_ids :: "int list" where
  "set_univ_ids = map (\<lambda>k. CFG_USER k CFG_TYPE_STR) [27..42]"

definition CFG_AKS_CONS1 :: int where "CFG_AKS_CONS1 = CFG_USER 8 CFG_TYPE_STR"
definition CFG_AKS_ADVA1 :: int where "CFG_AKS_ADVA1 = CFG_USER 48 CFG_TYPE_STR"
definition CFG_SET_UNIV0 :: int where "CFG_SET_UNIV0 = CFG_USER 27 CFG_TYPE_STR"
definition CFG_SET_ID :: int where "CFG_SET_ID = CFG_USER 24 CFG_TYPE_STR"
definition CFG_SET_LINK :: int where "CFG_SET_LINK = CFG_USER 25 CFG_TYPE_STR"
definition CFG_SET_UNLINK :: int where "CFG_SET_UNLINK = CFG_USER 26 CFG_TYPE_STR"
definition CFG_AKS_REL_BUILD :: int where "CFG_AKS_REL_BUILD = CFG_USER 64 CFG_TYPE_STR"
definition CFG_BATTERY_ID :: int where "CFG_BATTERY_ID = CFG_USER 68 CFG_TYPE_STR"

definition entry_index :: "int \<Rightarrow> int \<Rightarrow> int" where
  "entry_index cid first = (drop_bit 16 cid AND 0xff) - (drop_bit 16 first AND 0xff)"

section \<open>State and parameters\<close>

datatype sdk_call =
    Call_CFG_set_str int bytes
  | Call_CFG_set_ip int u32
  | Call_CFG_save int
  | Call_m2m_cfg_set bytes bytes
  | Call_put_field_n int bytes bytes
  | Call_user_config
  | Call_CFG_init_prof
  | Call_system2 bytes
  | Call_reboot
  | Call_CFG_set_int int int
  | Call_CFG_set_text int bytes
  | Call_CFG_del int
  | Call_RT_add_staticrt bytes
  | Call_RT_del_staticrt bytes
  | Call_DHCPD_leases_set "bytes option"
  | Call_DHCPC_release_one
  | Call_DHCPC_renew
  | Call_clear_system_log
  | Call_clear_seurity_log
  | Call_event_send_mail
  | Call_non_ntp_update int

record 'fl web_state = "'fl client_state" +
  sdk_calls :: "sdk_call list"

record 'fl web_env = "'fl client_env" +
  rel_date :: bytes
  CFG_get_str :: "sdk_call list \<Rightarrow> int \<Rightarrow> bytes option"

definition sdk :: "sdk_call \<Rightarrow> ('fl, 'z) web_state_scheme \<Rightarrow> ('fl, 'z) web_state_scheme" where
  "sdk c s = s\<lparr>sdk_calls := sdk_calls s @ [c]\<rparr>"

definition get_eCos_rel_build :: "('fl, 'e) web_env_scheme \<Rightarrow> bytes" where
  "get_eCos_rel_build env = lit ''Release Date: '' @ rel_date env @ lit '' Ver:'' @ eCos_ver env"

section \<open>Page variables\<close>

text \<open>The result is the text written to the page; every script string is quoted by \<open>quoted\<close>.\<close>

definition quoted :: "bytes \<Rightarrow> bytes" where
  "quoted v = [39] @ v @ [39]"

definition display_msg :: "bytes \<Rightarrow> bytes \<Rightarrow> bytes" where
  "display_msg name args = lit ''displayMsg('' @ quoted name @ lit '','' @ args @ lit '');'' @ [10]"

definition popup_button :: "bytes \<Rightarrow> bytes" where
  \<open>popup_button ip = lit ''<button type="button" onclick="popupCenter('' @ quoted (lit ''http://'' @ ip @ lit ''/EN/id.html'')
     @ lit '', '' @ quoted (lit ''myPop1'') @ lit '',400,300);">ID</button>''\<close>

definition update_button :: "bytes \<Rightarrow> bytes \<Rightarrow> bytes" where
  \<open>update_button form ip = lit ''<button type="button" onclick="updateFirmware(document.'' @ form @ lit '', ''
     @ quoted (lit ''http://'' @ ip @ lit ''/EN/update_firmware.html'') @ lit '');">Update</button>''\<close>

definition node_link :: "bytes \<Rightarrow> bytes \<Rightarrow> bytes" where
  \<open>node_link ip name = lit ''<a href="http://'' @ ip @ lit ''" target="_blank">'' @ name @ lit ''</a>''\<close>

text \<open>One column of a firmware row: the version, a blank and a button filled up with blanks.\<close>

definition version_column :: "bytes \<Rightarrow> bytes \<Rightarrow> bytes \<Rightarrow> nat \<Rightarrow> bytes option" where
  "version_column ver form ip n = do {
     val \<leftarrow> fits 640 (ver @ lit '' '');
     cmd_buff \<leftarrow> fits 128 (update_button form ip);
     cmd_buff \<leftarrow> filled 128 cmd_buff (int (length cmd_buff + n));
     val \<leftarrow> fits 640 (val @ cmd_buff);
     sc_str 640 val }"

definition adva_row :: "bytes \<Rightarrow> int \<Rightarrow> ('fl, 'z) client_state_scheme \<Rightarrow> bytes option" where
  "adva_row name idx s = do {
     (rc, r) \<leftarrow> get_client_entry_adva idx s;
     if rc = -1 then Some []
     else do {
       r \<leftarrow> all_fit [24, 20, 12, 4, 4] r;
       let node_name = r ! 0;
       let ip_addr = r ! 1;
       let ecos = r ! 2;
       let samd = r ! 3;
       ip_addr_save \<leftarrow> fits 20 ip_addr;
       href_link \<leftarrow> fits 128 (node_link ip_addr node_name);
       href_link \<leftarrow> filled 128 href_link (int (length href_link) + 17 - int (length node_name));
       ip_addr \<leftarrow> filled 20 ip_addr 17;
       val \<leftarrow> fits 640 href_link;
       val \<leftarrow> fits 640 (val @ ip_addr);
       link_col \<leftarrow> sc_str 640 val;
       cmd_buff \<leftarrow> fits 128 (popup_button ip_addr_save);
       cmd_buff \<leftarrow> filled 128 cmd_buff (int (length cmd_buff + 5));
       id_col \<leftarrow> sc_str 128 cmd_buff;
       ecos_col \<leftarrow> version_column ecos (lit ''Upgrade_eCos'') ip_addr_save 5;
       samd_col \<leftarrow> version_column samd (lit ''Upgrade_SAMD'') ip_addr_save 3;
       Some (display_msg name (quoted link_col @ lit ''+'' @ quoted id_col @ lit ''+'' @
         quoted ecos_col @ lit ''+'' @ quoted samd_col)) } }"

definition cons_row :: "bytes \<Rightarrow> int \<Rightarrow> ('fl, 'z) client_state_scheme \<Rightarrow> bytes option" where
  "cons_row name idx s = do {
     (rc, r) \<leftarrow> get_client_entry idx s;
     if rc = -1 then Some []
     else do {
       r \<leftarrow> all_fit [24, 20, 4, 4, 12, 128, 128, 20, 60, 4, 8] r;
       let node_name = r ! 0;
       let ip_addr = r ! 1;
       let universe = r ! 2;
       let art_sub = r ! 3;
       let battery = r ! 4;
       let prot = r ! 5;
       let sacn_uni = r ! 6;
       let sort_by = r ! 7;
       let host_mode = r ! 8;
       let timo_power = r ! 9;
       let rgb_led_color = r ! 10;
       val \<leftarrow> fits 640 (lit ''B'' @ battery);
       own \<leftarrow> c_str (this_node_ip_address s);
       Some (lit ''BuildDisplayMsg('' @ quoted name @ concat (map (\<lambda>v. lit '','' @ quoted v)
         [node_name, ip_addr, prot, art_sub, universe, sacn_uni, host_mode, val, timo_power, rgb_led_color, sort_by, own])
         @ lit '');'' @ [10]) } }"

definition command_status :: "bytes \<Rightarrow> int \<Rightarrow> bytes" where
  "command_status name rc = display_msg name (quoted (if rc = 0 then lit ''Command Status : Success'' else lit ''Command Status : Fail''))"

definition battery_line :: "bytes \<Rightarrow> bytes \<Rightarrow> bytes \<Rightarrow> bytes" where
  \<open>battery_line mode ip battery =
     lit ''<center><font color="black" size="2">Mode: </font><font color="orange" size="3"><b>'' @ mode @
     lit ''</b> &nbsp;&nbsp;&nbsp;</font><font color="black" size="2">IP: </font><font color="blue" size="3"><b>'' @ ip @
     lit ''</b> &nbsp;&nbsp;</font><font color="black" size="2">Battery: </font><font color="green" size="3"><b>'' @ battery @
     lit ''%</b> &nbsp;&nbsp;</font></center>''\<close>

definition CGI_var_map :: "('fl, 'e) web_env_scheme \<Rightarrow> bytes \<Rightarrow> int \<Rightarrow> ('fl, 'z) web_state_scheme \<Rightarrow>
    (bytes \<times> ('fl, 'z) web_state_scheme) option" where
  "CGI_var_map env name cid s =
    (if cid \<in> set adva_ids
     then map_option (\<lambda>t. (t, s)) (adva_row name (entry_index cid CFG_AKS_ADVA1) s)
     else if cid \<in> set cons_ids
     then do {
       s \<leftarrow> (if cid = CFG_AKS_CONS1 then sort_client_list s else Some s);
       map_option (\<lambda>t. (t, s)) (cons_row name (entry_index cid CFG_AKS_CONS1) s) }
     else if cid = CFG_SET_ID then map_option (\<lambda>(rc, s). (command_status name rc, s)) (Send_ID_Command s)
     else if cid = CFG_SET_LINK then map_option (\<lambda>(rc, s). (command_status name rc, s)) (Send_Link_Command s)
     else if cid = CFG_SET_UNLINK then map_option (\<lambda>(rc, s). (command_status name rc, s)) (Send_UnLink_Command s)
     else if cid = CFG_AKS_REL_BUILD
     then do {
       val \<leftarrow> fits 640 (get_eCos_rel_build env);
       v \<leftarrow> get_SAMD_ver s;
       cmd_buff \<leftarrow> fits 128 v;
       val \<leftarrow> fits 640 (val @ lit ''  SAMD:'');
       val \<leftarrow> fits 640 (val @ cmd_buff);
       Some (display_msg name (quoted val), s) }
     else if cid = CFG_BATTERY_ID
     then do {
       (b, s) \<leftarrow> get_battery_info s;
       cmd_buff \<leftarrow> fits 128 b;
       ip_addr \<leftarrow> fits 20 (fst (get_module_ipaddress_mode s));
       mode \<leftarrow> fits 20 (snd (get_module_ipaddress_mode s));
       val \<leftarrow> fits 640 (battery_line mode ip_addr cmd_buff);
       val \<leftarrow> sc_str 640 val;
       Some (display_msg name (quoted val), s) }
     else if cid \<in> set set_univ_ids
     then Some ([], sdk (Call_CFG_save 0)
       (sdk (Call_CFG_set_str CFG_AKS_UNIVERSE (dec_int (entry_index cid CFG_SET_UNIV0))) s))
     else if cid = CFG_AKS_CONS_NUM
     then do {
       (_, v) \<leftarrow> ratpac_get_str cid (g_web_config s) (client_valid_num s);
       val \<leftarrow> fits 640 v;
       Some (lit ''consAddRow('' @ quoted val @ lit '');'' @ [10], s) }
     else do {
       (idx, v) \<leftarrow> ratpac_get_str cid (g_web_config s) (client_valid_num s);
       val \<leftarrow> fits 640 (if idx = -1 then (case CFG_get_str env (sdk_calls s) cid of None \<Rightarrow> v | Some w \<Rightarrow> w) else v);
       val \<leftarrow> sc_str 640 val;
       Some (lit ''addCfg('' @ quoted name @ lit '',0x'' @ hex_nat 8 (nat cid) @ lit '','' @ quoted val @ lit '');'' @ [10], s) })"

text \<open>\<open>CGI_var_map_array\<close> has its own buffer and asks the SDK only.\<close>

primrec CGI_var_map_array :: "('fl, 'e) web_env_scheme \<Rightarrow> bytes \<Rightarrow> int \<Rightarrow> nat list \<Rightarrow> ('fl, 'z) web_state_scheme \<Rightarrow> bytes option" where
  "CGI_var_map_array env name cid [] s = Some []"
| "CGI_var_map_array env name cid (i # is) s = do {
     val \<leftarrow> fits 512 (case CFG_get_str env (sdk_calls s) (cid + int i) of None \<Rightarrow> [] | Some w \<Rightarrow> w);
     val \<leftarrow> sc_str 512 val;
     more \<leftarrow> CGI_var_map_array env name cid is s;
     Some (lit ''addCfg('' @ quoted (name @ dec_nat (i + 1)) @ lit '',0x'' @ hex_nat 8 (nat (cid + int i)) @ lit '',''
       @ quoted val @ lit '');'' @ [10] @ more) }"

text \<open>\<open>CGI_put_var\<close> prints a variable of the request as it is.\<close>

definition CGI_put_var :: "(bytes \<Rightarrow> bytes option) \<Rightarrow> bytes \<Rightarrow> bytes" where
  "CGI_put_var WEB_query var = (case WEB_query var of None \<Rightarrow> [] | Some val \<Rightarrow> val)"


end
