(* ===== verification/WebPageFacts.thy ===== *)
theory WebPageFacts
  imports WebPage
begin

text \<open>
  What the page of the browser gets: strings come back unchanged through the escaping, columns have a fixed
  width, and the table of nodes has the rows of the sorted list, but never more than sixteen of them.
\<close>

section \<open>Escaping\<close>

definition escaped :: "bytes \<Rightarrow> bytes" where
  "escaped s = concat (map (\<lambda>b. if is_special b then [92, b] else [b]) s)"

lemma escaped_simps [simp]: "escaped [] = []"
  "escaped (b # s) = (if is_special b then [92, b] else [b]) @ escaped s"
  by (simp_all add: escaped_def)

lemma length_escaped: "length (escaped s) = length s + length (filter is_special s)"
  by (induction s) auto

lemma special_not_0 [simp]: "\<not> is_special 0" "is_special b \<Longrightarrow> b \<noteq> 0"
  by (auto simp: is_special_def)

lemma is_cstr_escaped: "is_cstr s \<Longrightarrow> is_cstr (escaped s)"
  by (induction s) (auto split: if_splits)

lemma escaped_plain: "\<not> list_ex is_special s \<Longrightarrow> escaped s = s"
  by (induction s) auto

lemma sc_convert_from_string:
  assumes "is_cstr s"
  shows "sc_convert_from (pre @ s @ 0 # rest) (length pre) =
    (if length (filter is_special s) \<le> length rest
     then Some (pre @ escaped s @ 0 # drop (length (filter is_special s)) rest) else None)"
  using assms
proof (induction s arbitrary: pre rest)
  case Nil
  show ?case by (subst sc_convert_from.simps) (simp add: nth_append)
next
  case (Cons b s)
  let ?m = "pre @ (b # s) @ 0 # rest"
  have b: "b \<noteq> 0" "is_cstr s" "?m ! length pre = b" "length pre < length ?m"
    using Cons.prems by (simp_all add: nth_append)
  show ?case
  proof (cases "is_special b")
    case False
    have "sc_convert_from ?m (length pre) = sc_convert_from ?m (length pre + 1)"
      using b False by (subst sc_convert_from.simps) simp
    also have "?m = (pre @ [b]) @ s @ 0 # rest" by simp
    finally show ?thesis using Cons.IH [OF b(2), of "pre @ [b]" rest] False by simp
  next
    case True
    have str: "str_at ?m (length pre) = Some (b # s)"
      using Cons.prems by (simp add: str_at_def)
    have step: "sc_convert_from ?m (length pre) = Option.bind (mem_put (length pre + 1) ((b # s) @ [0]) ?m)
        (\<lambda>m. sc_convert_from (m[length pre := 92]) (length pre + 2))"
      using b True str by (subst sc_convert_from.simps) simp
    show ?thesis
    proof (cases rest)
      case Nil
      then show ?thesis using True unfolding step by (simp add: mem_put_def)
    next
      case (Cons r rs)
      have put: "mem_put (length pre + 1) ((b # s) @ [0]) ?m = Some (pre @ [b] @ (b # s) @ 0 # rs)"
        using Cons by (simp add: mem_put_def poke_def numeral_3_eq_3)
      then have "sc_convert_from ?m (length pre) = sc_convert_from ((pre @ [92, b]) @ s @ 0 # rs) (length (pre @ [92, b]))"
        unfolding step put by (simp add: list_update_append)
      then show ?thesis using Cons.IH [OF b(2), of "pre @ [92, b]" rs] True Cons by simp
    qed
  qed
qed

lemma sc_convert_string:
  assumes "c_str m = Some s"
  shows "sc_convert m = (if length (escaped s) < length m then Some (poke 0 (escaped s @ [0]) m) else None)"
proof -
  from assms obtain rest where s: "is_cstr s" and m: "m = s @ 0 # rest" by (auto simp: c_str_Some_iff)
  have d: "drop (Suc (length (escaped s))) (s @ 0 # rest) = drop (length (filter is_special s)) rest"
    by (simp add: length_escaped)
  show ?thesis
    using sc_convert_from_string [OF s, of "[]" rest]
    by (simp add: sc_convert_def m poke_def d) (simp add: length_escaped)
qed

lemma c_str_buf_of:
  assumes "is_cstr v" and "length v < n"
  shows "c_str (buf_of n v) = Some v"
proof -
  from assms(2) obtain k where "n = Suc (length v + k)" using less_iff_Suc_add by auto
  then have "buf_of n v = v @ 0 # replicate k 0" by (simp add: buf_of_def)
  then show ?thesis using assms(1) by simp
qed

lemma length_buf_of: "length v < n \<Longrightarrow> length (buf_of n v) = n"
  by (simp add: buf_of_def)

lemma sc_str_eq:
  assumes "is_cstr v" and "length v < n"
  shows "sc_str n v = (if length (escaped v) < n then Some (escaped v) else None)"
proof (cases "length (escaped v) < n")
  case True
  have "c_str (poke 0 (escaped v @ [0]) (buf_of n v)) = Some (escaped v)"
    using is_cstr_escaped [OF assms(1)] by (simp add: poke_def)
  then show ?thesis using True assms
    by (simp add: sc_str_def sc_convert_string [OF c_str_buf_of] length_buf_of)
next
  case False
  then show ?thesis using assms by (simp add: sc_str_def sc_convert_string [OF c_str_buf_of] length_buf_of)
qed

text \<open>The reader of the page: a script string in apostrophes. A line break inside it is an error, a backslash
  stands before a quote, an apostrophe or a backslash (the other escapes of the language are not needed here).\<close>

fun js_string :: "bytes \<Rightarrow> (bytes \<times> bytes) option" where
  "js_string [] = None"
| "js_string (b # s) =
    (if b = 39 then Some ([], s)
     else if b = 92 then (case s of [] \<Rightarrow> None
       | c # t \<Rightarrow> if is_special c then map_option (apfst (Cons c)) (js_string t) else None)
     else if b = 10 \<or> b = 13 then None
     else map_option (apfst (Cons b)) (js_string s))"

lemma js_string_escaped:
  "10 \<notin> set v \<Longrightarrow> 13 \<notin> set v \<Longrightarrow> js_string (escaped v @ 39 # rest) = Some (v, rest)"
  by (induction v) (auto simp: is_special_def)

text \<open>
  C27. The escaping of the web page ends for every string: it returns the buffer with the escaped string, and leaves
  the buffer exactly when the escaped string does not fit.
\<close>

theorem sc_convert_ends:
  assumes "c_str m = Some s"
  shows "sc_convert m = (if length (escaped s) < length m then Some (poke 0 (escaped s @ [0]) m) else None)"
  by (rule sc_convert_string [OF assms])

theorem sc_convert_ends_witness:
  "sc_convert [65, 39, 0, 1, 2] = Some [65, 92, 39, 0, 2] \<and> sc_convert [39, 39, 0, 7] = None"
  using sc_convert_ends [of "[65, 39, 0, 1, 2]" "[65, 39]"] sc_convert_ends [of "[39, 39, 0, 7]" "[39, 39]"]
  by (simp add: is_special_def poke_def)


section \<open>Columns\<close>

lemma fill_space_string:
  assumes "c_str m = Some s" and "0 < arrlen" and "nat arrlen \<le> length m"
  shows "\<exists>m'. fill_space m arrlen = Some m' \<and> length m' = length m \<and>
    c_str m' = Some (take (nat (arrlen - 1)) (s @ replicate (nat (arrlen - 1)) 32))"
proof -
  from assms(1) obtain rest where s: "is_cstr s" and m: "m = s @ 0 # rest" by (auto simp: c_str_Some_iff)
  define k where "k = nat (arrlen - 1)"
  have k: "k < length m" "\<not> arrlen - 1 < 0" using assms(2,3) by (simp_all add: k_def)
  define m1 where "m1 = poke (length s) (replicate (k - length s) 32) m"
  have len1: "length s + (k - length s) \<le> length m" using k m by simp
  have put: "mem_put (length s) (replicate (k - length s) 32) m = Some m1"
    using len1 by (simp add: m1_def)
  have l1: "length m1 = length m" using len1 by (simp add: m1_def)
  have row: "take k m1 = take k (s @ replicate k 32)"
  proof (cases "k \<le> length s")
    case True
    then show ?thesis by (simp add: m1_def m poke_def)
  next
    case False
    then show ?thesis by (simp add: m1_def m poke_def min_def)
  qed
  have "is_cstr (take k (s @ replicate k 32))" using s by (intro is_cstr_take) (simp add: is_cstr_def)
  moreover have "poke k [0] m1 = take k m1 @ 0 # drop (Suc k) m1" by (simp add: poke_def)
  ultimately have "c_str (poke k [0] m1) = Some (take k (s @ replicate k 32))"
    unfolding row by (simp only: c_str_terminated)
  moreover have "fill_space m arrlen = Some (poke k [0] m1)"
    using k l1 by (simp add: fill_space_def k_def [symmetric] assms(1) put del: mem_put_eq_Some) (simp add: mem_put_def)
  ultimately show ?thesis using k l1 unfolding k_def [symmetric] by (intro exI [of _ "poke k [0] m1"]) simp
qed

lemma filled_eq:
  assumes "is_cstr v" and "length v < n" and "0 < arrlen" and "nat arrlen \<le> n"
  shows "filled n v arrlen = Some (take (nat (arrlen - 1)) (v @ replicate (nat (arrlen - 1)) 32))"
proof -
  have "nat arrlen \<le> length (buf_of n v)" using assms(2,4) by (simp add: length_buf_of)
  from fill_space_string [OF c_str_buf_of [OF assms(1,2)] assms(3) this]
  show ?thesis by (auto simp: filled_def)
qed

text \<open>
  A column filled up by \<open>fill_space\<close> has exactly one character less than its length argument: the text, cut or
  followed by blanks; nothing is written outside the buffer.
\<close>

theorem column_width:
  assumes "c_str m = Some s" and "0 < arrlen" and "nat arrlen \<le> length m"
  shows "\<exists>m' t. fill_space m arrlen = Some m' \<and> length m' = length m \<and> c_str m' = Some t \<and>
    length t = nat (arrlen - 1) \<and> t = take (nat (arrlen - 1)) (s @ replicate (nat (arrlen - 1)) 32)"
  using fill_space_string [OF assms] by auto

theorem column_width_witness:
  "\<exists>m' t. fill_space [65, 0, 7, 7, 7] 4 = Some m' \<and> length m' = length [65, 0, 7, 7, 7 :: byte] \<and> c_str m' = Some t \<and>
    length t = nat (4 - 1) \<and> t = take (nat (4 - 1)) ([65] @ replicate (nat (4 - 1)) 32)"
  by (rule column_width) simp_all

section \<open>Settings on the page\<close>

lemma page_ids_apart:
  assumes "get_switch cid \<noteq> None"
  shows "cid \<notin> set adva_ids" "cid \<notin> set cons_ids" "cid \<notin> set set_univ_ids" "cid \<noteq> CFG_SET_ID" "cid \<noteq> CFG_SET_LINK"
    "cid \<noteq> CFG_SET_UNLINK" "cid \<noteq> CFG_AKS_REL_BUILD" "cid \<noteq> CFG_BATTERY_ID" "cid \<noteq> CFG_AKS_CONS_NUM"
proof -
  let ?ids = "map fst get_cases"
  have "cid \<in> set ?ids" using assms by (auto simp: get_switch_def dest: map_of_SomeD intro: rev_image_eqI)
  moreover have "set ?ids \<inter> (set adva_ids \<union> set cons_ids \<union> set set_univ_ids \<union> {CFG_SET_ID, CFG_SET_LINK, CFG_SET_UNLINK,
      CFG_AKS_REL_BUILD, CFG_BATTERY_ID, CFG_AKS_CONS_NUM}) = {}"
    by code_simp
  ultimately show "cid \<notin> set adva_ids" "cid \<notin> set cons_ids" "cid \<notin> set set_univ_ids" "cid \<noteq> CFG_SET_ID" "cid \<noteq> CFG_SET_LINK"
    "cid \<noteq> CFG_SET_UNLINK" "cid \<noteq> CFG_AKS_REL_BUILD" "cid \<noteq> CFG_BATTERY_ID" "cid \<noteq> CFG_AKS_CONS_NUM" by blast+
qed

text \<open>A character that needs escaping doubles; with 640 bytes of room every setting is shown.\<close>

lemma get_value_short:
  assumes ok: "web_ok cfg" and sw: "get_switch cid = Some (f, b)" and f: "f \<in> set str_fields"
  shows "\<exists>v. ratpac_get_str cid cfg n = Some (0, v) \<and> v = get_setting cid cfg \<and> length v < 20 \<and> is_cstr v"
proof -
  obtain s where s: "str_at cfg (foff f) = Some s" "length s < fsize f" "is_cstr s"
    using web_okD [OF ok f] by blast
  have "fsize f \<le> 20" by (cases f) simp_all
  moreover have "length (cut b s) \<le> length s" "is_cstr (cut b s)" using s(3) by (auto simp: cut_def split: option.splits)
  ultimately show ?thesis using sw s by (simp add: ratpac_get_str_def get_setting_def)
qed

lemma get_switch_fields: "get_switch cid = Some (f, b) \<Longrightarrow> f \<in> set str_fields"
proof -
  assume "get_switch cid = Some (f, b)"
  then have "(cid, f, b) \<in> set get_cases" by (simp add: get_switch_def map_of_SomeD)
  moreover have "list_all (\<lambda>(_, f, _). f \<in> set str_fields) get_cases"
    by (simp add: get_cases_def set_str_fields)
  ultimately show ?thesis by (auto simp: list_all_iff)
qed

lemma escaped_twice: "length (escaped v) \<le> 2 * length v"
  using length_filter_le [of is_special v] by (simp add: length_escaped)

text \<open>
  C28. A setting on the page: the variable of a setting prints a call of \<open>addCfg\<close> whose last argument, read as a
  script string, is the value that \<open>ratpac_get_str\<close> gives, whatever characters it has except line breaks. The
  state does not change.
\<close>

theorem page_shows_setting:
  assumes "web_ok (g_web_config s)" and "get_switch cid \<noteq> None"
  defines "v \<equiv> get_setting cid (g_web_config s)"
  shows "\<exists>arg. CGI_var_map env name cid s = Some (lit ''addCfg('' @ quoted name @ lit '',0x'' @ hex_nat 8 (nat cid) @
      lit '','' @ [39] @ arg @ lit '');'' @ [10], s) \<and>
    (10 \<notin> set v \<and> 13 \<notin> set v \<longrightarrow> js_string (arg @ lit '');'' @ [10]) = Some (v, lit '');'' @ [10]))"
proof -
  obtain f b where sw: "get_switch cid = Some (f, b)" using assms(2) by auto
  obtain v' where v: "ratpac_get_str cid (g_web_config s) (client_valid_num s) = Some (0, v')" "v' = v" "length v' < 20" "is_cstr v'"
    using get_value_short [OF assms(1) sw get_switch_fields [OF sw], of "client_valid_num s"] unfolding v_def by blast
  have "length (escaped v) < 640" using v(3) [unfolded v(2)] escaped_twice [of v] by linarith
  then have sc: "fits 640 v = Some v" "sc_str 640 v = Some (escaped v)"
    using v(2-4) sc_str_eq [of v 640] by (simp_all add: fits_def)
  have "CGI_var_map env name cid s = Some (lit ''addCfg('' @ quoted name @ lit '',0x'' @ hex_nat 8 (nat cid) @
      lit '','' @ quoted (escaped v) @ lit '');'' @ [10], s)"
    using page_ids_apart [OF assms(2)] v(1,2) sc by (simp add: CGI_var_map_def del: lit_simps)
  then show ?thesis
    using js_string_escaped [of v "lit '');'' @ [10]"]
    by (intro exI [of _ "escaped v @ [39]"]) (simp add: quoted_def del: lit_simps)
qed

section \<open>The table of nodes\<close>

lemma row_fits:
  assumes "ent_ok e"
  shows "all_fit [24, 20, 4, 4, 12, 128, 128, 20, 60, 4, 8] (row e) = Some (row e)"
proof -
  have len: "length (info e m) < csize m" for m
  proof -
    have "packed_ok coff csize cmembers sizeof_ent_chars (ent_chars e)" using assms by (simp add: ent_ok_def)
    from packed_okD [OF this set_cmembers, of m] ent_str_ok [OF assms, of m]
    show "length (info e m) < csize m" by (auto simp: ent_str_def)
  qed
  have "length (no_name (info e C_node_name)) < 24"
    using len [of C_node_name] by (simp add: no_name_def)
  then show ?thesis
    using len [of C_ip_addr] len [of C_universe] len [of C_subnet] len [of C_protocol] len [of C_sacn_univ]
      len [of C_sort_by] len [of C_host_mode] len [of C_crmx_power] len [of C_led_color]
    by (simp add: row_def Let_def fits_def)
qed

text \<open>The call that shows one node.\<close>

definition node_call :: "bytes \<Rightarrow> bytes \<Rightarrow> client_ent \<Rightarrow> bytes" where
  "node_call own name e = (let f = info e in
     lit ''BuildDisplayMsg('' @ quoted name @ concat (map (\<lambda>v. lit '','' @ quoted v)
       [no_name (f C_node_name), f C_ip_addr, f C_protocol, f C_subnet, f C_universe, f C_sacn_univ, f C_host_mode,
        lit ''B'' @ take 7 (f C_baterry @ [37]), f C_crmx_power, f C_led_color, f C_sort_by, own]) @ lit '');'' @ [10])"

lemma cons_row_eq:
  assumes "get_client_entry idx s = Some (0, row e)" and "ent_ok e" and "c_str (this_node_ip_address s) = Some own"
  shows "cons_row name idx s = Some (node_call own name e)"
proof -
  have "length (take 7 (info e C_baterry @ [37])) \<le> 7" by simp
  then have "fits 640 (lit ''B'' @ take 7 (info e C_baterry @ [37])) = Some (lit ''B'' @ take 7 (info e C_baterry @ [37]))"
    by (simp add: fits_def)
  then show ?thesis using assms row_fits [OF assms(2)]
    by (simp add: cons_row_def node_call_def row_def Let_def del: lit_simps)
qed

lemma cons_ids_length: "length cons_ids = 24"
  by (simp add: cons_ids_def)

lemma cons_index:
  assumes "k < 24"
  shows "entry_index (cons_ids ! k) CFG_AKS_CONS1 = (if k < 16 then int k else int k + 51)"
proof -
  have "list_all (\<lambda>k. entry_index (cons_ids ! k) CFG_AKS_CONS1 = (if k < 16 then int k else int k + 51)) [0..<24]"
    by code_simp
  then show ?thesis using assms by (simp only: list_all_iff set_upt) simp
qed

lemma cons_apart:
  assumes "k < 24"
  shows "cons_ids ! k \<in> set cons_ids" "cons_ids ! k \<notin> set adva_ids" "cons_ids ! k = CFG_AKS_CONS1 \<longleftrightarrow> k = 0"
proof -
  have "list_all (\<lambda>k. cons_ids ! k \<notin> set adva_ids \<and> (cons_ids ! k = CFG_AKS_CONS1 \<longleftrightarrow> k = 0)) [0..<24]"
    by code_simp
  then show "cons_ids ! k \<notin> set adva_ids" "cons_ids ! k = CFG_AKS_CONS1 \<longleftrightarrow> k = 0"
    using assms by (simp_all only: list_all_iff set_upt) simp_all
  show "cons_ids ! k \<in> set cons_ids" using assms cons_ids_length by simp
qed

lemma cons_variable:
  "k < 24 \<Longrightarrow> CGI_var_map env name (cons_ids ! k) s = do {
     s \<leftarrow> (if k = 0 then sort_client_list s else Some s);
     map_option (\<lambda>t. (t, s)) (cons_row name (if k < 16 then int k else int k + 51) s) }"
  using cons_apart [of k] cons_index [of k] by (simp add: CGI_var_map_def)

lemma no_row: "get_client_entry i s = Some (-1, r) \<Longrightarrow> cons_row name i s = Some []"
  by (simp add: cons_row_def)

text \<open>
  C29. The table of nodes: the variable of the first row sorts the list, and the rows then show the nodes in the order of
  the selected key, the row \<open>k\<close> the node \<open>k\<close>. But the identifiers of the rows from the seventeenth on
  are not the successors of the first sixteen, so that these rows always stay empty: of up to 24 known nodes the page
  shows sixteen.
\<close>

theorem node_table:
  assumes inv: "table_inv env own s" and arr: "length (sort_array s) = MAX_NUM_ENTRY"
    and key: "sort_key (hd (get_setting CFG_SORT_BY (g_web_config s))) = Some key"
    and ip: "c_str (this_node_ip_address s) = Some ip"
  shows "\<exists>t es. mset es = mset (hd (client_valid_list s) # filter live (tl (client_list s))) \<and> sorted_wrt (key_le key) es \<and>
    CGI_var_map wenv name (hd cons_ids) s = Some (node_call ip name (hd es), t) \<and>
    (\<forall>k \<in> {1..<24}. CGI_var_map wenv name (cons_ids ! k) t =
       Some (if k < 16 \<and> k < length es then node_call ip name (es ! k) else [], t))"
proof -
  obtain t es where t: "sort_client_list s = Some t"
    and ms: "mset es = mset (hd (client_valid_list s) # filter live (tl (client_list s)))"
    and srt: "sorted_wrt (key_le key) es"
    and ent: "\<And>i. 0 \<le> i \<Longrightarrow> get_client_entry i t =
      (if nat i < length es then Some (0, row (es ! nat i)) else Some (-1, [[], [], []]))"
    using sorted_rows [OF inv arr key] by blast
  have upd: "t = s\<lparr>sort_array := sort_array t\<rparr>" using sort_client_list_view [OF inv arr key] t by auto
  have ip': "c_str (this_node_ip_address t) = Some ip" using ip arg_cong [OF upd, of this_node_ip_address] by simp
  note sf = shown_facts [OF inv]
  have sh: "mset es = mset (shown s)"
  proof -
    have "shown s \<noteq> []" using sf(1,5) by auto
    moreover have "hd (shown s) = hd (client_valid_list s)" using sf(1) by (simp add: shown_def hd_take)
    ultimately show ?thesis using ms sf(3) by (metis list.collapse)
  qed
  then have len: "length es = length (shown s)" and ok: "\<forall>e\<in>set es. ent_ok e"
    using sf(4) by (metis size_mset, metis set_mset_mset)
  have es: "es \<noteq> []" "length es \<le> 24" using len sf(1,2,5) by (auto simp: MAX_NUM_ENTRY_def)
  have row: "cons_row name (int k) t = Some (if k < length es then node_call ip name (es ! k) else [])" for k
    using ent [of "int k"] ok ip' cons_row_eq [of "int k" t "es ! k" ip name] no_row [of "int k" t "[[], [], []]" name]
    by simp
  have hd0: "hd cons_ids = cons_ids ! 0" using cons_ids_length by (simp add: hd_conv_nth flip: length_greater_0_conv)
  have first: "CGI_var_map wenv name (hd cons_ids) s = Some (node_call ip name (hd es), t)"
    using cons_variable [of 0 wenv name s] t row [of 0] es(1) by (simp add: hd0 hd_conv_nth)
  have "CGI_var_map wenv name (cons_ids ! k) t = Some (if k < 16 \<and> k < length es then node_call ip name (es ! k) else [], t)"
    if "k \<in> {1..<24}" for k
  proof (cases "k < 16")
    case True
    then show ?thesis using cons_variable [of k wenv name t] row [of k] that by simp
  next
    case False
    have "cons_row name (int k + 51) t = Some []" using row [of "k + 51"] es(2) that by (simp add: add.commute)
    then show ?thesis using cons_variable [of k wenv name t] False that by simp
  qed
  then show ?thesis using ms srt first by blast
qed

section \<open>Witnesses\<close>

definition sample_web_env :: "bytes web_env" where
  "sample_web_env = client_env.extend sample_client_env (web_env.fields (lit ''2020'') (\<lambda>_ _. None))"

definition sample_web :: "bytes client_state \<Rightarrow> bytes web_state" where
  "sample_web s = client_state.extend (s\<lparr>this_node_ip_address := lit ''10.0.0.1'' @ [0]\<rparr>) (web_state.fields [])"

lemma sample_web_fields: "g_web_config (sample_web s) = g_web_config s" "sort_array (sample_web s) = sort_array s"
  "client_list (sample_web s) = client_list s" "client_valid_list (sample_web s) = client_valid_list s"
  "this_node_ip_address (sample_web s) = lit ''10.0.0.1'' @ [0]" "sdk_calls (sample_web s) = []"
  "client_valid_num (sample_web s) = client_valid_num s" "user_flash (sample_web s) = user_flash s"
  by (simp_all add: sample_web_def client_state.extend_def web_state.fields_def)

lemma sample_web_inv:
  assumes "table_inv env own s"
  shows "table_inv env own (sample_web s)"
  using assms by (simp add: table_inv_def entries_ok_def announcer_ok_def shows_live_def own_ip_text_def Let_def
      sample_web_def client_state.extend_def web_state.fields_def del: lit_simps)

theorem page_shows_setting_witness:
  "\<exists>(s :: bytes web_state) arg. CGI_var_map sample_web_env (lit ''n'') CFG_AKS_NAME s =
      Some (lit ''addCfg('' @ quoted (lit ''n'') @ lit '',0x'' @ hex_nat 8 (nat CFG_AKS_NAME) @
      lit '','' @ [39] @ arg @ lit '');'' @ [10], s)"
proof -
  obtain s :: "bytes client_state" where s: "table_inv sample_client_env (lit ''10.10.100.254'') s" by (rule sample_alone)
  have "web_ok (g_web_config (sample_web s))" using s by (simp add: table_inv_def announcer_ok_def sample_web_fields)
  moreover have "get_switch CFG_AKS_NAME \<noteq> None" by (simp add: get_switch_def get_cases_def)
  ultimately show ?thesis using page_shows_setting [of "sample_web s" CFG_AKS_NAME sample_web_env "lit ''n''"] by blast
qed

theorem node_table_witness:
  "\<exists>(s :: bytes web_state) t. CGI_var_map sample_web_env (lit ''n'') (cons_ids ! 0) s =
      Some (node_call (lit ''10.0.0.1'') (lit ''n'') (hd (client_valid_list s)), t) \<and>
    CGI_var_map sample_web_env (lit ''n'') (cons_ids ! 20) t = Some ([], t)"
proof -
  obtain s0 :: "bytes client_state" where s0: "table_inv sample_client_env (lit ''10.10.100.254'') s0"
    "length (sort_array s0) = MAX_NUM_ENTRY"
    "sort_key (hd (get_setting CFG_SORT_BY (g_web_config s0))) = Some (ent_str C_node_name)"
    "filter live (tl (client_list s0)) = []" by (rule sample_alone)
  let ?s = "sample_web s0"
  have ip: "c_str (this_node_ip_address ?s) = Some (lit ''10.0.0.1'')" by (simp add: sample_web_fields)
  obtain t es where t: "mset es = mset (hd (client_valid_list ?s) # filter live (tl (client_list ?s)))"
    "CGI_var_map sample_web_env (lit ''n'') (hd cons_ids) ?s = Some (node_call (lit ''10.0.0.1'') (lit ''n'') (hd es), t)"
    "\<forall>k \<in> {1..<24}. CGI_var_map sample_web_env (lit ''n'') (cons_ids ! k) t =
       Some (if k < 16 \<and> k < length es then node_call (lit ''10.0.0.1'') (lit ''n'') (es ! k) else [], t)"
    using node_table [OF sample_web_inv [OF s0(1)] _ _ ip, of "ent_str C_node_name" sample_web_env "lit ''n''"] s0(2,3)
    unfolding sample_web_fields by blast
  have "mset es = {#hd (client_valid_list ?s)#}" using t(1) s0(4) by (simp add: sample_web_fields)
  then have es: "es = [hd (client_valid_list ?s)]" by (metis mset_single_iff)
  have "hd cons_ids = cons_ids ! 0" using cons_ids_length by (simp add: hd_conv_nth flip: length_greater_0_conv)
  then show ?thesis using t(2) bspec [OF t(3), of 20] es by (intro exI [of _ ?s] exI [of _ t]) (simp del: lit_simps)
qed

end
