(* ===== verification/WebCommands.thy ===== *)
theory WebCommands
  imports WebPageFacts
begin

text \<open>
  The requests of the web page: \<open>CGI_do_cmd\<close> of \<^verbatim>\<open>src/websrc/cgi/cgi_v2/cgi_api.c\<close>. A request is a map from
  parameter names to strings (\<open>WEB_query\<close>); \<open>CMD\<close> names the command, \<open>SET0\<close>, \<open>SET1\<close>, ... are settings in the form
  \<open>id=value\<close>.

  The functions of the tables \<open>ps_cgi_cmds\<close> and \<open>as_cgi_cmds\<close> are one parameter, \<open>cgi_handler\<close>; they are modelled in
  \<open>RouterCommands\<close>, \<open>FactoryReset\<close> and \<open>Upgrade\<close>. The SDK functions are parameters too. The counter \<open>update_cnt\<close> is always
  0 in this code, so that the restart of the network interfaces is never reached, and \<open>forceToReboot\<close> has no effect;
  the user check is left out of this build.
\<close>

section \<open>Parameters\<close>

record 'fl cgi_env = "'fl web_env" +
  CFG_set_str :: "sdk_call list \<Rightarrow> int \<Rightarrow> bytes \<Rightarrow> int"
  f_setting_get :: "sdk_call list \<Rightarrow> bytes \<Rightarrow> bytes"
  CFG_id2str :: "int \<Rightarrow> bytes"
  cgi_handler :: "bytes \<Rightarrow> (bytes \<Rightarrow> bytes option) \<Rightarrow> 'fl web_state \<Rightarrow> (int \<times> 'fl web_state) option"

type_synonym request = "bytes \<Rightarrow> bytes option"

definition CGI_RC_OK :: int where "CGI_RC_OK = 0"
definition CGI_RC_CFG_OK :: int where "CGI_RC_CFG_OK = 1"
definition CGI_RC_REBOOT :: int where "CGI_RC_REBOOT = 3"
definition CGI_RC_CFG_ERR :: int where "CGI_RC_CFG_ERR = -2"

definition CFG_SYS_ADMPASS :: int where "CFG_SYS_ADMPASS = CFG_ID 1 1 CFG_TYPE_STR 0"
definition CFG_SYS_USERS :: int where "CFG_SYS_USERS = CFG_ID 1 11 CFG_TYPE_STR 0"
definition CFG_POE_PASS :: int where "CFG_POE_PASS = CFG_ID 7 4 CFG_TYPE_STR 0"
definition CFG_POE_USER :: int where "CFG_POE_USER = CFG_ID 7 6 CFG_TYPE_STR 0"
definition CFG_WLN_MACRepeaterEn :: int where "CFG_WLN_MACRepeaterEn = CFG_ID 4 240 CFG_TYPE_INT 0"

definition CFG_ID_TYPE :: "int \<Rightarrow> int" where
  "CFG_ID_TYPE cid = drop_bit 8 cid AND 0xff"

definition ps_cgi_cmds :: "bytes list" where
  "ps_cgi_cmds = [lit ''SYS_CONF'', lit ''SYS_LOG'', lit ''SECURE_LOG'', lit ''SYS_PASS'', lit ''WAN_CON'', lit ''SYS_UPG'',
     lit ''SYS_ULD'', lit ''SAMD_UPG'', lit ''TIMO_UPG'', lit ''LAN_DHC'', lit ''RT_ADD'', lit ''WIRELESS_SECURITY'',
     lit ''WIRELESS_SIMPLE_CONFIG_DEVICE'', lit ''ACL'', lit ''UBOOT_UPG'', lit ''LOAD_CERT'']"

definition as_cgi_cmds :: "bytes list" where
  "as_cgi_cmds = [lit ''SYS_LOG_MAIL'', lit ''NTP'']"

primrec call_handlers :: "('fl, 'e) cgi_env_scheme \<Rightarrow> request \<Rightarrow> bytes \<Rightarrow> bytes list \<Rightarrow> int \<times> 'fl web_state \<Rightarrow>
    (int \<times> 'fl web_state) option" where
  "call_handlers env q cmd [] x = Some x"
| "call_handlers env q cmd (n # ns) x =
    (if n = cmd
     then do {
       (rc, s) \<leftarrow> cgi_handler env n q (snd x);
       if rc < 0 then Some (rc, s) else call_handlers env q cmd ns (rc, s) }
     else call_handlers env q cmd ns x)"

section \<open>Settings\<close>

text \<open>What the loop carries: \<open>rc\<close>, \<open>forceToReboot\<close>, \<open>sACNforceToReboot\<close> and the state.\<close>

type_synonym 'fl set_state = "int \<times> bool \<times> bool \<times> 'fl web_state"

definition set_one :: "('fl, 'e) cgi_env_scheme \<Rightarrow> int \<Rightarrow> bytes \<Rightarrow> 'fl set_state \<Rightarrow> 'fl set_state option" where
  "set_one env cid val = (\<lambda>(rc, force, sacn, s).
    if cid = 0 then Some (rc, force, sacn, s)
    else do {
      let val = (if CFG_ID_TYPE cid = CFG_TYPE_STR \<and> cid \<noteq> CFG_POE_USER \<and> cid \<noteq> CFG_POE_PASS
                 then takeWhile (\<lambda>b. b \<noteq> 10 \<and> b \<noteq> 13) val else val);
      let force = (force \<or> CFG_id2str env cid = lit ''WLN_BssidNum'');
      let sacn = (sacn \<or> CFG_SACN_UNIV = cid \<or> CFG_PROTNAME = cid);
      (rc, cfg) \<leftarrow> ratpac_set_str cid val (g_web_config s);
      let s = s\<lparr>g_web_config := cfg\<rparr>;
      let (rc, s) = (if rc = -1 then (CFG_set_str env (sdk_calls s) cid val, sdk (Call_CFG_set_str cid val) s) else (rc, s));
      let s = (if cid = CFG_SYS_USERS \<or> cid = CFG_SYS_ADMPASS then sdk Call_user_config s else s);
      Some (if rc \<ge> 0 then CGI_RC_CFG_OK else rc, force, sacn, s) })"

primrec set_loop :: "('fl, 'e) cgi_env_scheme \<Rightarrow> request \<Rightarrow> nat list \<Rightarrow> 'fl set_state \<Rightarrow> 'fl set_state option" where
  "set_loop env q [] x = Some x"
| "set_loop env q (i # is) x = (case q (lit ''SET'' @ dec_nat i) of
     None \<Rightarrow> Some x
   | Some cmdv \<Rightarrow> (case strchr 61 cmdv of
       None \<Rightarrow> Some (CGI_RC_CFG_ERR, snd x)
     | Some k \<Rightarrow>
        if k = 0 then Some (CGI_RC_CFG_ERR, snd x)
        else do {
          x \<leftarrow> set_one env (atoi (take k cmdv)) (drop (k + 1) cmdv) x;
          set_loop env q is x }))"

section \<open>Commands of this product\<close>

definition set_setting :: "int \<Rightarrow> bytes \<Rightarrow> 'fl web_state \<Rightarrow> 'fl web_state option" where
  "set_setting cid v s = do {
     (_, cfg) \<leftarrow> ratpac_set_str cid v (g_web_config s);
     Some (s\<lparr>g_web_config := cfg\<rparr>) }"

text \<open>A setting read into a buffer of \<open>n\<close> bytes.\<close>

definition get_into :: "nat \<Rightarrow> int \<Rightarrow> 'fl web_state \<Rightarrow> bytes option" where
  "get_into n cid s = do {
     (_, v) \<leftarrow> ratpac_get_str cid (g_web_config s) (client_valid_num s);
     fits n v }"

text \<open>The part behind the first \<open>c\<close> of a string, and the parts around it.\<close>

definition behind :: "byte \<Rightarrow> bytes \<Rightarrow> bytes option" where
  "behind c v = map_option (\<lambda>i. drop (i + 1) v) (strchr c v)"

definition cut_at :: "byte \<Rightarrow> bytes \<Rightarrow> (bytes \<times> bytes) option" where
  "cut_at c v = map_option (\<lambda>i. (take i v, drop (i + 1) v)) (strchr c v)"

definition do_set_universe :: "('fl, 'e) cgi_env_scheme \<Rightarrow> bytes \<Rightarrow> 'fl web_state \<Rightarrow> (int \<times> 'fl web_state) option" where
  "do_set_universe env cmd s = (case behind 61 cmd of None \<Rightarrow> Some (CGI_RC_OK, s)
   | Some tmp1 \<Rightarrow> (case cut_at 45 tmp1 of None \<Rightarrow> Some (CGI_RC_OK, s)
     | Some (tmp1, tmp2) \<Rightarrow> do {
        art_subnet \<leftarrow> fits 4 tmp1;
        uniNo \<leftarrow> fits 4 tmp2;
        s \<leftarrow> set_setting CFG_AKS_UNIVERSE uniNo s;
        s \<leftarrow> set_setting CFG_AKS_SUBNET art_subnet s;
        Some (CGI_RC_OK, write_data_to_flash env s) }))"

definition do_set_proto_universe :: "('fl, 'e) cgi_env_scheme \<Rightarrow> bytes \<Rightarrow> 'fl web_state \<Rightarrow> (int \<times> 'fl web_state) option" where
  "do_set_proto_universe env cmd s = (case behind 61 cmd of None \<Rightarrow> Some (CGI_RC_OK, s)
   | Some tmp1 \<Rightarrow> (case cut_at 45 tmp1 of None \<Rightarrow> Some (CGI_RC_OK, s)
     | Some (tmp1, tmp2) \<Rightarrow> (case cut_at 45 tmp2 of None \<Rightarrow> Some (CGI_RC_OK, s)
       | Some (tmp2, tmp3) \<Rightarrow> (case cut_at 45 tmp3 of None \<Rightarrow> Some (CGI_RC_OK, s)
         | Some (tmp3, tmp4) \<Rightarrow> do {
            pre_prot \<leftarrow> get_into 4 CFG_PROTNAME s;
            pre_suni \<leftarrow> get_into 8 CFG_SACN_UNIV s;
            art_subnet \<leftarrow> fits 4 tmp1;
            uniNo \<leftarrow> fits 4 tmp2;
            suni \<leftarrow> fits 8 tmp3;
            prot \<leftarrow> fits 4 tmp4;
            let force = (pre_prot \<noteq> prot \<or> (pre_prot @ [0]) ! 0 = 49 \<and> pre_suni \<noteq> suni);
            s \<leftarrow> set_setting CFG_AKS_UNIVERSE uniNo s;
            s \<leftarrow> set_setting CFG_AKS_SUBNET art_subnet s;
            s \<leftarrow> set_setting CFG_SACN_UNIV suni s;
            s \<leftarrow> set_setting CFG_PROTNAME prot s;
            let s = write_data_to_flash env s;
            Some (CGI_RC_REBOOT, if force then sdk Call_reboot s else s) }))))"

definition do_rename :: "('fl, 'e) cgi_env_scheme \<Rightarrow> bytes \<Rightarrow> 'fl web_state \<Rightarrow> (int \<times> 'fl web_state) option" where
  "do_rename env cmd s = (case behind 61 cmd of None \<Rightarrow> Some (CGI_RC_OK, s)
   | Some tmp1 \<Rightarrow> do {
      aks_node_name \<leftarrow> fits 24 tmp1;
      s \<leftarrow> set_setting CFG_AKS_NAME (map (\<lambda>b. if b = 63 then 32 else b) aks_node_name) s;
      Some (CGI_RC_OK, write_data_to_flash env s) })"

text \<open>\<open>SET_SORT\<close>, \<open>SET_TIMO_POWER\<close> and \<open>SET_LED_COLOR\<close> differ in the setting only.\<close>

definition do_set_one :: "int \<Rightarrow> ('fl, 'e) cgi_env_scheme \<Rightarrow> bytes \<Rightarrow> 'fl web_state \<Rightarrow> (int \<times> 'fl web_state) option" where
  "do_set_one cid env cmd s = (case behind 61 cmd of None \<Rightarrow> Some (CGI_RC_OK, s)
   | Some tmp1 \<Rightarrow> do {
      v \<leftarrow> fits 8 tmp1;
      s \<leftarrow> set_setting cid v s;
      Some (CGI_RC_OK, write_data_to_flash env s) })"

definition do_auto_sacn :: "('fl, 'e) cgi_env_scheme \<Rightarrow> bytes \<Rightarrow> 'fl web_state \<Rightarrow> (int \<times> 'fl web_state) option" where
  "do_auto_sacn env cmd s = (case behind 61 cmd of None \<Rightarrow> Some (CGI_RC_OK, s)
   | Some tmp1 \<Rightarrow> do {
      sacn_num \<leftarrow> fits 16 tmp1;
      s \<leftarrow> set_setting CFG_SACN_UNIV sacn_num s;
      let s = write_data_to_flash env s;
      pre_prot \<leftarrow> get_into 4 CFG_PROTNAME s;
      Some (CGI_RC_REBOOT, if (pre_prot @ [0]) ! 0 = 49 then sdk Call_reboot s else s) })"

definition do_auto_artnet :: "('fl, 'e) cgi_env_scheme \<Rightarrow> bytes \<Rightarrow> 'fl web_state \<Rightarrow> (int \<times> 'fl web_state) option" where
  "do_auto_artnet env cmd s = (case behind 61 cmd of None \<Rightarrow> Some (CGI_RC_OK, s)
   | Some tmp1 \<Rightarrow> do {
      arnet_num \<leftarrow> fits 8 tmp1;
      let artnum = (word_of_int (atoi arnet_num) :: u32);
      let subnum = drop_bit 4 artnum AND 0xf;
      let uninum = artnum AND 0xf;
      s \<leftarrow> set_setting CFG_AKS_UNIVERSE (dec_nat (unat uninum)) s;
      s \<leftarrow> set_setting CFG_AKS_SUBNET (dec_nat (unat subnum)) s;
      Some (CGI_RC_OK, write_data_to_flash env s) })"

text \<open>The chain of tests; the inner \<open>None\<close> means that no one applies.\<close>

definition user_command :: "('fl, 'e) cgi_env_scheme \<Rightarrow> bytes \<Rightarrow> 'fl web_state \<Rightarrow> (int \<times> 'fl web_state) option option" where
  "user_command env cmd s =
    (if cmd = lit ''CONSTELLATION_REFRESH'' then Some (Some (CGI_RC_OK, do_refresh_clients s))
     else if has_sub cmd (lit ''SET_UNIVERSE'') then map_option Some (do_set_universe env cmd s)
     else if has_sub cmd (lit ''SET_PROTO_UNIVERSE'') then map_option Some (do_set_proto_universe env cmd s)
     else if has_sub cmd (lit ''RENAME_AKS'') then map_option Some (do_rename env cmd s)
     else if has_sub cmd (lit ''SET_SORT'') then map_option Some (do_set_one CFG_SORT_BY env cmd s)
     else if has_sub cmd (lit ''SET_TIMO_POWER'') then map_option Some (do_set_one CFG_TIMO_POWER env cmd s)
     else if has_sub cmd (lit ''SET_LED_COLOR'') then map_option Some (do_set_one CFG_LED_COLOR env cmd s)
     else if has_sub cmd (lit ''AUTO_SACN_UNIV'') then map_option Some (do_auto_sacn env cmd s)
     else if has_sub cmd (lit ''AUTO_ARTNET_UNIV'') then map_option Some (do_auto_artnet env cmd s)
     else Some None)"

text \<open>The mode of the module: the SDK's settings for a station (firmware version \<open>z\<close> with and the others without
  repeater) or an access point.\<close>

definition apcli_setup :: "('fl, 'e) cgi_env_scheme \<Rightarrow> 'fl web_state \<Rightarrow> 'fl web_state option" where
  "apcli_setup env s = do {
     v \<leftarrow> CFG_get_str env (sdk_calls s) (CFG_str2id env (lit ''WLN_ApCliEnable''));
     var \<leftarrow> fits 5 v;
     let m2m = (\<lambda>f v. sdk (Call_m2m_cfg_set (lit f) (lit v)));
     s \<leftarrow> (if var = lit ''1''
        then do {
          let s = m2m ''M2M_WIFI_MODE'' ''STA'' s;
          fver \<leftarrow> fits 5 (f_setting_get env (sdk_calls s) (lit ''FVERSION''));
          let s = m2m ''WLN_CountryRegion'' ''5'' s;
          Some (if fver = lit ''z''
            then sdk (Call_CFG_set_str CFG_WLN_MACRepeaterEn (lit ''1'')) (m2m ''SYS_OPMODE'' ''3'' (m2m ''LAN_DHCPD_EN'' ''0'' s))
            else sdk (Call_CFG_set_str CFG_WLN_MACRepeaterEn (lit ''0'')) (m2m ''SYS_OPMODE'' ''2'' (m2m ''LAN_DHCPD_EN'' ''1'' s))) }
        else Some (sdk (Call_CFG_set_str CFG_WLN_MACRepeaterEn (lit ''0'')) (m2m ''SYS_OPMODE'' ''1''
          (m2m ''M2M_WIFI_MODE'' ''AP'' (m2m ''WLN_CountryRegion'' ''5'' (m2m ''LAN_DHCPD_EN'' ''1'' s))))));
     Some (sdk (Call_CFG_save 0) s) }"

section \<open>A request\<close>

definition at_bad :: "bool \<Rightarrow> int \<times> 'fl web_state \<Rightarrow> int \<times> 'fl web_state" where
  "at_bad sacn x = (if sacn then (CGI_RC_REBOOT, sdk Call_reboot (snd x)) else x)"

definition ready_to_out :: "('fl, 'e) cgi_env_scheme \<Rightarrow> request \<Rightarrow> bytes \<Rightarrow> bool \<Rightarrow> int \<Rightarrow> 'fl web_state \<Rightarrow> (int \<times> 'fl web_state) option" where
  "ready_to_out env q cmd sacn rc s =
    (if rc < 0 then Some (at_bad sacn (rc, s))
     else do {
       let s = (if rc = CGI_RC_CFG_OK then write_data_to_flash env (sdk (Call_CFG_save 0) s) else s);
       (rc, s) \<leftarrow> call_handlers env q cmd as_cgi_cmds (rc, s);
       let (rc, s) = (if cmd = lit ''SYS_UPG'' then (CGI_RC_REBOOT, sdk Call_reboot s) else (rc, s));
       let s = (if cmd = lit ''WIRELESS_SIMPLE_CONFIG_RESET''
                then sdk (Call_system2 (lit ''WscConfStatus=1'')) (sdk (Call_system2 (lit ''WscStop=1'')) s) else s);
       Some (at_bad sacn (rc, s)) })"

definition CGI_do_cmd :: "('fl, 'e) cgi_env_scheme \<Rightarrow> request \<Rightarrow> 'fl web_state \<Rightarrow> (int \<times> 'fl web_state) option" where
  "CGI_do_cmd env q s = (case q (lit ''CMD'') of
     None \<Rightarrow> Some (0, s)
   | Some cmd \<Rightarrow> do {
      (rc, s) \<leftarrow> call_handlers env q cmd ps_cgi_cmds (0, s);
      if cmd = lit ''WIRELESS_SECURITY'' \<or> cmd = lit ''WIRELESS_SIMPLE_CONFIG_DEVICE'' \<or> cmd = lit ''ACL''
      then ready_to_out env q cmd False rc s
      else if rc < 0 then Some (rc, s)
      else do {
        (rc, force, sacn, s) \<leftarrow> set_loop env q [0..<50] (rc, False, False, s);
        s \<leftarrow> (if cmd = lit ''WIRELESS_APCLI_SETUP'' then apcli_setup env s else Some s);
        r \<leftarrow> user_command env cmd s;
        (case r of Some x \<Rightarrow> Some x
         | None \<Rightarrow> ready_to_out env q cmd sacn rc s) } })"


end
