(* ===== verification/WebCommandsFacts.thy ===== *)
theory WebCommandsFacts
  imports WebCommands
begin

text \<open>
  What a request of the web page does to the node: the settings are stored and saved, the reboot flag is right, the
  shortcuts of the product set what the receiver reads.
\<close>

section \<open>Settings through the store\<close>

lemma set_setting_put: "set_setting cid v s = map_option (\<lambda>cfg. s\<lparr>g_web_config := cfg\<rparr>) (put_setting cid v (g_web_config s))"
  by (cases "ratpac_set_str cid v (g_web_config s)") (auto simp: set_setting_def put_setting_def)

primrec set_settings :: "(int \<times> bytes) list \<Rightarrow> 'fl web_state \<Rightarrow> 'fl web_state option" where
  "set_settings [] s = Some s"
| "set_settings (p # ps) s = do { s \<leftarrow> set_setting (fst p) (snd p) s; set_settings ps s }"

definition stored :: "(int \<times> bytes) list \<Rightarrow> bytes \<Rightarrow> bytes \<Rightarrow> bool" where
  "stored kvs cfg cfg' \<longleftrightarrow> web_ok cfg' \<and>
     (\<forall>cid. setting_key cid \<longrightarrow> get_setting cid cfg' = (case map_of (rev kvs) cid of Some v \<Rightarrow> v | None \<Rightarrow> get_setting cid cfg))"

lemma fits_key: "setting_fits cid v \<Longrightarrow> setting_key cid"
  by (auto elim: setting_fitsD simp: setting_key_def)

lemma set_settings_put: "set_settings kvs s = map_option (\<lambda>cfg. s\<lparr>g_web_config := cfg\<rparr>) (put_all put_setting kvs (g_web_config s))"
proof (induction kvs arbitrary: s)
  case Nil
  show ?case by simp
next
  case (Cons p kvs)
  obtain k v where p: "p = (k, v)" by (cases p)
  show ?case
    by (cases "put_setting k v (g_web_config s)") (simp_all add: p set_setting_put Cons.IH option.map_comp comp_def)
qed

lemma set_settings_stored:
  assumes "web_ok (g_web_config s)" and "list_all (\<lambda>(cid, v). setting_fits cid v) kvs"
  obtains cfg where "set_settings kvs s = Some (s\<lparr>g_web_config := cfg\<rparr>)" "stored kvs (g_web_config s) cfg"
proof -
  have "setting_key k \<and> setting_fits k v" if "(k, v) \<in> set kvs" for k v
    using assms(2) that fits_key by (auto simp: list_all_iff)
  from web_store.put_all_view [OF assms(1) this] show thesis
    using that by (auto simp: set_settings_put stored_def)
qed

text \<open>What the save writes.\<close>

definition saved :: "('fl, 'e) flash_ops_scheme \<Rightarrow> ('fl, 'z) cfg_state_scheme \<Rightarrow> bool" where
  "saved env s \<longleftrightarrow> hfuflash_read env WEB_DATA_FLASH_ADDR sizeof_WEB_DATA_T (user_flash s) = g_web_config s"

lemma get_setting_written: "get_setting cid (g_web_config (write_data_to_flash env s)) = get_setting cid (g_web_config s)"
  by (simp add: get_setting_def write_data_get)

lemma write_stored:
  assumes "flash_ok env" and "stored kvs c (g_web_config s)"
  shows "stored kvs c (g_web_config (write_data_to_flash env s)) \<and> saved env (write_data_to_flash env s)"
  using assms read_back [OF assms(1), of s] web_ok_length
  by (auto simp: stored_def saved_def get_setting_written write_data_web_ok)

lemma write_sdk_calls [simp]: "sdk_calls (write_data_to_flash env s) = sdk_calls s"
  by (simp add: write_data_to_flash_def Let_def)

lemma sdk_fields [simp]: "g_web_config (sdk c s) = g_web_config s" "user_flash (sdk c s) = user_flash s"
  "sdk_calls (sdk c s) = sdk_calls s @ [c]" "client_valid_num (sdk c s) = client_valid_num s"
  by (simp_all add: sdk_def)

section \<open>Finding a command\<close>

lemma has_sub_Cons: "has_sub (b # s) p \<longleftrightarrow> is_prefix p (b # s) \<or> has_sub s p"
  by (simp add: has_sub_def)

lemma has_sub_Nil: "has_sub [] p \<longleftrightarrow> p = []"
  by (simp add: has_sub_def)

lemma prefix_disjoint:
  assumes "is_prefix p (xs @ ys)" and "set ys \<inter> set p = {}" and "p \<noteq> []"
  shows "is_prefix p xs"
proof (cases "length p \<le> length xs")
  case True
  then show ?thesis using assms(1) by (simp add: is_prefix_def)
next
  case False
  then have p: "p = xs @ take (length p - length xs) ys" using assms(1) by (simp add: is_prefix_def)
  have "set (take (length p - length xs) ys) \<subseteq> set p" by (subst (2) p) simp
  moreover have "set (take (length p - length xs) ys) \<subseteq> set ys" by (rule set_take_subset)
  ultimately have "take (length p - length xs) ys = []" using assms(2) by (metis Int_subset_iff set_empty2 subset_empty)
  then show ?thesis using p False by simp
qed

lemma has_sub_disjoint:
  assumes "set ys \<inter> set p = {}" and "p \<noteq> []"
  shows "has_sub (xs @ ys) p \<longleftrightarrow> has_sub xs p"
proof (induction xs)
  case Nil
  have "\<not> has_sub ys p" using assms(1)
  proof (induction ys)
    case Nil
    show ?case using assms(2) by (simp add: has_sub_Nil)
  next
    case (Cons y ys)
    have "\<not> is_prefix p (y # ys)" using prefix_disjoint [of p "[]" "y # ys"] Cons.prems assms(2) by (auto simp: is_prefix_def)
    then show ?case using Cons by (simp add: has_sub_Cons)
  qed
  then show ?case using assms(2) by (simp add: has_sub_Nil)
next
  case (Cons x xs)
  have "is_prefix p (x # xs @ ys) \<longleftrightarrow> is_prefix p (x # xs)"
  proof
    assume "is_prefix p (x # xs @ ys)"
    then show "is_prefix p (x # xs)" using prefix_disjoint [of p "x # xs" ys] assms by simp
  next
    assume pre: "is_prefix p (x # xs)"
    then have "length p = min (length (x # xs)) (length p)" unfolding is_prefix_def by (metis length_take)
    then have "length p \<le> length (x # xs)" by linarith
    then show "is_prefix p (x # xs @ ys)" using pre take_append [of "length p" "x # xs" ys] by (simp add: is_prefix_def)
  qed
  then show ?case using Cons by (simp add: has_sub_Cons)
qed


text \<open>A command with an argument is not the name of a handler.\<close>

lemma no_handler: "cmd \<notin> set ns \<Longrightarrow> call_handlers env q cmd ns x = Some x"
  by (induction ns) auto

definition fixed_names :: "bytes list" where
  "fixed_names = ps_cgi_cmds @ as_cgi_cmds @ [lit ''WIRELESS_SECURITY'', lit ''WIRELESS_SIMPLE_CONFIG_DEVICE'', lit ''ACL'',
     lit ''WIRELESS_APCLI_SETUP'', lit ''CONSTELLATION_REFRESH'', lit ''SYS_UPG'', lit ''WIRELESS_SIMPLE_CONFIG_RESET'']"

lemma names_without_sign: "list_all (\<lambda>n. 61 \<notin> set n) fixed_names"
  by code_simp

lemma named: "61 \<in> set cmd \<Longrightarrow> cmd \<notin> set fixed_names"
  using names_without_sign by (auto simp: list_all_iff)

definition shortcuts :: "bytes list" where
  "shortcuts = [lit ''SET_UNIVERSE'', lit ''SET_PROTO_UNIVERSE'', lit ''RENAME_AKS'', lit ''SET_SORT'', lit ''SET_TIMO_POWER'',
     lit ''SET_LED_COLOR'', lit ''AUTO_SACN_UNIV'', lit ''AUTO_ARTNET_UNIV'']"

text \<open>The first shortcut that a command names.\<close>

definition first_shortcut :: "bytes \<Rightarrow> bytes option" where
  "first_shortcut cmd = find (has_sub cmd) shortcuts"

lemma first_shortcut_arg:
  assumes "set arg \<inter> set (concat shortcuts) = {}"
  shows "first_shortcut (name @ arg) = first_shortcut name"
proof -
  have "has_sub (name @ arg) p = has_sub name p" if "p \<in> set shortcuts" for p
  proof (rule has_sub_disjoint)
    show "set arg \<inter> set p = {}" using assms that by auto
    show "p \<noteq> []" using that by (auto simp: shortcuts_def)
  qed
  then show ?thesis unfolding first_shortcut_def by (intro find_cong) auto
qed

lemma user_command_shortcut:
  assumes "cmd \<notin> set fixed_names"
  shows "user_command env cmd s = (case first_shortcut cmd of None \<Rightarrow> Some None
   | Some p \<Rightarrow> map_option Some
      (if p = lit ''SET_UNIVERSE'' then do_set_universe env cmd s
       else if p = lit ''SET_PROTO_UNIVERSE'' then do_set_proto_universe env cmd s
       else if p = lit ''RENAME_AKS'' then do_rename env cmd s
       else if p = lit ''SET_SORT'' then do_set_one CFG_SORT_BY env cmd s
       else if p = lit ''SET_TIMO_POWER'' then do_set_one CFG_TIMO_POWER env cmd s
       else if p = lit ''SET_LED_COLOR'' then do_set_one CFG_LED_COLOR env cmd s
       else if p = lit ''AUTO_SACN_UNIV'' then do_auto_sacn env cmd s
       else do_auto_artnet env cmd s))"
proof -
  have ne: "cmd \<noteq> lit ''CONSTELLATION_REFRESH''" using assms by (auto simp: fixed_names_def simp del: lit_simps)
  show ?thesis
    by (simp add: user_command_def ne first_shortcut_def shortcuts_def lit_eq_iff del: lit_simps)
qed

lemma plain_request:
  assumes "q (lit ''CMD'') = Some cmd" and "cmd \<notin> set fixed_names" and "q (lit ''SET0'') = None"
    and "user_command env cmd s = map_option Some r"
  shows "CGI_do_cmd env q s = r"
proof -
  have names: "cmd \<notin> set ps_cgi_cmds" "cmd \<noteq> lit ''WIRELESS_SECURITY''" "cmd \<noteq> lit ''WIRELESS_SIMPLE_CONFIG_DEVICE''"
    "cmd \<noteq> lit ''ACL''" "cmd \<noteq> lit ''WIRELESS_APCLI_SETUP''"
    using assms(2) by (auto simp: fixed_names_def simp del: lit_simps)
  have set0: "lit ''SET'' @ dec_nat 0 = lit ''SET0''" by (simp add: dec_nat.simps)
  have "set_loop env q [0..<50] x = Some x" for x
    using assms(3) by (subst upt_conv_Cons) (simp_all add: set0 del: lit_simps)
  then show ?thesis using assms(1,4) names
    by (cases r) (simp_all add: CGI_do_cmd_def no_handler del: lit_simps upt_conv_Cons)
qed

section \<open>The Art-Net universe by its number\<close>

lemma digits_apart: "set (dec_nat n) \<inter> set (concat shortcuts) = {}"
proof -
  have "list_all (\<lambda>b. \<not> is_digit b) (concat shortcuts)" by code_simp
  then show ?thesis using dec_nat_digits [of n] by (auto simp: list_all_iff)
qed

lemma no_sign: "61 \<notin> set (dec_nat n)"
  using dec_nat_digits [of n] by (auto simp: list_all_iff is_digit_def)

lemma universe_nibbles:
  fixes n :: nat
  assumes "n < 256"
  shows "unat ((word_of_int (int n) :: u32) AND 0xf) = n mod 16"
    and "unat (drop_bit 4 (word_of_int (int n) :: u32) AND 0xf) = n div 16"
proof -
  have w: "(word_of_int (int n) :: u32) = word_of_nat n" by simp
  have m: "(x :: u32) AND 0xf = take_bit 4 x" for x by (simp add: take_bit_eq_mask mask_eq_exp_minus_1)
  have u: "unat (word_of_nat n :: u32) = n" using assms by (simp add: unat_of_nat)
  show "unat ((word_of_int (int n) :: u32) AND 0xf) = n mod 16"
    unfolding w m unsigned_take_bit_eq u by (simp add: take_bit_eq_mod)
  have "unat (drop_bit 4 (word_of_nat n :: u32)) = n div 16"
    unfolding unsigned_drop_bit_eq u using assms by (simp add: drop_bit_eq_div take_bit_eq_mod)
  then show "unat (drop_bit 4 (word_of_int (int n) :: u32) AND 0xf) = n div 16"
    unfolding w m unsigned_take_bit_eq using assms by (simp add: take_bit_eq_mod div_less_iff_less_mult)
qed

definition auto_artnet_cmd :: "nat \<Rightarrow> bytes" where
  "auto_artnet_cmd n = lit ''AUTO_ARTNET_UNIV='' @ dec_nat n"

lemma auto_artnet_parts: "61 \<in> set (auto_artnet_cmd n)" "behind 61 (auto_artnet_cmd n) = Some (dec_nat n)"
  "first_shortcut (auto_artnet_cmd n) = Some (lit ''AUTO_ARTNET_UNIV'')"
proof -
  show "61 \<in> set (auto_artnet_cmd n)" by (simp add: auto_artnet_cmd_def)
  have "auto_artnet_cmd n = lit ''AUTO_ARTNET_UNIV'' @ 61 # dec_nat n" by (simp add: auto_artnet_cmd_def)
  moreover have "61 \<notin> set (lit ''AUTO_ARTNET_UNIV'')" by simp
  ultimately show "behind 61 (auto_artnet_cmd n) = Some (dec_nat n)"
    by (simp add: behind_def strchr_append del: lit_simps)
  have "first_shortcut (lit ''AUTO_ARTNET_UNIV='') = Some (lit ''AUTO_ARTNET_UNIV'')" by code_simp
  then show "first_shortcut (auto_artnet_cmd n) = Some (lit ''AUTO_ARTNET_UNIV'')"
    using first_shortcut_arg [OF digits_apart, of "lit ''AUTO_ARTNET_UNIV=''" n] by (simp add: auto_artnet_cmd_def del: lit_simps)
qed

lemma small_number_fits:
  assumes "n < 100"
  shows "setting_fits CFG_AKS_UNIVERSE (dec_nat n)" "setting_fits CFG_AKS_SUBNET (dec_nat n)"
proof -
  have "length (dec_nat n) \<le> 2" using assms by (intro dec_nat_length) simp_all
  then show "setting_fits CFG_AKS_UNIVERSE (dec_nat n)" "setting_fits CFG_AKS_SUBNET (dec_nat n)"
    by (simp_all add: setting_fits_def setting_limit_def set_switch_def set_cases_def cfg_ids)
qed

lemma get_into_setting:
  assumes "web_ok (g_web_config s)" and "setting_key cid"
  shows "ratpac_get_str cid (g_web_config s) n = Some (0, get_setting cid (g_web_config s))"
proof -
  obtain f b where "set_switch cid = Some (f, b)" using assms(2) by (auto simp: setting_key_def)
  from switches_agree [OF this] obtain b' where sw: "get_switch cid = Some (f, b')" "f \<in> set str_fields" by blast
  from get_value_short [OF assms(1) sw, of n] show ?thesis by auto
qed

lemma artnet_universe_of:
  assumes "web_ok (g_web_config s)" and "CFG_str2id env u = CFG_AKS_UNIVERSE" and "CFG_str2id env a = CFG_AKS_SUBNET"
    and "get_setting CFG_AKS_UNIVERSE (g_web_config s) = dec_nat x" and "get_setting CFG_AKS_SUBNET (g_web_config s) = dec_nat y"
    and "x < 16" and "y < 16"
  shows "artnet_universe env u a s = Some (int (16 * y + x))"
proof -
  have keys: "setting_key CFG_AKS_UNIVERSE" "setting_key CFG_AKS_SUBNET"
    by (simp_all add: setting_key_def set_switch_def set_cases_def cfg_ids)
  have short: "length (dec_nat x) \<le> 2" "length (dec_nat y) \<le> 2" using assms(6,7) by (auto intro: dec_nat_length)
  have cfg: "cfg_buf env 4 u s = Some (dec_nat x)" "cfg_buf env 4 a s = Some (dec_nat y)"
    using get_into_setting [OF assms(1) keys(1)] get_into_setting [OF assms(1) keys(2)] assms(2-5) short
    by (simp_all add: cfg_buf_def)
  have num: "atoi (dec_nat x) = int x" "atoi (dec_nat y) = int y" using assms(6,7) by (simp_all add: atoi_dec_nat)
  have "list_all (\<lambda>x. list_all (\<lambda>y. (int x OR push_bit 4 (int y)) AND 0xff = int (16 * y + x)) [0..<16]) [0..<16]"
    by code_simp
  then have "(int x OR push_bit 4 (int y)) AND 0xff = int (16 * y + x)"
    using assms(6,7) by (auto simp: list_all_iff)
  then show ?thesis by (simp add: artnet_universe_def cfg num)
qed

text \<open>
  C31. The web page's choice of an Art-Net universe by its number: the request \<open>AUTO_ARTNET_UNIV=n\<close> with \<open>n\<close> below 256
  answers 0, makes \<open>n\<close> the universe that the receiver of Art-Net packets forwards, changes no other setting, calls no
  SDK function, and the flash holds the new record.
\<close>

theorem auto_artnet_selects:
  assumes "web_ok (g_web_config s)" and "flash_ok env" and "n < 256"
    and "q (lit ''CMD'') = Some (auto_artnet_cmd n)" and "q (lit ''SET0'') = None"
    and "CFG_str2id env u = CFG_AKS_UNIVERSE" and "CFG_str2id env a = CFG_AKS_SUBNET"
  shows "\<exists>s'. CGI_do_cmd env q s = Some (CGI_RC_OK, s') \<and> artnet_universe env u a s' = Some (int n) \<and>
    stored [(CFG_AKS_UNIVERSE, dec_nat (n mod 16)), (CFG_AKS_SUBNET, dec_nat (n div 16))] (g_web_config s) (g_web_config s') \<and>
    saved env s' \<and> sdk_calls s' = sdk_calls s"
proof -
  let ?kvs = "[(CFG_AKS_UNIVERSE, dec_nat (n mod 16)), (CFG_AKS_SUBNET, dec_nat (n div 16))]"
  have small: "n mod 16 < 16" "n div 16 < 16" using assms(3) by (simp_all add: div_less_iff_less_mult)
  have "list_all (\<lambda>(cid, v). setting_fits cid v) ?kvs" using small by (simp add: small_number_fits)
  then obtain cfg where cfg: "set_settings ?kvs s = Some (s\<lparr>g_web_config := cfg\<rparr>)" "stored ?kvs (g_web_config s) cfg"
    by (rule set_settings_stored [OF assms(1)])
  define s' where "s' = write_data_to_flash env (s\<lparr>g_web_config := cfg\<rparr>)"
  have "length (dec_nat n) \<le> 3" using assms(3) by (intro dec_nat_length) simp_all
  then have fit: "fits 8 (dec_nat n) = Some (dec_nat n)" by (simp add: fits_def)
  have num: "atoi (dec_nat n) = int n" using assms(3) by (simp add: atoi_dec_nat)
  have "do_auto_artnet env (auto_artnet_cmd n) s = map_option (\<lambda>s. (CGI_RC_OK, write_data_to_flash env s)) (set_settings ?kvs s)"
    unfolding do_auto_artnet_def auto_artnet_parts(2) option.case fit bind.bind_lunit Let_def num universe_nibbles [OF assms(3)]
    by (simp add: map_conv_bind_option comp_def)
  then have "do_auto_artnet env (auto_artnet_cmd n) s = Some (CGI_RC_OK, s')" using cfg(1) by (simp add: s'_def)
  then have "user_command env (auto_artnet_cmd n) s = map_option Some (Some (CGI_RC_OK, s'))"
    unfolding user_command_shortcut [OF named [OF auto_artnet_parts(1)]] auto_artnet_parts(3)
    by (simp add: lit_eq_iff del: lit_simps)
  then have run: "CGI_do_cmd env q s = Some (CGI_RC_OK, s')"
    by (rule plain_request [OF assms(4) named [OF auto_artnet_parts(1)] assms(5)])
  have st: "stored ?kvs (g_web_config s) (g_web_config s') \<and> saved env s'"
    using write_stored [OF assms(2), of ?kvs "g_web_config s" "s\<lparr>g_web_config := cfg\<rparr>"] cfg(2) by (simp add: s'_def)
  have key: "setting_key CFG_AKS_UNIVERSE" "setting_key CFG_AKS_SUBNET" "CFG_AKS_UNIVERSE \<noteq> CFG_AKS_SUBNET"
    by (simp_all add: setting_key_def set_switch_def set_cases_def cfg_ids)
  then have "get_setting CFG_AKS_UNIVERSE (g_web_config s') = dec_nat (n mod 16)"
    "get_setting CFG_AKS_SUBNET (g_web_config s') = dec_nat (n div 16)"
    using st by (auto simp: stored_def)
  then have "artnet_universe env u a s' = Some (int (16 * (n div 16) + n mod 16))"
    using st assms(6,7) small by (intro artnet_universe_of) (auto simp: stored_def)
  then have "artnet_universe env u a s' = Some (int n)" by simp
  moreover have "sdk_calls s' = sdk_calls s" by (simp add: s'_def)
  ultimately show ?thesis using run st by blast
qed


section \<open>The settings form\<close>

text \<open>A request with the parameters \<open>SET0\<close>, \<open>SET1\<close>, ... in the form the page sends.\<close>

definition form_request :: "request \<Rightarrow> (int \<times> bytes) list \<Rightarrow> bool" where
  "form_request q kvs \<longleftrightarrow> length kvs \<le> 50 \<and>
     (\<forall>i < length kvs. q (lit ''SET'' @ dec_nat i) = Some (dec_nat (nat (fst (kvs ! i))) @ 61 # snd (kvs ! i))) \<and>
     (length kvs < 50 \<longrightarrow> q (lit ''SET'' @ dec_nat (length kvs)) = None) \<and>
     list_all (\<lambda>(cid, v). setting_fits cid v \<and> 10 \<notin> set v \<and> 13 \<notin> set v) kvs"

lemma key_number:
  assumes "setting_key cid"
  shows "0 < cid" "cid < 2 ^ 31" "cid \<noteq> CFG_SYS_USERS" "cid \<noteq> CFG_SYS_ADMPASS"
proof -
  have all: "list_all (\<lambda>(cid, _). 0 < cid \<and> cid < 2 ^ 31 \<and> cid \<noteq> CFG_SYS_USERS \<and> cid \<noteq> CFG_SYS_ADMPASS) set_cases"
    by code_simp
  obtain x where "(cid, x) \<in> set set_cases" using assms by (auto simp: setting_key_def set_switch_def dest: map_of_SomeD)
  then have "0 < cid \<and> cid < 2 ^ 31 \<and> cid \<noteq> CFG_SYS_USERS \<and> cid \<noteq> CFG_SYS_ADMPASS" using all by (auto simp: list_all_iff)
  then show "0 < cid" "cid < 2 ^ 31" "cid \<noteq> CFG_SYS_USERS" "cid \<noteq> CFG_SYS_ADMPASS" by simp_all
qed

definition reboots :: "int \<Rightarrow> bool" where
  "reboots cid \<longleftrightarrow> CFG_SACN_UNIV = cid \<or> CFG_PROTNAME = cid"

lemma set_one_setting:
  assumes "web_ok (g_web_config s)" and "setting_fits cid v" and "10 \<notin> set v" and "13 \<notin> set v"
  shows "\<exists>force'. set_one env cid v (rc, force, sacn, s) =
    map_option (\<lambda>s. (CGI_RC_CFG_OK, force', sacn \<or> reboots cid, s)) (set_setting cid v s)"
proof -
  note k = key_number [OF fits_key [OF assms(2)]]
  have cut: "takeWhile (\<lambda>b. b \<noteq> 10 \<and> b \<noteq> 13) v = v" using assms(3,4) by (auto simp: takeWhile_eq_all_conv)
  obtain cfg where "ratpac_set_str cid v (g_web_config s) = Some (0, cfg)" "web_ok cfg"
    "\<forall>n. ratpac_get_str cid cfg n = Some (0, v)"
    "\<forall>cid' n. setting_key cid' \<longrightarrow> cid' \<noteq> cid \<longrightarrow> ratpac_get_str cid' cfg n = ratpac_get_str cid' (g_web_config s) n"
    by (rule set_get_facts' [OF assms(1,2)])
  note set = this(1)
  show ?thesis using k
    by (intro exI [of _ "force \<or> CFG_id2str env cid = lit ''WLN_BssidNum''"])
      (auto simp: set_one_def set_setting_def reboots_def Let_def set cut simp del: lit_simps)
qed

lemma form_loop:
  assumes form: "form_request q kvs"
  shows "i \<le> length kvs \<Longrightarrow> web_ok (g_web_config s) \<Longrightarrow>
    \<exists>force' cfg. set_loop env q [i..<50] (rc, force, sacn, s) =
       Some (if i < length kvs then CGI_RC_CFG_OK else rc, force', sacn \<or> list_ex (reboots \<circ> fst) (drop i kvs), s\<lparr>g_web_config := cfg\<rparr>) \<and>
      stored (drop i kvs) (g_web_config s) cfg"
proof (induction "length kvs - i" arbitrary: i rc force sacn s)
  case 0
  then have i: "i = length kvs" by simp
  have "set_loop env q [i..<50] (rc, force, sacn, s) = Some (rc, force, sacn, s)"
  proof (cases "i < 50")
    case True
    then show ?thesis using form i by (subst upt_conv_Cons) (simp_all add: form_request_def)
  qed simp
  then show ?case using 0 i by (intro exI [of _ force] exI [of _ "g_web_config s"]) (simp add: stored_def)
next
  case (Suc n)
  then have i: "i < length kvs" "i < 50" using form by (auto simp: form_request_def)
  obtain cid v where kv: "kvs ! i = (cid, v)" by (cases "kvs ! i")
  have d: "drop i kvs = (cid, v) # drop (Suc i) kvs" using i(1) kv by (simp add: Cons_nth_drop_Suc [symmetric])
  have "(cid, v) \<in> set kvs" using i(1) kv by (metis nth_mem)
  then have v: "setting_fits cid v" "10 \<notin> set v" "13 \<notin> set v" using form by (auto simp: form_request_def list_all_iff)
  have num: "atoi (dec_nat (nat cid)) = cid" using key_number [OF fits_key [OF v(1)]] by (simp add: atoi_dec_nat)
  obtain cfg where cfg: "set_setting cid v s = Some (s\<lparr>g_web_config := cfg\<rparr>)" "put_setting cid v (g_web_config s) = Some cfg" "web_ok cfg"
    using web_store.put_view [OF Suc.prems(2) fits_key [OF v(1)] v(1)] by (auto simp: set_setting_put)
  let ?s = "s\<lparr>g_web_config := cfg\<rparr>"
  obtain force' where one: "set_one env cid v (rc, force, sacn, s) = Some (CGI_RC_CFG_OK, force', sacn \<or> reboots cid, ?s)"
    using set_one_setting [OF Suc.prems(2) v, of env rc force sacn] cfg(1) by auto
  have q: "q (lit ''SET'' @ dec_nat i) = Some (dec_nat (nat cid) @ 61 # v)"
    using form i(1) kv by (simp add: form_request_def del: lit_simps)
  have sign: "strchr 61 (dec_nat (nat cid) @ 61 # v) = Some (length (dec_nat (nat cid)))" using no_sign by (rule strchr_append)
  have step: "set_loop env q [i..<50] (rc, force, sacn, s) = set_loop env q [Suc i..<50] (CGI_RC_CFG_OK, force', sacn \<or> reboots cid, ?s)"
    unfolding upt_conv_Cons [OF i(2)] set_loop.simps q option.case sign using one num by simp
  have n: "n = length kvs - Suc i" "Suc i \<le> length kvs" using Suc.hyps(2) i(1) by simp_all
  have ok: "web_ok (g_web_config ?s)" using cfg(3) by simp
  obtain force2 cfg2 where rec: "set_loop env q [Suc i..<50] (CGI_RC_CFG_OK, force', sacn \<or> reboots cid, ?s) =
      Some (if Suc i < length kvs then CGI_RC_CFG_OK else CGI_RC_CFG_OK, force2,
        (sacn \<or> reboots cid) \<or> list_ex (reboots \<circ> fst) (drop (Suc i) kvs), ?s\<lparr>g_web_config := cfg2\<rparr>)"
      "stored (drop (Suc i) kvs) (g_web_config ?s) cfg2"
    using Suc.hyps(1) [where i = "Suc i" and s = ?s and rc = CGI_RC_CFG_OK and force = force' and sacn = "sacn \<or> reboots cid",
        OF n(1,2) ok] by blast
  have st: "stored (drop i kvs) (g_web_config s) cfg2"
  proof -
    have "get_setting cid' cfg = (if cid' = cid then v else get_setting cid' (g_web_config s))" if "setting_key cid'" for cid'
      using web_store.get_put_same [OF Suc.prems(2) fits_key [OF v(1)] v(1) cfg(2)]
        web_store.get_put_other [OF Suc.prems(2) fits_key [OF v(1)] v(1) cfg(2) that] by simp
    then show ?thesis using rec(2) by (auto simp: stored_def d map_add_def split: option.splits)
  qed
  show ?case
    using step rec(1) i(1) st by (intro exI [of _ force2] exI [of _ cfg2]) (simp add: d)
qed


text \<open>
  C30. The settings form of the web page: a request with up to 50 settings \<open>id=value\<close> that fit stores them all, the last
  value of a setting counting, changes no other setting, saves the record in the flash, and answers
  \<open>CGI_RC_CFG_OK\<close>; the node reboots, and says so, exactly when the protocol or the sACN universe was among them.
\<close>

theorem settings_form_saved:
  assumes "web_ok (g_web_config s)" and "flash_ok env"
    and "q (lit ''CMD'') = Some cmd" and "cmd \<notin> set fixed_names" and "first_shortcut cmd = None"
    and "form_request q kvs" and "kvs \<noteq> []"
  shows "\<exists>s'. CGI_do_cmd env q s = Some (if list_ex (reboots \<circ> fst) kvs then CGI_RC_REBOOT else CGI_RC_CFG_OK, s') \<and>
    stored kvs (g_web_config s) (g_web_config s') \<and> saved env s' \<and>
    sdk_calls s' = sdk_calls s @ [Call_CFG_save 0] @ (if list_ex (reboots \<circ> fst) kvs then [Call_reboot] else [])"
proof -
  have names: "cmd \<notin> set ps_cgi_cmds" "cmd \<notin> set as_cgi_cmds" "cmd \<noteq> lit ''WIRELESS_SECURITY''"
    "cmd \<noteq> lit ''WIRELESS_SIMPLE_CONFIG_DEVICE''" "cmd \<noteq> lit ''ACL''" "cmd \<noteq> lit ''WIRELESS_APCLI_SETUP''"
    "cmd \<noteq> lit ''SYS_UPG''" "cmd \<noteq> lit ''WIRELESS_SIMPLE_CONFIG_RESET''"
    using assms(4) by (auto simp: fixed_names_def simp del: lit_simps)
  obtain force' cfg where loop: "set_loop env q [0..<50] (0, False, False, s) =
      Some (CGI_RC_CFG_OK, force', list_ex (reboots \<circ> fst) kvs, s\<lparr>g_web_config := cfg\<rparr>)" "stored kvs (g_web_config s) cfg"
    using form_loop [OF assms(6), of 0 s env 0 False False] assms(1,7) by auto
  let ?t = "write_data_to_flash env (sdk (Call_CFG_save 0) (s\<lparr>g_web_config := cfg\<rparr>))"
  have none: "user_command env cmd x = Some None" for x
    using assms(5) by (simp add: user_command_shortcut [OF assms(4)])
  have run: "CGI_do_cmd env q s = Some (at_bad (list_ex (reboots \<circ> fst) kvs) (CGI_RC_CFG_OK, ?t))"
    using assms(3) names loop(1) none
    by (simp add: CGI_do_cmd_def ready_to_out_def no_handler CGI_RC_CFG_OK_def Let_def del: lit_simps upt_conv_Cons upt_rec_numeral)
  have "stored kvs (g_web_config s) (g_web_config ?t) \<and> saved env ?t"
    using write_stored [OF assms(2), of kvs "g_web_config s" "sdk (Call_CFG_save 0) (s\<lparr>g_web_config := cfg\<rparr>)"] loop(2) by simp
  then show ?thesis using run by (auto simp: at_bad_def saved_def)
qed

section \<open>Protocol and universes in one request\<close>

definition proto_cmd :: "nat \<Rightarrow> nat \<Rightarrow> nat \<Rightarrow> nat \<Rightarrow> bytes" where
  "proto_cmd sub uni suni prot = lit ''SET_PROTO_UNIVERSE='' @ dec_nat sub @ 45 # dec_nat uni @ 45 # dec_nat suni @ 45 # dec_nat prot"

lemma no_dash: "45 \<notin> set (dec_nat n)"
  using dec_nat_digits [of n] by (auto simp: list_all_iff is_digit_def)

lemma cut_at_dash: "cut_at 45 (dec_nat n @ 45 # r) = Some (dec_nat n, r)"
  using strchr_append [OF no_dash, of n r] by (simp add: cut_at_def)

lemma proto_parts: "61 \<in> set (proto_cmd a b c d)"
  "behind 61 (proto_cmd a b c d) = Some (dec_nat a @ 45 # dec_nat b @ 45 # dec_nat c @ 45 # dec_nat d)"
  "first_shortcut (proto_cmd a b c d) = Some (lit ''SET_PROTO_UNIVERSE'')"
proof -
  let ?arg = "dec_nat a @ 45 # dec_nat b @ 45 # dec_nat c @ 45 # dec_nat d"
  show "61 \<in> set (proto_cmd a b c d)" by (simp add: proto_cmd_def)
  have "proto_cmd a b c d = lit ''SET_PROTO_UNIVERSE'' @ 61 # ?arg" by (simp add: proto_cmd_def)
  moreover have "61 \<notin> set (lit ''SET_PROTO_UNIVERSE'')" by simp
  ultimately show "behind 61 (proto_cmd a b c d) = Some ?arg" by (simp add: behind_def strchr_append del: lit_simps)
  have "list_all (\<lambda>b. \<not> is_digit b \<and> b \<noteq> 45) (concat shortcuts)" by code_simp
  moreover have "list_all (\<lambda>b. is_digit b \<or> b = 45) (dec_nat n)" for n
    using dec_nat_digits [of n] by (auto simp: list_all_iff)
  then have "list_all (\<lambda>b. is_digit b \<or> b = 45) ?arg" by simp
  ultimately have "set ?arg \<inter> set (concat shortcuts) = {}"
    unfolding list_all_iff disjoint_iff by blast
  moreover have "first_shortcut (lit ''SET_PROTO_UNIVERSE='') = Some (lit ''SET_PROTO_UNIVERSE'')" by code_simp
  ultimately show "first_shortcut (proto_cmd a b c d) = Some (lit ''SET_PROTO_UNIVERSE'')"
    using first_shortcut_arg [of ?arg "lit ''SET_PROTO_UNIVERSE=''"] by (simp add: proto_cmd_def del: lit_simps)
qed

lemma setting_size:
  assumes "web_ok cfg" and "get_switch cid = Some (f, b)"
  shows "get_setting cid cfg \<noteq> [] \<and> length (get_setting cid cfg) < max 2 (fsize f)"
proof -
  obtain v where "str_at cfg (foff f) = Some v" "length v < fsize f"
    using web_okD [OF assms(1) get_switch_fields [OF assms(2)]] by blast
  moreover have "length (cut b v) \<le> length v" by (simp add: cut_def split: option.splits)
  ultimately show ?thesis using assms(2) by (auto simp: get_setting_def ratpac_get_str_def)
qed

lemma fits_short: "length v < n \<Longrightarrow> fits n v = Some v"
  by (simp add: fits_def)

text \<open>
  The request \<open>SET_PROTO_UNIVERSE\<close> stores subnet, universe, sACN universe and protocol, saves them and answers
  \<open>CGI_RC_REBOOT\<close>; it reboots the node exactly when the protocol changes, or the sACN universe changes while the
  protocol is sACN.
\<close>

theorem protocol_change_reboots:
  assumes "web_ok (g_web_config s)" and "flash_ok env"
    and "q (lit ''CMD'') = Some (proto_cmd sub uni suni prot)" and "q (lit ''SET0'') = None"
    and "sub < 16" and "uni < 16" and "suni < 10000000" and "prot < 10"
  defines "old \<equiv> get_setting CFG_PROTNAME (g_web_config s)"
  shows "\<exists>s'. CGI_do_cmd env q s = Some (CGI_RC_REBOOT, s') \<and>
    stored [(CFG_AKS_UNIVERSE, dec_nat uni), (CFG_AKS_SUBNET, dec_nat sub), (CFG_SACN_UNIV, dec_nat suni), (CFG_PROTNAME, dec_nat prot)]
      (g_web_config s) (g_web_config s') \<and> saved env s' \<and>
    sdk_calls s' = sdk_calls s @
      (if old \<noteq> dec_nat prot \<or> old = lit ''1'' \<and> get_setting CFG_SACN_UNIV (g_web_config s) \<noteq> dec_nat suni
       then [Call_reboot] else [])"
proof -
  let ?kvs = "[(CFG_AKS_UNIVERSE, dec_nat uni), (CFG_AKS_SUBNET, dec_nat sub), (CFG_SACN_UNIV, dec_nat suni), (CFG_PROTNAME, dec_nat prot)]"
  let ?suni = "get_setting CFG_SACN_UNIV (g_web_config s)"
  have len: "length (dec_nat suni) \<le> 7" "length (dec_nat prot) \<le> 1" "length (dec_nat sub) \<le> 2" "length (dec_nat uni) \<le> 2"
    using assms(5-8) by (auto intro!: dec_nat_length)
  have "setting_fits CFG_SACN_UNIV (dec_nat suni)" "setting_fits CFG_PROTNAME (dec_nat prot)"
    using len by (simp_all add: setting_fits_def setting_limit_def set_switch_def set_cases_def cfg_ids)
  then have "list_all (\<lambda>(cid, v). setting_fits cid v) ?kvs" using assms(5,6) by (simp add: small_number_fits)
  then obtain cfg where cfg: "set_settings ?kvs s = Some (s\<lparr>g_web_config := cfg\<rparr>)" "stored ?kvs (g_web_config s) cfg"
    by (rule set_settings_stored [OF assms(1)])
  have keys: "setting_key CFG_PROTNAME" "setting_key CFG_SACN_UNIV" by (simp_all add: setting_key_def set_switch_def set_cases_def cfg_ids)
  have sw: "get_switch CFG_PROTNAME = Some (W_protname, Some 2)" "get_switch CFG_SACN_UNIV = Some (W_sacn_universe, None)"
    by (simp_all add: get_switch_def get_cases_def cfg_ids)
  have size: "length ?suni < 8" "old \<noteq> []" "length old < 2"
    using setting_size [OF assms(1) sw(1)] setting_size [OF assms(1) sw(2)] by (simp_all add: old_def)
  have into: "get_into 4 CFG_PROTNAME s = Some old" "get_into 8 CFG_SACN_UNIV s = Some ?suni"
    using get_into_setting [OF assms(1) keys(1)] get_into_setting [OF assms(1) keys(2)] size
    by (simp_all add: get_into_def fits_def old_def)
  define force where "force = (old \<noteq> dec_nat prot \<or> (old @ [0]) ! 0 = 49 \<and> ?suni \<noteq> dec_nat suni)"
  have one: "(old @ [0]) ! 0 = 49 \<longleftrightarrow> old = lit ''1''" using size(2,3) by (cases old) simp_all
  define t where "t = write_data_to_flash env (s\<lparr>g_web_config := cfg\<rparr>)"
  define s' where "s' = (if force then sdk Call_reboot t else t)"
  have fit: "fits 4 (dec_nat sub) = Some (dec_nat sub)" "fits 4 (dec_nat uni) = Some (dec_nat uni)"
    "fits 8 (dec_nat suni) = Some (dec_nat suni)" "fits 4 (dec_nat prot) = Some (dec_nat prot)"
    using len by (simp_all add: fits_short)
  have "do_set_proto_universe env (proto_cmd sub uni suni prot) s =
      map_option (\<lambda>s. (CGI_RC_REBOOT, if force then sdk Call_reboot (write_data_to_flash env s) else write_data_to_flash env s)) (set_settings ?kvs s)"
    unfolding do_set_proto_universe_def proto_parts(2) option.case cut_at_dash prod.case into fit bind.bind_lunit Let_def force_def
    by (simp add: map_conv_bind_option comp_def)
  then have "do_set_proto_universe env (proto_cmd sub uni suni prot) s = Some (CGI_RC_REBOOT, s')"
    using cfg(1) by (simp add: s'_def t_def)
  then have "user_command env (proto_cmd sub uni suni prot) s = map_option Some (Some (CGI_RC_REBOOT, s'))"
    unfolding user_command_shortcut [OF named [OF proto_parts(1)]] proto_parts(3)
    by (simp add: lit_eq_iff del: lit_simps)
  then have run: "CGI_do_cmd env q s = Some (CGI_RC_REBOOT, s')"
    by (rule plain_request [OF assms(3) named [OF proto_parts(1)] assms(4)])
  have "stored ?kvs (g_web_config s) (g_web_config t) \<and> saved env t"
    using write_stored [OF assms(2), of ?kvs "g_web_config s" "s\<lparr>g_web_config := cfg\<rparr>"] cfg(2) by (simp add: t_def)
  moreover have "sdk_calls t = sdk_calls s" by (simp add: t_def)
  ultimately show ?thesis using run one by (intro exI [of _ s']) (simp add: s'_def force_def saved_def)
qed

section \<open>Renaming the node\<close>

definition rename_cmd :: "bytes \<Rightarrow> bytes" where
  "rename_cmd name = lit ''RENAME_AKS='' @ name"

lemma rename_parts: "61 \<in> set (rename_cmd name)" "behind 61 (rename_cmd name) = Some name"
proof -
  show "61 \<in> set (rename_cmd name)" by (simp add: rename_cmd_def)
  have "rename_cmd name = lit ''RENAME_AKS'' @ 61 # name" by (simp add: rename_cmd_def)
  moreover have "61 \<notin> set (lit ''RENAME_AKS'')" by simp
  ultimately show "behind 61 (rename_cmd name) = Some name" by (simp add: behind_def strchr_append del: lit_simps)
qed

definition blank_marks :: "bytes \<Rightarrow> bytes" where
  "blank_marks name = map (\<lambda>b. if b = 63 then 32 else b) name"

lemma set_name_cut: "set_setting CFG_AKS_NAME v s = set_setting CFG_AKS_NAME (take 15 v) s"
  by (simp add: set_setting_def ratpac_set_str_def set_switch_def set_cases_def cut_def)

text \<open>
  Renaming from the web page: a name of up to 23 characters is stored, cut to 15 and with blanks for the question marks;
  nothing else changes and the record is saved. A longer name leaves the 24 bytes of \<open>aks_node_name\<close>.
\<close>

theorem rename_stores_name:
  assumes "web_ok (g_web_config s)" and "flash_ok env"
    and "q (lit ''CMD'') = Some (rename_cmd name)" and "q (lit ''SET0'') = None"
    and "first_shortcut (rename_cmd name) = Some (lit ''RENAME_AKS'')" and "is_cstr name" and "name \<noteq> []"
  shows "if length name < 24
    then \<exists>s'. CGI_do_cmd env q s = Some (CGI_RC_OK, s') \<and>
      stored [(CFG_AKS_NAME, take 15 (blank_marks name))] (g_web_config s) (g_web_config s') \<and> saved env s' \<and> sdk_calls s' = sdk_calls s
    else CGI_do_cmd env q s = None"
proof -
  let ?v = "take 15 (blank_marks name)"
  note plain = plain_request [OF assms(3) named [OF rename_parts(1)] assms(4)]
  have cmd: "user_command env (rename_cmd name) s = map_option Some (do_rename env (rename_cmd name) s)"
    unfolding user_command_shortcut [OF named [OF rename_parts(1)]] assms(5) by (simp add: lit_eq_iff del: lit_simps)
  show ?thesis
  proof (cases "length name < 24")
    case False
    then have "do_rename env (rename_cmd name) s = None" by (simp add: do_rename_def rename_parts(2) fits_def)
    then have "CGI_do_cmd env q s = None" using cmd by (intro plain) simp
    then show ?thesis using False by simp
  next
    case True
    have "is_cstr (blank_marks name)" using assms(6) by (auto simp: is_cstr_def blank_marks_def split: if_splits)
    then have "setting_fits CFG_AKS_NAME ?v" using assms(7)
      by (simp add: setting_fits_def setting_limit_def set_switch_def set_cases_def blank_marks_def)
    then obtain cfg where cfg: "set_settings [(CFG_AKS_NAME, ?v)] s = Some (s\<lparr>g_web_config := cfg\<rparr>)"
        "stored [(CFG_AKS_NAME, ?v)] (g_web_config s) cfg"
      using set_settings_stored [OF assms(1), of "[(CFG_AKS_NAME, ?v)]"] by auto
    let ?s = "write_data_to_flash env (s\<lparr>g_web_config := cfg\<rparr>)"
    have "do_rename env (rename_cmd name) s = Some (CGI_RC_OK, ?s)"
      using cfg(1) True by (simp add: do_rename_def rename_parts(2) fits_short set_name_cut [of "map _ _"] blank_marks_def)
    then have "CGI_do_cmd env q s = Some (CGI_RC_OK, ?s)" using cmd by (intro plain) simp
    moreover have "stored [(CFG_AKS_NAME, ?v)] (g_web_config s) (g_web_config ?s) \<and> saved env ?s"
      using write_stored [OF assms(2), of _ "g_web_config s" "s\<lparr>g_web_config := cfg\<rparr>"] cfg(2) by simp
    moreover have "sdk_calls ?s = sdk_calls s" by simp
    ultimately show ?thesis using True by auto
  qed
qed

section \<open>Witnesses\<close>

definition sample_cgi_env :: "bytes cgi_env" where
  "sample_cgi_env = web_env.extend sample_web_env (cgi_env.fields (\<lambda>_ _ _. 0) (\<lambda>_ _. []) (\<lambda>_. []) (\<lambda>_ _ _. None))"

definition sample_web_state :: "bytes web_state" where
  "sample_web_state = sample_web sample_clients"

definition sample_request :: "(bytes \<times> bytes) list \<Rightarrow> request" where
  "sample_request ps = map_of ps"

lemma sample_cgi_ok: "web_ok (g_web_config sample_web_state)" "flash_ok sample_cgi_env"
  "CFG_str2id sample_cgi_env (lit ''AKS_UNIVERSE'') = CFG_AKS_UNIVERSE" "CFG_str2id sample_cgi_env (lit ''AKS_SUBNET'') = CFG_AKS_SUBNET"
  "sdk_calls sample_web_state = []" "g_web_config sample_web_state = replicate sizeof_WEB_DATA_T 0"
proof -
  show cfg: "g_web_config sample_web_state = replicate sizeof_WEB_DATA_T 0"
    by (simp add: sample_web_state_def sample_web_fields sample_clients_def)
  then show "web_ok (g_web_config sample_web_state)" using zero_record_ok by simp
  show "flash_ok sample_cgi_env" using sample_env_ok(1)
    by (simp add: flash_ok_def sample_cgi_env_def sample_web_env_def sample_client_env_def
        web_env.extend_def cgi_env.fields_def client_env.extend_def web_env.fields_def)
  have "CFG_str2id sample_cgi_env = CFG_str2id sample_env"
    by (simp add: sample_cgi_env_def sample_web_env_def sample_client_env_def
        web_env.extend_def cgi_env.fields_def client_env.extend_def web_env.fields_def)
  then show "CFG_str2id sample_cgi_env (lit ''AKS_UNIVERSE'') = CFG_AKS_UNIVERSE" "CFG_str2id sample_cgi_env (lit ''AKS_SUBNET'') = CFG_AKS_SUBNET"
    using sample_env_ok(2) by (simp_all add: str2id_ok_def cfg_userid_str_table_def del: lit_simps)
  show "sdk_calls sample_web_state = []" by (simp add: sample_web_state_def sample_web_fields)
qed

theorem auto_artnet_selects_witness:
  "\<exists>s'. CGI_do_cmd sample_cgi_env (sample_request [(lit ''CMD'', auto_artnet_cmd 37)]) sample_web_state = Some (CGI_RC_OK, s') \<and>
    artnet_universe sample_cgi_env (lit ''AKS_UNIVERSE'') (lit ''AKS_SUBNET'') s' = Some 37"
proof -
  have "sample_request [(lit ''CMD'', auto_artnet_cmd 37)] (lit ''CMD'') = Some (auto_artnet_cmd 37)"
    "sample_request [(lit ''CMD'', auto_artnet_cmd 37)] (lit ''SET0'') = None"
    by (simp_all add: sample_request_def lit_eq_iff del: lit_simps)
  from auto_artnet_selects [OF sample_cgi_ok(1,2) _ this sample_cgi_ok(3,4)] show ?thesis by auto
qed

theorem settings_form_saved_witness:
  "\<exists>s'. CGI_do_cmd sample_cgi_env (sample_request [(lit ''CMD'', lit ''LAN''),
       (lit ''SET'' @ dec_nat 0, dec_nat (nat CFG_PROTNAME) @ 61 # lit ''1'')]) sample_web_state = Some (CGI_RC_REBOOT, s') \<and>
    sdk_calls s' = [Call_CFG_save 0, Call_reboot]"
proof -
  let ?q = "sample_request [(lit ''CMD'', lit ''LAN''), (lit ''SET'' @ dec_nat 0, dec_nat (nat CFG_PROTNAME) @ 61 # lit ''1'')]"
  let ?kvs = "[(CFG_PROTNAME, lit ''1'')]"
  have set0: "lit ''SET'' @ dec_nat 0 = lit ''SET0''" "lit ''SET'' @ dec_nat 1 = lit ''SET1''" by (simp_all add: dec_nat.simps)
  have cmd: "?q (lit ''CMD'') = Some (lit ''LAN'')" by (simp add: sample_request_def lit_eq_iff del: lit_simps)
  have form: "form_request ?q ?kvs"
  proof -
    have "setting_fits CFG_PROTNAME (lit ''1'')" by (simp add: setting_fits_def setting_limit_def set_switch_def set_cases_def cfg_ids)
    moreover have "?q (lit ''SET'' @ dec_nat 1) = None" unfolding set0 by (simp add: sample_request_def lit_eq_iff del: lit_simps)
    moreover have "?q (lit ''SET'' @ dec_nat 0) = Some (dec_nat (nat CFG_PROTNAME) @ 61 # lit ''1'')"
      unfolding set0 by (simp add: sample_request_def lit_eq_iff del: lit_simps)
    ultimately show ?thesis by (simp add: form_request_def)
  qed
  have "lit ''LAN'' \<notin> set fixed_names" "first_shortcut (lit ''LAN'') = None" by code_simp+
  from settings_form_saved [OF sample_cgi_ok(1,2) cmd this form] show ?thesis
    by (auto simp: reboots_def sample_cgi_ok(5))
qed

theorem protocol_change_reboots_witness:
  "\<exists>s'. CGI_do_cmd sample_cgi_env (sample_request [(lit ''CMD'', proto_cmd 1 2 300 0)]) sample_web_state = Some (CGI_RC_REBOOT, s') \<and>
    saved sample_cgi_env s'"
proof -
  have "sample_request [(lit ''CMD'', proto_cmd 1 2 300 0)] (lit ''CMD'') = Some (proto_cmd 1 2 300 0)"
    "sample_request [(lit ''CMD'', proto_cmd 1 2 300 0)] (lit ''SET0'') = None"
    by (simp_all add: sample_request_def lit_eq_iff del: lit_simps)
  from protocol_change_reboots [OF sample_cgi_ok(1,2) this] show ?thesis by auto
qed

theorem rename_stores_name_witness:
  "\<exists>s'. CGI_do_cmd sample_cgi_env (sample_request [(lit ''CMD'', rename_cmd (lit ''left?wing''))]) sample_web_state = Some (CGI_RC_OK, s') \<and>
    get_setting CFG_AKS_NAME (g_web_config s') = lit ''left wing''"
proof -
  have q: "sample_request [(lit ''CMD'', rename_cmd (lit ''left?wing''))] (lit ''CMD'') = Some (rename_cmd (lit ''left?wing''))"
    "sample_request [(lit ''CMD'', rename_cmd (lit ''left?wing''))] (lit ''SET0'') = None"
    by (simp_all add: sample_request_def lit_eq_iff del: lit_simps)
  have short: "first_shortcut (rename_cmd (lit ''left?wing'')) = Some (lit ''RENAME_AKS'')" by code_simp
  have "take 15 (blank_marks (lit ''left?wing'')) = lit ''left wing''" by code_simp
  moreover have "setting_key CFG_AKS_NAME" by (simp add: setting_key_def set_switch_def set_cases_def)
  ultimately show ?thesis
    using rename_stores_name [OF sample_cgi_ok(1,2) q short] by (auto simp: stored_def)
qed

end
