(* ===== verification/FactoryReset.thy ===== *)
theory FactoryReset
  imports WebCommandsFacts
begin

text \<open>
  The system commands of the web page: \<open>CGI_do_sys_config\<close>, \<open>CGI_reset_default\<close> and \<open>CGI_do_sys_chk_pass\<close> of
  \<^verbatim>\<open>src/websrc/cgi/cgi_v2/cgi_api.c\<close>. The reset reads the factory settings of the module (\<open>f_setting_get\<close>) into
  local arrays, reloads the profile and then sets one by one what the factory settings say.

  The functions of the SDK and of the network library are parameters; what they are called with is the list
  \<open>sdk_calls\<close>. Delays have no effect in the model. \<open>None\<close> is a string that does not fit its array, or a null pointer.
\<close>

section \<open>Parameters and state\<close>

record 'fl reset_env = "'fl cgi_env" +
  inet_addr :: "bytes \<Rightarrow> u32"
  nstr2ip :: "bytes \<Rightarrow> u32"
  net_ping_test :: "u32 \<Rightarrow> nat \<Rightarrow> bytes \<Rightarrow> int \<times> bytes"
  http_put_file :: "int \<Rightarrow> nat \<Rightarrow> nat \<Rightarrow> int \<Rightarrow> int"
  CFG_get :: "int \<Rightarrow> bytes"

record 'fl reset_state = "'fl web_state" +
  PING_Result :: bytes
  SavePingResult :: bytes

text \<open>What a request with a file brings: the address of its body, and the address and length that
  \<open>WEB_upload_file\<close> returns for the file; 0 is the null pointer.\<close>

record upload =
  req_body :: nat
  file_addr :: nat
  file_len :: int

definition CFG_TYPE_IP :: int where "CFG_TYPE_IP = 3"
definition CFG_DNS_SVR :: int where "CFG_DNS_SVR = CFG_ID 14 2 CFG_TYPE_IP 0"

section \<open>Factory reset\<close>

definition reset_arrays :: "(string \<times> nat) list" where
  "reset_arrays =
    [(''FWDNS'', 32), (''FAKey'', 70), (''FASSID'', 40), (''FVERSION'', 20), (''FBGN'', 10), (''FSSSID'', 40), (''FBAUD'', 5),
     (''FMAXSK'', 5), (''FLAN'', 20), (''FGW'', 20), (''FEPHY'', 5), (''FEPTP'', 5), (''FNetProtocol'', 5),
     (''FNetMode'', 10), (''FNetPort'', 10), (''FNetIPClient'', 100), (''FSKey'', 70), (''FWAN'', 20), (''FWANGW'', 20),
     (''FWMODE'', 5), (''FLANG'', 5), (''FWEBULG'', 20), (''FWEBUPWD'', 20), (''FAAUTH'', 10), (''FAENC'', 10),
     (''FSAUTH'', 10), (''FSENC'', 10), (''FTMODE'', 10), (''FTCPTO'', 10), (''FAFT'', 10), (''FAFL'', 10), (''FVEW'', 10)]"

text \<open>The factory settings by name; every one must fit its array.\<close>

definition read_factory :: "('fl, 'e) cgi_env_scheme \<Rightarrow> sdk_call list \<Rightarrow> (string \<Rightarrow> bytes) option" where
  "read_factory env cs =
    (if list_all (\<lambda>(f, n). length (f_setting_get env cs (lit f)) < n) reset_arrays
     then Some (\<lambda>f. f_setting_get env cs (lit f)) else None)"

abbreviation m2m :: "string \<Rightarrow> bytes \<Rightarrow> sdk_call" where
  "m2m f v \<equiv> Call_m2m_cfg_set (lit f) v"

abbreviation field_1 :: "string \<Rightarrow> bytes \<Rightarrow> sdk_call" where
  "field_1 f v \<equiv> Call_put_field_n 1 (lit f) v"

abbreviation unless_empty :: "bytes \<Rightarrow> sdk_call list \<Rightarrow> sdk_call list" where
  "unless_empty v cs \<equiv> (if v = [] then [] else cs)"

definition reset_system :: "(string \<Rightarrow> bytes) \<Rightarrow> sdk_call list" where
  "reset_system v =
    [m2m ''M2M_FVEW'' (if v ''FVEW'' = lit ''Enable'' then lit ''1'' else lit ''0'')] @
    unless_empty (v ''FTCPTO'') [m2m ''M2M_NET_TCPTO'' (v ''FTCPTO'')] @
    (if v ''FAFT'' = [] \<or> v ''FAFL'' = [] then []
     else [m2m ''M2M_UART_AF'' (lit ''enable''), m2m ''M2M_UART_AFT'' (v ''FAFT''), m2m ''M2M_UART_AFL'' (v ''FAFL'')]) @
    unless_empty (v ''FTMODE'') [m2m ''M2M_RUN_MODE'' (v ''FTMODE'')] @
    unless_empty (v ''FWEBULG'') [m2m ''SYS_USERS'' (v ''FWEBULG''), m2m ''SYS_ADMPASS'' (v ''FWEBUPWD'')]"

definition reset_ap_key :: "(string \<Rightarrow> bytes) \<Rightarrow> sdk_call list" where
  "reset_ap_key v = (if v ''FAAUTH'' = [] \<or> v ''FAKey'' = [] then [] else
    field_1 ''WLN_AuthMode'' (v ''FAAUTH'') #
    (if v ''FAENC'' = lit ''WEP-H''
     then [field_1 ''WLN_EncrypType'' (lit ''WEP''), field_1 ''WLN_Key1Type'' (lit ''0''), m2m ''WLN_Key1Str1'' (v ''FAKey'')]
     else if v ''FAENC'' = lit ''WEP-A''
     then [field_1 ''WLN_EncrypType'' (lit ''WEP''), field_1 ''WLN_Key1Type'' (lit ''1''), m2m ''WLN_Key1Str1'' (v ''FAKey'')]
     else [field_1 ''WLN_EncrypType'' (v ''FAENC''), m2m ''WLN_WPAPSK1'' (v ''FAKey'')]))"

definition reset_sta_key :: "(string \<Rightarrow> bytes) \<Rightarrow> sdk_call list" where
  "reset_sta_key v = (if v ''FSAUTH'' = [] \<or> v ''FSKey'' = [] then [] else
    m2m ''WLN_ApCliAuthMode'' (v ''FSAUTH'') #
    (if v ''FSENC'' = lit ''WEP-H''
     then [m2m ''WLN_ApCliEncrypType'' (lit ''WEP''), m2m ''WLN_ApCliKey1Type'' (lit ''0''), m2m ''WLN_ApCliKey1Str'' (v ''FSKey'')]
     else if v ''FSENC'' = lit ''WEP-A''
     then [m2m ''WLN_ApCliEncrypType'' (lit ''WEP''), m2m ''WLN_ApCliKey1Type'' (lit ''1''), m2m ''WLN_ApCliKey1Str'' (v ''FSKey'')]
     else [m2m ''WLN_ApCliEncrypType'' (v ''FSENC''), m2m ''WLN_ApCliWPAPSK'' (v ''FSKey'')]))"

text \<open>The station modes differ for the firmware version \<open>z\<close>.\<close>

definition reset_mode :: "(string \<Rightarrow> bytes) \<Rightarrow> sdk_call list" where
  "reset_mode v =
    (if v ''FWMODE'' = lit ''AP''
     then [m2m ''SYS_OPMODE'' (lit ''1''), m2m ''WLN_ApCliEnable'' (lit ''0''), m2m ''LAN_DHCPD_EN'' (lit ''1'')]
     else if v ''FWMODE'' = lit ''STA''
     then (if v ''FVERSION'' = lit ''n'' \<or> v ''FVERSION'' = lit ''m''
           then [m2m ''WLN_ApCliEnable'' (lit ''1''), m2m ''LAN_DHCPD_EN'' (lit ''1''), m2m ''WLN_CountryRegion'' (lit ''5''),
             m2m ''SYS_OPMODE'' (lit ''2'')]
           else if v ''FVERSION'' = lit ''z''
           then [m2m ''WLN_ApCliEnable'' (lit ''1''), m2m ''LAN_DHCPD_EN'' (lit ''0''), m2m ''WLN_CountryRegion'' (lit ''5''),
             m2m ''SYS_OPMODE'' (lit ''3'')]
           else [m2m ''WLN_ApCliEnable'' (lit ''1''), m2m ''LAN_DHCPD_EN'' (lit ''1''), m2m ''WLN_CountryRegion'' (lit ''5''),
             m2m ''SYS_OPMODE'' (lit ''2'')])
     else [])"

definition reset_net :: "(string \<Rightarrow> bytes) \<Rightarrow> sdk_call list" where
  "reset_net v =
    unless_empty (v ''FNetProtocol'') [m2m ''M2M_NET_PROC'' (v ''FNetProtocol'')] @
    unless_empty (v ''FNetMode'') [m2m ''M2M_NET_MODE'' (v ''FNetMode'')] @
    unless_empty (v ''FNetPort'') [m2m ''M2M_NET_PORT'' (v ''FNetPort'')] @
    unless_empty (v ''FNetIPClient'') [m2m ''M2M_NET_SERADD'' (v ''FNetIPClient'')]"

definition reset_wan :: "(bytes \<Rightarrow> u32) \<Rightarrow> (string \<Rightarrow> bytes) \<Rightarrow> sdk_call list" where
  "reset_wan inet v =
    unless_empty (v ''FWAN'')
      [m2m ''WAN_MSK'' (lit ''255.255.255.0''), m2m ''WAN_IP_MODE'' (lit ''1''), m2m ''WAN_IP'' (v ''FWAN''),
       m2m ''DNS_FIX'' (lit ''1''), Call_CFG_set_ip (CFG_DNS_SVR + 1) 0x04040808, Call_CFG_set_ip (CFG_DNS_SVR + 2) 0x08080808] @
    unless_empty (v ''FWDNS'')
      [Call_CFG_set_ip (CFG_DNS_SVR + 1) (inet (v ''FWDNS'')), Call_CFG_set_ip (CFG_DNS_SVR + 2) 0x08080808] @
    unless_empty (v ''FWANGW'') [m2m ''WAN_GW'' (v ''FWANGW'')]"

text \<open>The index of the third dot of an address, or its length.\<close>

fun third_dot :: "nat \<Rightarrow> bytes \<Rightarrow> nat" where
  "third_dot pt [] = 0"
| "third_dot pt (b # s) =
    (if b = 46 then (if pt + 1 = 3 then 0 else Suc (third_dot (pt + 1) s)) else Suc (third_dot pt s))"

text \<open>The range of the DHCP server, written over the last number of the LAN address in its array.\<close>

definition reset_lan :: "(string \<Rightarrow> bytes) \<Rightarrow> sdk_call list option" where
  "reset_lan v = (if v ''FLAN'' = [] then Some [] else do {
     let i = third_dot 0 (v ''FLAN'');
     clan \<leftarrow> mem_put (i + 1) (lit ''100'' @ [0]) (buf_of 20 (v ''FLAN''));
     first \<leftarrow> c_str clan;
     last \<leftarrow> c_str (clan[i + 1 := 50]);
     Some [m2m ''LAN_IP'' (v ''FLAN''), m2m ''LAN_DHCPD_START'' first, m2m ''LAN_DHCPD_END'' last] })"

definition reset_names :: "(string \<Rightarrow> bytes) \<Rightarrow> sdk_call list" where
  "reset_names v =
    unless_empty (v ''FBAUD'') [m2m ''M2M_UART_BAUD'' (v ''FBAUD'')] @
    unless_empty (v ''FMAXSK'') [m2m ''M2M_NET_MAXSK'' (v ''FMAXSK'')] @
    unless_empty (v ''FASSID'') [m2m ''WLN_SSID1'' (v ''FASSID'')] @
    unless_empty (v ''FSSSID'') [m2m ''WLN_ApCliSsid'' (v ''FSSSID'')]"

definition radio_mode :: "string \<Rightarrow> string \<Rightarrow> string \<Rightarrow> string \<Rightarrow> sdk_call list" where
  "radio_mode mode rate tx mcs = [m2m ''WLN_WirelessMode'' (lit mode), m2m ''WLN_BasicRate'' (lit rate),
     m2m ''WLN_FixedTxMode'' (lit tx), m2m ''WLN_HT_MCS'' (lit mcs)]"

definition reset_radio :: "(string \<Rightarrow> bytes) \<Rightarrow> sdk_call list" where
  "reset_radio v = unless_empty (v ''FBGN'')
    (if v ''FBGN'' \<in> {lit ''11BGN'', lit ''11bgn''} then radio_mode ''9'' ''15'' ''HT'' ''0''
     else if v ''FBGN'' \<in> {lit ''11BG'', lit ''11bg''} then radio_mode ''0'' ''15'' ''OFDM'' ''7''
     else if v ''FBGN'' \<in> {lit ''11B'', lit ''11b''} then radio_mode ''1'' ''3'' ''CCK'' ''0''
     else if v ''FBGN'' \<in> {lit ''11G'', lit ''11g''} then radio_mode ''4'' ''351'' ''OFDM'' ''7''
     else if v ''FBGN'' \<in> {lit ''11N'', lit ''11n''} then radio_mode ''6'' ''15'' ''HT'' ''7''
     else radio_mode ''9'' ''15'' ''HT'' ''0'')"

definition CGI_reset_default :: "('fl, 'e) reset_env_scheme \<Rightarrow> ('fl, 'z) web_state_scheme \<Rightarrow> ('fl, 'z) web_state_scheme option" where
  "CGI_reset_default env s = do {
     v \<leftarrow> read_factory env (sdk_calls s);
     lan \<leftarrow> reset_lan v;
     Some (s\<lparr>sdk_calls := sdk_calls s @ [Call_CFG_init_prof] @ reset_system v @ reset_ap_key v @ reset_sta_key v @
       reset_mode v @ reset_net v @ reset_wan (inet_addr env) v @ lan @ reset_names v @ reset_radio v @
       [Call_CFG_save 0, Call_reboot]\<rparr>) }"

section \<open>System commands\<close>

definition CFG_ERANGE :: int where "CFG_ERANGE = -3"
definition CGI_RC_PING_OK :: int where "CGI_RC_PING_OK = 2"
definition CGI_RC_FACTORY_DEFAULT :: int where "CGI_RC_FACTORY_DEFAULT = 6"
definition CGI_RC_PING_TIMEOUT :: int where "CGI_RC_PING_TIMEOUT = -4"
definition CGI_RC_FILE_INVALID :: int where "CGI_RC_FILE_INVALID = -6"

text \<open>\<open>net_ping_test\<close> may write its own line to \<open>SavePingResult\<close>, which is cleared after every test.\<close>

primrec ping_loop :: "('fl, 'e) reset_env_scheme \<Rightarrow> u32 \<Rightarrow> nat list \<Rightarrow> 'fl reset_state \<Rightarrow> 'fl reset_state option" where
  "ping_loop env dst [] s = Some s"
| "ping_loop env dst (i # is) s = do {
     let (rtt, save) = net_ping_test env dst i (SavePingResult s);
     ping_len \<leftarrow> c_str (PING_Result s);
     res \<leftarrow> (if rtt < 0 then put_str (length ping_len) (lit '' '' @ dec_nat i @ lit '': timeout<BR>'') (PING_Result s)
       else if save \<noteq> [] then put_str (length ping_len) (dec_nat i @ lit '': '' @ save @ lit ''<BR>'') (PING_Result s)
       else Some (PING_Result s));
     ping_loop env dst is (s\<lparr>PING_Result := res, SavePingResult := []\<rparr>) }"

definition do_ping :: "('fl, 'e) reset_env_scheme \<Rightarrow> request \<Rightarrow> 'fl reset_state \<Rightarrow> (int \<times> 'fl reset_state) option" where
  "do_ping env q s =
    (let s = s\<lparr>PING_Result := replicate (length (PING_Result s)) 0\<rparr> in case q (lit ''PING'') of
       None \<Rightarrow> None
     | Some ping \<Rightarrow>
        if nstr2ip env ping \<noteq> 0
        then do {
          s \<leftarrow> ping_loop env (nstr2ip env ping) [1..<6] s;
          Some (CGI_RC_PING_OK, s) }
        else do {
          res \<leftarrow> put_str 0 (lit ''PING '' @ ping @ lit '' Failed<BR>'') (PING_Result s);
          Some (CGI_RC_PING_TIMEOUT, s\<lparr>PING_Result := res\<rparr>) })"

definition CGI_do_sys_config ::
    "('fl, 'e) reset_env_scheme \<Rightarrow> request \<Rightarrow> upload \<Rightarrow> 'fl reset_state \<Rightarrow> (int \<times> 'fl reset_state) option" where
  "CGI_do_sys_config env q up s = (case q (lit ''CCMD'') of
     None \<Rightarrow> Some (-1, s)
   | Some CCMD \<Rightarrow>
      let c = (CCMD @ [0]) ! 0 in
      if c = 51
      then (if q (lit ''files'') = None then Some (CFG_ERANGE, s)
            else if http_put_file env 0 (req_body up) (file_addr up) (file_len up) \<noteq> 0
            then Some (CGI_RC_FILE_INVALID, s)
            else Some (CGI_RC_FACTORY_DEFAULT, sdk Call_reboot s))
      else if c = 49
      then do {
        s \<leftarrow> CGI_reset_default env s;
        Some (CGI_RC_FACTORY_DEFAULT, sdk Call_reboot s) }
      else if c = 48 then Some (CGI_RC_REBOOT, sdk Call_reboot s)
      else if c = 52 then do_ping env q s
      else Some (0, s))"

definition CGI_do_sys_chk_pass :: "('fl, 'e) reset_env_scheme \<Rightarrow> request \<Rightarrow> int option" where
  "CGI_do_sys_chk_pass env q = (case q (lit ''CPW'') of
     None \<Rightarrow> Some 0
   | Some CPW \<Rightarrow> do {
      cpw \<leftarrow> fits 256 (CFG_get env CFG_SYS_ADMPASS);
      Some (if strcmp CPW cpw = 0 then 0 else -1) })"


section \<open>What a factory reset does\<close>

definition is_setting :: "sdk_call \<Rightarrow> bool" where
  "is_setting c \<longleftrightarrow> (\<exists>f v. c = Call_m2m_cfg_set f v) \<or> (\<exists>n f v. c = Call_put_field_n n f v) \<or> (\<exists>i a. c = Call_CFG_set_ip i a)"

lemma is_setting_simps [simp]: "is_setting (Call_m2m_cfg_set f v)" "is_setting (Call_put_field_n n f v)"
  "is_setting (Call_CFG_set_ip i a)"
  by (simp_all add: is_setting_def)

lemma list_all_if: "list_all P (if b then xs else ys) \<longleftrightarrow> (if b then list_all P xs else list_all P ys)"
  by simp

lemma reset_parts_settings:
  "list_all is_setting (reset_system v)" "list_all is_setting (reset_ap_key v)" "list_all is_setting (reset_sta_key v)"
  "list_all is_setting (reset_mode v)" "list_all is_setting (reset_net v)" "list_all is_setting (reset_wan inet v)"
  "list_all is_setting (reset_names v)" "list_all is_setting (reset_radio v)"
  unfolding reset_system_def reset_ap_key_def reset_sta_key_def reset_mode_def reset_net_def reset_wan_def
    reset_names_def reset_radio_def radio_mode_def
  by (simp_all only: list_all_if list.pred_inject list_all_append is_setting_simps if_cancel simp_thms)

lemma reset_lan_settings: "reset_lan v = Some cs \<Longrightarrow> list_all is_setting cs"
  by (auto simp: reset_lan_def Let_def bind_eq_Some_conv split: if_splits)

section \<open>The range of the DHCP server\<close>

definition dotted :: "nat \<Rightarrow> nat \<Rightarrow> nat \<Rightarrow> nat \<Rightarrow> bytes" where
  "dotted a b c d = dec_nat a @ 46 # dec_nat b @ 46 # dec_nat c @ 46 # dec_nat d"

lemma third_dot_word: "46 \<notin> set w \<Longrightarrow> third_dot pt (w @ s) = length w + third_dot pt s"
  by (induction w) auto

lemma dec_no_dot: "46 \<notin> set (dec_nat n)"
  using dec_nat_digits [of n] by (auto simp: list_all_iff is_digit_def)

lemma third_dot_dotted: "third_dot 0 (dotted a b c d) = length (dec_nat a) + length (dec_nat b) + length (dec_nat c) + 2"
  by (simp add: dotted_def third_dot_word dec_no_dot)

lemma dec_nat_100: "dec_nat 100 = lit ''100''" "dec_nat 200 = lit ''200''"
  by (simp_all add: dec_nat.simps)

lemma mem_put_behind: "length xs \<le> length m \<Longrightarrow> mem_put (length p) xs (p @ m) = Some (p @ xs @ drop (length xs) m)"
  by (simp add: poke_def)

lemma lan_range:
  assumes v: "v ''FLAN'' = dotted a b c d" and small: "a < 256" "b < 256" "c < 256" "d < 256"
  shows "reset_lan v = Some [m2m ''LAN_IP'' (dotted a b c d), m2m ''LAN_DHCPD_START'' (dotted a b c 100),
    m2m ''LAN_DHCPD_END'' (dotted a b c 200)]"
proof -
  let ?p = "dec_nat a @ 46 # dec_nat b @ 46 # dec_nat c @ [46]"
  have len: "length (dec_nat a) \<le> 3" "length (dec_nat b) \<le> 3" "length (dec_nat c) \<le> 3" "length (dec_nat d) \<le> 3"
    using small by (simp_all add: dec_nat_length)
  have p: "dotted a b c d = ?p @ dec_nat d" "dotted a b c 100 = ?p @ lit ''100''" "dotted a b c 200 = ?p @ lit ''200''"
    by (simp_all add: dotted_def dec_nat_100 del: lit_simps)
  have i: "third_dot 0 (dotted a b c d) + 1 = length ?p" by (simp add: third_dot_dotted)
  let ?m = "dec_nat d @ replicate (20 - length (dotted a b c d)) 0"
  let ?r = "drop (length (lit ''100'' @ [0 :: byte])) ?m"
  have buf: "buf_of 20 (dotted a b c d) = ?p @ ?m" by (simp add: buf_of_def p(1))
  have "length (dotted a b c d) \<le> 15" using len by (simp add: dotted_def)
  then have put: "mem_put (length ?p) (lit ''100'' @ [0]) (buf_of 20 (dotted a b c d)) = Some (?p @ lit ''100'' @ 0 # ?r)"
    using mem_put_behind [of "lit ''100'' @ [0]" ?m ?p] unfolding buf by (simp del: mem_put_eq_Some)
  have p_str: "is_cstr ?p" by simp
  have "c_str (?p @ lit ''100'' @ 0 # ?r) = Some (?p @ lit ''100'')"
    using c_str_terminated [of "?p @ lit ''100''" ?r] by simp
  moreover have "(?p @ lit ''100'' @ 0 # ?r)[length ?p := 50] = ?p @ lit ''200'' @ 0 # ?r"
    by (subst list_update_append) simp
  moreover have "c_str (?p @ lit ''200'' @ 0 # ?r) = Some (?p @ lit ''200'')"
    using c_str_terminated [of "?p @ lit ''200''" ?r] by simp
  moreover have "dotted a b c d \<noteq> []" by (simp add: dotted_def)
  ultimately show ?thesis unfolding reset_lan_def v Let_def i put p(2,3) by simp
qed


section \<open>What is set\<close>

definition sets :: "string \<Rightarrow> sdk_call \<Rightarrow> bool" where
  "sets f c \<longleftrightarrow> (case c of Call_m2m_cfg_set g v \<Rightarrow> g = lit f | _ \<Rightarrow> False)"

lemma sets_simps [simp]: "sets f (Call_m2m_cfg_set (lit g) v) \<longleftrightarrow> g = f" "\<not> sets f (Call_put_field_n n h v)"
  "\<not> sets f (Call_CFG_set_ip i a)" "\<not> sets f Call_CFG_init_prof" "\<not> sets f (Call_CFG_save k)" "\<not> sets f Call_reboot"
  by (simp_all add: sets_def lit_eq_iff)

text \<open>The settings that take over a factory setting as it is, when there is one.\<close>

definition reset_copies :: "(string \<times> string) list" where
  "reset_copies =
    [(''M2M_NET_TCPTO'', ''FTCPTO''), (''M2M_RUN_MODE'', ''FTMODE''), (''SYS_USERS'', ''FWEBULG''),
     (''M2M_NET_PROC'', ''FNetProtocol''), (''M2M_NET_MODE'', ''FNetMode''), (''M2M_NET_PORT'', ''FNetPort''),
     (''M2M_NET_SERADD'', ''FNetIPClient''), (''WAN_IP'', ''FWAN''), (''WAN_GW'', ''FWANGW''), (''LAN_IP'', ''FLAN''),
     (''M2M_UART_BAUD'', ''FBAUD''), (''M2M_NET_MAXSK'', ''FMAXSK''), (''WLN_SSID1'', ''FASSID''), (''WLN_ApCliSsid'', ''FSSSID'')]"

text \<open>The settings that depend on more than one: the operating mode, the password, and the keys of the access
  point and of the station, whose place depends on the encryption.\<close>

definition wep_key :: "bytes \<Rightarrow> bool" where
  "wep_key enc \<longleftrightarrow> enc = lit ''WEP-H'' \<or> enc = lit ''WEP-A''"

definition reset_others :: "(string \<Rightarrow> bytes) \<Rightarrow> (string \<times> bytes list) list" where
  "reset_others v =
    [(''SYS_OPMODE'', if v ''FWMODE'' = lit ''AP'' then [lit ''1'']
        else if v ''FWMODE'' = lit ''STA'' then [if v ''FVERSION'' = lit ''z'' then lit ''3'' else lit ''2''] else []),
     (''SYS_ADMPASS'', if v ''FWEBULG'' = [] then [] else [v ''FWEBUPWD'']),
     (''WLN_WPAPSK1'', if v ''FAAUTH'' = [] \<or> v ''FAKey'' = [] \<or> wep_key (v ''FAENC'') then [] else [v ''FAKey'']),
     (''WLN_Key1Str1'', if v ''FAAUTH'' = [] \<or> v ''FAKey'' = [] \<or> \<not> wep_key (v ''FAENC'') then [] else [v ''FAKey'']),
     (''WLN_ApCliWPAPSK'', if v ''FSAUTH'' = [] \<or> v ''FSKey'' = [] \<or> wep_key (v ''FSENC'') then [] else [v ''FSKey'']),
     (''WLN_ApCliKey1Str'', if v ''FSAUTH'' = [] \<or> v ''FSKey'' = [] \<or> \<not> wep_key (v ''FSENC'') then [] else [v ''FSKey''])]"

definition reset_parts :: "(bytes \<Rightarrow> u32) \<Rightarrow> (string \<Rightarrow> bytes) \<Rightarrow> sdk_call list \<Rightarrow> sdk_call list" where
  "reset_parts inet v lan = reset_system v @ reset_ap_key v @ reset_sta_key v @ reset_mode v @ reset_net v @
     reset_wan inet v @ lan @ reset_names v @ reset_radio v"

text \<open>The calls of a list for one setting.\<close>

lemma filter_if: "filter P (if b then xs else ys) = (if b then filter P xs else filter P ys)"
  by simp

lemma lan_calls:
  assumes "reset_lan v = Some lan"
  shows "filter (sets ''LAN_IP'') lan = unless_empty (v ''FLAN'') [m2m ''LAN_IP'' (v ''FLAN'')]"
    and "m \<notin> {''LAN_IP'', ''LAN_DHCPD_START'', ''LAN_DHCPD_END''} \<Longrightarrow> filter (sets m) lan = []"
  using assms by (auto simp: reset_lan_def Let_def bind_eq_Some_conv split: if_splits simp del: lit_simps)

text \<open>Which settings a part can set; for the others it has no call.\<close>

definition names_in :: "string list \<Rightarrow> sdk_call \<Rightarrow> bool" where
  "names_in ns c \<longleftrightarrow> (case c of Call_m2m_cfg_set g v \<Rightarrow> list_ex (\<lambda>f. g = lit f) ns | _ \<Rightarrow> True)"

lemma names_in_simps: "names_in ns (Call_m2m_cfg_set (lit g) v) \<longleftrightarrow> list_ex (\<lambda>f. g = f) ns"
  "names_in ns (Call_put_field_n n h v)" "names_in ns (Call_CFG_set_ip i a)"
  by (simp_all add: names_in_def lit_eq_iff)

lemma filter_no_name: "list_all (names_in ns) cs \<Longrightarrow> m \<notin> set ns \<Longrightarrow> filter (sets m) cs = []"
  by (induction cs) (auto simp: names_in_def sets_def list_ex_iff lit_eq_iff split: sdk_call.splits)

lemma part_names:
  "list_all (names_in [''M2M_FVEW'', ''M2M_NET_TCPTO'', ''M2M_UART_AF'', ''M2M_UART_AFT'', ''M2M_UART_AFL'', ''M2M_RUN_MODE'',
     ''SYS_USERS'', ''SYS_ADMPASS'']) (reset_system v)"
  "list_all (names_in [''WLN_Key1Str1'', ''WLN_WPAPSK1'']) (reset_ap_key v)"
  "list_all (names_in [''WLN_ApCliAuthMode'', ''WLN_ApCliEncrypType'', ''WLN_ApCliKey1Type'', ''WLN_ApCliKey1Str'',
     ''WLN_ApCliWPAPSK'']) (reset_sta_key v)"
  "list_all (names_in [''SYS_OPMODE'', ''WLN_ApCliEnable'', ''LAN_DHCPD_EN'', ''WLN_CountryRegion'']) (reset_mode v)"
  "list_all (names_in [''M2M_NET_PROC'', ''M2M_NET_MODE'', ''M2M_NET_PORT'', ''M2M_NET_SERADD'']) (reset_net v)"
  "list_all (names_in [''WAN_MSK'', ''WAN_IP_MODE'', ''WAN_IP'', ''DNS_FIX'', ''WAN_GW'']) (reset_wan inet v)"
  "list_all (names_in [''M2M_UART_BAUD'', ''M2M_NET_MAXSK'', ''WLN_SSID1'', ''WLN_ApCliSsid'']) (reset_names v)"
  "list_all (names_in [''WLN_WirelessMode'', ''WLN_BasicRate'', ''WLN_FixedTxMode'', ''WLN_HT_MCS'']) (reset_radio v)"
  unfolding reset_system_def reset_ap_key_def reset_sta_key_def reset_mode_def reset_net_def reset_wan_def
    reset_names_def reset_radio_def radio_mode_def list_all_if list.pred_inject list_all_append
  by (simp_all add: names_in_simps if_distrib [of "list_all _"] cong: if_cong del: lit_simps)

lemmas no_name = part_names [THEN filter_no_name]

lemma own_calls:
  "filter (sets ''M2M_NET_TCPTO'') (reset_system v) = unless_empty (v ''FTCPTO'') [m2m ''M2M_NET_TCPTO'' (v ''FTCPTO'')]"
  "filter (sets ''M2M_RUN_MODE'') (reset_system v) = unless_empty (v ''FTMODE'') [m2m ''M2M_RUN_MODE'' (v ''FTMODE'')]"
  "filter (sets ''SYS_USERS'') (reset_system v) = unless_empty (v ''FWEBULG'') [m2m ''SYS_USERS'' (v ''FWEBULG'')]"
  "filter (sets ''SYS_ADMPASS'') (reset_system v) = unless_empty (v ''FWEBULG'') [m2m ''SYS_ADMPASS'' (v ''FWEBUPWD'')]"
  "filter (sets ''M2M_NET_PROC'') (reset_net v) = unless_empty (v ''FNetProtocol'') [m2m ''M2M_NET_PROC'' (v ''FNetProtocol'')]"
  "filter (sets ''M2M_NET_MODE'') (reset_net v) = unless_empty (v ''FNetMode'') [m2m ''M2M_NET_MODE'' (v ''FNetMode'')]"
  "filter (sets ''M2M_NET_PORT'') (reset_net v) = unless_empty (v ''FNetPort'') [m2m ''M2M_NET_PORT'' (v ''FNetPort'')]"
  "filter (sets ''M2M_NET_SERADD'') (reset_net v) = unless_empty (v ''FNetIPClient'') [m2m ''M2M_NET_SERADD'' (v ''FNetIPClient'')]"
  "filter (sets ''WAN_IP'') (reset_wan inet v) = unless_empty (v ''FWAN'') [m2m ''WAN_IP'' (v ''FWAN'')]"
  "filter (sets ''WAN_GW'') (reset_wan inet v) = unless_empty (v ''FWANGW'') [m2m ''WAN_GW'' (v ''FWANGW'')]"
  "filter (sets ''M2M_UART_BAUD'') (reset_names v) = unless_empty (v ''FBAUD'') [m2m ''M2M_UART_BAUD'' (v ''FBAUD'')]"
  "filter (sets ''M2M_NET_MAXSK'') (reset_names v) = unless_empty (v ''FMAXSK'') [m2m ''M2M_NET_MAXSK'' (v ''FMAXSK'')]"
  "filter (sets ''WLN_SSID1'') (reset_names v) = unless_empty (v ''FASSID'') [m2m ''WLN_SSID1'' (v ''FASSID'')]"
  "filter (sets ''WLN_ApCliSsid'') (reset_names v) = unless_empty (v ''FSSSID'') [m2m ''WLN_ApCliSsid'' (v ''FSSSID'')]"
  unfolding reset_system_def reset_net_def reset_wan_def reset_names_def filter_append filter_if filter.simps sets_simps
  by (simp_all cong: if_cong del: lit_simps)

lemma mode_calls: "filter (sets ''SYS_OPMODE'') (reset_mode v) =
    (if v ''FWMODE'' = lit ''AP'' then [m2m ''SYS_OPMODE'' (lit ''1'')]
     else if v ''FWMODE'' = lit ''STA''
     then [m2m ''SYS_OPMODE'' (if v ''FVERSION'' = lit ''z'' then lit ''3'' else lit ''2'')] else [])"
  by (auto simp: reset_mode_def lit_eq_iff simp del: lit_simps)

lemma key_calls:
  "filter (sets ''WLN_WPAPSK1'') (reset_ap_key v) =
     (if v ''FAAUTH'' = [] \<or> v ''FAKey'' = [] \<or> wep_key (v ''FAENC'') then [] else [m2m ''WLN_WPAPSK1'' (v ''FAKey'')])"
  "filter (sets ''WLN_Key1Str1'') (reset_ap_key v) =
     (if v ''FAAUTH'' = [] \<or> v ''FAKey'' = [] \<or> \<not> wep_key (v ''FAENC'') then [] else [m2m ''WLN_Key1Str1'' (v ''FAKey'')])"
  "filter (sets ''WLN_ApCliWPAPSK'') (reset_sta_key v) =
     (if v ''FSAUTH'' = [] \<or> v ''FSKey'' = [] \<or> wep_key (v ''FSENC'') then [] else [m2m ''WLN_ApCliWPAPSK'' (v ''FSKey'')])"
  "filter (sets ''WLN_ApCliKey1Str'') (reset_sta_key v) =
     (if v ''FSAUTH'' = [] \<or> v ''FSKey'' = [] \<or> \<not> wep_key (v ''FSENC'') then [] else [m2m ''WLN_ApCliKey1Str'' (v ''FSKey'')])"
  by (simp_all add: reset_ap_key_def reset_sta_key_def wep_key_def filter_if cong: if_cong del: lit_simps)

text \<open>A setting that one part sets.\<close>

lemma parts_filter:
  "filter (sets m) (reset_parts inet v lan) = filter (sets m) (reset_system v) @ filter (sets m) (reset_ap_key v) @
     filter (sets m) (reset_sta_key v) @ filter (sets m) (reset_mode v) @ filter (sets m) (reset_net v) @
     filter (sets m) (reset_wan inet v) @ filter (sets m) lan @ filter (sets m) (reset_names v) @ filter (sets m) (reset_radio v)"
  by (simp add: reset_parts_def)

lemma copies_filter:
  assumes "reset_lan v = Some lan" and "(m, f) \<in> set reset_copies"
  shows "filter (sets m) (reset_parts inet v lan) = (if v f = [] then [] else [m2m m (v f)])"
proof -
  note lan = lan_calls [OF assms(1)]
  show ?thesis
    using assms(2) unfolding reset_copies_def list.set insert_iff prod.inject empty_iff simp_thms(31)
    by (elim disjE conjE; hypsubst; unfold parts_filter)
      (simp_all add: no_name own_calls lan cong: if_cong del: lit_simps)
qed

lemma others_filter:
  assumes "reset_lan v = Some lan" and "(m, vs) \<in> set (reset_others v)"
  shows "filter (sets m) (reset_parts inet v lan) = map (m2m m) vs"
proof -
  note lan = lan_calls [OF assms(1)]
  show ?thesis
    using assms(2) unfolding reset_others_def list.set insert_iff prod.inject empty_iff simp_thms(31)
    by (elim disjE conjE; hypsubst; unfold parts_filter)
      (simp_all add: no_name own_calls mode_calls key_calls lan cong: if_cong del: lit_simps)
qed

lemma parts_settings:
  "reset_lan v = Some lan \<Longrightarrow> list_all is_setting (reset_parts inet v lan)"
  by (simp add: reset_parts_def reset_parts_settings reset_lan_settings)

definition lan_address :: "bytes \<Rightarrow> bool" where
  "lan_address t \<longleftrightarrow> t = [] \<or> (\<exists>a b c d. t = dotted a b c d \<and> a < 256 \<and> b < 256 \<and> c < 256 \<and> d < 256)"

lemma lan_address_read: "lan_address (v ''FLAN'') \<Longrightarrow> \<exists>lan. reset_lan v = Some lan"
  unfolding lan_address_def using lan_range [of v] by (cases "v ''FLAN'' = []") (simp add: reset_lan_def, blast)

text \<open>
  C32. A factory reset whose factory settings fit the arrays and whose LAN address is a dotted quad (or is not there)
  ends: it reloads the profile first, then only sets settings, saves once and reboots at the very end. Every setting
  of \<open>reset_copies\<close> is set exactly once to its factory setting, or not at all when that is empty; the operating mode,
  the password and the two keys are set to what the factory settings say, and once at most.\<close>

theorem factory_reset_settings:
  assumes fits: "list_all (\<lambda>(f, n). length (f_setting_get env (sdk_calls s) (lit f)) < n) reset_arrays"
    and lan: "lan_address (f_setting_get env (sdk_calls s) (lit ''FLAN''))"
    and fac_def: "fac = (\<lambda>f. f_setting_get env (sdk_calls s) (lit f))"
  shows "\<exists>cs. CGI_reset_default env s =
      Some (s\<lparr>sdk_calls := sdk_calls s @ Call_CFG_init_prof # cs @ [Call_CFG_save 0, Call_reboot]\<rparr>) \<and>
    list_all is_setting cs \<and>
    (\<forall>(m, f)\<in>set reset_copies. filter (sets m) cs = (if fac f = [] then [] else [m2m m (fac f)])) \<and>
    (\<forall>(m, vs)\<in>set (reset_others fac). filter (sets m) cs = map (m2m m) vs)"
proof -
  obtain lan where l: "reset_lan fac = Some lan" using lan_address_read [of fac] lan by (auto simp: fac_def)
  have v: "read_factory env (sdk_calls s) = Some fac" using fits by (simp add: read_factory_def fac_def)
  show ?thesis
  proof (intro exI [of _ "reset_parts (inet_addr env) fac lan"] conjI ballI)
    show "CGI_reset_default env s = Some (s\<lparr>sdk_calls := sdk_calls s @ Call_CFG_init_prof #
        reset_parts (inet_addr env) fac lan @ [Call_CFG_save 0, Call_reboot]\<rparr>)"
      by (simp add: CGI_reset_default_def v l reset_parts_def)
  qed (use parts_settings [OF l] copies_filter [OF l] others_filter [OF l] in auto)
qed

text \<open>
  A factory reset of a node with the LAN address \<open>a.b.c.d\<close> sets this address and lets the DHCP server hand out
  \<open>a.b.c.100\<close> to \<open>a.b.c.200\<close>.\<close>

theorem factory_reset_dhcp_range:
  assumes v: "read_factory env (sdk_calls s) = Some v" and lan: "v ''FLAN'' = dotted a b c d"
    and small: "a < 256" "b < 256" "c < 256" "d < 256"
  shows "\<exists>t pre post. CGI_reset_default env s = Some t \<and> sdk_calls t = pre @
    [m2m ''LAN_IP'' (dotted a b c d), m2m ''LAN_DHCPD_START'' (dotted a b c 100), m2m ''LAN_DHCPD_END'' (dotted a b c 200)] @ post"
proof -
  let ?pre = "sdk_calls s @ [Call_CFG_init_prof] @ reset_system v @ reset_ap_key v @ reset_sta_key v @
       reset_mode v @ reset_net v @ reset_wan (inet_addr env) v"
  let ?post = "reset_names v @ reset_radio v @ [Call_CFG_save 0, Call_reboot]"
  show ?thesis
    using v lan_range [of v, OF lan small]
    by (intro exI [of _ "?pre"] exI [of _ "?post"] exI [of _ "s\<lparr>sdk_calls := ?pre @
        [m2m ''LAN_IP'' (dotted a b c d), m2m ''LAN_DHCPD_START'' (dotted a b c 100), m2m ''LAN_DHCPD_END'' (dotted a b c 200)] @ ?post\<rparr>"])
      (simp add: CGI_reset_default_def del: lit_simps)
qed

section \<open>The ping page\<close>

lemma put_line_keeps:
  assumes "c_str m = Some r" and "length r + length l < length m" and "is_cstr l"
  shows "\<exists>m'. put_str (length r) l m = Some m' \<and> length m' = length m \<and> c_str m' = Some (r @ l)"
proof -
  from assms(1) obtain z where m: "m = r @ 0 # z" and r: "is_cstr r" by (auto simp: c_str_Some_iff)
  have "poke (length r) (l @ [0]) m = (r @ l) @ 0 # drop (length r + length l + 1) m"
    using assms(2) by (simp add: poke_def m)
  then show ?thesis using assms(2,3) r by (auto simp del: append_assoc)
qed

lemma ping_loop_fits:
  assumes "\<And>i old. is_cstr (snd (net_ping_test env dst i old)) \<and> length (snd (net_ping_test env dst i old)) < 60"
  shows "length (PING_Result s) = 350 \<Longrightarrow> c_str (PING_Result s) = Some r \<Longrightarrow> length r + 66 * length is < 350 \<Longrightarrow>
    list_all (\<lambda>i. i < 10) is \<Longrightarrow>
    \<exists>t r'. ping_loop env dst is s = Some t \<and> length (PING_Result t) = 350 \<and> c_str (PING_Result t) = Some r' \<and>
      length r' \<le> length r + 66 * length is"
proof (induction "is" arbitrary: s r)
  case Nil
  then show ?case by simp
next
  case (Cons i "is")
  let ?p = "net_ping_test env dst i (SavePingResult s)"
  define l where "l = (if fst ?p < 0 then lit '' '' @ dec_nat i @ lit '': timeout<BR>''
    else if snd ?p \<noteq> [] then dec_nat i @ lit '': '' @ snd ?p @ lit ''<BR>'' else [])"
  have i: "length (dec_nat i) = 1" using Cons.prems(4) by (simp add: dec_nat.simps)
  have l: "is_cstr l" "length l \<le> 66" using assms [of i "SavePingResult s"] i by (auto simp: l_def)
  obtain m where m: "length m = 350" "c_str m = Some (r @ l)"
    and put: "fst ?p < 0 \<Longrightarrow> put_str (length r) (lit '' '' @ dec_nat i @ lit '': timeout<BR>'') (PING_Result s) = Some m"
      "\<not> fst ?p < 0 \<Longrightarrow> snd ?p \<noteq> [] \<Longrightarrow> put_str (length r) (dec_nat i @ lit '': '' @ snd ?p @ lit ''<BR>'') (PING_Result s) = Some m"
      "\<not> fst ?p < 0 \<Longrightarrow> snd ?p = [] \<Longrightarrow> m = PING_Result s"
  proof (cases "l = []")
    case True
    then show thesis using that [of "PING_Result s"] Cons.prems(1,2) by (auto simp: l_def split: if_splits)
  next
    case False
    then show thesis using put_line_keeps [OF Cons.prems(2) _ l(1)] l(2) Cons.prems(1,3) that
      by (fastforce simp: l_def split: if_splits simp del: put_str_eq_Some)
  qed
  let ?s = "s\<lparr>PING_Result := m, SavePingResult := []\<rparr>"
  obtain t r' where "ping_loop env dst is ?s = Some t" "length (PING_Result t) = 350" "c_str (PING_Result t) = Some r'"
    "length r' \<le> length (r @ l) + 66 * length is"
    using Cons.IH [of ?s "r @ l"] m l(2) Cons.prems(3,4) by auto
  moreover have "ping_loop env dst (i # is) s = ping_loop env dst is ?s"
    using put Cons.prems(2) by (cases "fst ?p < 0"; cases "snd ?p = []") (simp_all add: case_prod_beta Let_def del: put_str_eq_Some)
  ultimately show ?case using l(2) by (intro exI [of _ t] exI [of _ r']) simp
qed


text \<open>
  C33. A ping of the system page ends with \<open>CGI_RC_PING_OK\<close> and never leaves the 350 bytes of \<open>PING_Result\<close>, whatever
  the five tests report (lines below 60 bytes); a host name that is not resolved is copied there without a bound and is
  safe exactly below 334 bytes.\<close>

theorem ping_page_bounds:
  assumes q: "q (lit ''CCMD'') = Some (lit ''4'')" "q (lit ''PING'') = Some ping"
    and room: "length (PING_Result s) = 350"
    and lines: "\<And>i old. is_cstr (snd (net_ping_test env (nstr2ip env ping) i old)) \<and>
      length (snd (net_ping_test env (nstr2ip env ping) i old)) < 60"
  shows "(nstr2ip env ping \<noteq> 0 \<longrightarrow> (\<exists>t r. CGI_do_sys_config env q up s = Some (CGI_RC_PING_OK, t) \<and>
      c_str (PING_Result t) = Some r \<and> length r \<le> 330)) \<and>
    (nstr2ip env ping = 0 \<longrightarrow> (CGI_do_sys_config env q up s \<noteq> None \<longleftrightarrow> length ping < 334))"
proof -
  let ?s = "s\<lparr>PING_Result := replicate (length (PING_Result s)) 0\<rparr>"
  have cmd: "CGI_do_sys_config env q up s = do_ping env q s" unfolding CGI_do_sys_config_def q(1) by simp
  have "c_str (replicate 350 0 :: bytes) = Some []"
    using c_str_terminated [of "[]" "replicate 349 0"] by (simp flip: replicate_Suc)
  then obtain t r where "ping_loop env (nstr2ip env ping) [1..<6] ?s = Some t" "c_str (PING_Result t) = Some r" "length r \<le> 330"
    using ping_loop_fits [of env "nstr2ip env ping" ?s "[]" "[1..<6]", OF lines] room
    by (auto simp: list_all_iff)
  then have "\<exists>t r. do_ping env q s = Some (CGI_RC_PING_OK, t) \<and> c_str (PING_Result t) = Some r \<and> length r \<le> 330"
    if "nstr2ip env ping \<noteq> 0"
    using that unfolding do_ping_def Let_def q(2) by (simp add: room)
  moreover have "do_ping env q s \<noteq> None \<longleftrightarrow> length ping < 334" if "nstr2ip env ping = 0"
    using that unfolding do_ping_def Let_def q(2) option.case
    by (cases "length ping < 334") (simp_all add: room put_str_def mem_put_def)
  ultimately show ?thesis unfolding cmd by blast
qed

section \<open>Samples\<close>

definition sample_reset_env :: "(bytes \<times> bytes) list \<Rightarrow> bytes reset_env" where
  "sample_reset_env fs = cgi_env.extend
     (sample_cgi_env\<lparr>f_setting_get := \<lambda>cs f. case map_of fs f of None \<Rightarrow> [] | Some v \<Rightarrow> v\<rparr>)
     (reset_env.fields (\<lambda>_. 0) (\<lambda>n. if n = lit ''10.0.0.7'' then 0x0700000A else 0)
       (\<lambda>_ i _. if even i then (-1, []) else (3, lit ''3 ms'')) (\<lambda>_ _ _ _. 0) (\<lambda>_. []))"

definition sample_reset_state :: "bytes reset_state" where
  "sample_reset_state = web_state.extend sample_web_state (reset_state.fields (replicate 350 0) [])"

definition sample_factory :: "(bytes \<times> bytes) list" where
  "sample_factory = [(lit ''FLAN'', dotted 192 168 7 1), (lit ''FWMODE'', lit ''STA''), (lit ''FVERSION'', lit ''z'')]"

lemma sample_reset_fields:
  "f_setting_get (sample_reset_env fs) cs f = (case map_of fs f of None \<Rightarrow> [] | Some v \<Rightarrow> v)"
  "nstr2ip (sample_reset_env fs) n = (if n = lit ''10.0.0.7'' then 0x0700000A else 0)"
  "net_ping_test (sample_reset_env fs) ip i old = (if even i then (-1, []) else (3, lit ''3 ms''))"
  "PING_Result sample_reset_state = replicate 350 0" "sdk_calls sample_reset_state = []"
  using sample_cgi_ok(5)
  by (simp_all add: sample_reset_env_def sample_reset_state_def cgi_env.defs reset_env.defs web_state.defs reset_state.defs)

lemma sample_factory_read:
  "read_factory (sample_reset_env sample_factory) [] = Some (\<lambda>f. f_setting_get (sample_reset_env sample_factory) [] (lit f))"
  by (simp add: read_factory_def sample_reset_fields sample_factory_def reset_arrays_def lit_eq_iff dotted_def dec_nat.simps
    del: lit_simps)

lemma sample_factory_lan: "f_setting_get (sample_reset_env sample_factory) [] (lit ''FLAN'') = dotted 192 168 7 1"
  by (simp add: sample_reset_fields sample_factory_def lit_eq_iff del: lit_simps One_nat_def)

theorem factory_reset_dhcp_range_witness:
  "\<exists>t pre post. CGI_reset_default (sample_reset_env sample_factory) sample_reset_state = Some t \<and> sdk_calls t = pre @
    [m2m ''LAN_IP'' (dotted 192 168 7 1), m2m ''LAN_DHCPD_START'' (dotted 192 168 7 100),
     m2m ''LAN_DHCPD_END'' (dotted 192 168 7 200)] @ post"
  by (rule factory_reset_dhcp_range [of "sample_reset_env sample_factory" sample_reset_state
        "\<lambda>f. f_setting_get (sample_reset_env sample_factory) [] (lit f)"])
    (simp_all add: sample_reset_fields(5) sample_factory_read sample_factory_lan del: lit_simps)

theorem factory_reset_settings_witness:
  "\<exists>cs. CGI_reset_default (sample_reset_env sample_factory) sample_reset_state = Some (sample_reset_state\<lparr>sdk_calls :=
      Call_CFG_init_prof # cs @ [Call_CFG_save 0, Call_reboot]\<rparr>) \<and>
    filter (sets ''LAN_IP'') cs = [m2m ''LAN_IP'' (dotted 192 168 7 1)] \<and>
    filter (sets ''SYS_OPMODE'') cs = [m2m ''SYS_OPMODE'' (lit ''3'')] \<and> filter (sets ''WAN_IP'') cs = []"
proof -
  let ?env = "sample_reset_env sample_factory" and ?s = sample_reset_state
  define fac where "fac = (\<lambda>f. f_setting_get ?env (sdk_calls ?s) (lit f))"
  have fits: "list_all (\<lambda>(f, n). length (f_setting_get ?env (sdk_calls ?s) (lit f)) < n) reset_arrays"
    using sample_factory_read by (simp add: read_factory_def sample_reset_fields(5) split: if_splits)
  have "f_setting_get ?env (sdk_calls ?s) (lit ''FLAN'') = dotted 192 168 7 1"
    using sample_factory_lan by (simp add: sample_reset_fields(5) del: lit_simps)
  moreover have "lan_address (dotted 192 168 7 1)" unfolding lan_address_def
    by (intro disjI2 exI [of _ 192] exI [of _ 168] exI [of _ 7] exI [of _ 1]) simp
  ultimately have lan: "lan_address (f_setting_get ?env (sdk_calls ?s) (lit ''FLAN''))" "fac ''FLAN'' = dotted 192 168 7 1"
    by (simp_all add: fac_def)
  have vals: "fac ''FWMODE'' = lit ''STA''" "fac ''FVERSION'' = lit ''z''" "fac ''FWAN'' = []"
    by (simp_all add: fac_def sample_reset_fields sample_factory_def lit_eq_iff del: lit_simps)
  obtain cs where cs: "CGI_reset_default ?env ?s = Some (?s\<lparr>sdk_calls := sdk_calls ?s @
      Call_CFG_init_prof # cs @ [Call_CFG_save 0, Call_reboot]\<rparr>)"
    "\<forall>(m, f)\<in>set reset_copies. filter (sets m) cs = (if fac f = [] then [] else [m2m m (fac f)])"
    "\<forall>(m, vs)\<in>set (reset_others fac). filter (sets m) cs = map (m2m m) vs"
    using factory_reset_settings [OF fits lan(1) fac_def] by blast
  have "(''LAN_IP'', ''FLAN'') \<in> set reset_copies" "(''WAN_IP'', ''FWAN'') \<in> set reset_copies"
    by (simp_all add: reset_copies_def)
  moreover have "(''SYS_OPMODE'', [lit ''3'']) \<in> set (reset_others fac)"
    by (simp add: reset_others_def vals lit_eq_iff del: lit_simps)
  moreover have "dotted 192 168 7 1 \<noteq> []" by (simp add: dotted_def)
  ultimately show ?thesis using cs lan(2) vals(3)
    by (intro exI [of _ cs]) (auto simp: sample_reset_fields(5) simp del: lit_simps)
qed

theorem ping_page_bounds_witness:
  "\<exists>t r. CGI_do_sys_config (sample_reset_env []) (sample_request [(lit ''CCMD'', lit ''4''), (lit ''PING'', lit ''10.0.0.7'')])
      \<lparr>req_body = 0, file_addr = 0, file_len = 0\<rparr> sample_reset_state = Some (CGI_RC_PING_OK, t) \<and> c_str (PING_Result t) = Some r \<and> length r \<le> 330"
proof -
  let ?q = "sample_request [(lit ''CCMD'', lit ''4''), (lit ''PING'', lit ''10.0.0.7'')]"
  have q: "?q (lit ''CCMD'') = Some (lit ''4'')" "?q (lit ''PING'') = Some (lit ''10.0.0.7'')"
    by (simp_all add: sample_request_def lit_eq_iff del: lit_simps)
  have room: "length (PING_Result sample_reset_state) = 350" by (simp add: sample_reset_fields)
  have "nstr2ip (sample_reset_env []) (lit ''10.0.0.7'') \<noteq> 0" by (simp add: sample_reset_fields(2) del: lit_simps)
  then show ?thesis
    using ping_page_bounds [OF q room, of "sample_reset_env []" "\<lparr>req_body = 0, file_addr = 0, file_len = 0\<rparr>"] by (auto simp: sample_reset_fields(3))
qed

end
