(* ===== verification/Upgrade.thy ===== *)
theory Upgrade
  imports FactoryReset
begin

text \<open>
  Firmware uploads (\<open>CGI_upgrade\<close>, \<open>CGI_SAMD_upgrade\<close>, \<open>CGI_TIMO_upgrade\<close>, \<open>CGI_do_uboot_upgrade\<close>,
  \<open>CGI_do_load_cert\<close>, \<open>CGI_upgrade_upload\<close>, \<open>CGI_upgrade_save\<close>, \<open>CGI_upgrade_free\<close> of \<^verbatim>\<open>src/websrc/cgi/cgi_v2/cgi_api.c\<close>).

  A request brings the address of its body (\<open>req->content\<close>) and what \<open>WEB_upload_file\<close> returns for its file: an
  address, a length, and the bytes that can be read there. Addresses are numbers, 0 is the null pointer. The
  functions outside of \<^verbatim>\<open>src/\<close> are called and not modelled: \<open>http_put_file\<close> is a parameter that gives a result for its
  arguments, and every call is recorded in \<open>up_calls\<close>. A handler returns its code, the request (whose \<open>content\<close> is 0
  when the handler has taken the body) and the state. Reading behind the file is \<open>None\<close>.
\<close>

record file_upload = upload +
  file_bytes :: bytes

datatype up_call =
    Put_file int nat nat int
  | Free_content nat
  | Timeout_free int int
  | Untimeout_free int
  | Flash_erase nat nat
  | Flash_write nat bytes
  | Send_reboot

record up_state =
  upgrade_mem :: nat
  upgrade_file :: nat
  upgrade_file_len :: int
  upgrade_time_stamp :: int
  zweb_location :: int
  up_calls :: "up_call list"

definition CGI_RC_UPGRADE :: int where "CGI_RC_UPGRADE = 5"
definition FLASH_FWM_MAX_SIZE :: int where "FLASH_FWM_MAX_SIZE = 832 * 1024"

definition call :: "up_call \<Rightarrow> up_state \<Rightarrow> up_state" where
  "call c s = s\<lparr>up_calls := up_calls s @ [c]\<rparr>"

type_synonym put_file = "int \<Rightarrow> nat \<Rightarrow> nat \<Rightarrow> int \<Rightarrow> int"

definition CGI_upgrade_free :: "up_state \<Rightarrow> up_state" where
  "CGI_upgrade_free s =
    (if upgrade_mem s \<noteq> 0 then (call (Free_content (upgrade_mem s)) s)\<lparr>upgrade_mem := 0\<rparr> else s)"

text \<open>The end of the upgrades in one request: the body is taken over and freed at once.\<close>

definition take_and_free :: "file_upload \<Rightarrow> up_state \<Rightarrow> file_upload \<times> up_state" where
  "take_and_free req s = (req\<lparr>req_body := 0\<rparr>, CGI_upgrade_free (s\<lparr>upgrade_mem := req_body req\<rparr>))"

definition CGI_upgrade :: "put_file \<Rightarrow> file_upload \<Rightarrow> up_state \<Rightarrow> int \<times> file_upload \<times> up_state" where
  "CGI_upgrade put req s =
    (if upgrade_mem s \<noteq> 0 then (CGI_RC_FILE_INVALID, req, s)
     else if file_len req \<le> 760 * 1024 \<or> FLASH_FWM_MAX_SIZE \<le> file_len req
     then (CGI_RC_FILE_INVALID, req, CGI_upgrade_free s)
     else
       let rc = put 1 (req_body req) (file_addr req) (file_len req);
           (req, s) = take_and_free req (call (Put_file 1 (req_body req) (file_addr req) (file_len req)) s)
       in if rc \<noteq> 0 then (CGI_RC_FILE_INVALID, req, s)
          else (CGI_RC_UPGRADE, req, (call Send_reboot s)\<lparr>zweb_location := 0\<rparr>))"

definition CGI_do_uboot_upgrade :: "put_file \<Rightarrow> file_upload \<Rightarrow> up_state \<Rightarrow> int \<times> file_upload \<times> up_state" where
  "CGI_do_uboot_upgrade put req s =
    (if upgrade_mem s \<noteq> 0 then (CGI_RC_FILE_INVALID, req, s)
     else
       let rc = put 3 (req_body req) (file_addr req) (file_len req);
           (req, s) = take_and_free req (call (Put_file 3 (req_body req) (file_addr req) (file_len req)) s)
       in if rc \<noteq> 0 then (CGI_RC_FILE_INVALID, req, s)
          else (CGI_RC_UPGRADE, req, call Send_reboot s))"

text \<open>The certificate goes into its own area of the flash, behind a header with its length.\<close>

definition SSL_CERT_OFFSET :: nat where "SSL_CERT_OFFSET = 0x28000"
definition SSL_CERT_MAX_SIZE :: nat where "SSL_CERT_MAX_SIZE = 16 * 1024"
definition SSL_CERT_HDR_SIZE :: nat where "SSL_CERT_HDR_SIZE = 32"

definition cert_header :: "int \<Rightarrow> bytes" where
  "cert_header len = map (\<lambda>k. ucast (drop_bit k (word_of_int len :: u32))) [24, 16, 8, 0] @ replicate (SSL_CERT_HDR_SIZE - 4) 0"

definition CGI_do_load_cert :: "file_upload \<Rightarrow> up_state \<Rightarrow> (int \<times> file_upload \<times> up_state) option" where
  "CGI_do_load_cert req s =
    (if upgrade_mem s \<noteq> 0 then Some (CGI_RC_FILE_INVALID, req, s)
     else do {
       s \<leftarrow> (if file_addr req = 0 then Some s
         else if file_len req < 0 then None
         else do {
           cert \<leftarrow> mem_get 0 (nat (file_len req)) (file_bytes req);
           Some (call (Flash_write (SSL_CERT_OFFSET + SSL_CERT_HDR_SIZE) cert)
             (call (Flash_write SSL_CERT_OFFSET (cert_header (file_len req)))
               (call (Flash_erase SSL_CERT_OFFSET SSL_CERT_MAX_SIZE) s))) });
       Some (CGI_RC_UPGRADE, take_and_free req s) })"

definition CGI_upgrade_upload :: "int \<Rightarrow> file_upload \<Rightarrow> up_state \<Rightarrow> int \<times> file_upload \<times> up_state" where
  "CGI_upgrade_upload now req s =
    (let s = s\<lparr>upgrade_file := file_addr req\<rparr>
     in if upgrade_file s = 0 then (-1, req, s)
        else if upgrade_mem s \<noteq> 0 then (-1, req, s)
        else (0, req\<lparr>req_body := 0\<rparr>, call (Timeout_free now 300)
          (s\<lparr>upgrade_time_stamp := now, upgrade_file_len := file_len req, upgrade_mem := req_body req\<rparr>)))"

text \<open>Declared in \<^verbatim>\<open>src/include/cgi_api.h\<close>; nothing under \<^verbatim>\<open>src/\<close> calls it.\<close>

definition CGI_upgrade_save :: "put_file \<Rightarrow> up_state \<Rightarrow> int \<times> up_state" where
  "CGI_upgrade_save put s =
    (if upgrade_mem s = 0 then (CGI_RC_FILE_INVALID, s)
     else
       let s = call (Untimeout_free (upgrade_time_stamp s)) s;
           rc = put 1 (upgrade_mem s) (upgrade_file s) (upgrade_file_len s);
           s = CGI_upgrade_free (call (Put_file 1 (upgrade_mem s) (upgrade_file s) (upgrade_file_len s)) s)
       in if rc \<noteq> 0 then (CGI_RC_FILE_INVALID, s) else (CGI_RC_UPGRADE, s\<lparr>zweb_location := 0\<rparr>))"

text \<open>The upgrades of the lamp controller (\<open>which = 0\<close>) and of the radio (\<open>which = 1\<close>) hand the file to
  \<open>SAMD_firmware_download\<close>, whose second loop starts at the length: it writes in front of its buffer for a
  negative one. They differ in the code for a failure, and in the location of the pages.\<close>

definition lamp_upgrade ::
    "int \<Rightarrow> (int \<Rightarrow> int) \<Rightarrow> (up_state \<Rightarrow> up_state) \<Rightarrow> file_upload \<Rightarrow> up_state \<times> ('fl, 'z) samd_state_scheme \<Rightarrow>
     (int \<times> file_upload \<times> up_state \<times> ('fl, 'z) samd_state_scheme) option" where
  "lamp_upgrade which code success req = (\<lambda>(u, s).
    (if upgrade_mem u \<noteq> 0
     then Some (CGI_RC_FILE_INVALID, req, u, s\<lparr>outputs := outputs s @ [Uart (lit ''CGI_RC_FILE_INVALID'' @ [10])]\<rparr>)
     else if file_len req < 0 then None
     else do {
       (rc, s) \<leftarrow> SAMD_firmware_download (file_bytes req) (nat (file_len req)) which s;
       s \<leftarrow> (if rc = -1
         then map_option (\<lambda>v. s\<lparr>outputs := outputs s @ [Uart v]\<rparr>)
           (fits 48 (lit ''SAMD Upgrade Fails, Filesize='' @ dec_int (file_len req) @ [10]))
         else Some s);
       let (req, u) = take_and_free req u;
       Some (if rc \<noteq> 0 then (code rc, req, u, s) else (CGI_RC_UPGRADE, req, success u, s)) }))"

definition CGI_SAMD_upgrade ::
    "file_upload \<Rightarrow> up_state \<times> ('fl, 'z) samd_state_scheme \<Rightarrow> (int \<times> file_upload \<times> up_state \<times> ('fl, 'z) samd_state_scheme) option" where
  "CGI_SAMD_upgrade = lamp_upgrade 0 (\<lambda>rc. rc) (\<lambda>u. u)"

definition CGI_TIMO_upgrade ::
    "file_upload \<Rightarrow> up_state \<times> ('fl, 'z) samd_state_scheme \<Rightarrow> (int \<times> file_upload \<times> up_state \<times> ('fl, 'z) samd_state_scheme) option" where
  "CGI_TIMO_upgrade = lamp_upgrade 1 (\<lambda>_. CGI_RC_FILE_INVALID) (\<lambda>u. u\<lparr>zweb_location := 0\<rparr>)"

section \<open>Requests and the timer\<close>

text \<open>What can happen: a request of each kind, the call of \<open>CGI_upgrade_save\<close>, and the timer of an upload, which is
  taken to fire at any time. A step gives the code of the handler and what is left in \<open>content\<close>.\<close>

datatype up_event =
    Upgrade_now file_upload
  | Uboot_now file_upload
  | Load_cert file_upload
  | Samd_now file_upload
  | Timo_now file_upload
  | Upload int file_upload
  | Save
  | Timer

definition left :: "int \<times> file_upload \<times> up_state \<Rightarrow> 's \<Rightarrow> (int \<times> nat) \<times> up_state \<times> 's" where
  "left r s = ((fst r, req_body (fst (snd r))), snd (snd r), s)"

definition lamp_left :: "int \<times> file_upload \<times> up_state \<times> 's \<Rightarrow> (int \<times> nat) \<times> up_state \<times> 's" where
  "lamp_left r = ((fst r, req_body (fst (snd r))), snd (snd r))"

fun up_step :: "put_file \<Rightarrow> up_event \<Rightarrow> up_state \<times> ('fl, 'z) samd_state_scheme \<Rightarrow>
    ((int \<times> nat) \<times> up_state \<times> ('fl, 'z) samd_state_scheme) option" where
  "up_step put (Upgrade_now req) (u, s) = Some (left (CGI_upgrade put req u) s)"
| "up_step put (Uboot_now req) (u, s) = Some (left (CGI_do_uboot_upgrade put req u) s)"
| "up_step put (Load_cert req) (u, s) = map_option (\<lambda>r. left r s) (CGI_do_load_cert req u)"
| "up_step put (Samd_now req) (u, s) = map_option lamp_left (CGI_SAMD_upgrade req (u, s))"
| "up_step put (Timo_now req) (u, s) = map_option lamp_left (CGI_TIMO_upgrade req (u, s))"
| "up_step put (Upload now req) (u, s) = Some (left (CGI_upgrade_upload now req u) s)"
| "up_step put Save (u, s) = Some ((fst (CGI_upgrade_save put u), 0), snd (CGI_upgrade_save put u), s)"
| "up_step put Timer (u, s) = Some ((0, 0), CGI_upgrade_free u, s)"

primrec up_run :: "put_file \<Rightarrow> up_event list \<Rightarrow> up_state \<times> ('fl, 'z) samd_state_scheme \<Rightarrow>
    ((int \<times> nat) list \<times> up_state \<times> ('fl, 'z) samd_state_scheme) option" where
  "up_run put [] c = Some ([], c)"
| "up_run put (ev # evs) c = do {
     (r, c) \<leftarrow> up_step put ev c;
     (rs, c) \<leftarrow> up_run put evs c;
     Some (r # rs, c) }"

section \<open>Who frees the bodies\<close>

primrec body :: "up_event \<Rightarrow> nat" where
  "body (Upgrade_now req) = req_body req" | "body (Uboot_now req) = req_body req"
| "body (Load_cert req) = req_body req" | "body (Samd_now req) = req_body req"
| "body (Timo_now req) = req_body req" | "body (Upload now req) = req_body req"
| "body Save = 0" | "body Timer = 0"

text \<open>The bodies that were freed, the one that is kept, and the ones a run took over: those of the requests
  whose \<open>content\<close> was cleared.\<close>

definition freed :: "up_state \<Rightarrow> nat list" where
  "freed u = concat (map (\<lambda>c. case c of Free_content b \<Rightarrow> [b] | _ \<Rightarrow> []) (up_calls u))"

definition kept :: "up_state \<Rightarrow> nat list" where
  "kept u = (if upgrade_mem u = 0 then [] else [upgrade_mem u])"

definition taken :: "up_event \<Rightarrow> int \<times> nat \<Rightarrow> nat list" where
  "taken ev r = (if body ev \<noteq> 0 \<and> snd r = 0 then [body ev] else [])"

lemma call_simps [simp]:
  "upgrade_mem (call c u) = upgrade_mem u" "upgrade_file (call c u) = upgrade_file u"
  "freed (call c u) = freed u @ (case c of Free_content b \<Rightarrow> [b] | _ \<Rightarrow> [])" "kept (call c u) = kept u"
  by (simp_all add: call_def freed_def kept_def)

lemma freed_simps [simp]:
  "freed (u\<lparr>upgrade_mem := b\<rparr>) = freed u" "freed (u\<lparr>zweb_location := z\<rparr>) = freed u"
  "freed (u\<lparr>upgrade_file := p\<rparr>) = freed u" "freed (u\<lparr>upgrade_time_stamp := n\<rparr>) = freed u"
  "freed (u\<lparr>upgrade_file_len := l\<rparr>) = freed u"
  by (simp_all add: freed_def)

lemma kept_simps [simp]:
  "kept (u\<lparr>zweb_location := z\<rparr>) = kept u" "kept (u\<lparr>upgrade_file := p\<rparr>) = kept u"
  "kept (u\<lparr>upgrade_mem := b\<rparr>) = (if b = 0 then [] else [b])"
  by (simp_all add: kept_def)

lemma free_facts [simp]:
  "freed (CGI_upgrade_free u) = freed u @ kept u" "upgrade_mem (CGI_upgrade_free u) = 0" "kept (CGI_upgrade_free u) = []"
  by (simp_all add: CGI_upgrade_free_def kept_def)

lemma take_facts:
  "take_and_free req u = (req', u') \<Longrightarrow> req_body req' = 0 \<and> upgrade_mem u' = 0 \<and>
     freed u' = freed u @ (if req_body req = 0 then [] else [req_body req])"
  by (auto simp: take_and_free_def)

lemma owned: "upgrade_mem u = 0 \<Longrightarrow> kept u = []"
  by (simp add: kept_def)

text \<open>The answer to a request: it comes back with its body or without it, and without it when it succeeded.\<close>

definition answer_fits :: "up_event \<Rightarrow> int \<times> nat \<Rightarrow> bool" where
  "answer_fits ev r \<longleftrightarrow> (snd r = body ev \<or> snd r = 0) \<and>
     (fst r = (case ev of Upload now req \<Rightarrow> 0 | _ \<Rightarrow> CGI_RC_UPGRADE) \<longrightarrow> snd r = 0)"

text \<open>What a step keeps: every body is freed once, or it is the one that is kept.\<close>

definition owns :: "up_event \<Rightarrow> up_state \<Rightarrow> int \<times> nat \<Rightarrow> up_state \<Rightarrow> bool" where
  "owns ev u r v \<longleftrightarrow> answer_fits ev r \<and> freed v @ kept v = freed u @ kept u @ taken ev r"

lemmas own_defs = left_def owns_def answer_fits_def CGI_RC_UPGRADE_def CGI_RC_FILE_INVALID_def taken_def Let_def owned
  take_and_free_def

lemma upgrade_owns: "left (CGI_upgrade put req u) s = (r, v, t) \<Longrightarrow> owns (Upgrade_now req) u r v \<and> t = s"
  by (auto simp: own_defs CGI_upgrade_def split: if_splits prod.splits)

lemma uboot_owns: "left (CGI_do_uboot_upgrade put req u) s = (r, v, t) \<Longrightarrow> owns (Uboot_now req) u r v \<and> t = s"
  by (auto simp: own_defs CGI_do_uboot_upgrade_def split: if_splits prod.splits)

lemma cert_owns:
  "CGI_do_load_cert req u = Some x \<Longrightarrow> left x s = (r, v, t) \<Longrightarrow> owns (Load_cert req) u r v \<and> t = s"
  by (auto simp: own_defs CGI_do_load_cert_def split: if_splits bind_splits)

lemma upload_owns: "left (CGI_upgrade_upload now req u) s = (r, v, t) \<Longrightarrow> owns (Upload now req) u r v \<and> t = s"
  by (auto simp: own_defs kept_def CGI_upgrade_upload_def split: if_splits)

lemma save_owns: "owns Save u (fst (CGI_upgrade_save put u), 0) (snd (CGI_upgrade_save put u))"
  by (simp add: own_defs CGI_upgrade_save_def)

lemma timer_owns: "owns Timer u (0, 0) (CGI_upgrade_free u)"
  by (simp add: owns_def answer_fits_def taken_def)

text \<open>A lamp upgrade whose file can be read and fits the buffer.\<close>

definition file_ok :: "file_upload \<Rightarrow> bool" where
  "file_ok req \<longleftrightarrow> 0 \<le> file_len req \<and> file_len req = int (length (file_bytes req))"

definition event_ok :: "up_event \<Rightarrow> bool" where
  "event_ok ev = (case ev of
     Samd_now req \<Rightarrow> file_ok req \<and> file_len req \<le> 32768
   | Timo_now req \<Rightarrow> file_ok req \<and> file_len req \<le> 32768
   | Load_cert req \<Rightarrow> file_addr req \<noteq> 0 \<longrightarrow> file_ok req
   | _ \<Rightarrow> True)"

lemma lamp_goes:
  fixes s :: "('fl, 'z) samd_state_scheme"
  assumes idle: "upgrade_mem u = 0" and fok: "file_ok req" "file_len req \<le> 32768" and s: "calm s" "\<not> samd_locked s"
    and same: "\<And>v. freed (success v) = freed v \<and> upgrade_mem (success v) = upgrade_mem v"
  shows "\<exists>r rc v t w. SAMD_firmware_download (file_bytes req) (nat (file_len req)) which s = Some (rc, w) \<and>
    lamp_upgrade which code success req (u, s) = Some (r, req\<lparr>req_body := 0\<rparr>, v, t) \<and> r = (if rc = 0 then CGI_RC_UPGRADE else code rc) \<and>
    upgrade_mem v = 0 \<and> freed v = freed u @ (if req_body req = 0 then [] else [req_body req]) \<and>
    calm t \<and> \<not> samd_locked t \<and> artnet_enable t = 1"
proof -
  have len: "nat (file_len req) = length (file_bytes req)" "length (file_bytes req) \<le> 32768" "\<not> file_len req < 0"
    using fok by (simp_all add: file_ok_def)
  obtain rc w where dl: "SAMD_firmware_download (file_bytes req) (nat (file_len req)) which s = Some (rc, w)"
    "calm w" "\<not> samd_locked w" "artnet_enable w = 1"
    using download_calm [OF s len(2), of which] unfolding len(1) by blast
  have "dec_int (file_len req) = dec_nat (length (file_bytes req))" using fok by (simp add: file_ok_def dec_int_def)
  moreover have "length (dec_nat (length (file_bytes req))) \<le> 5" using len(2) by (intro dec_nat_length) simp_all
  ultimately obtain msg where msg: "fits 48 (lit ''SAMD Upgrade Fails, Filesize='' @ dec_int (file_len req) @ [10]) = Some msg"
    by (simp add: fits_def)
  define t where "t = (if rc = -1 then w\<lparr>outputs := outputs w @ [Uart msg]\<rparr> else w)"
  have t: "calm t" "\<not> samd_locked t" "artnet_enable t = 1"
    using dl(2-4) by (simp_all add: t_def calm_def samd_ok_def)
  obtain req' v where v: "take_and_free req u = (req', v)" by fastforce
  note facts = take_facts [OF v]
  have req': "req' = req\<lparr>req_body := 0\<rparr>" using v by (simp add: take_and_free_def)
  have "lamp_upgrade which code success req (u, s) = Some (if rc = 0 then (CGI_RC_UPGRADE, req', success v, t) else (code rc, req', v, t))"
    using idle len(3) dl(1) msg v by (simp add: lamp_upgrade_def t_def del: lit_simps)
  then show ?thesis using dl(1) t facts same [of v] unfolding req' by (cases "rc = 0") auto
qed

lemma lamp_owns:
  fixes s :: "('fl, 'z) samd_state_scheme"
  assumes fok: "file_ok req" "file_len req \<le> 32768" and s: "calm s" "\<not> samd_locked s"
    and same: "\<And>v. freed (success v) = freed v \<and> upgrade_mem (success v) = upgrade_mem v" and ev: "body ev = req_body req"
  shows "\<exists>r v t. map_option lamp_left (lamp_upgrade which code success req (u, s)) = Some (r, v, t) \<and>
    owns ev u r v \<and> calm t \<and> \<not> samd_locked t"
proof (cases "upgrade_mem u = 0")
  case True
  obtain r v t where "lamp_upgrade which code success req (u, s) = Some (r, req\<lparr>req_body := 0\<rparr>, v, t)"
    "upgrade_mem v = 0" "freed v = freed u @ (if req_body req = 0 then [] else [req_body req])" "calm t" "\<not> samd_locked t"
    using lamp_goes [OF True fok s same, of which code] by blast
  then show ?thesis using True ev by (simp add: lamp_left_def owns_def answer_fits_def CGI_RC_UPGRADE_def CGI_RC_FILE_INVALID_def taken_def owned)
next
  case False
  then show ?thesis using ev s
    by (cases "req_body req = 0") (simp_all add: lamp_upgrade_def lamp_left_def owns_def answer_fits_def CGI_RC_UPGRADE_def
        CGI_RC_FILE_INVALID_def taken_def calm_def samd_ok_def split: up_event.split)
qed

lemma mem_get_all: "mem_get 0 (length f) f = Some f"
  by simp

lemma step_owns:
  fixes s :: "('fl, 'z) samd_state_scheme"
  assumes "event_ok ev" and "calm s" and "\<not> samd_locked s"
  shows "\<exists>r v t. up_step put ev (u, s) = Some (r, v, t) \<and> owns ev u r v \<and> calm t \<and> \<not> samd_locked t"
proof (cases ev)
  case (Upgrade_now req)
  obtain r v t where "left (CGI_upgrade put req u) s = (r, v, t)" by (cases "left (CGI_upgrade put req u) s")
  then show ?thesis using upgrade_owns assms Upgrade_now by fastforce
next
  case (Uboot_now req)
  obtain r v t where "left (CGI_do_uboot_upgrade put req u) s = (r, v, t)" by (cases "left (CGI_do_uboot_upgrade put req u) s")
  then show ?thesis using uboot_owns assms Uboot_now by fastforce
next
  case (Upload now req)
  obtain r v t where "left (CGI_upgrade_upload now req u) s = (r, v, t)" by (cases "left (CGI_upgrade_upload now req u) s")
  then show ?thesis using upload_owns assms Upload by fastforce
next
  case (Load_cert req)
  then have "\<exists>x. CGI_do_load_cert req u = Some x"
    using assms(1) mem_get_all [of "file_bytes req"]
    by (auto simp: event_ok_def file_ok_def CGI_do_load_cert_def simp del: mem_get_eq_Some)
  then obtain x where x: "CGI_do_load_cert req u = Some x" by blast
  obtain r v t where "left x s = (r, v, t)" by (cases "left x s")
  then show ?thesis using cert_owns [OF x] x assms Load_cert by fastforce
next
  case (Samd_now req)
  then show ?thesis
    using lamp_owns [of req s "\<lambda>u. u" ev 0 "\<lambda>rc. rc" u] assms by (simp add: event_ok_def CGI_SAMD_upgrade_def)
next
  case (Timo_now req)
  then show ?thesis
    using lamp_owns [of req s "\<lambda>u. u\<lparr>zweb_location := 0\<rparr>" ev 1 "\<lambda>_. CGI_RC_FILE_INVALID" u] assms
    by (simp add: event_ok_def CGI_TIMO_upgrade_def)
next
  case Save
  then show ?thesis using save_owns [of u put] assms by simp
next
  case Timer
  then show ?thesis using timer_owns [of u] assms by simp
qed

text \<open>
  C34. In every sequence of upgrade requests of all kinds, saves and timer events (the files of lamp upgrades can be
  read and have at most 32768 bytes, those of certificates can be read, and the answers of the lamp fit its buffer),
  every handler returns; a request comes back with its body or without it, and without it whenever it succeeded; and
  the bodies that were taken over are freed exactly once, in the order they came, except for at most one, which is
  the upload that is still kept.\<close>

theorem upgrade_runs_safe:
  assumes "list_all event_ok evs" and "calm s" and "\<not> samd_locked s"
  shows "\<exists>rs v t. up_run put evs (u, s) = Some (rs, v, t) \<and> length rs = length evs \<and>
    list_all2 answer_fits evs rs \<and>
    freed v @ kept v = freed u @ kept u @ concat (map2 taken evs rs) \<and> calm t \<and> \<not> samd_locked t"
  using assms
proof (induction evs arbitrary: u s)
  case (Cons ev evs)
  have ev: "event_ok ev" "list_all event_ok evs" using Cons.prems(1) by simp_all
  obtain r v t where step: "up_step put ev (u, s) = Some (r, v, t)" "owns ev u r v" "calm t" "\<not> samd_locked t"
    using step_owns [OF ev(1) Cons.prems(2,3)] by blast
  obtain rs w x where run: "up_run put evs (v, t) = Some (rs, w, x)" "length rs = length evs"
    "list_all2 answer_fits evs rs"
    "freed w @ kept w = freed v @ kept v @ concat (map2 taken evs rs)" "calm x" "\<not> samd_locked x"
    using Cons.IH [OF ev(2) step(3,4)] by blast
  have "freed w @ kept w = freed u @ kept u @ taken ev r @ concat (map2 taken evs rs)"
    using run(4) step(2) unfolding owns_def append_assoc [symmetric] by simp
  then show ?case using step run by (intro exI [of _ "r # rs"] exI [of _ w] exI [of _ x]) (simp add: owns_def)
qed simp

section \<open>The lamp controller\<close>

text \<open>
  C36. An upgrade of the lamp controller from the web page, for a file that can be read: with more than 32768 bytes -
  the page does not check the length - it overruns the padding buffer. With at most 32768 bytes, and as long as the
  answers of the controller fit its buffer, it comes back with the result of the download, with the body taken over and
  freed, the mutex released and the DMX output on.\<close>

theorem samd_upgrade_returns:
  assumes idle: "upgrade_mem u = 0" and fok: "file_ok req" and s: "calm s" "\<not> samd_locked s"
  shows "(32768 < file_len req \<longrightarrow> CGI_SAMD_upgrade req (u, s) = None) \<and>
    (file_len req \<le> 32768 \<longrightarrow> (\<exists>rc w v t. SAMD_firmware_download (file_bytes req) (nat (file_len req)) 0 s = Some (rc, w) \<and>
      CGI_SAMD_upgrade req (u, s) = Some (if rc = 0 then CGI_RC_UPGRADE else rc, req\<lparr>req_body := 0\<rparr>, v, t) \<and>
      upgrade_mem v = 0 \<and> freed v = freed u @ (if req_body req = 0 then [] else [req_body req]) \<and>
      \<not> samd_locked t \<and> artnet_enable t = 1))"
proof (intro conjI impI)
  assume big: "32768 < file_len req"
  have "SAMD_firmware_download (file_bytes req) (nat (file_len req)) 0 s = None"
    using big fok s(1) by (simp add: file_ok_def SAMD_firmware_download_def calm_def samd_ok_def mem_put_def mem_get_def Let_def)
  then show "CGI_SAMD_upgrade req (u, s) = None"
    using idle big by (simp add: CGI_SAMD_upgrade_def lamp_upgrade_def del: lit_simps)
next
  assume "file_len req \<le> 32768"
  from lamp_goes [OF idle fok this s, of "\<lambda>u. u" 0 "\<lambda>rc. rc"]
  show "\<exists>rc w v t. SAMD_firmware_download (file_bytes req) (nat (file_len req)) 0 s = Some (rc, w) \<and>
      CGI_SAMD_upgrade req (u, s) = Some (if rc = 0 then CGI_RC_UPGRADE else rc, req\<lparr>req_body := 0\<rparr>, v, t) \<and>
      upgrade_mem v = 0 \<and> freed v = freed u @ (if req_body req = 0 then [] else [req_body req]) \<and>
      \<not> samd_locked t \<and> artnet_enable t = 1"
    unfolding CGI_SAMD_upgrade_def by blast
qed

section \<open>Certificates\<close>

fun call_inside :: "up_call \<Rightarrow> bool" where
  "call_inside (Flash_erase off n) \<longleftrightarrow> SSL_CERT_OFFSET \<le> off \<and> off + n \<le> SSL_CERT_OFFSET + SSL_CERT_MAX_SIZE"
| "call_inside (Flash_write off bs) \<longleftrightarrow> SSL_CERT_OFFSET \<le> off \<and> off + length bs \<le> SSL_CERT_OFFSET + SSL_CERT_MAX_SIZE"
| "call_inside _ \<longleftrightarrow> True"

text \<open>
  An uploaded certificate stays inside its area of the flash exactly when it has at most 16352 bytes; the function does
  not look at its length.
\<close>

theorem certificate_area:
  assumes "upgrade_mem u = 0" and "file_addr req \<noteq> 0" and "file_ok req" and "up_calls u = []"
  shows "\<exists>req' v. CGI_do_load_cert req u = Some (CGI_RC_UPGRADE, req', v) \<and>
    (list_all call_inside (up_calls v) \<longleftrightarrow> file_len req \<le> 16352)"
proof -
  have get: "mem_get 0 (nat (file_len req)) (file_bytes req) = Some (file_bytes req)" "\<not> file_len req < 0"
    using assms(3) by (simp_all add: file_ok_def)
  obtain req' v where v: "take_and_free req (call (Flash_write (SSL_CERT_OFFSET + SSL_CERT_HDR_SIZE) (file_bytes req))
     (call (Flash_write SSL_CERT_OFFSET (cert_header (file_len req))) (call (Flash_erase SSL_CERT_OFFSET SSL_CERT_MAX_SIZE) u))) = (req', v)"
    by fastforce
  then have "up_calls v = [Flash_erase SSL_CERT_OFFSET SSL_CERT_MAX_SIZE, Flash_write SSL_CERT_OFFSET (cert_header (file_len req)),
      Flash_write (SSL_CERT_OFFSET + SSL_CERT_HDR_SIZE) (file_bytes req)] @ (if req_body req = 0 then [] else [Free_content (req_body req)])"
    using assms(4) by (auto simp: take_and_free_def CGI_upgrade_free_def call_def)
  moreover have "CGI_do_load_cert req u = Some (CGI_RC_UPGRADE, req', v)"
    using assms(1,2) get v by (simp add: CGI_do_load_cert_def del: mem_get_eq_Some)
  ultimately show ?thesis using assms(3)
    by (simp add: file_ok_def cert_header_def SSL_CERT_OFFSET_def SSL_CERT_MAX_SIZE_def SSL_CERT_HDR_SIZE_def)
qed

section \<open>Samples\<close>

definition sample_up :: up_state where
  "sample_up = \<lparr>upgrade_mem = 0, upgrade_file = 0, upgrade_file_len = 0, upgrade_time_stamp = 0, zweb_location = 1, up_calls = []\<rparr>"

definition sample_file :: "nat \<Rightarrow> bytes \<Rightarrow> file_upload" where
  "sample_file b f = \<lparr>req_body = b, file_addr = b + 4, file_len = int (length f), file_bytes = f\<rparr>"

lemma sample_file_ok: "file_ok (sample_file b f)"
  by (simp add: file_ok_def sample_file_def)

lemma sample_calm: "calm (sample_samd [])" "\<not> samd_locked (sample_samd [])"
  using sample_samd_facts(1) by (simp_all add: calm_def sample_samd_def)

theorem upgrade_runs_safe_witness:
  "\<exists>rs v t. up_run (\<lambda>_ _ _ _. 0) [Upload 7 (sample_file 100 [1, 2]), Uboot_now (sample_file 200 [3]), Timer, Samd_now (sample_file 300 [4])]
      (sample_up, sample_samd []) = Some (rs, v, t) \<and> length rs = 4 \<and>
    freed v @ kept v = concat (map2 taken [Upload 7 (sample_file 100 [1, 2]), Uboot_now (sample_file 200 [3]), Timer,
      Samd_now (sample_file 300 [4])] rs)"
proof -
  let ?evs = "[Upload 7 (sample_file 100 [1, 2]), Uboot_now (sample_file 200 [3]), Timer, Samd_now (sample_file 300 [4])]"
  have "list_all event_ok ?evs" by (simp add: event_ok_def sample_file_ok) (simp add: sample_file_def)
  from upgrade_runs_safe [OF this sample_calm, of "\<lambda>_ _ _ _. 0" sample_up]
  obtain rs v t where "up_run (\<lambda>_ _ _ _. 0) ?evs (sample_up, sample_samd []) = Some (rs, v, t)" "length rs = length ?evs"
    "freed v @ kept v = freed sample_up @ kept sample_up @ concat (map2 taken ?evs rs)"
    by blast
  moreover have "freed sample_up = []" "kept sample_up = []" by (simp_all add: sample_up_def freed_def kept_def)
  ultimately show ?thesis by (intro exI [of _ rs] exI [of _ v] exI [of _ t]) simp
qed

theorem samd_upgrade_returns_witness:
  "\<exists>rc req v t. CGI_SAMD_upgrade (sample_file 100 [1, 2, 3]) (sample_up, sample_samd []) = Some (rc, req, v, t) \<and>
    freed v = [100] \<and> \<not> samd_locked t \<and> artnet_enable t = 1"
proof -
  have "upgrade_mem sample_up = 0" "file_len (sample_file 100 [1, 2, 3]) \<le> 32768" "req_body (sample_file 100 [1, 2, 3]) = 100"
    "freed sample_up = []"
    by (simp_all add: sample_up_def sample_file_def freed_def)
  then show ?thesis using samd_upgrade_returns [OF _ sample_file_ok sample_calm, of sample_up 100 "[1, 2, 3]"] by auto
qed

theorem certificate_area_witness:
  "\<exists>req' v. CGI_do_load_cert (sample_file 100 [1, 2]) sample_up = Some (CGI_RC_UPGRADE, req', v) \<and> list_all call_inside (up_calls v)"
  using certificate_area [of sample_up "sample_file 100 [1, 2]"] sample_file_ok [of 100 "[1, 2]"]
  by (simp add: sample_up_def sample_file_def)

end
