(* ===== verification/RouterCommands.thy ===== *)
theory RouterCommands
  imports WebCommandsFacts
begin

text \<open>
  The router commands of the web page, the functions of \<open>ps_cgi_cmds\<close> and \<open>as_cgi_cmds\<close> that \<open>CGI_do_cmd\<close> calls by name
  (\<^verbatim>\<open>src/websrc/cgi/cgi_v2/cgi_api.c\<close>): routes, leases, the address of the WAN interface, the wireless settings of one
  network, the simple configuration of stations, the logs and the clock. \<open>router_handler\<close> is the table.

  The SDK functions they call are parameters that may depend on the calls made before; \<open>behind_lastByte\<close> is what the stack
  holds behind the byte that \<open>CGI_do_wireless_security\<close> reads a number from. \<open>None\<close> is a string that does not fit its
  array, a read in front of an empty name, or a loop over routes that does not end.
\<close>

section \<open>Parameters\<close>

record 'fl router_env = "'fl cgi_env" +
  CFG_get_entry :: "sdk_call list \<Rightarrow> int \<Rightarrow> bytes option"
  RT_add_staticrt :: "sdk_call list \<Rightarrow> bytes \<Rightarrow> int"
  RT_del_staticrt :: "sdk_call list \<Rightarrow> bytes \<Rightarrow> int"
  behind_lastByte :: bytes

definition CGI_RC_SNDMAIL :: int where "CGI_RC_SNDMAIL = 4"
definition CGI_RC_CONNECTING :: int where "CGI_RC_CONNECTING = 7"

definition CFG_RT_ENTRY :: int where "CFG_RT_ENTRY = CFG_ID 5 1 CFG_TYPE_STR 0"
definition CFG_WLN_WscModeOption :: int where "CFG_WLN_WscModeOption = CFG_ID 4 112 CFG_TYPE_INT 0"
definition CFG_WLN_WscPinCode :: int where "CFG_WLN_WscPinCode = CFG_ID 4 114 CFG_TYPE_INT 0"
definition CFG_WLN_WscConfMode :: int where "CFG_WLN_WscConfMode = CFG_ID 4 134 CFG_TYPE_INT 0"
definition CFG_WLN_WscConfStatus :: int where "CFG_WLN_WscConfStatus = CFG_ID 4 135 CFG_TYPE_INT 0"
definition CFG_WLN_SSIDIndex :: int where "CFG_WLN_SSIDIndex = CFG_ID 4 233 CFG_TYPE_INT 0"

definition WEB_getvar :: "request \<Rightarrow> bytes \<Rightarrow> bytes \<Rightarrow> bytes" where
  "WEB_getvar q var dflt = (case q var of None \<Rightarrow> dflt | Some v \<Rightarrow> v)"

text \<open>A number of the configuration, read into an empty array of \<open>n\<close> bytes.\<close>

definition get_number :: "('fl, 'e) web_env_scheme \<Rightarrow> nat \<Rightarrow> int \<Rightarrow> 'fl web_state \<Rightarrow> int option" where
  "get_number env n cid s =
    map_option atoi (fits n (case CFG_get_str env (sdk_calls s) cid of None \<Rightarrow> [] | Some v \<Rightarrow> v))"

text \<open>The parameter \<open>SETi\<close>: its text in front of the sign and its value; \<open>Inl\<close> is a parameter without one.\<close>

definition setting_at :: "request \<Rightarrow> nat \<Rightarrow> (int + int \<times> bytes) option" where
  "setting_at q i = map_option (\<lambda>cmdv. case strchr 61 cmdv of
      None \<Rightarrow> Inl CGI_RC_CFG_ERR
    | Some k \<Rightarrow> if k = 0 then Inl CGI_RC_CFG_ERR else Inr (atoi (take k cmdv), drop (k + 1) cmdv)) (q (lit ''SET'' @ dec_nat i))"

section \<open>Short commands\<close>

definition CGI_do_wan_connect :: "request \<Rightarrow> 'fl web_state \<Rightarrow> int \<times> 'fl web_state" where
  "CGI_do_wan_connect q s = (case q (lit ''action'') of
     None \<Rightarrow> (-1, s)
   | Some action \<Rightarrow>
       if (action @ [0]) ! 0 = 49 then (8, sdk Call_DHCPC_release_one s)
       else if (action @ [0]) ! 0 = 50 then (CGI_RC_CONNECTING, sdk Call_DHCPC_renew s)
       else (CGI_RC_CONNECTING, s))"

definition CGI_do_sys_log :: "'fl web_state \<Rightarrow> int \<times> 'fl web_state" where
  "CGI_do_sys_log s = (0, sdk Call_clear_system_log s)"

definition CGI_do_secure_log :: "'fl web_state \<Rightarrow> int \<times> 'fl web_state" where
  "CGI_do_secure_log s = (0, sdk Call_clear_seurity_log s)"

definition CGI_do_sys_log_mail :: "'fl web_state \<Rightarrow> int \<times> 'fl web_state" where
  "CGI_do_sys_log_mail s = (CGI_RC_SNDMAIL, sdk Call_event_send_mail s)"

definition CGI_do_lan_dhcp_clients :: "request \<Rightarrow> 'fl web_state \<Rightarrow> int \<times> 'fl web_state" where
  "CGI_do_lan_dhcp_clients q s = (0, fold (\<lambda>i. sdk (Call_DHCPD_leases_set (q (lit ''list'' @ dec_nat i)))) [1..<257] s)"

definition CGI_do_ntp_config :: "request \<Rightarrow> 'fl web_state \<Rightarrow> int \<times> 'fl web_state" where
  "CGI_do_ntp_config q s = (case q (lit ''TIMES'') of
     None \<Rightarrow> (0, s)
   | Some cmd \<Rightarrow> (CGI_RC_CFG_OK, let c_time = atoi cmd in if c_time \<noteq> 0 then sdk (Call_non_ntp_update c_time) s else s))"

section \<open>Routes\<close>

partial_function (option) free_route :: "('fl, 'e) router_env_scheme \<Rightarrow> 'fl web_state \<Rightarrow> nat \<Rightarrow> nat option" where
  "free_route env s i = (case CFG_get_entry env (sdk_calls s) (CFG_RT_ENTRY + int i + 1) of
     None \<Rightarrow> Some i
   | Some rtent \<Rightarrow> do { rtent \<leftarrow> fits 100 rtent; free_route env s (i + 1) })"

partial_function (option) delete_routes :: "('fl, 'e) router_env_scheme \<Rightarrow> bytes \<Rightarrow> nat \<Rightarrow> int \<Rightarrow> 'fl web_state \<Rightarrow> (int \<times> 'fl web_state) option" where
  "delete_routes env entstr i rc s = (case CFG_get_entry env (sdk_calls s) (CFG_RT_ENTRY + int i + 1) of
     None \<Rightarrow> Some (rc, s)
   | Some rtent \<Rightarrow> do {
       rtent \<leftarrow> fits 100 rtent;
       if entstr = rtent
       then do {
         let s = sdk (Call_CFG_del (CFG_RT_ENTRY + int i + 1)) s;
         delete_routes env entstr (i + 1) (RT_del_staticrt env (sdk_calls s) entstr) (sdk (Call_RT_del_staticrt entstr) s) }
       else delete_routes env entstr (i + 1) rc s })"

definition CGI_do_rt_add :: "('fl, 'e) router_env_scheme \<Rightarrow> request \<Rightarrow> 'fl web_state \<Rightarrow> (int \<times> 'fl web_state) option" where
  "CGI_do_rt_add env q s = do {
     let entstr = WEB_getvar q (lit ''str'') [];
     (rc, s) \<leftarrow> (if atoi (WEB_getvar q (lit ''cmd'') []) = 1 then delete_routes env entstr 0 0 s
       else do {
         i \<leftarrow> free_route env s 0;
         let rc = RT_add_staticrt env (sdk_calls s) entstr;
         let s = sdk (Call_RT_add_staticrt entstr) s;
         Some (rc, if rc \<noteq> -1 then sdk (Call_CFG_set_text (CFG_RT_ENTRY + int i + 1) entstr) s else s) });
     Some (if rc = 0 then CGI_RC_CFG_OK else rc, s) }"

section \<open>Simple configuration\<close>

text \<open>The PIN and the mode, with what the first ten parameters change.\<close>

definition wsc_settings :: "request \<Rightarrow> int \<times> int \<Rightarrow> int \<times> int" where
  "wsc_settings q = fold (\<lambda>i (pin, mode). case setting_at q i of
      Some (Inr (cid, v)) \<Rightarrow>
        if cid = 0x4720100 then (atoi v, mode) else if cid = 0x4700100 then (pin, atoi v) else (pin, mode)
    | _ \<Rightarrow> (pin, mode)) [0..<10]"

definition CGI_do_wireless_simple_config_device :: "('fl, 'e) web_env_scheme \<Rightarrow> request \<Rightarrow> 'fl web_state \<Rightarrow> (int \<times> 'fl web_state) option" where
  "CGI_do_wireless_simple_config_device env q s = do {
     WscPinCode \<leftarrow> get_number env 255 CFG_WLN_WscPinCode s;
     WscMode \<leftarrow> get_number env 10 CFG_WLN_WscModeOption s;
     WscConfMode \<leftarrow> get_number env 10 CFG_WLN_WscConfMode s;
     WscConfStatus \<leftarrow> get_number env 10 CFG_WLN_WscConfStatus s;
     let (WscPinCode, WscMode) = wsc_settings q (WscPinCode, WscMode);
     let cmds = [lit ''WscGetConf=0'', lit ''WscConfMode='' @ dec_int WscConfMode, lit ''WscConfStatus='' @ dec_int WscConfStatus,
       lit ''WscMode='' @ dec_int WscMode] @ (if WscMode = 1 then [lit ''WscPinCode='' @ dec_int WscPinCode] else []) @ [lit ''WscGetConf=1''];
     Some (CGI_RC_CFG_OK, s\<lparr>sdk_calls := sdk_calls s @ [Call_CFG_set_int CFG_WLN_WscPinCode WscPinCode,
       Call_CFG_set_int CFG_WLN_WscModeOption WscMode] @ map Call_system2 cmds\<rparr>) }"

section \<open>Settings of one network\<close>

text \<open>The first loop: \<open>SSIDIndex\<close> among the parameters; parameters that are missing or without a sign are passed over.\<close>

primrec ssid_index :: "request \<Rightarrow> nat list \<Rightarrow> int \<Rightarrow> int \<Rightarrow> int \<times> int" where
  "ssid_index q [] rc n = (rc, n)"
| "ssid_index q (i # is) rc n = (case setting_at q i of
     None \<Rightarrow> ssid_index q is rc n
   | Some (Inl e) \<Rightarrow> ssid_index q is e n
   | Some (Inr (cid, v)) \<Rightarrow> if cid = 0x4E90100 then (rc, atoi v) else ssid_index q is rc n)"

text \<open>Identifiers whose settings exist once, and those counted from 0.\<close>

definition only_first :: "int list" where
  "only_first = [0x4920200, 0x4900100, 0x4910100, 0x4710100]"

definition from_zero :: "int list" where
  "from_zero = [0x4A60200, 0x4A70200, 0x4A80200, 0x4A90200, 0x46A0100, 0x46B0100, 0x46C0100, 0x46D0100]"

definition is_chosen :: "bytes \<Rightarrow> int \<Rightarrow> int \<Rightarrow> byte \<Rightarrow> bool" where
  "is_chosen more_stack n cid lastByte =
    (if \<not> is_digit lastByte then \<not> (n \<noteq> 0 \<and> cid \<in> set only_first)
     else if cid \<in> set from_zero then atoi (lastByte # more_stack) = n
     else atoi (lastByte # more_stack) = n + 1)"

definition one_wireless :: "('fl, 'e) router_env_scheme \<Rightarrow> int \<Rightarrow> int \<Rightarrow> bytes \<Rightarrow> int \<Rightarrow> 'fl web_state \<Rightarrow> (int \<times> 'fl web_state) option" where
  "one_wireless env n cid val rc s =
    (if cid = 0 then Some (rc, s)
     else do {
       let val = (if CFG_ID_TYPE cid = CFG_TYPE_STR \<and> cid \<noteq> CFG_POE_USER \<and> cid \<noteq> CFG_POE_PASS
                  then takeWhile (\<lambda>b. b \<noteq> 10 \<and> b \<noteq> 13) val else val);
       let var = CFG_id2str env cid;
       if var = [] then None
       else do {
         let (rc, s) = (if is_chosen (behind_lastByte env) n cid (last var)
           then (CFG_set_str env (sdk_calls s) cid val, sdk (Call_CFG_set_str cid val) s) else (rc, s));
         Some (if rc \<ge> 0 then CGI_RC_CFG_OK else rc, s) } })"

primrec wireless_loop :: "('fl, 'e) router_env_scheme \<Rightarrow> request \<Rightarrow> int \<Rightarrow> nat list \<Rightarrow> int \<Rightarrow> 'fl web_state \<Rightarrow> (int \<times> 'fl web_state) option" where
  "wireless_loop env q n [] rc s = Some (rc, s)"
| "wireless_loop env q n (i # is) rc s = (case setting_at q i of
     None \<Rightarrow> Some (rc, s)
   | Some (Inl e) \<Rightarrow> Some (e, s)
   | Some (Inr (cid, v)) \<Rightarrow> do {
       (rc, s) \<leftarrow> one_wireless env n cid v rc s;
       wireless_loop env q n is rc s })"

definition CGI_do_wireless_security :: "('fl, 'e) router_env_scheme \<Rightarrow> request \<Rightarrow> 'fl web_state \<Rightarrow> (int \<times> 'fl web_state) option" where
  "CGI_do_wireless_security env q s = do {
     n \<leftarrow> get_number env 255 CFG_WLN_SSIDIndex s;
     let (rc, n) = ssid_index q [0..<50] 0 n;
     wireless_loop env q n [0..<50] rc s }"

section \<open>The table\<close>

text \<open>The commands of other theories, and the functions that need more than this state, are \<open>other\<close>.\<close>

definition router_handler :: "('fl, 'e) router_env_scheme \<Rightarrow> (bytes \<Rightarrow> request \<Rightarrow> 'fl web_state \<Rightarrow> (int \<times> 'fl web_state) option) \<Rightarrow>
    bytes \<Rightarrow> request \<Rightarrow> 'fl web_state \<Rightarrow> (int \<times> 'fl web_state) option" where
  "router_handler env other name q s =
    (if name = lit ''SYS_LOG'' then Some (CGI_do_sys_log s)
     else if name = lit ''SECURE_LOG'' then Some (CGI_do_secure_log s)
     else if name = lit ''WAN_CON'' then Some (CGI_do_wan_connect q s)
     else if name = lit ''LAN_DHC'' then Some (CGI_do_lan_dhcp_clients q s)
     else if name = lit ''RT_ADD'' then CGI_do_rt_add env q s
     else if name = lit ''WIRELESS_SECURITY'' \<or> name = lit ''ACL'' then CGI_do_wireless_security env q s
     else if name = lit ''WIRELESS_SIMPLE_CONFIG_DEVICE'' then CGI_do_wireless_simple_config_device env q s
     else if name = lit ''SYS_LOG_MAIL'' then Some (CGI_do_sys_log_mail s)
     else if name = lit ''NTP'' then Some (CGI_do_ntp_config q s)
     else other name q s)"


section \<open>A form of wireless settings\<close>

text \<open>The parameters of the form are \<open>SET0\<close>, \<open>SET1\<close>, ... without a gap.\<close>

definition wireless_request :: "request \<Rightarrow> (int \<times> bytes) list \<Rightarrow> bool" where
  "wireless_request q kvs \<longleftrightarrow> length kvs \<le> 50 \<and>
     (\<forall>i<length kvs. q (lit ''SET'' @ dec_nat i) = Some (dec_nat (nat (fst (kvs ! i))) @ 61 # snd (kvs ! i))) \<and>
     (\<forall>i. length kvs \<le> i \<and> i < 50 \<longrightarrow> q (lit ''SET'' @ dec_nat i) = None) \<and>
     list_all (\<lambda>(cid, v). 0 < cid \<and> cid < 2 ^ 31 \<and> 10 \<notin> set v \<and> 13 \<notin> set v) kvs"

text \<open>The network the form is for: the one in the form, or the one that is set.\<close>

definition form_network :: "(int \<times> bytes) list \<Rightarrow> int \<Rightarrow> int" where
  "form_network kvs n = (case map_of kvs 0x4E90100 of None \<Rightarrow> n | Some v \<Rightarrow> atoi v)"

text \<open>Settings are for one network when their name ends with a digit, counted from 1 or from 0.\<close>

definition for_network :: "(int \<Rightarrow> bytes) \<Rightarrow> int \<Rightarrow> int \<Rightarrow> bool" where
  "for_network names n cid =
    (let c = last (names cid)
     in if is_digit c then uint c - 48 = (if cid \<in> set from_zero then n else n + 1)
        else n = 0 \<or> cid \<notin> set only_first)"

text \<open>What the function makes of it: the number that begins with the last digit and goes on in the bytes \<open>r\<close> of the
  stack. Without a digit in front it is the same.\<close>

definition read_for_network :: "bytes \<Rightarrow> (int \<Rightarrow> bytes) \<Rightarrow> int \<Rightarrow> int \<Rightarrow> bool" where
  "read_for_network r names n cid =
    (let c = last (names cid)
     in if is_digit c then atoi (c # r) = (if cid \<in> set from_zero then n else n + 1)
        else n = 0 \<or> cid \<notin> set only_first)"

definition plain_stack :: "bytes \<Rightarrow> bool" where
  "plain_stack r \<longleftrightarrow> r = [] \<or> \<not> is_digit (hd r)"

lemma setting_at_form:
  assumes "wireless_request q kvs" and "i < 50"
  shows "setting_at q i = (if i < length kvs then Some (Inr (kvs ! i)) else None)"
proof (cases "i < length kvs")
  case True
  obtain cid v where kv: "kvs ! i = (cid, v)" by (cases "kvs ! i")
  have "(cid, v) \<in> set kvs" using True kv by (metis nth_mem)
  then have cid: "0 < cid" "cid < 2 ^ 31" using assms(1) by (auto simp: wireless_request_def list_all_iff)
  have "q (lit ''SET'' @ dec_nat i) = Some (dec_nat (nat cid) @ 61 # v)"
    using assms(1) True kv by (simp add: wireless_request_def del: lit_simps)
  moreover have "strchr 61 (dec_nat (nat cid) @ 61 # v) = Some (length (dec_nat (nat cid)))" using no_sign by (rule strchr_append)
  moreover have "atoi (dec_nat (nat cid)) = cid" using cid by (simp add: atoi_dec_nat)
  ultimately show ?thesis using True kv dec_nat_not_Nil by (simp add: setting_at_def del: lit_simps)
next
  case False
  then show ?thesis using assms by (simp add: setting_at_def wireless_request_def del: lit_simps)
qed

lemma ssid_index_form:
  assumes form: "wireless_request q kvs"
  shows "i \<le> 50 \<Longrightarrow> ssid_index q [i..<50] 0 n = (0, form_network (drop i kvs) n)"
proof (induction "50 - i" arbitrary: i)
  case 0
  then show ?case using form by (simp add: wireless_request_def form_network_def)
next
  case (Suc m)
  then have i: "i < 50" by simp
  have IH: "ssid_index q [Suc i..<50] 0 n = (0, form_network (drop (Suc i) kvs) n)"
    using Suc.hyps(1) [of "Suc i"] Suc.hyps(2) i by linarith
  show ?case
  proof (cases "i < length kvs")
    case True
    then show ?thesis
      using IH setting_at_form [OF form i]
      by (cases "kvs ! i") (simp add: upt_conv_Cons [OF i] Cons_nth_drop_Suc [OF True, symmetric] form_network_def del: upt_rec_numeral)
  next
    case False
    then show ?thesis using IH setting_at_form [OF form i] by (simp add: upt_conv_Cons [OF i] del: upt_rec_numeral)
  qed
qed

lemma atoi_one_digit: "is_digit d \<Longrightarrow> r = [] \<or> \<not> is_digit (hd r) \<Longrightarrow> atoi (d # r) = uint d - 48"
proof -
  assume d: "is_digit d" and r: "r = [] \<or> \<not> is_digit (hd r)"
  have "digits_val 0 (d # r) = uint d - 48" using d r by (cases r) simp_all
  moreover have "0 \<le> uint d" "uint d < 2 ^ 8" using uint_lt2p [of d] by simp_all
  ultimately show ?thesis using digit_facts [OF d] by (simp add: atoi_def clamp32_def)
qed

lemma is_chosen_form: "is_chosen r n cid (last (names cid)) = read_for_network r names n cid"
  by (auto simp: is_chosen_def read_for_network_def Let_def)

lemma plain_network: "plain_stack r \<Longrightarrow> read_for_network r names n cid = for_network names n cid"
  using atoi_one_digit [of _ r] by (simp add: plain_stack_def read_for_network_def for_network_def Let_def)

definition stores :: "(int \<times> bytes) list \<Rightarrow> sdk_call list" where
  "stores kvs = map (\<lambda>(cid, v). Call_CFG_set_str cid v) kvs"

lemma stores_simps [simp]: "stores [] = []" "stores ((cid, v) # kvs) = Call_CFG_set_str cid v # stores kvs"
  "stores (kvs @ kvs') = stores kvs @ stores kvs'"
  by (simp_all add: stores_def)

text \<open>The configuration of the SDK takes every one of the settings, and knows their names.\<close>

definition settings_taken :: "('fl, 'e) router_env_scheme \<Rightarrow> (int \<times> bytes) list \<Rightarrow> bool" where
  "settings_taken env kvs \<longleftrightarrow> list_all (\<lambda>(cid, v). CFG_id2str env cid \<noteq> [] \<and> (\<forall>cs. CFG_set_str env cs cid v \<ge> 0)) kvs"

lemma one_wireless_taken:
  assumes "0 < cid" "10 \<notin> set v" "13 \<notin> set v" "settings_taken env [(cid, v)]" "rc \<ge> 0"
  shows "one_wireless env n cid v rc s =
    Some (CGI_RC_CFG_OK, s\<lparr>sdk_calls := sdk_calls s @ stores (filter (read_for_network (behind_lastByte env) (CFG_id2str env) n \<circ> fst) [(cid, v)])\<rparr>)"
proof -
  have v: "takeWhile (\<lambda>b. b \<noteq> 10 \<and> b \<noteq> 13) v = v" using assms(2,3) by (auto simp: takeWhile_eq_all_conv)
  show ?thesis
    using assms is_chosen_form [of "behind_lastByte env" n cid "CFG_id2str env"]
    by (simp add: one_wireless_def v settings_taken_def sdk_def Let_def)
qed

lemma wireless_loop_form:
  assumes form: "wireless_request q kvs" and env: "settings_taken env kvs"
  shows "i \<le> length kvs \<Longrightarrow> rc \<ge> 0 \<Longrightarrow> wireless_loop env q n [i..<50] rc s =
    Some (if i < length kvs then CGI_RC_CFG_OK else rc,
      s\<lparr>sdk_calls := sdk_calls s @ stores (filter (read_for_network (behind_lastByte env) (CFG_id2str env) n \<circ> fst) (drop i kvs))\<rparr>)"
proof (induction "length kvs - i" arbitrary: i rc s)
  case 0
  then have i: "i = length kvs" by simp
  show ?case
  proof (cases "i < 50")
    case True
    then show ?thesis using i unfolding upt_conv_Cons [OF True] by (simp add: setting_at_form [OF form])
  qed (use i in simp)
next
  case (Suc m)
  then have i: "i < length kvs" "i < 50" using form by (auto simp: wireless_request_def)
  obtain cid v where kv: "kvs ! i = (cid, v)" by (cases "kvs ! i")
  have "(cid, v) \<in> set kvs" using i(1) kv by (metis nth_mem)
  then have "0 < cid" "10 \<notin> set v" "13 \<notin> set v" "settings_taken env [(cid, v)]"
    using form env by (auto simp: wireless_request_def settings_taken_def list_all_iff)
  note one = one_wireless_taken [OF this(1-4) Suc.prems(2), of n]
  have d: "drop i kvs = (cid, v) # drop (Suc i) kvs" using i(1) kv by (simp add: Cons_nth_drop_Suc [symmetric])
  have step: "wireless_loop env q n [i..<50] rc s = wireless_loop env q n [Suc i..<50] CGI_RC_CFG_OK
      (s\<lparr>sdk_calls := sdk_calls s @ stores (filter (read_for_network (behind_lastByte env) (CFG_id2str env) n \<circ> fst) [(cid, v)])\<rparr>)"
    unfolding upt_conv_Cons [OF i(2)] wireless_loop.simps setting_at_form [OF form i(2)] using i(1) kv one by simp
  show ?case
    unfolding step using Suc.hyps i(1)
    by (subst Suc.hyps(1)) (auto simp: d CGI_RC_CFG_OK_def)
qed

lemma wireless_names: "lit ''WIRELESS_SECURITY'' \<in> set ps_cgi_cmds" "lit ''ACL'' \<in> set ps_cgi_cmds"
  "lit ''WIRELESS_SECURITY'' \<notin> set as_cgi_cmds" "lit ''ACL'' \<notin> set as_cgi_cmds" "distinct ps_cgi_cmds"
  by code_simp+

lemma call_handlers_once:
  assumes "cmd \<in> set ns" "distinct ns" "cgi_handler env cmd q (snd x) = Some (rc, s)"
  shows "call_handlers env q cmd ns x = Some (rc, s)"
  using assms
proof (induction ns)
  case (Cons n ns)
  then show ?case by (auto simp: no_handler)
qed simp

text \<open>
  C39. The form for the security of a wireless network: from a request with settings that the SDK takes, exactly those are
  stored, in their order, that the function takes to be for the chosen network or for all of them; then the configuration
  is saved once, and the answer is \<open>CGI_RC_CFG_OK\<close>. The number of a network is read from the last digit of the name on
  into the uninitialised bytes behind \<open>lastByte\<close>: when these do not begin with a digit, the settings stored are those whose
  name ends with the number of the chosen network, or with no number.
\<close>

theorem wireless_settings_saved:
  assumes "q (lit ''CMD'') = Some cmd" and "cmd = lit ''WIRELESS_SECURITY'' \<or> cmd = lit ''ACL''"
    and "cgi_handler env = router_handler renv other"
    and "wireless_request q kvs" and "kvs \<noteq> []" and "settings_taken renv kvs"
    and "get_number renv 255 CFG_WLN_SSIDIndex s = Some n"
    and chosen_def: "chosen = filter (read_for_network (behind_lastByte renv) (CFG_id2str renv) (form_network kvs n) \<circ> fst) kvs"
  shows "CGI_do_cmd env q s = Some (CGI_RC_CFG_OK, write_data_to_flash env (s\<lparr>sdk_calls := sdk_calls s @
      stores chosen @ [Call_CFG_save 0]\<rparr>)) \<and>
    (plain_stack (behind_lastByte renv) \<longrightarrow>
      chosen = filter (for_network (CFG_id2str renv) (form_network kvs n) \<circ> fst) kvs)"
proof -
  let ?s = "s\<lparr>sdk_calls := sdk_calls s @ stores chosen\<rparr>"
  have "CGI_do_wireless_security renv q s = Some (CGI_RC_CFG_OK, ?s)"
    using ssid_index_form [OF assms(4), of 0 n] wireless_loop_form [OF assms(4,6), of 0 0 "form_network kvs n" s] assms(5,7)
    by (simp add: chosen_def CGI_do_wireless_security_def del: upt_conv_Cons upt_rec_numeral)
  then have "cgi_handler env cmd q s = Some (CGI_RC_CFG_OK, ?s)"
    using assms(2) by (auto simp: assms(3) router_handler_def lit_eq_iff simp del: lit_simps)
  then have "call_handlers env q cmd ps_cgi_cmds (0, s) = Some (CGI_RC_CFG_OK, ?s)"
    using assms(2) wireless_names by (intro call_handlers_once) auto
  moreover have "ready_to_out env q cmd False CGI_RC_CFG_OK ?s = Some (CGI_RC_CFG_OK, write_data_to_flash env (sdk (Call_CFG_save 0) ?s))"
    using assms(2) wireless_names(3,4) by (auto simp: ready_to_out_def no_handler CGI_RC_CFG_OK_def at_bad_def lit_eq_iff simp del: lit_simps)
  moreover have "plain_stack (behind_lastByte renv) \<Longrightarrow>
      chosen = filter (for_network (CFG_id2str renv) (form_network kvs n) \<circ> fst) kvs"
    unfolding chosen_def by (rule filter_cong) (simp_all add: plain_network)
  ultimately show ?thesis using assms(1,2) by (auto simp: CGI_do_cmd_def sdk_def simp del: lit_simps)
qed

definition sample_router_env :: "bytes router_env" where
  "sample_router_env = cgi_env.extend
     (sample_cgi_env\<lparr>CFG_id2str := (\<lambda>cid. if cid = 0x4E90100 then lit ''WLN_SSIDIndex'' else if cid = 0x49A0200 then lit ''WLN_WPAPSK1''
        else lit ''WLN_WPAPSK2''), CFG_get_str := (\<lambda>_ _. None)\<rparr>)
     (router_env.fields (\<lambda>_ _. None) (\<lambda>_ _. 0) (\<lambda>_ _. 0) [])"

lemma sample_router_fields: "behind_lastByte sample_router_env = []" "CFG_get_str sample_router_env = (\<lambda>_ _. None)"
  "CFG_set_str sample_router_env = (\<lambda>_ _ _. 0)" "CFG_id2str sample_router_env = (\<lambda>cid. if cid = 0x4E90100 then lit ''WLN_SSIDIndex''
     else if cid = 0x49A0200 then lit ''WLN_WPAPSK1'' else lit ''WLN_WPAPSK2'')"
  by (simp_all add: sample_router_env_def sample_cgi_env_def sample_web_env_def sample_client_env_def cgi_env.extend_def router_env.fields_def
      web_env.extend_def cgi_env.fields_def client_env.extend_def web_env.fields_def)

definition sample_wireless :: "(int \<times> bytes) list" where
  "sample_wireless = [(0x4E90100, lit ''1''), (0x49A0200, lit ''one''), (0x4B80200, lit ''two'')]"

definition sample_wireless_request :: request where
  "sample_wireless_request p = (if p = lit ''CMD'' then Some (lit ''ACL'') else if p = lit ''SET'' @ dec_nat 0 then Some (dec_nat 0x4E90100 @ 61 # lit ''1'')
     else if p = lit ''SET'' @ dec_nat 1 then Some (dec_nat 0x49A0200 @ 61 # lit ''one'')
     else if p = lit ''SET'' @ dec_nat 2 then Some (dec_nat 0x4B80200 @ 61 # lit ''two'') else None)"

lemma dec_nat_inj: "dec_nat m = dec_nat n \<Longrightarrow> m = n"
  by (metis digits_val_dec_nat of_nat_eq_iff)

theorem wireless_settings_saved_witness:
  "CGI_do_cmd (sample_cgi_env\<lparr>cgi_handler := router_handler sample_router_env (\<lambda>_ _ _. None)\<rparr>) sample_wireless_request sample_web_state =
   Some (CGI_RC_CFG_OK, write_data_to_flash (sample_cgi_env\<lparr>cgi_handler := router_handler sample_router_env (\<lambda>_ _ _. None)\<rparr>)
     (sample_web_state\<lparr>sdk_calls := [Call_CFG_set_str 0x4E90100 (lit ''1''), Call_CFG_set_str 0x4B80200 (lit ''two''), Call_CFG_save 0]\<rparr>))"
proof -
  have q: "wireless_request sample_wireless_request sample_wireless"
    unfolding wireless_request_def
  proof (intro conjI allI impI)
    fix i :: nat assume "i < length sample_wireless"
    then consider "i = 0" | "i = 1" | "i = 2" by (fastforce simp: sample_wireless_def)
    then show "sample_wireless_request (lit ''SET'' @ dec_nat i) = Some (dec_nat (nat (fst (sample_wireless ! i))) @ 61 # snd (sample_wireless ! i))"
      by cases (auto simp: sample_wireless_request_def sample_wireless_def dest: dec_nat_inj)
  next
    fix i :: nat assume "length sample_wireless \<le> i \<and> i < 50"
    then have "3 \<le> i" by (simp add: sample_wireless_def)
    then show "sample_wireless_request (lit ''SET'' @ dec_nat i) = None"
      by (auto simp: sample_wireless_request_def dest: dec_nat_inj)
  qed (simp_all add: sample_wireless_def)
  have "get_number sample_router_env 255 CFG_WLN_SSIDIndex sample_web_state = Some 0"
    by (simp add: get_number_def sample_router_fields fits_def atoi_def)
  moreover have "settings_taken sample_router_env sample_wireless" "plain_stack (behind_lastByte sample_router_env)" "sample_wireless \<noteq> []"
    by (simp_all add: settings_taken_def plain_stack_def sample_router_fields sample_wireless_def)
  moreover have "filter (for_network (CFG_id2str sample_router_env) (form_network sample_wireless 0) \<circ> fst) sample_wireless =
      [(0x4E90100, lit ''1''), (0x4B80200, lit ''two'')]"
    by (simp add: sample_wireless_def sample_router_fields for_network_def form_network_def only_first_def from_zero_def is_digit_def atoi_def clamp32_def is_space_def)
  moreover have "sample_wireless_request (lit ''CMD'') = Some (lit ''ACL'')" by (simp add: sample_wireless_request_def)
  ultimately show ?thesis
    using wireless_settings_saved [of sample_wireless_request "lit ''ACL''" "sample_cgi_env\<lparr>cgi_handler := router_handler sample_router_env (\<lambda>_ _ _. None)\<rparr>"
        sample_router_env "\<lambda>_ _ _. None" sample_wireless sample_web_state 0, OF _ _ _ _ _ _ _ refl] q
    by (simp add: sample_cgi_ok(5) del: lit_simps)
qed


section \<open>Routes\<close>

text \<open>The entries of the table of routes, without a gap.\<close>

definition routes :: "('fl, 'e) router_env_scheme \<Rightarrow> sdk_call list \<Rightarrow> bytes list \<Rightarrow> bool" where
  "routes env cs rs \<longleftrightarrow> (\<forall>k<length rs. CFG_get_entry env cs (CFG_RT_ENTRY + int k + 1) = Some (rs ! k) \<and> length (rs ! k) < 100) \<and>
     CFG_get_entry env cs (CFG_RT_ENTRY + int (length rs) + 1) = None"

lemma free_route_end: "routes env (sdk_calls s) rs \<Longrightarrow> i \<le> length rs \<Longrightarrow> free_route env s i = Some (length rs)"
proof (induction "length rs - i" arbitrary: i)
  case 0
  then show ?case by (subst free_route.simps) (simp add: routes_def)
next
  case (Suc m)
  then have "i < length rs" by simp
  then show ?case using Suc by (subst free_route.simps) (simp add: routes_def fits_def)
qed

text \<open>
  A new route is entered behind the last one, and only when the routing code takes it; the answer is \<open>CGI_RC_CFG_OK\<close>
  when it returned 0. The search for the end always ends.
\<close>

theorem route_added:
  assumes "routes env (sdk_calls s) rs" and "atoi (WEB_getvar q (lit ''cmd'') []) \<noteq> 1"
  shows "CGI_do_rt_add env q s =
    (let r = WEB_getvar q (lit ''str'') []; rc = RT_add_staticrt env (sdk_calls s) r
     in Some (if rc = 0 then CGI_RC_CFG_OK else rc, s\<lparr>sdk_calls := sdk_calls s @ Call_RT_add_staticrt r #
       (if rc = -1 then [] else [Call_CFG_set_text (CFG_RT_ENTRY + int (length rs) + 1) r])\<rparr>))"
  using assms by (simp add: CGI_do_rt_add_def free_route_end sdk_def Let_def)

theorem route_added_witness:
  "CGI_do_rt_add sample_router_env (\<lambda>_. None) sample_web_state =
   Some (CGI_RC_CFG_OK, sample_web_state\<lparr>sdk_calls := [Call_RT_add_staticrt [], Call_CFG_set_text (CFG_RT_ENTRY + 1) []]\<rparr>)"
proof -
  have f: "CFG_get_entry sample_router_env = (\<lambda>_ _. None)" "RT_add_staticrt sample_router_env = (\<lambda>_ _. 0)"
    by (simp_all add: sample_router_env_def cgi_env.extend_def router_env.fields_def)
  have "routes sample_router_env (sdk_calls sample_web_state) []" by (simp add: routes_def f)
  from route_added [OF this, of "\<lambda>_. None"] show ?thesis by (simp add: f sample_cgi_ok(5) WEB_getvar_def atoi_def Let_def)
qed

end
