(* ===== verification/SiteSurvey.thy ===== *)
theory SiteSurvey
  imports WebPage
begin

text \<open>
  The list of networks in reach (\<open>getsurveylist\<close> of \<^verbatim>\<open>src/websrc/cgi/cgi_v2/cgi_api.c\<close>). The wireless driver prints
  its scan into \<open>TempString\<close>; \<open>wscan_trimup_info\<close> turns its columns into comma-separated fields in a buffer of
  8192 bytes, \<open>trimup_info\<close> reads one line of them, and each line becomes a row of a table.

  \<open>left_is_blank\<close> is not under \<^verbatim>\<open>src/\<close>: a parameter, a function of the bytes behind its pointer and of a count. What
  \<open>malloc\<close> leaves in the buffer and what the stack holds in the arrays that the code reads before it writes them
  are parameters too; \<open>malloc\<close> is taken to succeed. \<open>None\<close> is an access outside a buffer.
\<close>

section \<open>Columns into fields\<close>

definition is_eol :: "byte \<Rightarrow> bool" where
  "is_eol b \<longleftrightarrow> b = 10 \<or> b = 13"

abbreviation blanks :: "bytes \<Rightarrow> nat" where
  "blanks s \<equiv> length (takeWhile (\<lambda>b. b = 32) s)"

abbreviation skip_blanks :: "bytes \<Rightarrow> bytes" where
  "skip_blanks \<equiv> dropWhile (\<lambda>b. b = 32)"

text \<open>The bytes not read yet, \<open>par\<close> and \<open>w_len\<close>; the result is what is written to \<open>rep\<close>. The loop ends when
  \<open>e\<close> bytes are left, those behind the first 8192.\<close>

function wscan :: "(bytes \<Rightarrow> int \<Rightarrow> int) \<Rightarrow> nat \<Rightarrow> bytes \<Rightarrow> int \<Rightarrow> int \<Rightarrow> bytes" where
  "wscan left_is_blank e [] par w_len = []"
| "wscan left_is_blank e (b # t) par w_len =
    (if length (b # t) \<le> e then []
     else if b = 32
     then (if par = -1 then wscan left_is_blank e (skip_blanks t) 0 w_len
           else if par = 1
           then (if w_len = 32 then 44 # wscan left_is_blank e t 2 w_len
                 else if left_is_blank t (32 - w_len - 1) = 0 then 44 # wscan left_is_blank e (skip_blanks t) 2 w_len
                 else replicate (blanks (b # t)) 32 @ wscan left_is_blank e (skip_blanks t) 1 (w_len + int (blanks (b # t))))
           else 44 # wscan left_is_blank e (skip_blanks t) (par + 1) w_len)
     else if is_eol b then 10 # 13 # wscan left_is_blank e t (-1) w_len
     else (let w_len = (if par = -1 then 0 else w_len);
               par = (if par = -1 then 0 else par)
           in (if b = 44 then 0xfa else b) # wscan left_is_blank e t par (if par = 1 then w_len + 1 else w_len)))"
  by pat_completeness auto
termination
proof (relation "measure (\<lambda>(_, _, s, _, _). length s)", goal_cases)
qed (simp_all add: le_imp_less_Suc length_dropWhile_le)

definition wscan_trimup_info :: "(bytes \<Rightarrow> int \<Rightarrow> int) \<Rightarrow> bytes \<Rightarrow> bytes \<Rightarrow> bytes option" where
  "wscan_trimup_info left_is_blank scan rep =
    mem_put 0 (wscan left_is_blank (length scan - 1024 * 8) scan (-1) 0 @ [0]) rep"

section \<open>One field\<close>

definition is_too_long :: "nat \<Rightarrow> nat \<Rightarrow> bool" where
  "is_too_long para i \<longleftrightarrow>
     para = 0 \<and> i > 10 \<or> para = 1 \<and> i > 33 \<or> para = 2 \<and> i > 30 \<or> para = 3 \<and> i > 80 \<or> para = 4 \<and> i > 8 \<or>
     para \<in> {5, 6, 7} \<and> i > 60 \<or> para = 8 \<and> i > 80"

function skip_eol :: "bytes \<Rightarrow> nat \<Rightarrow> nat option" where
  "skip_eol m p = (if length m \<le> p then None else if is_eol (m ! p) then skip_eol m (p + 1) else Some p)"
  by pat_completeness auto
termination by (relation "measure (\<lambda>(m, p). length m - p)") simp_all

function copy_field :: "nat \<Rightarrow> bytes \<Rightarrow> nat \<Rightarrow> nat \<Rightarrow> bytes \<Rightarrow> (bytes \<times> nat \<times> bytes) option" where
  "copy_field para m p i c =
    (if length m \<le> p + i then None
     else if is_eol (m ! (p + i)) \<or> m ! (p + i) = 44 then Some (m, i, c)
     else (let b = (if m ! (p + i) = 0xfa then 44 else m ! (p + i))
           in if is_too_long para (i + 1) then Some (m[p + i := b], i + 1, c @ [b])
              else copy_field para (m[p + i := b]) p (i + 1) (c @ [b])))"
  by pat_completeness auto
termination by (relation "measure (\<lambda>(para, m, p, i, c). length m - (p + i))") simp_all

function skip_commas :: "bytes \<Rightarrow> nat \<Rightarrow> nat \<Rightarrow> nat \<Rightarrow> nat option" where
  "skip_commas m p len i =
    (if length m \<le> p + i then None
     else if m ! (p + i) \<noteq> 44 then Some i
     else if len \<le> i + 1 then Some (i + 1)
     else skip_commas m p len (i + 1))"
  by pat_completeness auto
termination by (relation "measure (\<lambda>(m, p, len, i). length m - (p + i))") simp_all

declare wscan.simps(2) [simp del] skip_eol.simps [simp del] copy_field.simps [simp del] skip_commas.simps [simp del]

text \<open>The result is the buffer, the new \<open>*p\<close> and the string in \<open>c\<close>, an array of \<open>n\<close> bytes.\<close>

definition getfield :: "nat \<Rightarrow> bytes \<Rightarrow> nat \<Rightarrow> nat \<Rightarrow> nat \<Rightarrow> (bytes \<times> nat \<times> bytes) option" where
  "getfield n m p len para = do {
     p \<leftarrow> skip_eol m p;
     (m, i, c) \<leftarrow> copy_field para m p 0 [];
     c \<leftarrow> fits n c;
     i \<leftarrow> skip_commas m p len i;
     if length m \<le> p + i then None
     else Some (m, p + (if is_eol (m ! (p + i)) then i + 1 else i), takeWhile (\<lambda>b. b \<noteq> 0) c) }"

section \<open>One line\<close>

record network =
  SSID :: bytes
  BSSID :: bytes
  nChannel :: int
  strEncry :: bytes
  strAuth :: bytes
  NetworkType :: bytes
  RSSI :: bytes

text \<open>The part behind the first slash without further slashes, as written to \<open>tmp\<close>.\<close>

definition after_slash :: "bytes \<Rightarrow> bytes" where
  "after_slash c = filter (\<lambda>b. b \<noteq> 47) (dropWhile (\<lambda>b. b \<noteq> 47) c)"

definition getsecurity :: "bytes \<Rightarrow> bytes \<Rightarrow> (bytes \<times> bytes) option" where
  "getsecurity tmp c =
    (if c = lit ''NONE'' then Some (lit ''NONE'', lit ''OPEN'')
     else if c = lit ''WEP'' then Some (lit ''WEP'', lit ''OPEN'')
     else if c = lit ''WPAPSK/TKIP'' then Some (lit ''TKIP'', lit ''WPAPSK'')
     else if c = lit ''WPAPSK/AES'' then Some (lit ''AES'', lit ''WPAPSK'')
     else if c = lit ''WPAPSK/TKIPAES'' then Some (lit ''TKIPAES'', lit ''WPAPSK'')
     else do {
       tmp \<leftarrow> mem_put 0 (after_slash c) tmp;
       Some (if is_prefix (lit ''TKIPAES'') tmp then lit ''AES''
             else if is_prefix (lit ''TKIP'') tmp then lit ''TKIP''
             else lit ''AES'', lit ''WPA2PSK'') })"

definition is_mac_add :: "bytes \<Rightarrow> bool" where
  "is_mac_add ch \<longleftrightarrow> length ch = 17 \<and> ch ! 2 = 58 \<and> ch ! 5 = 58 \<and> ch ! 8 = 58 \<and> ch ! 11 = 58 \<and> ch ! 14 = 58"

text \<open>The arrays have 35 bytes (\<open>SSID\<close>, \<open>BSSID\<close>), 10 (\<open>RSSI\<close>) and 100 (\<open>c\<close>). \<open>stack p\<close> is what \<open>tmp\<close> of
  \<open>getsecurity\<close> holds before it is written.\<close>

definition to_eol :: "bytes \<Rightarrow> nat \<Rightarrow> nat option" where
  "to_eol m p = (let k = length (takeWhile (\<lambda>b. \<not> is_eol b) (drop p m)) in if length m \<le> p + k then None else Some (p + k))"

definition trimup_tail :: "nat \<Rightarrow> bytes \<times> nat \<times> network \<Rightarrow> (bytes \<times> nat \<times> network) option" where
  "trimup_tail len = (\<lambda>(m, p, r). do {
     (m, p, c) \<leftarrow> getfield 100 m p len 5;
     if len \<le> p then Some (m, p, r) else do {
     (m, p, c) \<leftarrow> getfield 100 m p len 6;
     if len \<le> p then Some (m, p, r) else do {
     (m, p, c) \<leftarrow> getfield 100 m p len 7;
     if len \<le> p then Some (m, p, r) else do {
     let r = r\<lparr>NetworkType := if c = lit ''In'' then lit ''Infrastructure'' else lit ''Ad Hoc''\<rparr>;
     p \<leftarrow> to_eol m p;
     Some (m, p + 1, r) }}}})"

definition trimup_info :: "(nat \<Rightarrow> bytes) \<Rightarrow> nat \<Rightarrow> bytes \<times> nat \<times> network \<Rightarrow> (bytes \<times> nat \<times> network) option" where
  "trimup_info stack len = (\<lambda>(m, p, r). do {
     (m, p, c) \<leftarrow> getfield 100 m p len 0;
     if len \<le> p then Some (m, p, r) else do {
     let r = r\<lparr>nChannel := atoi c\<rparr>;
     (m, p, c) \<leftarrow> getfield 35 m p len 1;
     let r = r\<lparr>SSID := c\<rparr>;
     if len \<le> p then Some (m, p, r) else do {
     (m, p, r) \<leftarrow> (if is_mac_add (SSID r) then Some (m, p, r\<lparr>BSSID := SSID r, SSID := []\<rparr>)
       else do { (m, p, c) \<leftarrow> getfield 35 m p len 2; Some (m, p, r\<lparr>BSSID := c\<rparr>) });
     if len \<le> p then Some (m, p, r) else do {
     (m, p, c) \<leftarrow> getfield 100 m p len 3;
     if len \<le> p then Some (m, p, r) else do {
     (en, au) \<leftarrow> getsecurity (stack p) c;
     let r = r\<lparr>strEncry := en, strAuth := au\<rparr>;
     (m, p, c) \<leftarrow> getfield 10 m p len 4;
     let r = r\<lparr>RSSI := c\<rparr>;
     if len \<le> p then Some (m, p, r) else trimup_tail len (m, p, r) }}}}})"

section \<open>The table\<close>

definition do_tmpBSSID :: "bytes \<Rightarrow> bytes" where
  "do_tmpBSSID m1 = filter (\<lambda>b. b \<noteq> 58) m1"

definition td :: "bytes \<Rightarrow> bytes" where
  "td v = lit ''<td>'' @ v @ lit ''</td>''"

definition radio_cell :: "network \<Rightarrow> bytes \<Rightarrow> bytes" where
  \<open>radio_cell r bssid = lit ''<td><input type=radio name=selectedSSID  value="'' @ SSID r @
     lit ''" onClick="selectedSSIDChange(this.value,'' @ quoted (SSID r) @ lit '','' @ quoted bssid @ lit '','' @
     quoted (NetworkType r) @ lit '','' @ dec_int (nChannel r) @ lit '','' @ quoted (strEncry r) @ lit '','' @
     quoted (strAuth r) @ lit '')"></td>''\<close>

definition survey_row :: "network \<Rightarrow> bytes option" where
  "survey_row r = do {
     tmpSSID \<leftarrow> fits 64 (td (SSID r));
     tmpBSSIDII \<leftarrow> fits 16 (do_tmpBSSID (BSSID r));
     tmpBSSIDI \<leftarrow> fits 35 (td (BSSID r));
     tmpRSSI \<leftarrow> fits 20 (td (RSSI r @ lit ''%''));
     tmpChannel \<leftarrow> fits 16 (td (dec_nat (nat (nChannel r mod 2 ^ 32))));
     tmpAuth \<leftarrow> fits 32 (td (strAuth r));
     tmpEncry \<leftarrow> fits 52 (td (strEncry r));
     tmpNetworkType \<leftarrow> fits 24 (td (NetworkType r));
     tmpRadio \<leftarrow> fits 272 (radio_cell r tmpBSSIDII);
     Some (lit ''<tr> '' @ concat (map (\<lambda>c. c @ [32]) [tmpRadio, tmpSSID, tmpBSSIDI, tmpRSSI, tmpChannel, tmpEncry, tmpAuth, tmpNetworkType])
       @ lit ''</tr>'' @ [10]) }"

partial_function (option) survey_loop :: "(nat \<Rightarrow> bytes) \<Rightarrow> nat \<Rightarrow> bytes \<times> nat \<times> network \<Rightarrow> bytes option" where
  "survey_loop stack len x =
    (if len \<le> fst (snd x) then Some []
     else do {
       (m, p, r) \<leftarrow> trimup_info stack len x;
       if SSID r = lit ''SSID'' then survey_loop stack len (m, p, r)
       else if len \<le> p then Some []
       else do {
         row \<leftarrow> survey_row r;
         rows \<leftarrow> survey_loop stack len (m, p, r);
         Some (row @ rows) } })"

definition getsurveylist :: "(bytes \<Rightarrow> int \<Rightarrow> int) \<Rightarrow> (nat \<Rightarrow> bytes) \<Rightarrow> bytes \<Rightarrow> network \<Rightarrow> bytes \<Rightarrow> bytes option" where
  "getsurveylist left_is_blank stack heap r TempString = do {
     rep \<leftarrow> wscan_trimup_info left_is_blank TempString heap;
     s \<leftarrow> c_str rep;
     survey_loop stack (length s) (rep, 0, r) }"

end
