(* ===== verification/SiteSurveyFacts.thy ===== *)
theory SiteSurveyFacts
  imports SiteSurvey
begin

text \<open>
  The list of networks shows what the scan holds: a line of comma-separated fields is read back field by field, the
  title, names with blanks and commas and lines without a name included. How the columns of the driver become such
  lines depends on \<open>left_is_blank\<close>, which is not part of the repository: the sample scan and what goes wrong with
  hidden networks are stated for one that tests for blanks. Names that look like an address are not covered.
\<close>

section \<open>The scan\<close>

text \<open>What the code relies on: whether the next \<open>n\<close> bytes are blanks.\<close>

definition blank_test :: "(bytes \<Rightarrow> int \<Rightarrow> int) \<Rightarrow> bool" where
  "blank_test left_is_blank \<longleftrightarrow> (\<forall>s n. left_is_blank s n = 0 \<longleftrightarrow> list_all (\<lambda>b. b = 32) (take (nat n) s))"

abbreviation sp :: "nat \<Rightarrow> bytes" where
  "sp k \<equiv> replicate k 32"

definition plain :: "byte \<Rightarrow> bool" where
  "plain b \<longleftrightarrow> b \<noteq> 32 \<and> \<not> is_eol b \<and> b \<noteq> 0 \<and> b \<noteq> 44 \<and> b \<noteq> 0xfa"

definition name_char :: "byte \<Rightarrow> bool" where
  "name_char b \<longleftrightarrow> \<not> is_eol b \<and> b \<noteq> 0 \<and> b \<noteq> 0xfa"

definition word_ok :: "bytes \<Rightarrow> bool" where
  "word_ok f \<longleftrightarrow> f \<noteq> [] \<and> list_all plain f"

definition hide_commas :: "bytes \<Rightarrow> bytes" where
  "hide_commas = map (\<lambda>b. if b = 44 then 0xfa else b)"

text \<open>A word and the blanks that fill its column; the words of a line, and the fields they become.\<close>

definition columns :: "(bytes \<times> nat) list \<Rightarrow> bytes" where
  "columns fs = concat (map (\<lambda>(f, k). f @ sp k) fs)"

definition comma_fields :: "(bytes \<times> nat) list \<Rightarrow> bytes" where
  "comma_fields fs = concat (map (\<lambda>(f, k). f @ [44]) fs)"

definition columns_ok :: "(bytes \<times> nat) list \<Rightarrow> bool" where
  "columns_ok = list_all (\<lambda>(f, k). word_ok f \<and> 0 < k)"

lemma columns_simps [simp]:
  "columns [] = []" "columns ((f, k) # fs) = f @ sp k @ columns fs"
  "comma_fields [] = []" "comma_fields ((f, k) # fs) = f @ 44 # comma_fields fs"
  "columns_ok []" "columns_ok ((f, k) # fs) \<longleftrightarrow> word_ok f \<and> 0 < k \<and> columns_ok fs"
  by (simp_all add: columns_def comma_fields_def columns_ok_def)

lemma length_hide_commas [simp]: "length (hide_commas f) = length f"
  by (simp add: hide_commas_def)

lemma hide_commas_simps [simp]: "hide_commas [] = []"
  "hide_commas (b # f) = (if b = 44 then 0xfa else b) # hide_commas f"
  "hide_commas (f @ g) = hide_commas f @ hide_commas g"
  "hide_commas (sp k) = sp k"
  by (simp_all add: hide_commas_def)

lemma hide_commas_plain [simp]: "list_all plain f \<Longrightarrow> hide_commas f = f"
  by (induction f) (simp_all add: plain_def)

lemma skip_sp [simp]: "skip_blanks (sp k @ t) = skip_blanks t"
  by (induction k) simp_all

lemma blanks_sp [simp]: "blanks (sp k @ t) = k + blanks t"
  by (induction k) simp_all

lemma word_not_blank: "word_ok f \<Longrightarrow> skip_blanks (f @ t) = f @ t \<and> blanks (f @ t) = 0"
  by (cases f) (simp_all add: word_ok_def plain_def)

lemma wscan_word:
  "list_all plain f \<Longrightarrow> 0 \<le> par \<Longrightarrow> par \<noteq> 1 \<Longrightarrow> wscan lb 0 (f @ t) par w = f @ wscan lb 0 t par w"
  by (induction f) (auto simp: wscan.simps(2) plain_def)

lemma wscan_start:
  "word_ok f \<Longrightarrow> wscan lb 0 (f @ t) (-1) w = f @ wscan lb 0 t 0 0"
  by (cases f) (auto simp: word_ok_def wscan.simps(2) plain_def wscan_word)

lemma wscan_gap:
  assumes "0 \<le> par" and "par \<noteq> 1" and "0 < k" and "skip_blanks t = t"
  shows "wscan lb 0 (sp k @ t) par w = 44 # wscan lb 0 t (par + 1) w"
  using assms by (cases k) (simp_all add: wscan.simps(2))

lemma wscan_eol: "wscan lb 0 (10 # t) par w = 10 # 13 # wscan lb 0 t (-1) w"
  by (simp add: wscan.simps(2) is_eol_def)

lemma wscan_columns:
  "columns_ok fs \<Longrightarrow> 2 \<le> par \<Longrightarrow>
    wscan lb 0 (columns fs @ 10 # t) par w = comma_fields fs @ 10 # 13 # wscan lb 0 t (-1) w"
proof (induction fs arbitrary: par)
  case Nil
  then show ?case by (simp add: wscan_eol)
next
  case (Cons fk fs)
  obtain f k where fk: "fk = (f, k)" by fastforce
  have *: "skip_blanks (columns fs @ 10 # t) = columns fs @ 10 # t"
    using Cons.prems word_not_blank by (cases fs) (auto simp: fk)
  show ?case using Cons.prems Cons.IH [of "par + 1"] *
    by (simp add: fk wscan_word wscan_gap word_ok_def)
qed

text \<open>The name: a run of blanks inside it is copied, the run that fills its column of 32 ends it.\<close>

lemma takeWhile_blanks_split: "s = sp (blanks s) @ skip_blanks s"
  by (induction s) auto

lemma skip_inside:
  assumes "x \<in> set u" and "x \<noteq> 32"
  shows "skip_blanks (u @ t) = skip_blanks u @ t \<and> blanks (u @ t) = blanks u"
  using assms by (simp add: dropWhile_append1 takeWhile_append1)

lemma not_all_blank: "u \<noteq> [] \<Longrightarrow> last u \<noteq> 32 \<Longrightarrow> length u \<le> n \<Longrightarrow> \<not> list_all (\<lambda>b. b = 32) (take n (u @ t))"
  by (auto simp: list_all_iff intro!: bexI [of _ "last u"])

lemma wscan_name_end:
  assumes lb: "blank_test lb" and t: "skip_blanks t = t" and w: "w + k = 33" and k: "0 < k"
  shows "wscan lb 0 (sp k @ t) 1 (int w) = 44 # wscan lb 0 t 2 (int w)"
proof -
  obtain j where j: "k = Suc j" using k by (cases k) auto
  have "lb (sp j @ t) (31 - int w) = 0"
    using lb w j by (simp add: blank_test_def list_all_iff)
  then show ?thesis using t w by (cases "w = 32") (auto simp: j wscan.simps(2))
qed

lemma wscan_name:
  assumes lb: "blank_test lb" and t: "skip_blanks t = t" and k: "0 < k"
  shows "list_all name_char u \<Longrightarrow> u = [] \<or> last u \<noteq> 32 \<Longrightarrow> w + length u + k = 33 \<Longrightarrow>
    wscan lb 0 (u @ sp k @ t) 1 (int w) = hide_commas u @ 44 # wscan lb 0 t 2 (int (w + length u))"
proof (induction u arbitrary: w rule: length_induct)
  case (1 u)
  note IH = "1.IH" and ok = "1.prems"
  show ?case
  proof (cases u)
    case Nil
    then show ?thesis using wscan_name_end [OF lb t _ k, of w] ok by simp
  next
    case (Cons b v)
    show ?thesis
    proof (cases "b = 32")
      case False
      have "b \<noteq> 10" "b \<noteq> 13" using ok Cons by (auto simp: name_char_def is_eol_def)
      moreover have "wscan lb 0 (v @ sp k @ t) 1 (int (Suc w)) = hide_commas v @ 44 # wscan lb 0 t 2 (int (Suc w + length v))"
        using IH [rule_format, of v "Suc w"] ok Cons by (cases "v = []") simp_all
      ultimately show ?thesis using Cons False by (simp add: wscan.simps(2) is_eol_def add.commute)
    next
      case True
      have v: "v \<noteq> []" "last v \<noteq> 32" "list_all name_char v" using ok Cons True by (cases "v = []"; simp)+
      have out: "skip_blanks (v @ sp k @ t) = skip_blanks v @ sp k @ t" "blanks (v @ sp k @ t) = blanks v"
        using skip_inside [of "last v" v "sp k @ t"] v by auto
      have split: "v = sp (blanks v) @ skip_blanks v" by (rule takeWhile_blanks_split)
      have len: "length v = blanks v + length (skip_blanks v)"
        using arg_cong [OF split, of length] by simp
      have last: "skip_blanks v = [] \<or> last (skip_blanks v) \<noteq> 32"
        using v split by (metis last_appendR)
      have all: "list_all name_char (skip_blanks v)" using v(3) split by (metis list_all_append)
      have less: "length (skip_blanks v) < length u" using len Cons by simp
      have "length v \<le> nat (31 - int w)" using ok Cons k by (simp add: le_nat_iff)
      then have "lb (v @ sp k @ t) (31 - int w) \<noteq> 0"
        using lb not_all_blank [OF v(1,2), of "nat (31 - int w)" "sp k @ t"] unfolding blank_test_def by blast
      moreover have "w < 32" using ok Cons v(1) k by (cases v) auto
      ultimately have "wscan lb 0 (u @ sp k @ t) 1 (int w) =
          sp (Suc (blanks v)) @ wscan lb 0 (skip_blanks v @ sp k @ t) 1 (int (w + Suc (blanks v)))"
        using Cons True out by (simp add: wscan.simps(2) add.commute add.left_commute)
      also have "wscan lb 0 (skip_blanks v @ sp k @ t) 1 (int (w + Suc (blanks v))) =
          hide_commas (skip_blanks v) @ 44 # wscan lb 0 t 2 (int (w + length u))"
        using IH [rule_format, OF less all last, of "w + Suc (blanks v)"] ok len Cons by (simp add: add.assoc)
      also have "sp (Suc (blanks v)) @ hide_commas (skip_blanks v) @ z = hide_commas u @ z" for z
        using arg_cong [OF split, of hide_commas] Cons True by simp
      finally show ?thesis .
    qed
  qed
qed

section \<open>A line of the scan\<close>

text \<open>The columns of the driver: the channel, the name in 33 columns, the other columns.\<close>

definition scan_line :: "bytes \<Rightarrow> nat \<Rightarrow> bytes \<Rightarrow> (bytes \<times> nat) list \<Rightarrow> bytes" where
  "scan_line ch k ssid fs = ch @ sp k @ ssid @ sp (33 - length ssid) @ columns fs @ [10]"

definition field_line :: "bytes \<Rightarrow> bytes \<Rightarrow> (bytes \<times> nat) list \<Rightarrow> bytes" where
  "field_line ch ssid fs = ch @ 44 # hide_commas ssid @ 44 # comma_fields fs @ [10, 13]"

definition ssid_ok :: "bytes \<Rightarrow> bool" where
  "ssid_ok s \<longleftrightarrow> s \<noteq> [] \<and> length s \<le> 32 \<and> list_all name_char s \<and> hd s \<noteq> 32 \<and> last s \<noteq> 32"

lemma wscan_line:
  assumes lb: "blank_test lb" and ch: "word_ok ch" "0 < k" and s: "ssid_ok s" and fs: "columns_ok fs" "fs \<noteq> []"
  shows "wscan lb 0 (scan_line ch k s fs @ t) (-1) w = field_line ch s fs @ wscan lb 0 t (-1) (int (length s))"
proof -
  let ?r = "columns fs @ 10 # t"
  have r: "skip_blanks ?r = ?r" using fs word_not_blank by (cases fs) (auto split: prod.splits)
  have sr: "skip_blanks (s @ z) = s @ z" for z using s by (cases s) (simp_all add: ssid_ok_def)
  have name: "wscan lb 0 (s @ sp (33 - length s) @ ?r) 1 0 = hide_commas s @ 44 # wscan lb 0 ?r 2 (int (length s))"
    using wscan_name [OF lb r, of "33 - length s" s 0] s by (simp add: ssid_ok_def)
  show ?thesis
    using ch fs sr name by (simp add: scan_line_def field_line_def wscan_start wscan_gap wscan_columns)
qed


section \<open>Reading one field\<close>

lemma nth_at: "drop p m = b # r \<Longrightarrow> p < length m \<and> m ! p = b \<and> drop (Suc p) m = r"
  by (metis Cons_nth_drop_Suc drop_eq_Nil leI list.inject list.distinct(1))

lemma is_too_long_mono: "\<not> is_too_long para n \<Longrightarrow> i \<le> n \<Longrightarrow> \<not> is_too_long para i"
  by (erule contrapos_nn) (unfold is_too_long_def, elim disjE conjE; simp)

definition stops :: "byte \<Rightarrow> bool" where
  "stops b \<longleftrightarrow> b = 44 \<or> is_eol b"

lemma copy_field_reads:
  assumes "stops s"
  shows "drop (p + i) m = hide_commas f @ s # r \<Longrightarrow> list_all name_char f \<Longrightarrow> \<not> is_too_long para (i + length f - 1) \<Longrightarrow>
    \<exists>m'. copy_field para m p i c = Some (m', i + length f, c @ f) \<and> length m' = length m \<and>
      drop (p + i + length f) m' = s # r"
proof (induction f arbitrary: m i c)
  case Nil
  then show ?case using assms nth_at [of "p + i" m s r]
    by (subst copy_field.simps) (auto simp: stops_def)
next
  case (Cons b f)
  let ?b = "if b = 44 then 0xfa else b"
  have at: "p + i < length m" "m ! (p + i) = ?b" "drop (Suc (p + i)) m = hide_commas f @ s # r"
    using nth_at [of "p + i" m ?b] Cons.prems(1) by (auto simp: hide_commas_def)
  have b: "?b \<noteq> 44" "\<not> is_eol ?b" "(if ?b = 0xfa then 44 else ?b) = b"
    using Cons.prems(2) by (auto simp: name_char_def is_eol_def)
  have rest: "drop (p + (i + 1)) (m[p + i := b]) = hide_commas f @ s # r" using at(3) by (simp add: drop_update_cancel)
  show ?case
  proof (cases "is_too_long para (i + 1)")
    case True
    then have "f = []" using Cons.prems(3) is_too_long_mono [of para "i + length f" "i + 1"] by (cases f) auto
    moreover have "copy_field para m p i c = Some (m[p + i := b], i + 1, c @ [b])"
      using at(1,2) b True by (subst copy_field.simps) (auto simp: Let_def)
    ultimately show ?thesis using rest by auto
  next
    case False
    have step: "copy_field para m p i c = copy_field para (m[p + i := b]) p (i + 1) (c @ [b])"
      using at(1,2) b False by (subst copy_field.simps) (auto simp: Let_def)
    from Cons.IH [OF rest, of "c @ [b]"] Cons.prems(2,3) obtain m' where
      "copy_field para (m[p + i := b]) p (i + 1) (c @ [b]) = Some (m', i + 1 + length f, (c @ [b]) @ f)"
      "length m' = length m" "drop (p + (i + 1) + length f) m' = s # r"
      by auto
    with step show ?thesis by auto
  qed
qed

lemma takeWhile_name: "list_all name_char f \<Longrightarrow> takeWhile (\<lambda>b. b \<noteq> 0) f = f"
  by (induction f) (simp_all add: name_char_def)

lemma skip_eol_at: "drop p m = b # r \<Longrightarrow> \<not> is_eol b \<Longrightarrow> skip_eol m p = Some p"
  using nth_at [of p m b r] by (simp add: skip_eol.simps)

text \<open>A field that ends with a comma, and what stands behind the comma.\<close>

lemma getfield_reads:
  assumes at: "drop p m = hide_commas f @ 44 # s # r" and s: "s \<noteq> 44"
    and f: "list_all name_char f" "length f < n" "\<not> is_too_long para (length f - 1)"
  shows "\<exists>m'. getfield n m p len para = Some (m', p + length f + (if is_eol s then 2 else 1), f) \<and> length m' = length m \<and>
    drop (p + length f + (if is_eol s then 2 else 1)) m' = (if is_eol s then r else s # r)"
proof -
  obtain b t where bt: "hide_commas f @ 44 # s # r = b # t" "\<not> is_eol b"
    using f(1) by (cases f) (auto simp: name_char_def is_eol_def)
  have start: "skip_eol m p = Some p" using skip_eol_at [of p m b t] at bt by simp
  obtain m' where copy: "copy_field para m p 0 [] = Some (m', length f, f)" and len: "length m' = length m"
    and rest: "drop (p + length f) m' = 44 # s # r"
    using copy_field_reads [of 44 p 0 m f "s # r" para "[]"] at f(1,3) by (auto simp: stops_def)
  note c = nth_at [OF rest]
  have d: "p + length f + 1 < length m'" "m' ! (p + length f + 1) = s" "drop (p + length f + 2) m' = r"
    using nth_at [of "Suc (p + length f)" m' s r] c by auto
  have skip: "skip_commas m' p len (length f) = Some (length f + 1)"
    using c d s by (subst skip_commas.simps) (simp add: skip_commas.simps [of m' p len "Suc (length f)"])
  have "getfield n m p len para = Some (m', p + length f + (if is_eol s then 2 else 1), f)"
    using start copy skip d f by (simp add: getfield_def fits_def takeWhile_name)
  moreover have "drop (p + length f + (if is_eol s then 2 else 1)) m' = (if is_eol s then r else s # r)"
    using c d by simp
  ultimately show ?thesis using len by blast
qed

text \<open>Words and names start neither with a comma nor with a line end.\<close>

definition starts_ok :: "bytes \<Rightarrow> bool" where
  "starts_ok s \<longleftrightarrow> s \<noteq> [] \<and> hd s \<noteq> 44 \<and> \<not> is_eol (hd s)"

lemma word_starts: "word_ok f \<Longrightarrow> starts_ok (f @ t)"
  by (cases f) (auto simp: word_ok_def starts_ok_def plain_def)

lemma name_starts: "ssid_ok s \<Longrightarrow> starts_ok (hide_commas s @ t)"
  by (cases s) (auto simp: ssid_ok_def starts_ok_def name_char_def is_eol_def)

lemma word_name: "word_ok f \<Longrightarrow> list_all name_char f \<and> hide_commas f = f"
  by (auto simp: word_ok_def list_all_iff plain_def name_char_def)

lemma getfield_name:
  assumes "drop p m = hide_commas f @ 44 # z" and "list_all name_char f" and "starts_ok z" and "length f < n"
    and "\<not> is_too_long para (length f - 1)"
  obtains m' where "getfield n m p len para = Some (m', p + length f + 1, f)" and "length m' = length m"
    and "drop (p + length f + 1) m' = z"
proof -
  obtain s r where "z = s # r" using assms(3) by (cases z) (auto simp: starts_ok_def)
  then show thesis using getfield_reads [of p m f s r n para len] assms that by (auto simp: starts_ok_def)
qed

lemma getfield_word:
  assumes "drop p m = f @ 44 # z" and "word_ok f" and "starts_ok z" and "length f < n" and "\<not> is_too_long para (length f - 1)"
  obtains m' where "getfield n m p len para = Some (m', p + length f + 1, f)" and "length m' = length m"
    and "drop (p + length f + 1) m' = z"
  using getfield_name [of p m f z n para len] assms word_name [OF assms(2)] by auto

lemma getfield_last:
  assumes "drop p m = f @ 44 # 10 # r" and "word_ok f" and "length f < n" and "\<not> is_too_long para (length f - 1)"
  obtains m' where "getfield n m p len para = Some (m', p + length f + 2, f)" and "length m' = length m"
    and "drop (p + length f + 2) m' = r"
  using getfield_reads [of p m f 10 r n para len] assms word_name [OF assms(2)] that by (auto simp: is_eol_def)

section \<open>Reading one line\<close>

record scan_entry =
  se_channel :: nat
  se_gap :: nat
  se_ssid :: bytes
  se_bssid :: "bytes \<times> nat"
  se_security :: "bytes \<times> nat"
  se_signal :: "bytes \<times> nat"
  se_mode :: "bytes \<times> nat"
  se_ext :: "bytes \<times> nat"
  se_type :: "bytes \<times> nat"

definition se_columns :: "scan_entry \<Rightarrow> (bytes \<times> nat) list" where
  "se_columns n = [se_bssid n, se_security n, se_signal n, se_mode n, se_ext n, se_type n]"

definition printed :: "scan_entry \<Rightarrow> bytes" where
  "printed n = scan_line (dec_nat (se_channel n)) (se_gap n) (se_ssid n) (se_columns n)"

definition line_of :: "scan_entry \<Rightarrow> bytes" where
  "line_of n = field_line (dec_nat (se_channel n)) (se_ssid n) (se_columns n)"

text \<open>The security columns of the driver and what the page makes of them: encryption and authentication.\<close>

definition security_table :: "(bytes \<times> bytes \<times> bytes) list" where
  "security_table =
    [(lit ''NONE'', lit ''NONE'', lit ''OPEN''), (lit ''WEP'', lit ''WEP'', lit ''OPEN''),
     (lit ''WPAPSK/TKIP'', lit ''TKIP'', lit ''WPAPSK''), (lit ''WPAPSK/AES'', lit ''AES'', lit ''WPAPSK''),
     (lit ''WPAPSK/TKIPAES'', lit ''TKIPAES'', lit ''WPAPSK''), (lit ''WPA2PSK/AES'', lit ''AES'', lit ''WPA2PSK''),
     (lit ''WPA2PSK/TKIPAES'', lit ''AES'', lit ''WPA2PSK''), (lit ''WPA1PSKWPA2PSK/AES'', lit ''AES'', lit ''WPA2PSK''),
     (lit ''WPA1PSKWPA2PSK/TKIPAES'', lit ''AES'', lit ''WPA2PSK'')]"

definition fields_ok :: "scan_entry \<Rightarrow> bool" where
  "fields_ok n \<longleftrightarrow> se_channel n < 1000 \<and>
     columns_ok (se_columns n) \<and> is_mac_add (fst (se_bssid n)) \<and> fst (se_security n) \<in> fst ` set security_table \<and>
     length (fst (se_signal n)) \<le> 8 \<and> length (fst (se_mode n)) \<le> 60 \<and> length (fst (se_ext n)) \<le> 60 \<and>
     length (fst (se_type n)) \<le> 60"

definition entry_ok :: "scan_entry \<Rightarrow> bool" where
  "entry_ok n \<longleftrightarrow> fields_ok n \<and> 0 < se_gap n \<and> ssid_ok (se_ssid n) \<and> \<not> is_mac_add (se_ssid n)"

definition network_of :: "scan_entry \<Rightarrow> network" where
  "network_of n = \<lparr>SSID = se_ssid n, BSSID = fst (se_bssid n), nChannel = int (se_channel n),
     strEncry = fst (the (map_of security_table (fst (se_security n)))),
     strAuth = snd (the (map_of security_table (fst (se_security n)))),
     NetworkType = if fst (se_type n) = lit ''In'' then lit ''Infrastructure'' else lit ''Ad Hoc'',
     RSSI = fst (se_signal n)\<rparr>"

lemma known_security:
  assumes "c \<in> fst ` set security_table" and "length tmp = 10"
  shows "getsecurity tmp c = map_of security_table c \<and> map_of security_table c \<noteq> None \<and> length c \<le> 80"
proof -
  obtain a0 a1 a2 a3 a4 a5 a6 a7 a8 a9 where tmp: "tmp = [a0, a1, a2, a3, a4, a5, a6, a7, a8, a9]"
    using assms(2) by (auto simp: length_Suc_conv eval_nat_numeral)
  show ?thesis using assms(1)
    by (auto simp: security_table_def getsecurity_def tmp after_slash_def mem_put_def poke_def is_prefix_def)
qed


lemma is_too_long_le:
  "n \<le> 10 \<Longrightarrow> \<not> is_too_long 0 n" "n \<le> 33 \<Longrightarrow> \<not> is_too_long (Suc 0) n" "n \<le> 30 \<Longrightarrow> \<not> is_too_long 2 n"
  "n \<le> 80 \<Longrightarrow> \<not> is_too_long 3 n" "n \<le> 8 \<Longrightarrow> \<not> is_too_long 4 n" "n \<le> 60 \<Longrightarrow> \<not> is_too_long 5 n"
  "n \<le> 60 \<Longrightarrow> \<not> is_too_long 6 n" "n \<le> 60 \<Longrightarrow> \<not> is_too_long 7 n"
  by (simp_all add: is_too_long_def)

lemma trimup_tail_reads:
  assumes at: "drop p m = a @ 44 # b @ 44 # c @ 44 # 10 # 13 # t"
    and ok: "word_ok a" "word_ok b" "word_ok c" "length a \<le> 60" "length b \<le> 60" "length c \<le> 60"
    and len: "p + length a + length b + length c + 5 \<le> len"
  shows "\<exists>m'. trimup_tail len (m, p, r) =
      Some (m', p + length a + length b + length c + 5, r\<lparr>NetworkType := if c = lit ''In'' then lit ''Infrastructure'' else lit ''Ad Hoc''\<rparr>) \<and>
    length m' = length m \<and> drop (p + length a + length b + length c + 5) m' = t"
proof -
  obtain m1 where 1: "getfield 100 m p len 5 = Some (m1, p + length a + 1, a)" "length m1 = length m"
    "drop (p + length a + 1) m1 = b @ 44 # c @ 44 # 10 # 13 # t"
    using getfield_word [OF at ok(1) word_starts [OF ok(2)], of 100 5 len] ok by (auto simp: is_too_long_le)
  obtain m2 where 2: "getfield 100 m1 (p + length a + 1) len 6 = Some (m2, p + length a + 1 + length b + 1, b)" "length m2 = length m1"
    "drop (p + length a + 1 + length b + 1) m2 = c @ 44 # 10 # 13 # t"
    using getfield_word [OF 1(3) ok(2) word_starts [OF ok(3)], of 100 6 len] ok by (auto simp: is_too_long_le)
  obtain m3 where 3: "getfield 100 m2 (p + length a + 1 + length b + 1) len 7 =
      Some (m3, p + length a + 1 + length b + 1 + length c + 2, c)" "length m3 = length m2"
    "drop (p + length a + 1 + length b + 1 + length c + 2) m3 = 13 # t"
    using getfield_last [OF 2(3) ok(3), of 100 7 len] ok by (auto simp: is_too_long_le)
  have "to_eol m3 (p + length a + 1 + length b + 1 + length c + 2) = Some (p + length a + 1 + length b + 1 + length c + 2)"
    using nth_at [OF 3(3)] 3(3) by (simp add: to_eol_def is_eol_def)
  then show ?thesis using 1 2 3 nth_at [OF 3(3)] len
    by (simp add: trimup_tail_def add.assoc eval_nat_numeral)
qed

lemma dec_word: "word_ok (dec_nat n)"
  using dec_nat_digits [of n] dec_nat_not_Nil [of n]
  by (auto simp: word_ok_def list_all_iff plain_def is_eol_def is_digit_def)

text \<open>The line of a network with a name, of any words that fit: the title line of the driver is one too.\<close>

lemma trimup_words:
  assumes at: "drop p m = w1 @ 44 # hide_commas s @ 44 # w2 @ 44 # w3 @ 44 # w4 @ 44 # w5 @ 44 # w6 @ 44 # w7 @ 44 # 10 # 13 # t"
    and words: "word_ok w1" "word_ok w2" "word_ok w3" "word_ok w4" "word_ok w5" "word_ok w6" "word_ok w7"
    and short: "length w1 \<le> 10" "length w2 \<le> 30" "length w3 \<le> 80" "length w4 \<le> 9" "length w5 \<le> 60" "length w6 \<le> 60" "length w7 \<le> 60"
    and s: "ssid_ok s" "\<not> is_mac_add s" and sec: "\<And>p. getsecurity (stack p) w3 \<noteq> None"
    and len: "p + length w1 + length s + length w2 + length w3 + length w4 + length w5 + length w6 + length w7 + 10 \<le> len"
  shows "\<exists>m' en au q. getsecurity (stack q) w3 = Some (en, au) \<and> trimup_info stack len (m, p, r) =
      Some (m', p + length w1 + length s + length w2 + length w3 + length w4 + length w5 + length w6 + length w7 + 10,
        r\<lparr>nChannel := atoi w1, SSID := s, BSSID := w2, strEncry := en, strAuth := au, RSSI := w4,
          NetworkType := if w7 = lit ''In'' then lit ''Infrastructure'' else lit ''Ad Hoc''\<rparr>) \<and>
    length m' = length m \<and>
    drop (p + length w1 + length s + length w2 + length w3 + length w4 + length w5 + length w6 + length w7 + 10) m' = t"
proof -
  let ?p1 = "p + length w1 + 1"
  let ?p2 = "?p1 + length s + 1"
  let ?p3 = "?p2 + length w2 + 1"
  let ?p4 = "?p3 + length w3 + 1"
  let ?p5 = "?p4 + length w4 + 1"
  obtain m1 where 1: "getfield 100 m p len 0 = Some (m1, ?p1, w1)" "length m1 = length m"
    "drop ?p1 m1 = hide_commas s @ 44 # w2 @ 44 # w3 @ 44 # w4 @ 44 # w5 @ 44 # w6 @ 44 # w7 @ 44 # 10 # 13 # t"
    by (rule getfield_word [OF at words(1) name_starts [OF s(1)], of 100 0 len]) (use short in \<open>auto simp: is_too_long_le\<close>)
  obtain m2 where 2: "getfield 35 m1 ?p1 len 1 = Some (m2, ?p2, s)" "length m2 = length m1"
    "drop ?p2 m2 = w2 @ 44 # w3 @ 44 # w4 @ 44 # w5 @ 44 # w6 @ 44 # w7 @ 44 # 10 # 13 # t"
    by (rule getfield_name [OF 1(3) _ word_starts [OF words(2)], of 35 1 len]) (use s in \<open>auto simp: ssid_ok_def is_too_long_le\<close>)
  obtain m3 where 3: "getfield 35 m2 ?p2 len 2 = Some (m3, ?p3, w2)" "length m3 = length m2"
    "drop ?p3 m3 = w3 @ 44 # w4 @ 44 # w5 @ 44 # w6 @ 44 # w7 @ 44 # 10 # 13 # t"
    by (rule getfield_word [OF 2(3) words(2) word_starts [OF words(3)], of 35 2 len]) (use short in \<open>auto simp: is_too_long_le\<close>)
  obtain m4 where 4: "getfield 100 m3 ?p3 len 3 = Some (m4, ?p4, w3)" "length m4 = length m3"
    "drop ?p4 m4 = w4 @ 44 # w5 @ 44 # w6 @ 44 # w7 @ 44 # 10 # 13 # t"
    by (rule getfield_word [OF 3(3) words(3) word_starts [OF words(4)], of 100 3 len]) (use short in \<open>auto simp: is_too_long_le\<close>)
  obtain m5 where 5: "getfield 10 m4 ?p4 len 4 = Some (m5, ?p5, w4)" "length m5 = length m4"
    "drop ?p5 m5 = w5 @ 44 # w6 @ 44 # w7 @ 44 # 10 # 13 # t"
    by (rule getfield_word [OF 4(3) words(4) word_starts [OF words(5)], of 10 4 len]) (use short in \<open>auto simp: is_too_long_le\<close>)
  obtain en au where gs: "getsecurity (stack ?p4) w3 = Some (en, au)" using sec [of ?p4] by auto
  let ?r = "r\<lparr>nChannel := atoi w1, SSID := s, BSSID := w2, strEncry := en, strAuth := au, RSSI := w4\<rparr>"
  have less: "?p1 < len" "?p2 < len" "?p3 < len" "?p4 < len" "?p5 < len" using len by simp_all
  have "trimup_info stack len (m, p, r) = trimup_tail len (m5, ?p5, ?r)"
    using less s(2) 1(1) 2(1) 3(1) 4(1) 5(1) gs by (simp add: trimup_info_def)
  moreover have "?p5 + length w5 + length w6 + length w7 + 5 \<le> len" using len by simp
  note tail = trimup_tail_reads [OF 5(3) words(5,6,7) short(5,6,7) this, of ?r]
  moreover have "?p5 + length w5 + length w6 + length w7 + 5 = p + length w1 + length s + length w2 + length w3 + length w4 + length w5 + length w6 + length w7 + 10" by simp
  ultimately obtain m6 where "trimup_info stack len (m, p, r) = Some (m6, p + length w1 + length s + length w2 + length w3 + length w4 + length w5 + length w6 + length w7 + 10,
      ?r\<lparr>NetworkType := if w7 = lit ''In'' then lit ''Infrastructure'' else lit ''Ad Hoc''\<rparr>)" "length m6 = length m5"
    "drop (p + length w1 + length s + length w2 + length w3 + length w4 + length w5 + length w6 + length w7 + 10) m6 = t"
    by metis
  then show ?thesis using gs 1(2) 2(2) 3(2) 4(2) 5(2)
    by (intro exI [of _ m6] exI [of _ en] exI [of _ au] exI [of _ ?p4]) simp
qed

text \<open>The line of a hidden network, which has no name: the address stands in its place.\<close>

lemma trimup_hidden:
  assumes at: "drop p m = w1 @ 44 # w2 @ 44 # w3 @ 44 # w4 @ 44 # w5 @ 44 # w6 @ 44 # w7 @ 44 # 10 # 13 # t"
    and words: "word_ok w1" "word_ok w2" "word_ok w3" "word_ok w4" "word_ok w5" "word_ok w6" "word_ok w7"
    and short: "length w1 \<le> 10" "length w3 \<le> 80" "length w4 \<le> 9" "length w5 \<le> 60" "length w6 \<le> 60" "length w7 \<le> 60"
    and mac: "is_mac_add w2" and sec: "\<And>p. getsecurity (stack p) w3 \<noteq> None"
    and len: "p + length w1 + length w2 + length w3 + length w4 + length w5 + length w6 + length w7 + 9 \<le> len"
  shows "\<exists>m' en au q. getsecurity (stack q) w3 = Some (en, au) \<and> trimup_info stack len (m, p, r) =
      Some (m', p + length w1 + length w2 + length w3 + length w4 + length w5 + length w6 + length w7 + 9,
        r\<lparr>nChannel := atoi w1, SSID := [], BSSID := w2, strEncry := en, strAuth := au, RSSI := w4,
          NetworkType := if w7 = lit ''In'' then lit ''Infrastructure'' else lit ''Ad Hoc''\<rparr>) \<and>
    length m' = length m \<and>
    drop (p + length w1 + length w2 + length w3 + length w4 + length w5 + length w6 + length w7 + 9) m' = t"
proof -
  let ?p1 = "p + length w1 + 1"
  let ?p3 = "?p1 + length w2 + 1"
  let ?p4 = "?p3 + length w3 + 1"
  let ?p5 = "?p4 + length w4 + 1"
  have w2: "length w2 = 17" using mac by (simp add: is_mac_add_def)
  obtain m1 where 1: "getfield 100 m p len 0 = Some (m1, ?p1, w1)" "length m1 = length m"
    "drop ?p1 m1 = w2 @ 44 # w3 @ 44 # w4 @ 44 # w5 @ 44 # w6 @ 44 # w7 @ 44 # 10 # 13 # t"
    by (rule getfield_word [OF at words(1) word_starts [OF words(2)], of 100 0 len]) (use short in \<open>auto simp: is_too_long_le\<close>)
  obtain m3 where 3: "getfield 35 m1 ?p1 len 1 = Some (m3, ?p3, w2)" "length m3 = length m1"
    "drop ?p3 m3 = w3 @ 44 # w4 @ 44 # w5 @ 44 # w6 @ 44 # w7 @ 44 # 10 # 13 # t"
    by (rule getfield_word [OF 1(3) words(2) word_starts [OF words(3)], of 35 1 len]) (use w2 in \<open>auto simp: is_too_long_le\<close>)
  obtain m4 where 4: "getfield 100 m3 ?p3 len 3 = Some (m4, ?p4, w3)" "length m4 = length m3"
    "drop ?p4 m4 = w4 @ 44 # w5 @ 44 # w6 @ 44 # w7 @ 44 # 10 # 13 # t"
    by (rule getfield_word [OF 3(3) words(3) word_starts [OF words(4)], of 100 3 len]) (use short in \<open>auto simp: is_too_long_le\<close>)
  obtain m5 where 5: "getfield 10 m4 ?p4 len 4 = Some (m5, ?p5, w4)" "length m5 = length m4"
    "drop ?p5 m5 = w5 @ 44 # w6 @ 44 # w7 @ 44 # 10 # 13 # t"
    by (rule getfield_word [OF 4(3) words(4) word_starts [OF words(5)], of 10 4 len]) (use short in \<open>auto simp: is_too_long_le\<close>)
  obtain en au where gs: "getsecurity (stack ?p4) w3 = Some (en, au)" using sec [of ?p4] by auto
  let ?r = "r\<lparr>nChannel := atoi w1, SSID := [], BSSID := w2, strEncry := en, strAuth := au, RSSI := w4\<rparr>"
  have less: "?p1 < len" "?p3 < len" "?p4 < len" "?p5 < len" using len by simp_all
  have "trimup_info stack len (m, p, r) = trimup_tail len (m5, ?p5, ?r)"
    using less mac 1(1) 3(1) 4(1) 5(1) gs by (cases r) (simp add: trimup_info_def)
  moreover have "?p5 + length w5 + length w6 + length w7 + 5 \<le> len" using len by simp
  note tail = trimup_tail_reads [OF 5(3) words(5,6,7) short(4,5,6) this, of ?r]
  moreover have "?p5 + length w5 + length w6 + length w7 + 5 = p + length w1 + length w2 + length w3 + length w4 + length w5 + length w6 + length w7 + 9" by simp
  ultimately obtain m6 where "trimup_info stack len (m, p, r) = Some (m6, p + length w1 + length w2 + length w3 + length w4 + length w5 + length w6 + length w7 + 9,
      ?r\<lparr>NetworkType := if w7 = lit ''In'' then lit ''Infrastructure'' else lit ''Ad Hoc''\<rparr>)" "length m6 = length m5"
    "drop (p + length w1 + length w2 + length w3 + length w4 + length w5 + length w6 + length w7 + 9) m6 = t"
    by metis
  then show ?thesis using gs 1(2) 3(2) 4(2) 5(2)
    by (intro exI [of _ m6] exI [of _ en] exI [of _ au] exI [of _ ?p4]) simp
qed

section \<open>The rows\<close>

lemma mac_digits: "is_mac_add b \<Longrightarrow> length (do_tmpBSSID b) \<le> 12"
proof -
  assume mac: "is_mac_add b"
  have "{i. i < length b \<and> b ! i \<noteq> 58} \<subseteq> {..<17} - {2, 5, 8, 11, 14}" using mac by (auto simp: is_mac_add_def)
  from card_mono [OF _ this] show ?thesis by (simp add: do_tmpBSSID_def length_filter_conv_card)
qed

lemma security_short:
  assumes "c \<in> fst ` set security_table"
  shows "length (fst (the (map_of security_table c))) \<le> 7 \<and> length (snd (the (map_of security_table c))) \<le> 7"
  using assms by (auto simp: security_table_def simp del: lit_simps simp: lit_eq_iff)

lemma length_td [simp]: "length (td v) = length v + 9"
  by (simp add: td_def)

lemma length_quoted [simp]: "length (quoted v) = length v + 2"
  by (simp add: quoted_def)

lemma length_radio: "length (radio_cell r b) = 112 + 2 * length (SSID r) + length b + length (NetworkType r) +
    length (dec_int (nChannel r)) + length (strEncry r) + length (strAuth r)"
  by (simp add: radio_cell_def del: lit_simps)


lemma survey_row_fits:
  assumes "fields_ok n" and s: "length s \<le> 32"
  shows "survey_row ((network_of n)\<lparr>SSID := s\<rparr>) \<noteq> None"
proof -
  have n: "length (fst (se_signal n)) \<le> 8" "length (fst (se_bssid n)) = 17"
    "length (do_tmpBSSID (fst (se_bssid n))) \<le> 12" "fst (se_security n) \<in> fst ` set security_table"
    "length (dec_nat (se_channel n)) \<le> 3" "se_channel n < 1000"
    using assms mac_digits dec_nat_length [of 3 "se_channel n"]
    by (auto simp: fields_ok_def is_mac_add_def)
  have chan: "nat (int (se_channel n) mod 2 ^ 32) = se_channel n" using n(6) by (simp add: nat_mod_as_int)
  have type: "length (NetworkType (network_of n)) \<le> 14" by (simp add: network_of_def del: lit_simps)
  show ?thesis
    using n s security_short [OF n(4)] type
    by (simp add: survey_row_def fits_def length_radio chan dec_int_def network_of_def del: lit_simps)
qed

section \<open>The lines of a scan\<close>

text \<open>The title line, the line of a network with a name, and that of a hidden network, which has no name; and what
  the page shows of each. A network called \<open>SSID\<close> is taken for the title.\<close>

datatype survey_line = Title "bytes list" | Network scan_entry | Hidden scan_entry

primrec line_text :: "survey_line \<Rightarrow> bytes" where
  "line_text (Title ws) = field_line (hd ws) (lit ''SSID'') (map (\<lambda>w. (w, 1)) (tl ws))"
| "line_text (Network n) = line_of n"
| "line_text (Hidden n) = dec_nat (se_channel n) @ 44 # comma_fields (se_columns n) @ [10, 13]"

definition title_ok :: "bytes list \<Rightarrow> bool" where
  "title_ok ws \<longleftrightarrow> list_all word_ok ws \<and> list_all2 (\<lambda>w n. length w \<le> n) ws [10, 30, 80, 9, 60, 60, 60] \<and>
     length (after_slash (ws ! 2)) \<le> 10"

primrec line_ok :: "survey_line \<Rightarrow> bool" where
  "line_ok (Title ws) = title_ok ws"
| "line_ok (Network n) = entry_ok n"
| "line_ok (Hidden n) = fields_ok n"

primrec shown_line :: "survey_line \<Rightarrow> network list" where
  "shown_line (Title ws) = []"
| "shown_line (Network n) = (if se_ssid n = lit ''SSID'' then [] else [network_of n])"
| "shown_line (Hidden n) = [(network_of n)\<lparr>SSID := []\<rparr>]"

definition shown :: "survey_line list \<Rightarrow> network list" where
  "shown ls = concat (map shown_line (butlast ls))"

definition row_text :: "network \<Rightarrow> bytes" where
  "row_text r = the (survey_row r)"

lemma SSID_network_of [simp]: "SSID (network_of n) = se_ssid n"
  by (simp add: network_of_def)

lemma shown_rows: "line_ok l \<Longrightarrow> r \<in> set (shown_line l) \<Longrightarrow> survey_row r = Some (row_text r)"
proof -
  assume l: "line_ok l" "r \<in> set (shown_line l)"
  have "survey_row r \<noteq> None"
  proof (cases l)
    case (Network n)
    have same: "(network_of n)\<lparr>SSID := se_ssid n\<rparr> = network_of n" by (simp add: network_of_def)
    show ?thesis using l Network survey_row_fits [of n "se_ssid n", unfolded same]
      by (auto simp: entry_ok_def ssid_ok_def split: if_splits)
  next
    case (Hidden n)
    then show ?thesis using l survey_row_fits [of n "[]"] by simp
  qed (use l in simp)
  then show "survey_row r = Some (row_text r)" by (auto simp: row_text_def)
qed

lemma column_words:
  assumes "fields_ok n"
  obtains w2 w3 w4 w5 w6 w7 where
    "comma_fields (se_columns n) @ [10, 13] = w2 @ 44 # w3 @ 44 # w4 @ 44 # w5 @ 44 # w6 @ 44 # w7 @ 44 # [10, 13]"
    "fst (se_bssid n) = w2" "fst (se_security n) = w3" "fst (se_signal n) = w4" "fst (se_type n) = w7"
    "word_ok w2" "word_ok w3" "word_ok w4" "word_ok w5" "word_ok w6" "word_ok w7"
    "length w5 \<le> 60" "length w6 \<le> 60" "length w7 \<le> 60"
proof -
  obtain w2 k2 w3 k3 w4 k4 w5 k5 w6 k6 w7 k7 where cols: "se_bssid n = (w2, k2)" "se_security n = (w3, k3)"
    "se_signal n = (w4, k4)" "se_mode n = (w5, k5)" "se_ext n = (w6, k6)" "se_type n = (w7, k7)"
    by (metis surj_pair)
  show thesis using assms by (intro that [of w2 w3 w4 w5 w6 w7]) (auto simp: fields_ok_def se_columns_def cols)
qed

lemma line_reads:
  assumes stack: "\<And>p. length (stack p) = 10" and ok: "line_ok l"
    and at: "drop p m = line_text l @ t" and len: "p + length (line_text l) \<le> len"
  shows "\<exists>m' r'. trimup_info stack len (m, p, r) = Some (m', p + length (line_text l), r') \<and>
    drop (p + length (line_text l)) m' = t \<and>
    (if shown_line l = [] then SSID r' = lit ''SSID'' else shown_line l = [r'] \<and> SSID r' \<noteq> lit ''SSID'')"
proof (cases l)
  case (Title ws)
  then have ws: "title_ok ws" using ok by simp
  then obtain w1 w2 w3 w4 w5 w6 w7 where w: "ws = [w1, w2, w3, w4, w5, w6, w7]"
    by (auto simp: title_ok_def list_all2_Cons2)
  have s: "ssid_ok (lit ''SSID'')" "\<not> is_mac_add (lit ''SSID'')" "hide_commas (lit ''SSID'') = lit ''SSID''"
    by (simp_all add: ssid_ok_def is_mac_add_def name_char_def is_eol_def)
  have sec: "getsecurity (stack q) w3 \<noteq> None" for q
    using ws stack [of q] by (auto simp: title_ok_def w getsecurity_def mem_put_def)
  have line_eq: "line_text l = w1 @ 44 # lit ''SSID'' @ 44 # w2 @ 44 # w3 @ 44 # w4 @ 44 # w5 @ 44 # w6 @ 44 # w7 @ 44 # [10, 13]"
    using s(3) by (simp add: Title w field_line_def del: lit_simps)
  have words: "word_ok w1" "word_ok w2" "word_ok w3" "word_ok w4" "word_ok w5" "word_ok w6" "word_ok w7"
    "length w1 \<le> 10" "length w2 \<le> 30" "length w3 \<le> 80" "length w4 \<le> 9" "length w5 \<le> 60" "length w6 \<le> 60" "length w7 \<le> 60"
    using ws by (simp_all add: title_ok_def w)
  have at': "drop p m = w1 @ 44 # hide_commas (lit ''SSID'') @ 44 # w2 @ 44 # w3 @ 44 # w4 @ 44 # w5 @ 44 # w6 @ 44 # w7 @ 44 # 10 # 13 # t"
    using at unfolding line_eq s(3) by (simp del: lit_simps)
  have total: "p + length (line_text l) = p + length w1 + length (lit ''SSID'') + length w2 + length w3 + length w4 + length w5 + length w6 + length w7 + 10"
    by (simp add: line_eq)
  obtain m' en au q where "trimup_info stack len (m, p, r) = Some (m', p + length (line_text l),
      r\<lparr>nChannel := atoi w1, SSID := lit ''SSID'', BSSID := w2, strEncry := en, strAuth := au, RSSI := w4,
        NetworkType := if w7 = lit ''In'' then lit ''Infrastructure'' else lit ''Ad Hoc''\<rparr>)"
    "drop (p + length (line_text l)) m' = t"
    using trimup_words [where stack = stack and r = r, OF at' words s(1,2) sec len [unfolded total]] unfolding total by blast
  then show ?thesis by (auto simp: Title simp del: lit_simps)
next
  case (Network n)
  then have n: "fields_ok n" "ssid_ok (se_ssid n)" "\<not> is_mac_add (se_ssid n)" using ok by (simp_all add: entry_ok_def)
  define w1 where "w1 = dec_nat (se_channel n)"
  have w1: "word_ok w1" "length w1 \<le> 10" "atoi w1 = int (se_channel n)"
    using n(1) dec_nat_length [of 3 "se_channel n"] by (simp_all add: w1_def dec_word fields_ok_def atoi_dec_nat)
  obtain w2 w3 w4 w5 w6 w7 where w: "comma_fields (se_columns n) @ [10, 13] = w2 @ 44 # w3 @ 44 # w4 @ 44 # w5 @ 44 # w6 @ 44 # w7 @ 44 # [10, 13]"
    "fst (se_bssid n) = w2" "fst (se_security n) = w3" "fst (se_signal n) = w4" "fst (se_type n) = w7"
    "word_ok w2" "word_ok w3" "word_ok w4" "word_ok w5" "word_ok w6" "word_ok w7"
    "length w5 \<le> 60" "length w6 \<le> 60" "length w7 \<le> 60" by (rule column_words [OF n(1)])
  have sec: "w3 \<in> fst ` set security_table" "length w2 \<le> 30" "length w4 \<le> 9"
    using n(1) w(2-4) by (auto simp: fields_ok_def is_mac_add_def)
  note known = known_security [OF sec(1) stack]
  have known_some: "getsecurity (stack q) w3 \<noteq> None" for q using known [of q] by simp
  have sec_short: "length w3 \<le> 80" using known by simp
  have line_eq: "line_text l = w1 @ 44 # hide_commas (se_ssid n) @ 44 # w2 @ 44 # w3 @ 44 # w4 @ 44 # w5 @ 44 # w6 @ 44 # w7 @ 44 # [10, 13]"
    by (simp add: Network line_of_def field_line_def w(1) w1_def)
  have at': "drop p m = w1 @ 44 # hide_commas (se_ssid n) @ 44 # w2 @ 44 # w3 @ 44 # w4 @ 44 # w5 @ 44 # w6 @ 44 # w7 @ 44 # 10 # 13 # t"
    using at unfolding line_eq by simp
  have net: "r\<lparr>nChannel := atoi w1, SSID := se_ssid n, BSSID := w2, strEncry := en, strAuth := au, RSSI := w4,
      NetworkType := if w7 = lit ''In'' then lit ''Infrastructure'' else lit ''Ad Hoc''\<rparr> = network_of n"
    if "map_of security_table w3 = Some (en, au)" for en au
    using that w w1 by (cases r) (simp add: network_of_def del: lit_simps)
  have total: "p + length (line_text l) = p + length w1 + length (se_ssid n) + length w2 + length w3 + length w4 + length w5 + length w6 + length w7 + 10"
    by (simp add: line_eq)
  obtain m' en au q where "getsecurity (stack q) w3 = Some (en, au)" and read: "trimup_info stack len (m, p, r) = Some (m', p + length (line_text l),
      r\<lparr>nChannel := atoi w1, SSID := se_ssid n, BSSID := w2, strEncry := en, strAuth := au, RSSI := w4,
        NetworkType := if w7 = lit ''In'' then lit ''Infrastructure'' else lit ''Ad Hoc''\<rparr>)"
    "drop (p + length (line_text l)) m' = t"
    using trimup_words [where stack = stack and r = r, OF at' w1(1) w(6-11) w1(2) sec(2) sec_short sec(3) w(12-14) n(2,3) known_some len [unfolded total]]
    unfolding total by blast
  then have "map_of security_table w3 = Some (en, au)" using known by simp
  then show ?thesis using read by (auto simp: Network net simp del: lit_simps)
next
  case (Hidden n)
  then have n: "fields_ok n" using ok by simp
  define w1 where "w1 = dec_nat (se_channel n)"
  have w1: "word_ok w1" "length w1 \<le> 10" "atoi w1 = int (se_channel n)"
    using n dec_nat_length [of 3 "se_channel n"] by (simp_all add: w1_def dec_word fields_ok_def atoi_dec_nat)
  obtain w2 w3 w4 w5 w6 w7 where w: "comma_fields (se_columns n) @ [10, 13] = w2 @ 44 # w3 @ 44 # w4 @ 44 # w5 @ 44 # w6 @ 44 # w7 @ 44 # [10, 13]"
    "fst (se_bssid n) = w2" "fst (se_security n) = w3" "fst (se_signal n) = w4" "fst (se_type n) = w7"
    "word_ok w2" "word_ok w3" "word_ok w4" "word_ok w5" "word_ok w6" "word_ok w7"
    "length w5 \<le> 60" "length w6 \<le> 60" "length w7 \<le> 60" by (rule column_words [OF n])
  have sec: "w3 \<in> fst ` set security_table" "is_mac_add w2" "length w4 \<le> 9"
    using n w(2-4) by (auto simp: fields_ok_def)
  note known = known_security [OF sec(1) stack]
  have known_some: "getsecurity (stack q) w3 \<noteq> None" for q using known [of q] by simp
  have sec_short: "length w3 \<le> 80" using known by simp
  have line_eq: "line_text l = w1 @ 44 # w2 @ 44 # w3 @ 44 # w4 @ 44 # w5 @ 44 # w6 @ 44 # w7 @ 44 # [10, 13]"
    by (simp add: Hidden w(1) w1_def)
  have at': "drop p m = w1 @ 44 # w2 @ 44 # w3 @ 44 # w4 @ 44 # w5 @ 44 # w6 @ 44 # w7 @ 44 # 10 # 13 # t"
    using at unfolding line_eq by simp
  have net: "r\<lparr>nChannel := atoi w1, SSID := [], BSSID := w2, strEncry := en, strAuth := au, RSSI := w4,
      NetworkType := if w7 = lit ''In'' then lit ''Infrastructure'' else lit ''Ad Hoc''\<rparr> = (network_of n)\<lparr>SSID := []\<rparr>"
    if "map_of security_table w3 = Some (en, au)" for en au
    using that w w1 by (cases r) (simp add: network_of_def del: lit_simps)
  have total: "p + length (line_text l) = p + length w1 + length w2 + length w3 + length w4 + length w5 + length w6 + length w7 + 9"
    by (simp add: line_eq)
  obtain m' en au q where "getsecurity (stack q) w3 = Some (en, au)" and read: "trimup_info stack len (m, p, r) = Some (m', p + length (line_text l),
      r\<lparr>nChannel := atoi w1, SSID := [], BSSID := w2, strEncry := en, strAuth := au, RSSI := w4,
        NetworkType := if w7 = lit ''In'' then lit ''Infrastructure'' else lit ''Ad Hoc''\<rparr>)"
    "drop (p + length (line_text l)) m' = t"
    using trimup_hidden [where stack = stack and r = r, OF at' w1(1) w(6-11) w1(2) sec_short sec(3) w(12-14) sec(2) known_some len [unfolded total]]
    unfolding total by blast
  then have "map_of security_table w3 = Some (en, au)" using known by simp
  moreover have "[] \<noteq> lit ''SSID''" by simp
  ultimately show ?thesis using read net by (auto simp: Hidden simp del: lit_simps)
qed

lemma line_pos: "0 < length (line_text l)"
  by (cases l) (simp_all add: line_of_def field_line_def)

lemma survey_loop_reads:
  assumes stack: "\<And>p. length (stack p) = 10"
  shows "list_all line_ok ls \<Longrightarrow> drop p m = concat (map line_text ls) @ t \<Longrightarrow> p + length (concat (map line_text ls)) = len \<Longrightarrow>
    survey_loop stack len (m, p, r) = Some (concat (map row_text (shown ls)))"
proof (induction ls arbitrary: p m r)
  case Nil
  then show ?case by (simp add: survey_loop.simps shown_def)
next
  case (Cons l ls)
  let ?p = "p + length (line_text l)"
  have at: "drop p m = line_text l @ concat (map line_text ls) @ t" and ok: "line_ok l" and len: "?p \<le> len"
    using Cons.prems by simp_all
  obtain m' r' where read: "trimup_info stack len (m, p, r) = Some (m', ?p, r')"
    and rest: "drop ?p m' = concat (map line_text ls) @ t"
    and net: "if shown_line l = [] then SSID r' = lit ''SSID'' else shown_line l = [r'] \<and> SSID r' \<noteq> lit ''SSID''"
    using line_reads [where stack = stack and r = r, OF stack ok at len] by blast
  have more: "survey_loop stack len (m', ?p, r') = Some (concat (map row_text (shown ls)))"
    using Cons.IH [OF _ rest] Cons.prems by simp
  have before: "\<not> len \<le> p" using line_pos [of l] len by linarith
  have row: "shown_line l \<noteq> [] \<Longrightarrow> survey_row r' = Some (row_text r')" using shown_rows [OF ok, of r'] net by simp
  have "survey_loop stack len (m, p, r) =
      (if shown_line l = [] then Some (concat (map row_text (shown ls)))
       else if len \<le> ?p then Some [] else Some (row_text r' @ concat (map row_text (shown ls))))"
    by (subst survey_loop.simps) (use net row in \<open>auto simp: before read more simp del: lit_simps\<close>)
  also have "\<dots> = Some (concat (map row_text (shown (l # ls))))"
  proof (cases ls)
    case Nil
    then show ?thesis using Cons.prems(3) by (simp add: shown_def)
  next
    case (Cons k ks)
    then have "\<not> len \<le> ?p" using Cons.prems(3) line_pos [of k] by (simp del: length_greater_0_conv)
    then show ?thesis using net Cons by (auto simp: shown_def)
  qed
  finally show ?case .
qed

text \<open>
  C5. The table of networks in reach: whenever the columns of the scan became comma-separated lines (the part that
  calls \<open>left_is_blank\<close>), \<open>getsurveylist\<close> reads them back and prints, without leaving a buffer, one row per network with
  its channel, name, address, signal, security and type, in the order of the scan. Names may hold blanks and commas; a
  hidden network, whose line has no name, is shown with an empty one; the title line is skipped. Not shown are
  networks called \<open>SSID\<close>, which are taken for the title, and the last line, which is read and dropped. The claim is for
  the security columns of \<open>security_table\<close> and for names that do not look like an address.\<close>

theorem survey_lists_networks:
  assumes ok: "list_all line_ok ls" and stack: "\<And>p. length (stack p) = 10"
    and scan: "wscan_trimup_info left_is_blank TempString heap = Some rep" and rep: "c_str rep = Some (concat (map line_text ls))"
  shows "\<exists>rows. map survey_row (shown ls) = map Some rows \<and>
    getsurveylist left_is_blank stack heap r TempString = Some (concat rows)"
proof (intro exI conjI)
  show "map survey_row (shown ls) = map Some (map row_text (shown ls))"
    using ok shown_rows by (fastforce simp: shown_def list_all_iff dest: in_set_butlastD)
next
  obtain z where "rep = concat (map line_text ls) @ 0 # z" using rep by (auto simp: c_str_Some_iff)
  then have at: "drop 0 rep = concat (map line_text ls) @ 0 # z" by simp
  show "getsurveylist left_is_blank stack heap r TempString = Some (concat (map row_text (shown ls)))"
    using survey_loop_reads [OF stack ok at] by (simp add: getsurveylist_def scan rep)
qed

section \<open>A sample scan\<close>

text \<open>For the sample, \<open>left_is_blank\<close> tests whether the next bytes are blanks.\<close>

definition sample_network :: "string \<Rightarrow> string \<Rightarrow> scan_entry" where
  "sample_network ssid sec = \<lparr>se_channel = 11, se_gap = 2, se_ssid = lit ssid, se_bssid = (lit ''00:1d:7e:52:7c:0a'', 3),
     se_security = (lit sec, 4), se_signal = (lit ''76'', 7), se_mode = (lit ''11b/g/n'', 1), se_ext = (lit ''NONE'', 3),
     se_type = (lit ''In'', 1)\<rparr>"

definition sample_title :: "(bytes \<times> nat) list" where
  "sample_title = map (\<lambda>w. (lit w, 1)) [''BSSID'', ''Security'', ''Siganl(%)'', ''W-Mode'', ''ExtCH'', ''NT'']"

definition sample_networks :: "scan_entry list" where
  "sample_networks = [sample_network ''Stage, left'' ''WPA2PSK/AES'', sample_network ''SSID'' ''NONE'',
     sample_network ''Ratpac  AKS'' ''WPAPSK/TKIP'', sample_network ''front'' ''NONE'']"

definition sample_scan :: bytes where
  "sample_scan = scan_line (lit ''Ch'') 2 (lit ''SSID'') sample_title @ concat (map printed sample_networks)"

definition sample_lines :: "survey_line list" where
  "sample_lines = Title (lit ''Ch'' # map fst sample_title) # map Network sample_networks"

definition sample_blank :: "bytes \<Rightarrow> int \<Rightarrow> int" where
  "sample_blank s n = (if list_all (\<lambda>b. b = 32) (take (nat n) s) then 0 else 1)"

lemma sample_blank_test: "blank_test sample_blank"
  by (simp add: blank_test_def sample_blank_def)

lemma sample_networks_ok: "list_all entry_ok sample_networks"
  by (simp add: sample_networks_def sample_network_def entry_ok_def fields_ok_def ssid_ok_def name_char_def is_mac_add_def is_eol_def
    se_columns_def word_ok_def plain_def security_table_def)

lemma sample_title_ok: "columns_ok sample_title" "sample_title \<noteq> []" "word_ok (lit ''Ch'')" "ssid_ok (lit ''SSID'')"
  by (simp_all add: sample_title_def word_ok_def plain_def is_eol_def ssid_ok_def name_char_def)

lemma sample_lines_ok: "list_all line_ok sample_lines"
  using sample_networks_ok
  by (simp add: sample_lines_def sample_title_def title_ok_def word_ok_def plain_def is_eol_def after_slash_def list.pred_map comp_def)

lemma wscan_printed:
  assumes "blank_test lb" and "entry_ok n"
  shows "wscan lb 0 (printed n @ t) (-1) w = line_of n @ wscan lb 0 t (-1) (int (length (se_ssid n)))"
  unfolding printed_def line_of_def
  using assms by (intro wscan_line dec_word) (simp_all add: entry_ok_def fields_ok_def se_columns_def)

lemma wscan_lines:
  assumes "blank_test lb"
  shows "list_all entry_ok ns \<Longrightarrow> wscan lb 0 (concat (map printed ns)) (-1) w = concat (map line_of ns)"
  using assms by (induction ns arbitrary: w) (simp_all add: wscan_printed)

lemma sample_wscan: "wscan sample_blank 0 sample_scan (-1) 0 = concat (map line_text sample_lines)"
proof -
  have "map ((\<lambda>w. (w, 1)) \<circ> fst) sample_title = sample_title" by (simp add: sample_title_def)
  then show ?thesis
    using wscan_line [OF sample_blank_test sample_title_ok(3) _ sample_title_ok(4,1,2), of 2 "concat (map printed sample_networks)" 0]
      wscan_lines [OF sample_blank_test sample_networks_ok]
    by (simp add: sample_scan_def sample_lines_def comp_def del: lit_simps)
qed

lemma sample_sizes: "length sample_scan \<le> 8192" "length (concat (map line_text sample_lines)) < 8192"
  "0 \<notin> set (concat (map line_text sample_lines))"
  by (simp_all add: sample_scan_def sample_lines_def sample_title_def sample_networks_def sample_network_def printed_def scan_line_def
      line_of_def field_line_def se_columns_def dec_nat.simps)

theorem survey_lists_networks_witness:
  "\<exists>rows. map survey_row (map network_of [sample_network ''Stage, left'' ''WPA2PSK/AES'', sample_network ''Ratpac  AKS'' ''WPAPSK/TKIP'']) =
      map Some rows \<and>
    getsurveylist sample_blank (\<lambda>p. replicate 10 0) (replicate 8192 0)
      \<lparr>SSID = [], BSSID = [], nChannel = 1, strEncry = [], strAuth = [], NetworkType = [], RSSI = []\<rparr>
      sample_scan = Some (concat rows)"
proof -
  let ?out = "concat (map line_text sample_lines)" and ?heap = "replicate 8192 0 :: bytes"
  have rep: "wscan_trimup_info sample_blank sample_scan ?heap = Some (poke 0 (?out @ [0]) ?heap)"
    using sample_sizes(1,2) by (simp add: wscan_trimup_info_def sample_wscan)
  have "is_cstr ?out" using sample_sizes(3) by (simp add: is_cstr_def)
  then have str: "c_str (poke 0 (?out @ [0]) ?heap) = Some ?out"
    using str_at_poke_same [of 0 ?out ?heap] sample_sizes(2) by (simp add: str_at_def)
  have "shown sample_lines = map network_of [sample_network ''Stage, left'' ''WPA2PSK/AES'', sample_network ''Ratpac  AKS'' ''WPAPSK/TKIP'']"
    by (simp add: shown_def sample_lines_def sample_networks_def sample_network_def)
  then show ?thesis
    using survey_lists_networks [OF sample_lines_ok _ rep str, of "\<lambda>p. replicate 10 0"] by auto
qed

section \<open>What can go wrong\<close>

text \<open>The room for each field: the arrays that \<open>trimup_info\<close> passes.\<close>

definition field_room :: "nat \<Rightarrow> nat" where
  "field_room para = [100, 35, 35, 100, 10, 100, 100, 100] ! para"

lemma copy_field_stops:
  "copy_field para m p i c = Some (m', i', c') \<Longrightarrow> length c = i \<Longrightarrow> \<not> is_too_long para i \<Longrightarrow>
    length c' = i' \<and> (i' = 0 \<or> \<not> is_too_long para (i' - 1))"
proof (induction para m p i c rule: copy_field.induct)
  case (1 para m p i c)
  show ?case using "1.prems" "1.IH" [OF _ _ refl] is_too_long_mono [OF "1.prems"(3), of "i - 1"]
    by (subst (asm) copy_field.simps) (auto simp: Let_def split: if_splits)
qed

lemma field_room_enough: "para \<le> 7 \<Longrightarrow> \<not> is_too_long para n \<Longrightarrow> n + 1 < field_room para"
proof -
  assume "para \<le> 7" and n: "\<not> is_too_long para n"
  then have "para \<in> {0, 1, 2, 3, 4, 5, 6, 7}" by auto
  then show ?thesis using n by (elim insertE emptyE; simp add: is_too_long_def field_room_def)
qed

text \<open>
  Whatever the scan contains, no field is longer than the array it is copied to: the length limits of
  \<open>is_too_long\<close> leave room for the terminator in each of the arrays of \<open>trimup_info\<close>.\<close>

theorem survey_fields_fit:
  assumes "copy_field para m p 0 [] = Some (m', i, c)" and "para \<le> 7"
  shows "fits (field_room para) c = Some c"
proof -
  have zero: "\<not> is_too_long para 0" by (simp add: is_too_long_def)
  then have "length c = i" "i = 0 \<or> \<not> is_too_long para (i - 1)" using copy_field_stops assms(1) by auto
  then show ?thesis
    using field_room_enough [OF assms(2) zero] field_room_enough [OF assms(2), of "i - 1"] by (cases i) (auto simp: fits_def)
qed

theorem survey_fields_fit_witness:
  "copy_field 4 (lit ''100%overflow,'') 0 0 [] = Some (lit ''100%overflow,'', 9, lit ''100%overf'') \<and>
   fits (field_room 4) (lit ''100%overf'') = Some (lit ''100%overf'')"
proof -
  have "copy_field 4 (lit ''100%overflow,'') 0 0 [] = Some (lit ''100%overflow,'', 9, lit ''100%overf'')"
    by (simp add: copy_field.simps is_too_long_def is_eol_def)
  from survey_fields_fit [OF this] this show ?thesis by (simp del: lit_simps)
qed

text \<open>
  A hidden network, whose name column is blank, is misread: the columns of the address and of the security
  become one name, since the blanks between them look like blanks inside a name.\<close>

theorem hidden_network_misread:
  assumes "blank_test lb" and "word_ok ch" and "word_ok bssid" and "word_ok sec" and "0 < k" and "0 < j"
    and "length bssid + j < 32"
  shows "wscan lb 0 (ch @ sp k @ bssid @ sp j @ sec @ t) (-1) w =
    ch @ [44] @ bssid @ sp j @ wscan lb 0 (sec @ t) 1 (int (length bssid + j))"
proof -
  obtain i where i: "j = Suc i" using assms(6) by (cases j) auto
  obtain s ss where s: "sec = s # ss" "s \<noteq> 32" using assms(4) by (cases sec) (auto simp: word_ok_def plain_def)
  have word: "wscan lb 0 (f @ z) 1 (int v) = f @ wscan lb 0 z 1 (int (v + length f))" if "list_all plain f" for f z v
    using that
  proof (induction f arbitrary: v)
    case (Cons b f)
    have "wscan lb 0 (f @ z) 1 (int (Suc v)) = f @ wscan lb 0 z 1 (int (Suc v + length f))"
      using Cons.IH [of "Suc v"] Cons.prems by simp
    then show ?case using Cons.prems by (simp add: wscan.simps(2) plain_def add.commute add.left_commute)
  qed simp
  have "nat (31 - int (length bssid)) > i" using assms(7) i by simp
  then have "lb (sp i @ sec @ t) (31 - int (length bssid)) \<noteq> 0"
    using assms(1) s unfolding blank_test_def by (cases "nat (31 - int (length bssid)) - i") auto
  then have "wscan lb 0 (sp j @ sec @ t) 1 (int (length bssid)) = sp j @ wscan lb 0 (sec @ t) 1 (int (length bssid + j))"
    using assms(7) i s word_not_blank [OF assms(4), of t] by (simp add: wscan.simps(2) add.commute add.left_commute)
  then show ?thesis
    using word [of bssid "sp j @ sec @ t" 0] assms(2,3,5) word_not_blank [OF assms(3)]
    by (simp add: wscan_start wscan_gap word_ok_def)
qed

theorem hidden_network_misread_witness:
  "wscan sample_blank 0 (lit ''6'' @ sp 36 @ lit ''00:1d:7e:52:7c:0a'' @ sp 3 @ lit ''NONE'' @ sp 19) (-1) 0 =
    lit ''6'' @ [44] @ lit ''00:1d:7e:52:7c:0a'' @ sp 3 @ wscan sample_blank 0 (lit ''NONE'' @ sp 19) 1 20"
  using hidden_network_misread [OF sample_blank_test, of "lit ''6''" "lit ''00:1d:7e:52:7c:0a''" "lit ''NONE''" 36 3 "sp 19" 0]
  by (simp add: word_ok_def plain_def is_eol_def)

text \<open>
  \<open>getsecurity\<close> compares an array it never cleared nor terminated: for a network with \<open>WPA2PSK/TKIP\<close> the
  encryption shown depends on what the stack held.\<close>

theorem security_reads_stack:
  "getsecurity (lit ''..........'') (lit ''WPA2PSK/TKIP'') = Some (lit ''TKIP'', lit ''WPA2PSK'') \<and>
   getsecurity (lit ''....AES...'') (lit ''WPA2PSK/TKIP'') = Some (lit ''AES'', lit ''WPA2PSK'')"
  by (simp add: getsecurity_def after_slash_def mem_put_def poke_def is_prefix_def)

end
