(* ===== verification/PageCompiler.thy ===== *)
theory PageCompiler
  imports Prelude
begin

text \<open>
  The host program that compiles the web pages into the firmware (\<^verbatim>\<open>src/websrc/scripts/webcomp_sin.c\<close>): \<open>proc_tag\<close>
  removes demo parts and resolves optional parts, \<open>compile\<close> splits the rest into data and inline C.

  A page is the list of its bytes behind the cursor; strings end at the first NUL or at the end of the page, where the
  program puts one. The program itself puts a NUL behind the name of every option; where optional parts overlap it goes
  back to text with such NULs, so \<open>proc_tag\<close> returns their places with its output. A return value -1 is \<open>Inl (-1)\<close>; a
  page that fails after its output has overrun the block is counted as a failed page. The option file is its text, or
  \<open>None\<close> when it cannot be opened. Messages on the terminal are left out.
\<close>

declare lit_simps [simp del]

section \<open>Tags\<close>

definition removed_blocks :: "(bytes \<times> bytes) list" where
  "removed_blocks = [(lit ''/*DEMO*/'', lit ''/*END_DEMO*/''), (lit ''<!--DO_CGI'', lit ''DO_CGI-->''),
     (lit ''<!--DEMO-->'', lit ''<!--END_DEMO-->'')]"

definition removed_tags :: "bytes list" where
  "removed_tags = [lit ''/*REAL'', lit ''REAL*/'', lit ''<!--REAL'', lit ''REAL-->'']"

text \<open>Options come in the comment styles of scripts and of HTML.\<close>

datatype style = Js | Html

fun opt_begin :: "style \<Rightarrow> bytes" where
  "opt_begin Js = lit ''/*OPT''"
| "opt_begin Html = lit ''<!--OPT''"

fun opt_tail :: "style \<Rightarrow> bytes" where
  "opt_tail Js = lit ''*/''"
| "opt_tail Html = lit ''-->''"

fun opt_end :: "style \<Rightarrow> bytes" where
  "opt_end Js = lit ''/*END_OPT*/''"
| "opt_end Html = lit ''<!--END_OPT-->''"

definition page_option :: bytes where "page_option = lit ''<!--AOPT''"
definition OPT_DEFINE :: bytes where "OPT_DEFINE = lit ''#''"
definition OPT_NOT_DEFINE :: bytes where "OPT_NOT_DEFINE = lit ''!#''"

text \<open>\<open>strstr\<close> from a position on.\<close>

definition find_in :: "bytes \<Rightarrow> nat \<Rightarrow> bytes \<Rightarrow> nat option" where
  "find_in s i tag = map_option (\<lambda>k. i + k) (strstr (takeWhile (\<lambda>b. b \<noteq> 0) (drop i s)) tag)"

lemma strstr_Some: "strstr s t = Some k \<Longrightarrow> k + length t \<le> length s \<and> take (length t) (drop k s) = t"
proof (induction s arbitrary: k)
  case Nil
  then show ?case by (auto simp: is_prefix_def split: if_splits)
next
  case (Cons b s)
  show ?case
  proof (cases "is_prefix t (b # s)")
    case True
    then have "k = 0" using Cons.prems by simp
    have "length (take (length t) (b # s)) = length t" using True by (simp only: is_prefix_def)
    then show ?thesis using True \<open>k = 0\<close> by (simp add: is_prefix_def)
  next
    case False
    then obtain j where "strstr s t = Some j" "k = Suc j" using Cons.prems by auto
    then show ?thesis using Cons.IH [of j] by simp
  qed
qed

lemma find_in_bounds: "find_in s i tag = Some k \<Longrightarrow> tag \<noteq> [] \<Longrightarrow> i \<le> k \<and> k + length tag \<le> length s"
proof -
  assume found: "find_in s i tag = Some k" and ne: "tag \<noteq> []"
  then obtain j where j: "strstr (takeWhile (\<lambda>b. b \<noteq> 0) (drop i s)) tag = Some j" "k = i + j"
    by (auto simp: find_in_def)
  have "j + length tag \<le> length s - i"
    using strstr_Some [OF j(1)] length_takeWhile_le [of _ "drop i s"] by (metis le_trans length_drop)
  moreover have "0 < length tag" using ne by simp
  ultimately show ?thesis using j(2) by linarith
qed

section \<open>The end of an optional part\<close>

lemma tags_ne [simp]: "opt_begin y \<noteq> []" "opt_end y \<noteq> []" "opt_tail y \<noteq> []"
  by (cases y; simp add: lit_def)+

function match_end :: "style \<Rightarrow> bytes \<Rightarrow> nat \<Rightarrow> nat \<Rightarrow> nat option" where
  "match_end y s next_end next_opt = (case find_in s next_end (opt_end y) of
     None \<Rightarrow> None
   | Some blk_end \<Rightarrow> (case find_in s next_opt (opt_begin y) of
       None \<Rightarrow> Some blk_end
     | Some p \<Rightarrow>
         if p + length (opt_begin y) < blk_end
         then match_end y s (blk_end + length (opt_end y)) (p + length (opt_begin y))
         else Some blk_end))"
  by pat_completeness auto

termination
proof (relation "measure (\<lambda>(y, s, e, p). length s - e)", goal_cases)
  case (2 y s e p b q)
  from find_in_bounds [OF 2(1)] have "e \<le> b" "b + length (opt_end y) \<le> length s" by simp_all
  moreover have "0 < length (opt_end y)" by simp
  ultimately have "e < b + length (opt_end y)" "e < length s" by linarith+
  then show ?case by (simp add: diff_less_mono2)
qed simp

declare match_end.simps [simp del]

section \<open>Options\<close>

text \<open>The lines of the option file, as \<open>fgets\<close> reads them with 255 bytes.\<close>

function fgets_lines :: "bytes \<Rightarrow> bytes list" where
  "fgets_lines t = (if t = [] then [] else
     let n = (case strchr 10 (take 254 t) of None \<Rightarrow> 254 | Some i \<Rightarrow> i + 1)
     in take n t # fgets_lines (drop n t))"
  by pat_completeness auto
termination
  by (relation "measure length") (auto split: option.splits)

declare fgets_lines.simps [simp del]

definition option_match :: "bytes option \<Rightarrow> bytes \<Rightarrow> int" where
  "option_match optfile optname = (case optfile of
     None \<Rightarrow> -1
   | Some t \<Rightarrow>
       if list_ex (\<lambda>l. has_sub (takeWhile (\<lambda>b. b \<noteq> 0) l) optname \<and> is_prefix (lit ''#define'') l) (fgets_lines t)
       then 1 else 0)"

text \<open>The name of an option: whether it is inverted, the name, and the position behind its tail.\<close>

definition opt_name :: "bytes \<Rightarrow> bytes \<Rightarrow> nat \<Rightarrow> (bool \<times> bytes \<times> nat) option" where
  "opt_name tail s i =
    (let named = (\<lambda>negated j. map_option (\<lambda>k. (negated, take (k - j) (drop j s), k + length tail)) (find_in s j tail))
     in if is_prefix OPT_NOT_DEFINE (drop i s) then named True (i + length OPT_NOT_DEFINE)
        else if is_prefix OPT_DEFINE (drop i s) then named False (i + length OPT_DEFINE)
        else None)"

text \<open>\<open>option_match (...) ^ negated\<close>: with no option file every part is taken.\<close>

definition opt_taken :: "bytes option \<Rightarrow> bool \<Rightarrow> bytes \<Rightarrow> bool" where
  "opt_taken optfile negated name \<longleftrightarrow> option_match optfile name XOR (if negated then 1 else 0) \<noteq> 0"

section \<open>The filter\<close>

text \<open>The output, and the places behind names that have become NUL, from the cursor on.\<close>

type_synonym filtered = "int + bytes \<times> nat list"

definition append_result :: "bytes \<Rightarrow> nat list \<Rightarrow> nat \<Rightarrow> filtered \<Rightarrow> filtered" where
  "append_result out zs k r = map_sum id (\<lambda>(t, zs'). (out @ t, zs @ map (\<lambda>z. k + z) zs')) r"

definition zero_at :: "nat list \<Rightarrow> bytes \<Rightarrow> bytes" where
  "zero_at zs s = fold (\<lambda>z s. s[z := 0]) zs s"

lemma length_zero_at [simp]: "length (zero_at zs s) = length s"
  by (induction zs arbitrary: s) (simp_all add: zero_at_def)

lemma opt_name_pos: "opt_name tail s i = Some (negated, name, k) \<Longrightarrow> tail \<noteq> [] \<Longrightarrow> 0 < k \<and> k \<le> length s"
  using find_in_bounds [of s _ tail] by (fastforce simp: opt_name_def Let_def split: if_splits)

lemma removed_ne: "find P removed_blocks = Some (b, e) \<Longrightarrow> e \<noteq> []" "find Q removed_tags = Some t \<Longrightarrow> t \<noteq> []"
  by (auto simp: removed_blocks_def removed_tags_def lit_def split: if_splits)

lemma match_end_bounds: "match_end y s e p = Some k \<Longrightarrow> e \<le> k \<and> k + length (opt_end y) \<le> length s"
proof (induction y s e p arbitrary: k rule: match_end.induct)
  case (1 y s e p)
  obtain b where b: "find_in s e (opt_end y) = Some b"
    using "1.prems" by (subst (asm) match_end.simps) (auto split: option.splits)
  note bounds = find_in_bounds [OF b, simplified]
  consider "k = b" | q where "find_in s p (opt_begin y) = Some q" "q + length (opt_begin y) < b"
      "match_end y s (b + length (opt_end y)) (q + length (opt_begin y)) = Some k"
    using "1.prems" b by (subst (asm) match_end.simps) (auto split: option.splits if_splits)
  then show ?case
  proof cases
    case 2
    then show ?thesis using "1.IH" [OF b 2(1,2,3)] bounds by linarith
  qed (use bounds in simp)
qed

lemma cut_less: "s \<noteq> [] \<Longrightarrow> 0 < k \<Longrightarrow> length s - k < length s"
  by (cases s) simp_all

lemma tail_less:
  assumes "opt_name tail s i = Some z" and "(negated, r) = z" and "(name, k) = r" and "tail \<noteq> []"
  shows "length s - k < length s"
  using opt_name_pos [of tail s i negated name k] assms by (cases s) auto

lemma style_tails: "lit ''-->'' \<noteq> []"
  by (simp add: lit_def)

function proc_tag :: "bytes option \<Rightarrow> nat \<Rightarrow> bytes \<Rightarrow> filtered" and
  proc_opt :: "bytes option \<Rightarrow> style \<Rightarrow> nat \<Rightarrow> bytes \<Rightarrow> filtered" where
  "proc_tag optfile olen s =
    (if olen = 0 \<or> s = [] then Inr ([], [])
     else case find (\<lambda>(b, e). is_prefix b s) removed_blocks of
       Some (b, e) \<Rightarrow> (case find_in s 0 e of
           None \<Rightarrow> Inl (-1)
         | Some k \<Rightarrow> append_result [] [] (k + length e) (proc_tag optfile (olen - (k + length e)) (drop (k + length e) s)))
     | None \<Rightarrow> (case find (\<lambda>t. is_prefix t s) removed_tags of
         Some t \<Rightarrow> append_result [] [] (length t) (proc_tag optfile (olen - length t) (drop (length t) s))
       | None \<Rightarrow>
         if is_prefix (opt_begin Js) s then proc_opt optfile Js olen s
         else if is_prefix (opt_begin Html) s then proc_opt optfile Html olen s
         else if is_prefix page_option s
         then (case opt_name (opt_tail Html) s (length page_option) of
             None \<Rightarrow> Inl (-1)
           | Some (negated, name, i) \<Rightarrow>
               if opt_taken optfile negated name
               then append_result [] [i - length (opt_tail Html)] i (proc_tag optfile (olen - i) (drop i s))
               else Inl (-1))
         else append_result [hd s] [] 1 (proc_tag optfile (olen - 1) (drop 1 s))))"
| "proc_opt optfile y olen s =
    (case match_end y s (length (opt_begin y)) (length (opt_begin y)) of
       None \<Rightarrow> Inl (-1)
     | Some blk_end \<Rightarrow> (case opt_name (opt_tail y) s (length (opt_begin y)) of
         None \<Rightarrow> Inl (-1)
       | Some (negated, name, i) \<Rightarrow>
           (case (if opt_taken optfile negated name then proc_tag optfile (blk_end - i) (drop i s) else Inr ([], [])) of
              Inl e \<Rightarrow> Inl (-1)
            | Inr (out, zs) \<Rightarrow>
                append_result out ((i - length (opt_tail y)) # map (\<lambda>z. i + z) zs) (blk_end + length (opt_end y))
                  (proc_tag optfile (olen - (blk_end + length (opt_end y)))
                    (drop (blk_end + length (opt_end y)) (zero_at ((i - length (opt_tail y)) # map (\<lambda>z. i + z) zs) s))))))"
  by pat_completeness auto

termination
  apply (relation "measure (\<lambda>x. case x of Inl (opt, n, s) \<Rightarrow> 2 * length s + 1 | Inr (opt, y, n, s) \<Rightarrow> 2 * length s)")
  apply simp_all
  subgoal by (rule tail_less [OF _ _ _ style_tails])
  subgoal by (rule cut_less) (use removed_ne(2) in auto)
  subgoal for olen s z b e k by (rule cut_less) (use removed_ne(1) [of "\<lambda>(b, e). is_prefix b s" b e] in auto)
  subgoal for opt y s k z negated r name i
    using tail_less [of "opt_tail y" s "length (opt_begin y)" z negated r name i] by simp
  subgoal for opt y s k
    using match_end_bounds [of y s "length (opt_begin y)" "length (opt_begin y)" k] by (cases y) (auto simp: lit_def)
  done

declare proc_tag.simps [simp del] proc_opt.simps [simp del]


section \<open>Names of pages\<close>

definition inline_c_file :: "bytes list" where
  "inline_c_file = map lit [''html'', ''htm'', ''asp'', ''bin'', ''js'', ''json'']"

definition to_lower :: "byte \<Rightarrow> byte" where
  "to_lower b = (if 65 \<le> b \<and> b \<le> 90 then b + 32 else b)"

text \<open>\<open>strcasecmp\<close> with the end of the name: \<open>None\<close> when the name is shorter than the extension.\<close>

fun check_types :: "bytes list \<Rightarrow> bytes \<Rightarrow> (bool \<times> bytes) option" where
  "check_types [] name = Some (False, (case strchr 46 (rev name) of None \<Rightarrow> name | Some i \<Rightarrow> name[length name - 1 - i := 95]))"
| "check_types (ext # exts) name =
    (if length name < length ext then None
     else if map to_lower (drop (length name - length ext) name) = map to_lower ext
     then (if length name = length ext then None else Some (True, name[length name - length ext - 1 := 95]))
     else check_types exts name)"

definition FNAMESIZE :: nat where "FNAMESIZE = 255"

definition proc_file_type :: "bytes \<Rightarrow> (bool \<times> bytes) option" where
  "proc_file_type inname =
    (if length inname < FNAMESIZE then check_types inline_c_file (map (\<lambda>b. if b = 47 then 95 else b) inname) else None)"

section \<open>Data and inline C\<close>

record page_out =
  c_out :: bytes
  c1_out :: bytes
  dbg_out :: bytes
  outbytes :: nat

definition write_blk :: "nat \<Rightarrow> nat \<Rightarrow> bytes" where
  "write_blk off len = 9 # lit ''WEB_write_blk(req, datap, '' @ dec_nat off @ lit '', '' @ dec_nat len @ lit '');'' @ [10, 10]"

definition put_data :: "bytes \<Rightarrow> page_out \<Rightarrow> page_out" where
  "put_data blk x = x\<lparr>dbg_out := dbg_out x @ blk, c1_out := c1_out x @ write_blk (outbytes x) (length blk)\<rparr>"

text \<open>The offset goes on behind a block, but not behind the last one.\<close>

definition emit :: "bytes \<Rightarrow> page_out \<Rightarrow> page_out" where
  "emit blk x = (put_data blk x)\<lparr>outbytes := outbytes x + length blk\<rparr>"

text \<open>The loop over the inline C; \<open>False\<close> is the jump to \<open>done\<close>. A length of -1 for \<open>fwrite\<close> is \<open>None\<close>.\<close>

function split_page :: "bytes \<Rightarrow> page_out \<Rightarrow> (bool \<times> page_out) option" where
  "split_page s x = (case strstr s (lit ''<%'') of
     None \<Rightarrow> Some (True, if s = [] then x else put_data s x)
   | Some k \<Rightarrow>
      let x = (if k > 0 then emit (take k s) x else x);
          outside = is_prefix [43] (drop (k + 2) s);
          next = (if outside then drop (k + 3) s else drop (k + 2) s)
      in case strstr next (lit ''%>'') of
           None \<Rightarrow> Some (False, x)
         | Some j \<Rightarrow>
             if outside
             then (if j = 0 then None
                   else if next ! (j - 1) \<noteq> 43 then Some (False, x)
                   else split_page (drop (j + 2) next) (x\<lparr>c_out := c_out x @ take (j - 1) next @ [10, 10]\<rparr>))
             else split_page (drop (j + 2) next) (x\<lparr>c1_out := c1_out x @ take j next @ [10, 10]\<rparr>))"
  by pat_completeness auto
termination
  by (relation "measure (\<lambda>(s, x). length s)") (auto dest!: strstr_Some simp: lit_def split: if_splits)

declare split_page.simps [simp del]

section \<open>A page\<close>

text \<open>\<open>proc_cgi\<close>: a page with a complete \<open>DO_CGI\<close> part ends in \<open>free\<close> of a pointer into a block, \<open>None\<close>.\<close>

definition proc_cgi :: "bytes \<Rightarrow> unit option" where
  "proc_cgi page = (case strstr page (lit ''<!--DO_CGI'') of
     None \<Rightarrow> Some ()
   | Some i \<Rightarrow> (case find_in page i (lit ''DO_CGI-->'') of None \<Rightarrow> Some () | Some k \<Rightarrow> None))"

datatype page_result = Bad | Compiled bytes bytes

definition print_title :: "bytes \<Rightarrow> bytes" where
  "print_title ctime = lit ''/*'' @ [10] @ lit '' * Generated by Ralink WEB converter: '' @ ctime @ lit '' * Do not edit'' @ [10] @
     lit '' */'' @ [10, 10]"

definition print_common_head :: bytes where
  "print_common_head = lit ''#include <http_proc.h>'' @ [10] @ lit ''#include <cgi_api.h>'' @ [10]"

definition page_function :: "bytes \<Rightarrow> bytes" where
  "page_function basic_name = [10, 10] @ lit ''void web_'' @ basic_name @ lit ''(http_req *req, char *datap)'' @ [10] @ lit ''{'' @ [10]"

text \<open>\<open>proc_fake\<close> gives \<open>proc_tag\<close> a block of the size of the page for its result.\<close>

definition compile_page :: "bytes \<Rightarrow> bytes option \<Rightarrow> bytes \<Rightarrow> bool \<Rightarrow> bytes \<Rightarrow> page_result option" where
  "compile_page ctime optfile basic_name process_inline_c page =
    (if page = [] then Some Bad
     else do {
       _ \<leftarrow> proc_cgi page;
       let x = \<lparr>c_out = print_title ctime @ print_common_head, c1_out = page_function basic_name, dbg_out = [], outbytes = 0\<rparr>;
       if process_inline_c
       then (case proc_tag optfile (length page) page of
           Inl e \<Rightarrow> Some Bad
         | Inr (blk, _) \<Rightarrow> if length page < length blk then None else do {
             (ok, x) \<leftarrow> split_page (takeWhile (\<lambda>b. b \<noteq> 0) blk) x;
             let c1 = c1_out x @ (if ok then [10] @ lit ''}'' @ [10] else []);
             Some (Compiled (c_out x @ c1) (dbg_out x)) })
       else Some (Compiled (c_out x @ c1_out x @ write_blk 0 (length page) @ [10] @ lit ''}'' @ [10]) page) })"

text \<open>The files written for a page: its C file, its data in packed form and its line in the index. The result is the
  exit status; a page that is left out has no files and the status 0.\<close>

record compiled =
  web_c :: bytes
  web_bin :: bytes
  index_line :: bytes

definition compile :: "(bytes \<Rightarrow> bytes) \<Rightarrow> bytes \<Rightarrow> bytes option \<Rightarrow> bytes \<Rightarrow> bytes \<Rightarrow> bytes option \<Rightarrow> bytes \<Rightarrow>
    (int \<times> compiled option) option" where
  "compile lzma ctime optfile infile prefix content pflag = (case content of
     None \<Rightarrow> Some (-1, None)
   | Some page \<Rightarrow> do {
      let inputf = (if is_prefix prefix infile then drop (length prefix) infile else infile);
      (process_inline_c, basic_name) \<leftarrow> proc_file_type inputf;
      r \<leftarrow> compile_page ctime optfile basic_name process_inline_c page;
      Some (0, case r of
        Bad \<Rightarrow> None
      | Compiled c data \<Rightarrow>
          let bin = (if has_sub pflag (lit ''WEBP_COMPRESS'') then lzma data else data)
          in Some \<lparr>web_c = c, web_bin = bin, index_line = lit ''{ '' @ [34] @ inputf @ [34] @ lit '', web_'' @ basic_name @ lit '', '' @
               dec_nat (length bin) @ lit '', '' @ pflag @ lit '', (void *)0, NULL, 0 },'' @ [10]\<rparr>) })"

end
