(* ===== verification/PageCompilerFacts.thy ===== *)
theory PageCompilerFacts
  imports PageCompiler
begin

text \<open>
  What the page compiler does with a well-formed page. A page is a list of items; \<open>print_items\<close> is its text, and
  \<open>render\<close> what is left of it: demo parts vanish, real parts and the optional parts that are taken stay, nested to any
  depth. \<open>proc_tag\<close> turns the one into the other.
\<close>

section \<open>Pages\<close>

datatype item =
    Text bytes
  | Demo style bytes
  | Real style "item list"
  | Opt style bool bytes "item list"

fun demo_tags :: "style \<Rightarrow> bytes \<times> bytes" where
  "demo_tags Js = (lit ''/*DEMO*/'', lit ''/*END_DEMO*/'')"
| "demo_tags Html = (lit ''<!--DEMO-->'', lit ''<!--END_DEMO-->'')"

fun real_tags :: "style \<Rightarrow> bytes \<times> bytes" where
  "real_tags Js = (lit ''/*REAL'', lit ''REAL*/'')"
| "real_tags Html = (lit ''<!--REAL'', lit ''REAL-->'')"

definition opt_mark :: "bool \<Rightarrow> bytes" where
  "opt_mark negated = (if negated then OPT_NOT_DEFINE else OPT_DEFINE)"

fun print_item :: "item \<Rightarrow> bytes" where
  "print_item (Text t) = t"
| "print_item (Demo y t) = fst (demo_tags y) @ t @ snd (demo_tags y)"
| "print_item (Real y is) = fst (real_tags y) @ concat (map print_item is) @ snd (real_tags y)"
| "print_item (Opt y negated name is) =
    opt_begin y @ opt_mark negated @ name @ opt_tail y @ concat (map print_item is) @ opt_end y"

abbreviation print_items :: "item list \<Rightarrow> bytes" where
  "print_items is \<equiv> concat (map print_item is)"

fun render :: "bytes option \<Rightarrow> item \<Rightarrow> bytes" where
  "render optfile (Text t) = t"
| "render optfile (Demo y t) = []"
| "render optfile (Real y is) = concat (map (render optfile) is)"
| "render optfile (Opt y negated name is) = (if opt_taken optfile negated name then concat (map (render optfile) is) else [])"

text \<open>Text contains no tag, and does not end with the beginning of one.\<close>

definition apart :: "bytes \<Rightarrow> bytes \<Rightarrow> bool" where
  "apart u v \<longleftrightarrow> take (length v) u \<noteq> take (length u) v"

definition tags :: "bytes list" where
  "tags = map fst removed_blocks @ removed_tags @
     [opt_begin Js, opt_begin Html, opt_end Js, opt_end Html, page_option, lit ''/*END_DEMO*/'', lit ''<!--END_DEMO-->'']"

definition text_ok :: "bytes \<Rightarrow> bool" where
  "text_ok t \<longleftrightarrow> list_all (\<lambda>i. list_all (apart (drop i t)) tags) [0..<length t] \<and> 0 \<notin> set t \<and> (t \<noteq> [] \<longrightarrow> hd t \<noteq> 42)"

definition opt_name_ok :: "bytes \<Rightarrow> bool" where
  "opt_name_ok name \<longleftrightarrow> list_all (\<lambda>b. b \<notin> {0, 42, 45, 47, 60}) name"

fun item_ok :: "item \<Rightarrow> bool" where
  "item_ok (Text t) \<longleftrightarrow> text_ok t"
| "item_ok (Demo y t) \<longleftrightarrow> text_ok t"
| "item_ok (Real y is) \<longleftrightarrow> list_all item_ok is"
| "item_ok (Opt y negated name is) \<longleftrightarrow> opt_name_ok name \<and> list_all item_ok is"

section \<open>Occurrences of a tag\<close>

definition occ :: "bytes \<Rightarrow> nat \<Rightarrow> bytes \<Rightarrow> bytes \<Rightarrow> nat list" where
  "occ n i s rest = map (\<lambda>j. i + j) (filter (\<lambda>j. is_prefix n (drop j s @ rest)) [0..<length s])"

lemma occ_Nil [simp]: "occ n i [] rest = []"
  by (simp add: occ_def)

lemma occ_Cons: "occ n i (b # s) rest = (if is_prefix n (b # s @ rest) then [i] else []) @ occ n (Suc i) s rest"
proof -
  have "[0..<length (b # s)] = 0 # map Suc [0..<length s]" by (simp add: map_Suc_upt upt_conv_Cons del: upt_Suc)
  then show ?thesis by (simp add: occ_def filter_map o_def del: upt_Suc)
qed

lemma occ_append: "occ n i (s @ t) rest = occ n i s (t @ rest) @ occ n (i + length s) t rest"
  by (induction s arbitrary: i) (simp_all add: occ_Cons)

lemma is_prefix_apart: "apart u v \<Longrightarrow> \<not> is_prefix v (u @ r)"
proof
  assume "apart u v" and p: "is_prefix v (u @ r)"
  have "take (length v) u = take (length u) v"
  proof (cases "length u \<le> length v")
    case True
    then have "take (length u) v = take (length u) (take (length v) (u @ r))" using p by (simp add: is_prefix_def)
    then show ?thesis using True by simp
  next
    case False
    then show ?thesis using p by (simp add: is_prefix_def)
  qed
  with \<open>apart u v\<close> show False by (simp add: apart_def)
qed

lemma occ_text: "text_ok t \<Longrightarrow> n \<in> set tags \<Longrightarrow> occ n i t rest = []"
  using is_prefix_apart by (auto simp: occ_def text_ok_def list_all_iff filter_empty_conv)

lemma is_prefix_Nil [simp]: "is_prefix [] s"
  by (simp add: is_prefix_def)

lemma is_prefix_Cons [simp]: "is_prefix (a # p) (b # s) \<longleftrightarrow> a = b \<and> is_prefix p s" "\<not> is_prefix (a # p) []"
  by (auto simp: is_prefix_def)

definition follows :: "bytes \<Rightarrow> bool" where
  "follows r \<longleftrightarrow> r = [] \<or> hd r \<noteq> 42"

lemma follows_Cons [simp]: "follows []" "follows (b # r) \<longleftrightarrow> b \<noteq> 42"
  by (simp_all add: follows_def)

text \<open>The four tags that delimit options, in the text of the other tags and of option heads.\<close>

lemma slash_prefix: "follows r \<Longrightarrow> \<not> is_prefix (47 # 42 # p) (47 # r)"
  by (cases r) auto

definition opt_tag :: "bool \<Rightarrow> style \<Rightarrow> bytes" where
  "opt_tag closing y = (if closing then opt_end y else opt_begin y)"

lemma opt_tag_tags: "opt_tag c y \<in> set tags"
  by (cases c; cases y; simp add: opt_tag_def tags_def)

lemmas occ_lit = lit_simps occ_Cons opt_tag_def OPT_DEFINE_def OPT_NOT_DEFINE_def opt_mark_def

lemma occ_demo_tags:
  assumes "follows r"
  shows "occ (opt_tag c y) i (fst (demo_tags z)) r = []" "occ (opt_tag c y) i (snd (demo_tags z)) r = []"
  using slash_prefix [OF assms] by (cases z; cases y; cases c; simp add: occ_lit)+

lemma occ_real_tags:
  assumes "follows r"
  shows "occ (opt_tag c y) i (fst (real_tags z)) r = []" "occ (opt_tag c y) i (snd (real_tags z)) r = []"
  using slash_prefix [OF assms] by (cases z; cases y; cases c; simp add: occ_lit)+

lemma occ_opt_tags:
  assumes "follows r"
  shows "occ (opt_tag c y) i (opt_tag d z) r = (if c = d \<and> y = z then [i] else [])"
    "occ (opt_tag c y) i (opt_tail z) r = []"
  using slash_prefix [OF assms] by (cases z; cases y; cases c; cases d; simp add: occ_lit)+

lemma occ_mark: "occ (opt_tag c y) i (opt_mark negated) r = []"
  by (cases negated; cases y; cases c; simp add: occ_lit)

lemma occ_name: "opt_name_ok name \<Longrightarrow> occ (opt_tag c y) i name r = []"
  by (induction name arbitrary: i) (cases y; cases c; auto simp: occ_lit opt_name_ok_def)+

section \<open>The options of a page\<close>

text \<open>Where the options of a style begin and end, from position \<open>i\<close> on.\<close>

fun events :: "bool \<Rightarrow> style \<Rightarrow> nat \<Rightarrow> item \<Rightarrow> nat list" and
  events_list :: "bool \<Rightarrow> style \<Rightarrow> nat \<Rightarrow> item list \<Rightarrow> nat list" where
  "events c y i (Text t) = []"
| "events c y i (Demo z t) = []"
| "events c y i (Real z is) = events_list c y (i + length (fst (real_tags z))) is"
| "events c y i (Opt z negated name is) =
    (let j = i + length (opt_begin z) + length (opt_mark negated) + length name + length (opt_tail z)
     in (if \<not> c \<and> y = z then [i] else []) @ events_list c y j is @ (if c \<and> y = z then [j + length (print_items is)] else []))"
| "events_list c y i [] = []"
| "events_list c y i (it # is) = events c y i it @ events_list c y (i + length (print_item it)) is"

lemma follows_append: "follows r \<Longrightarrow> s = [] \<or> hd s \<noteq> 42 \<Longrightarrow> follows (s @ r)"
  by (cases s) auto

lemma follows_pieces [simp]: "follows (fst (demo_tags z) @ r)" "follows (snd (demo_tags z) @ r)"
  "follows (fst (real_tags z) @ r)" "follows (snd (real_tags z) @ r)" "follows (opt_begin z @ r)" "follows (opt_end z @ r)"
  "follows (opt_mark negated @ r)"
  by (cases z; cases negated; simp add: lit_simps opt_mark_def OPT_DEFINE_def OPT_NOT_DEFINE_def)+

lemma follows_item: "item_ok it \<Longrightarrow> follows r \<Longrightarrow> follows (print_item it @ r)"
  by (cases it) (auto simp: text_ok_def intro: follows_append)

lemma follows_items: "list_all item_ok is \<Longrightarrow> follows r \<Longrightarrow> follows (print_items is @ r)"
  by (induction "is") (auto simp: follows_item)

lemma follows_text: "text_ok t \<Longrightarrow> follows r \<Longrightarrow> follows (t @ r)"
  by (auto simp: text_ok_def intro: follows_append)

lemma occ_item:
  "item_ok it \<Longrightarrow> follows r \<Longrightarrow> occ (opt_tag c y) i (print_item it) r = events c y i it"
  "list_all item_ok is \<Longrightarrow> follows r \<Longrightarrow> occ (opt_tag c y) i (print_items is) r = events_list c y i is"
proof (induction c y i it and c y i "is" arbitrary: r and r rule: events_events_list.induct)
  case (1 c y i t)
  then show ?case by (simp add: occ_text opt_tag_tags)
next
  case (2 c y i z t)
  then show ?case by (simp add: occ_append occ_demo_tags occ_text opt_tag_tags follows_text)
next
  case (3 c y i z "is")
  then show ?case by (simp add: occ_append occ_real_tags follows_items)
next
  case (4 c y i z negated name "is")
  define j where "j = i + length (opt_begin z) + length (opt_mark negated) + length name + length (opt_tail z)"
  have body: "occ (opt_tag c y) j (print_items is) (opt_end z @ r) = events_list c y j is"
    using "4.IH" "4.prems" by (simp add: j_def)
  have f: "follows (opt_end z @ r)" "follows (print_items is @ opt_end z @ r)" using "4.prems" by (simp_all add: follows_items)
  have head: "occ (opt_tag d x) i (opt_begin z) r' = (if \<not> d \<and> x = z then [i] else [])" if "follows r'" for r' d x
    using occ_opt_tags(1) [OF that, of d x i False z] by (simp add: opt_tag_def)
  have close: "occ (opt_tag d x) k (opt_end z) r = (if d \<and> x = z then [k] else [])" for k d x
    using occ_opt_tags(1) [of r d x k True z] "4.prems" by (simp add: opt_tag_def)
  have name: "occ (opt_tag d x) k name r' = []" for k r' d x using "4.prems" by (simp add: occ_name)
  show ?case
    using body unfolding j_def
    by (cases c; cases "y = z") (simp_all add: occ_append Let_def add.assoc head close name occ_mark f occ_opt_tags(2) [OF f(2)])
qed (simp_all add: occ_append follows_items)


lemma occ_shift: "occ n (Suc i) s r = map Suc (occ n i s r)"
  by (simp add: occ_def)

lemma occ_bounds: "j \<in> set (occ n i s r) \<Longrightarrow> i \<le> j \<and> j < i + length s"
  by (auto simp: occ_def)

definition first :: "nat list \<Rightarrow> nat option" where
  "first js = (case js of [] \<Rightarrow> None | j # _ \<Rightarrow> Some j)"

lemma first_simps [simp]: "first [] = None" "first (j # js) = Some j"
  by (simp_all add: first_def)

lemma strstr_occ: "n \<noteq> [] \<Longrightarrow> map_option (\<lambda>k. i + k) (strstr s n) = first (occ n i s [])"
proof (induction s arbitrary: i)
  case (Cons b s)
  then show ?case using Cons.IH [of "Suc i"]
    by (auto simp: occ_Cons option.map_comp o_def)
qed simp

lemma find_in_occ:
  assumes "is_cstr s" and "n \<noteq> []"
  shows "find_in s e n = first (filter (\<lambda>j. e \<le> j) (occ n 0 s []))"
proof (cases "e \<le> length s")
  case True
  have tw: "takeWhile (\<lambda>b. b \<noteq> 0) (drop e s) = drop e s"
    using assms(1) by (fastforce simp: is_cstr_def takeWhile_eq_all_conv dest: in_set_dropD)
  have "find_in s e n = first (occ n e (drop e s) [])" by (simp only: find_in_def tw strstr_occ [OF assms(2)])
  moreover have "occ n 0 s [] = occ n 0 (take e s) (drop e s) @ occ n e (drop e s) []"
    using occ_append [of n 0 "take e s" "drop e s" "[]"] True by simp
  moreover have "filter (\<lambda>j. e \<le> j) (occ n 0 (take e s) (drop e s)) = []"
    using occ_bounds True by (fastforce simp: filter_empty_conv)
  moreover have "filter (\<lambda>j. e \<le> j) (occ n e (drop e s) []) = occ n e (drop e s) []"
    using occ_bounds by (fastforce simp: filter_id_conv)
  ultimately show ?thesis by simp
next
  case False
  then have "filter (\<lambda>j. e \<le> j) (occ n 0 s []) = []" using occ_bounds by (fastforce simp: filter_empty_conv)
  then show ?thesis using False assms(2) by (simp add: find_in_def)
qed

text \<open>Each begin of an inner option stands before the end with the same number.\<close>

lemma match_loop:
  assumes s: "is_cstr s"
  shows "filter (\<lambda>j. e \<le> j) (occ (opt_end y) 0 s []) = es @ c # others \<Longrightarrow>
    filter (\<lambda>j. p \<le> j) (occ (opt_begin y) 0 s []) = bs @ later \<Longrightarrow>
    list_all2 (\<lambda>b d. b + length (opt_begin y) < d) bs es \<Longrightarrow>
    sorted_wrt (\<lambda>a b. a + length (opt_end y) \<le> b) (es @ [c]) \<Longrightarrow> sorted_wrt (\<lambda>a b. a + length (opt_begin y) \<le> b) bs \<Longrightarrow>
    \<forall>x\<in>set others. c < x \<Longrightarrow> \<forall>x\<in>set later. c < x \<Longrightarrow> match_end y s e p = Some c"
proof (induction es arbitrary: bs e p)
  case Nil
  then show ?case
    by (subst match_end.simps) (cases later; simp add: find_in_occ [OF s])
next
  case (Cons d es)
  obtain b bs' where bs: "bs = b # bs'" "b + length (opt_begin y) < d" "list_all2 (\<lambda>b d. b + length (opt_begin y) < d) bs' es"
    using Cons.prems(3) by (auto simp: list_all2_Cons2)
  let ?e = "d + length (opt_end y)" and ?p = "b + length (opt_begin y)"
  have "e \<le> d" using Cons.prems(1) by (metis append_Cons filter_eq_Cons_iff)
  have "p \<le> b" using Cons.prems(2) unfolding bs(1) by (metis append_Cons filter_eq_Cons_iff)
  have "filter (\<lambda>j. ?e \<le> j) (occ (opt_end y) 0 s []) = filter (\<lambda>j. ?e \<le> j) (filter (\<lambda>j. e \<le> j) (occ (opt_end y) 0 s []))"
    using \<open>e \<le> d\<close> by (auto intro: filter_cong)
  also have "\<dots> = es @ c # others"
    unfolding Cons.prems(1) using Cons.prems(4,6) by (fastforce simp: filter_id_conv sorted_wrt_append)
  finally have 1: "filter (\<lambda>j. ?e \<le> j) (occ (opt_end y) 0 s []) = es @ c # others" .
  have c: "d < c" using Cons.prems(4) tags_ne(2) [of y] by (cases "opt_end y") auto
  have "filter (\<lambda>j. ?p \<le> j) (occ (opt_begin y) 0 s []) = filter (\<lambda>j. ?p \<le> j) (filter (\<lambda>j. p \<le> j) (occ (opt_begin y) 0 s []))"
    using \<open>p \<le> b\<close> by (auto intro: filter_cong)
  also have "\<dots> = bs' @ later"
    unfolding Cons.prems(2) bs(1) using Cons.prems(5,7) bs(1,2) c tags_ne(1) [of y]
    by (fastforce simp: filter_id_conv)
  finally have 2: "filter (\<lambda>j. ?p \<le> j) (occ (opt_begin y) 0 s []) = bs' @ later" .
  have "match_end y s ?e ?p = Some c"
    using Cons.IH [OF 1 2 bs(3)] Cons.prems(4-7) bs(1) by simp
  then show ?case
    using Cons.prems(1,2) bs(1,2) by (subst match_end.simps) (simp add: find_in_occ [OF s])
qed

section \<open>Nested options\<close>

lemma list_all2_shift:
  fixes l :: nat
  assumes "list_all2 (\<lambda>b d. b + l < d) bs ds" and "sorted_wrt (<) ds" and "\<forall>d\<in>set ds. k + l < d \<and> d < c" and "k + l < c"
  shows "list_all2 (\<lambda>b d. b + l < d) (k # bs) (ds @ [c])"
  using assms
proof (induction bs ds arbitrary: k rule: list_all2_induct)
  case (Cons b bs d ds)
  have "\<forall>d'\<in>set ds. b + l < d' \<and> d' < c"
    using less_trans [OF Cons.hyps(1)] Cons.prems(1,2) by (simp add: Ball_def)
  moreover have "b + l < c" using less_trans [OF Cons.hyps(1), of c] Cons.prems(2) by simp
  ultimately have "list_all2 (\<lambda>b d. b + l < d) (b # bs) (ds @ [c])"
    using Cons.IH [of b] Cons.prems(1) by simp
  then show ?case using Cons.prems by simp
qed simp

lemma length_opt_tag: "0 < length (opt_tag c y)" "length (opt_tag False y) = length (opt_begin y)" "length (opt_tag True y) = length (opt_end y)"
  by (cases c; cases y; simp add: opt_tag_def lit_simps)+

lemma length_mark: "0 < length (opt_mark negated)"
  by (simp add: opt_mark_def OPT_DEFINE_def OPT_NOT_DEFINE_def lit_simps)

lemma events_in:
  "\<forall>e\<in>set (events c y i it). i \<le> e \<and> e + length (opt_tag c y) \<le> i + length (print_item it)"
  "\<forall>e\<in>set (events_list c y i is). i \<le> e \<and> e + length (opt_tag c y) \<le> i + length (print_items is)"
  by (induction c y i it and c y i "is" rule: events_events_list.induct)
    (force simp: Let_def opt_tag_def)+

lemma events_spaced:
  "sorted_wrt (\<lambda>a b. a + length (opt_tag c y) \<le> b) (events c y i it)"
  "sorted_wrt (\<lambda>a b. a + length (opt_tag c y) \<le> b) (events_list c y i is)"
proof (induction c y i it and c y i "is" rule: events_events_list.induct)
  case (4 c y i z negated name "is")
  then show ?case using events_in(2) [of c y _ "is"]
    by (force simp: Let_def sorted_wrt_append opt_tag_def)
next
  case (6 c y i it "is")
  then show ?case using events_in(1) [of c y i it] events_in(2) [of c y "i + length (print_item it)" "is"]
    by (force simp: sorted_wrt_append)
qed simp_all

lemma events_sorted: "sorted_wrt (<) (events_list c y i is)"
  using events_spaced(2) by (rule sorted_wrt_mono_rel [rotated]) (use length_opt_tag(1) [of c y] in linarith)

lemma events_paired:
  "list_all2 (\<lambda>b d. b + length (opt_begin y) < d) (events c y i it) (events True y i it) \<or> c"
  "list_all2 (\<lambda>b d. b + length (opt_begin y) < d) (events_list c y i is) (events_list True y i is) \<or> c"
proof (induction c y i it and c y i "is" rule: events_events_list.induct)
  case (4 c y i z negated name "is")
  define j where "j = i + length (opt_begin z) + length (opt_mark negated) + length name + length (opt_tail z)"
  have body: "c \<or> list_all2 (\<lambda>b d. b + length (opt_begin y) < d) (events_list c y j is) (events_list True y j is)"
    using "4.IH" by (auto simp: j_def)
  show ?case
  proof (cases "c \<or> y \<noteq> z")
    case True
    then show ?thesis using body by (auto simp: j_def Let_def)
  next
    case False
    have "i + length (opt_begin z) < j" using length_mark by (simp add: j_def)
    moreover have "\<forall>d\<in>set (events_list True z j is). i + length (opt_begin z) < d \<and> d < j + length (print_items is)"
      using events_in(2) [of True z j "is"] length_opt_tag(1) [of True z] calculation
      by (meson add_less_cancel_left le_trans less_le_trans not_le less_add_same_cancel1)
    ultimately have "list_all2 (\<lambda>b d. b + length (opt_begin z) < d) (i # events_list False z j is)
        (events_list True z j is @ [j + length (print_items is)])"
      using body False by (intro list_all2_shift events_sorted) auto
    then show ?thesis using False by (simp add: j_def Let_def)
  qed
next
  case (6 c y i it "is")
  then show ?case by (auto intro: list_all2_appendI)
qed simp_all

section \<open>Reading an option\<close>

lemma cstr_tags [simp]: "is_cstr (opt_begin y)" "is_cstr (opt_end y)" "is_cstr (opt_tail y)" "is_cstr (opt_mark negated)"
  "is_cstr (fst (demo_tags y))" "is_cstr (snd (demo_tags y))" "is_cstr (fst (real_tags y))" "is_cstr (snd (real_tags y))"
  by (cases y; cases negated; simp add: lit_simps opt_mark_def OPT_DEFINE_def OPT_NOT_DEFINE_def is_cstr_def)+

lemma cstr_text: "text_ok t \<Longrightarrow> is_cstr t"
  by (simp add: text_ok_def is_cstr_def)

lemma cstr_name: "opt_name_ok name \<Longrightarrow> is_cstr name"
  by (auto simp: opt_name_ok_def is_cstr_def list_all_iff)

lemma cstr_concat: "(\<And>x. x \<in> set is \<Longrightarrow> is_cstr (f x)) \<Longrightarrow> is_cstr (concat (map f is))"
  by (auto simp: is_cstr_def)

lemma cstr_item: "item_ok it \<Longrightarrow> is_cstr (print_item it)"
  by (induction it) (auto simp: cstr_text cstr_name list_all_iff intro!: cstr_concat)

lemma cstr_items: "list_all item_ok is \<Longrightarrow> is_cstr (print_items is)"
  by (induction "is") (auto simp: cstr_item)

lemma match_end_option:
  assumes ok: "opt_name_ok name" "list_all item_ok is" and rest: "is_cstr rest" "follows rest"
  shows "match_end y (opt_begin y @ opt_mark negated @ name @ opt_tail y @ print_items is @ opt_end y @ rest)
      (length (opt_begin y)) (length (opt_begin y)) =
    Some (length (opt_begin y) + length (opt_mark negated) + length name + length (opt_tail y) + length (print_items is))"
proof -
  let ?L = "length (opt_begin y)"
  define j where "j = ?L + length (opt_mark negated) + length name + length (opt_tail y)"
  define c where "c = j + length (print_items is)"
  let ?s = "opt_begin y @ opt_mark negated @ name @ opt_tail y @ print_items is @ opt_end y @ rest"
  let ?es = "events_list True y j is" and ?bs = "events_list False y j is"
  have s: "is_cstr ?s" using rest ok(1) cstr_items [OF ok(2)] by (simp add: cstr_name)
  have it: "item_ok (Opt y negated name is)" using ok by simp
  have all: "occ (opt_tag d y) 0 ?s [] = events d y 0 (Opt y negated name is) @ occ (opt_tag d y) (c + length (opt_end y)) rest []" for d
  proof -
    have "occ (opt_tag d y) 0 (print_item (Opt y negated name is) @ rest) [] =
        events d y 0 (Opt y negated name is) @ occ (opt_tag d y) (length (print_item (Opt y negated name is))) rest []"
      using occ_item(1) [OF it rest(2), of d y 0] by (simp add: occ_append del: print_item.simps item_ok.simps events.simps)
    then show ?thesis by (simp add: c_def j_def add.assoc)
  qed
  have in_es: "\<forall>x\<in>set ?es. j \<le> x \<and> x + length (opt_end y) \<le> c" and in_bs: "\<forall>x\<in>set ?bs. j \<le> x"
    using events_in(2) [of True y j "is"] events_in(2) [of False y j "is"] by (auto simp: c_def opt_tag_def)
  have L: "?L \<le> j" "j \<le> c" "0 < ?L" by (simp_all add: j_def c_def)
  have ends: "occ (opt_end y) 0 ?s [] = ?es @ c # occ (opt_end y) (c + length (opt_end y)) rest []"
    using all [of True] by (simp add: opt_tag_def j_def c_def Let_def add.assoc)
  have begins: "occ (opt_begin y) 0 ?s [] = 0 # ?bs @ occ (opt_begin y) (c + length (opt_end y)) rest []"
    using all [of False] by (simp add: opt_tag_def j_def c_def Let_def add.assoc)
  have after: "\<forall>x\<in>set (occ n (c + length (opt_end y)) rest []). c < x \<and> ?L \<le> x" for n
  proof
    fix x assume "x \<in> set (occ n (c + length (opt_end y)) rest [])"
    then have "c + length (opt_end y) \<le> x" using occ_bounds by blast
    then show "c < x \<and> ?L \<le> x" using L length_opt_tag(1) [of True y] length_opt_tag(3) [of y] by linarith
  qed
  have e: "filter (\<lambda>x. ?L \<le> x) (occ (opt_end y) 0 ?s []) = ?es @ c # occ (opt_end y) (c + length (opt_end y)) rest []"
    unfolding ends using in_es L after [of "opt_end y"] by (intro filter_True) auto
  have b: "filter (\<lambda>x. ?L \<le> x) (occ (opt_begin y) 0 ?s []) = ?bs @ occ (opt_begin y) (c + length (opt_end y)) rest []"
  proof -
    have "filter (\<lambda>x. ?L \<le> x) (?bs @ occ (opt_begin y) (c + length (opt_end y)) rest []) = ?bs @ occ (opt_begin y) (c + length (opt_end y)) rest []"
      using in_bs L after [of "opt_begin y"] by (intro filter_True) auto
    then show ?thesis unfolding begins using L(3) by simp
  qed
  have "match_end y ?s ?L ?L = Some c"
  proof (rule match_loop [OF s e b])
    show "list_all2 (\<lambda>b d. b + ?L < d) ?bs ?es" using events_paired(2) [of y False j "is"] by simp
    show "sorted_wrt (\<lambda>a b. a + length (opt_end y) \<le> b) (?es @ [c])"
      using events_spaced(2) [of True y j "is"] in_es by (simp add: sorted_wrt_append opt_tag_def)
    show "sorted_wrt (\<lambda>a b. a + ?L \<le> b) ?bs" using events_spaced(2) [of False y j "is"] by (simp add: opt_tag_def)
  qed (use after in auto)
  then show ?thesis by (simp add: c_def j_def)
qed

lemma strstr_skip: "\<forall>b\<in>set name. b \<noteq> hd t \<Longrightarrow> t \<noteq> [] \<Longrightarrow> strstr (name @ t @ r) t = Some (length name)"
proof (induction name)
  case Nil
  then show ?case by (cases t) (simp_all add: is_prefix_def)
next
  case (Cons b name)
  then show ?case by (cases t) auto
qed

lemma find_in_skip:
  assumes "is_cstr (u @ name @ t @ r)" and "\<forall>b\<in>set name. b \<noteq> hd t" and "t \<noteq> []"
  shows "find_in (u @ name @ t @ r) (length u) t = Some (length u + length name)"
proof -
  have "takeWhile (\<lambda>b. b \<noteq> 0) (drop (length u) (u @ name @ t @ r)) = name @ t @ r"
    using assms(1) by (fastforce simp: is_cstr_def takeWhile_eq_all_conv)
  then show ?thesis using strstr_skip [OF assms(2,3)] by (simp only: find_in_def option.map)
qed

lemma mark_prefix: "is_prefix OPT_NOT_DEFINE (opt_mark negated @ r) \<longleftrightarrow> negated" "is_prefix OPT_DEFINE (opt_mark negated @ r) \<longleftrightarrow> \<not> negated"
  by (cases negated; simp add: opt_mark_def OPT_DEFINE_def OPT_NOT_DEFINE_def lit_simps)+

lemma opt_name_option:
  assumes ok: "opt_name_ok name" and rest: "is_cstr rest"
  shows "opt_name (opt_tail y) (opt_begin y @ opt_mark negated @ name @ opt_tail y @ rest) (length (opt_begin y)) =
    Some (negated, name, length (opt_begin y) + length (opt_mark negated) + length name + length (opt_tail y))"
proof -
  have "is_cstr ((opt_begin y @ opt_mark negated) @ name @ opt_tail y @ rest)" using rest by (simp add: cstr_name [OF ok])
  moreover have "\<forall>b\<in>set name. b \<noteq> hd (opt_tail y)"
    using ok by (cases y) (auto simp: opt_name_ok_def list_all_iff lit_simps)
  ultimately have "find_in ((opt_begin y @ opt_mark negated) @ name @ opt_tail y @ rest) (length (opt_begin y @ opt_mark negated)) (opt_tail y) =
      Some (length (opt_begin y @ opt_mark negated) + length name)"
    by (rule find_in_skip) simp
  then have found: "find_in (opt_begin y @ opt_mark negated @ name @ opt_tail y @ rest) (length (opt_begin y) + length (opt_mark negated)) (opt_tail y) =
      Some (length (opt_begin y) + length (opt_mark negated) + length name)"
    by simp
  show ?thesis
  proof (cases negated)
    case True
    then show ?thesis using found by (simp add: opt_name_def Let_def mark_prefix) (simp add: opt_mark_def)
  next
    case False
    then show ?thesis using found by (simp add: opt_name_def Let_def mark_prefix) (simp add: opt_mark_def)
  qed
qed


section \<open>The result of the filter\<close>

lemma append_result_simps [simp]: "append_result [] [] 0 r = r"
  "append_result u zs k (append_result v zs' l r) = append_result (u @ v) (zs @ map (\<lambda>z. k + z) zs') (k + l) r"
  "append_result u zs k (Inr (v, zs')) = Inr (u @ v, zs @ map (\<lambda>z. k + z) zs')"
  by (cases r; simp add: append_result_def case_prod_beta add.assoc)+

lemma no_tag:
  assumes "\<forall>v\<in>set tags. apart u v"
  shows "find (\<lambda>(b, e). is_prefix b (u @ r)) removed_blocks = None" "find (\<lambda>t. is_prefix t (u @ r)) removed_tags = None"
    "\<not> is_prefix (opt_begin Js) (u @ r)" "\<not> is_prefix (opt_begin Html) (u @ r)" "\<not> is_prefix page_option (u @ r)"
proof -
  have *: "\<not> is_prefix v (u @ r)" if "v \<in> set tags" for v using assms that is_prefix_apart by blast
  show "find (\<lambda>(b, e). is_prefix b (u @ r)) removed_blocks = None"
  proof -
    have "b \<in> set tags" if "(b, e) \<in> set removed_blocks" for b e using imageI [OF that, of fst] by (simp add: tags_def)
    then show ?thesis unfolding find_None_iff using * by auto
  qed
  show "find (\<lambda>t. is_prefix t (u @ r)) removed_tags = None"
  proof -
    have "t \<in> set tags" if "t \<in> set removed_tags" for t using that by (simp add: tags_def)
    then show ?thesis unfolding find_None_iff using * by auto
  qed
  show "\<not> is_prefix (opt_begin Js) (u @ r)" "\<not> is_prefix (opt_begin Html) (u @ r)" "\<not> is_prefix page_option (u @ r)"
    by (rule *; simp add: tags_def del: opt_begin.simps)+
qed

lemma proc_tag_text:
  "\<forall>i<length t. \<forall>v\<in>set tags. apart (drop i t) v \<Longrightarrow> length t \<le> n \<Longrightarrow>
    proc_tag optfile n (t @ rest) = append_result t [] (length t) (proc_tag optfile (n - length t) rest)"
proof (induction t arbitrary: n)
  case (Cons b t)
  have "\<forall>v\<in>set tags. apart (b # t) v" using Cons.prems(1) by (metis drop0 length_greater_0_conv list.discI)
  note no = no_tag [OF this, of rest, simplified]
  have "\<forall>i<length t. \<forall>v\<in>set tags. apart (drop i t) v" using Cons.prems(1) by (metis Suc_less_eq drop_Suc_Cons length_Cons)
  from Cons.IH [OF this, of "n - Suc 0"] have IH: "proc_tag optfile (n - Suc 0) (t @ rest) = append_result t [] (length t) (proc_tag optfile (n - Suc (length t)) rest)"
    using Cons.prems(2) by simp
  show ?case using Cons.prems(2) by (subst proc_tag.simps) (simp add: no IH)
qed simp

lemma text_apart: "text_ok t \<Longrightarrow> \<forall>i<length t. \<forall>v\<in>set tags. apart (drop i t) v"
  by (auto simp: text_ok_def list_all_iff)

lemma demo_end_tags: "snd (demo_tags y) \<in> set tags"
  by (cases y) (simp_all add: tags_def)

lemma is_prefix_self [simp]: "is_prefix p (p @ r)"
  by (simp add: is_prefix_def)

lemma occ_self: "n \<noteq> [] \<Longrightarrow> \<exists>js. occ n k n r = k # js"
  by (cases n) (use is_prefix_self [of n r] in \<open>simp_all add: occ_Cons\<close>)

lemma demo_end_first:
  assumes "text_ok t" and "is_cstr r" and "follows r"
  shows "find_in (fst (demo_tags y) @ t @ snd (demo_tags y) @ r) 0 (snd (demo_tags y)) = Some (length (fst (demo_tags y)) + length t)"
proof -
  have s: "is_cstr (fst (demo_tags y) @ t @ snd (demo_tags y) @ r)" using assms by (simp add: cstr_text)
  have f: "follows (t @ snd (demo_tags y) @ r)" using assms by (simp add: follows_text)
  have 1: "occ (snd (demo_tags y)) 0 (fst (demo_tags y)) (t @ snd (demo_tags y) @ r) = []"
    using slash_prefix [OF f] by (cases y; simp add: occ_lit)
  have ne: "snd (demo_tags y) \<noteq> []" by (cases y; simp add: lit_simps)
  obtain js where "occ (snd (demo_tags y)) (length (fst (demo_tags y)) + length t) (snd (demo_tags y)) r = (length (fst (demo_tags y)) + length t) # js"
    using occ_self [OF ne] by blast
  then show ?thesis
    unfolding find_in_occ [OF s ne] by (simp add: occ_append 1 occ_text [OF assms(1) demo_end_tags] del: append_assoc)
qed


lemma proc_tag_0 [simp]: "proc_tag optfile 0 s = Inr ([], [])"
  by (subst proc_tag.simps) simp

lemma proc_tag_demo:
  assumes "text_ok t" and "is_cstr r" and "follows r" and n: "length (print_item (Demo y t)) \<le> n"
  shows "proc_tag optfile n (print_item (Demo y t) @ r) =
    append_result [] [] (length (print_item (Demo y t))) (proc_tag optfile (n - length (print_item (Demo y t))) r)"
proof -
  define s where "s = fst (demo_tags y) @ t @ snd (demo_tags y) @ r"
  have "find (\<lambda>(b, e). is_prefix b s) removed_blocks = Some (demo_tags y)"
    by (cases y; simp add: s_def removed_blocks_def lit_simps)
  moreover have "n \<noteq> 0" using n by (cases y; simp add: lit_simps)
  moreover have "s \<noteq> []" by (cases y; simp add: s_def lit_simps)
  ultimately have "proc_tag optfile n s =
      (case find_in s 0 (snd (demo_tags y)) of None \<Rightarrow> Inl (-1)
       | Some k \<Rightarrow> append_result [] [] (k + length (snd (demo_tags y)))
           (proc_tag optfile (n - (k + length (snd (demo_tags y)))) (drop (k + length (snd (demo_tags y))) s)))"
    by (subst proc_tag.simps) (simp add: case_prod_beta)
  moreover have "find_in s 0 (snd (demo_tags y)) = Some (length (fst (demo_tags y)) + length t)"
    unfolding s_def by (rule demo_end_first [OF assms(1-3)])
  ultimately show ?thesis by (simp add: s_def add.assoc)
qed

lemma proc_tag_mark:
  assumes "v = fst (real_tags y) \<or> v = snd (real_tags y)" and n: "length v \<le> n"
  shows "proc_tag optfile n (v @ r) = append_result [] [] (length v) (proc_tag optfile (n - length v) r)"
proof -
  have "find (\<lambda>(b, e). is_prefix b (v @ r)) removed_blocks = None" "find (\<lambda>t. is_prefix t (v @ r)) removed_tags = Some v" "v \<noteq> []"
    using assms(1) by (cases y; auto simp: removed_blocks_def removed_tags_def lit_simps)+
  then show ?thesis using n by (subst proc_tag.simps) (cases n; auto)
qed

lemma proc_tag_opt:
  assumes "n \<noteq> 0"
  shows "proc_tag optfile n (opt_begin y @ r) = proc_opt optfile y n (opt_begin y @ r)"
proof -
  have "find (\<lambda>(b, e). is_prefix b (opt_begin y @ r)) removed_blocks = None" "find (\<lambda>t. is_prefix t (opt_begin y @ r)) removed_tags = None"
    "is_prefix (opt_begin Js) (opt_begin y @ r) = (y = Js)" "y \<noteq> Js \<Longrightarrow> is_prefix (opt_begin Html) (opt_begin y @ r)"
    by (cases y; simp add: removed_blocks_def removed_tags_def lit_simps)+
  then show ?thesis using assms by (subst proc_tag.simps) (cases y; simp del: opt_begin.simps)
qed

lemma drop_zero_at: "\<forall>z\<in>set zs. z < k \<Longrightarrow> drop k (zero_at zs s) = drop k s"
  by (induction zs arbitrary: s) (simp_all add: zero_at_def)

text \<open>\<open>s\<close> gives the output \<open>t\<close> in front of any text, and no NUL behind itself.\<close>

definition renders :: "bytes option \<Rightarrow> bytes \<Rightarrow> bytes \<Rightarrow> bool" where
  "renders optfile s t \<longleftrightarrow> (\<forall>n r. is_cstr r \<longrightarrow> follows r \<longrightarrow> length s \<le> n \<longrightarrow>
     (\<exists>zs. (\<forall>z\<in>set zs. z < length s) \<and>
       proc_tag optfile n (s @ r) = append_result t zs (length s) (proc_tag optfile (n - length s) r)))"

lemma rendersI:
  assumes "\<And>n r. is_cstr r \<Longrightarrow> follows r \<Longrightarrow> length s \<le> n \<Longrightarrow> \<exists>zs. (\<forall>z\<in>set zs. z < length s) \<and>
    proc_tag optfile n (s @ r) = append_result t zs (length s) (proc_tag optfile (n - length s) r)"
  shows "renders optfile s t"
  using assms by (simp add: renders_def)

lemma rendersD:
  assumes "renders optfile s t" "is_cstr r" "follows r" "length s \<le> n"
  shows "\<exists>zs. (\<forall>z\<in>set zs. z < length s) \<and>
    proc_tag optfile n (s @ r) = append_result t zs (length s) (proc_tag optfile (n - length s) r)"
  using assms unfolding renders_def by blast

lemma renders_append:
  assumes s: "renders optfile s t" and s': "renders optfile s' t'" and "is_cstr s'" "\<And>r. follows r \<Longrightarrow> follows (s' @ r)"
  shows "renders optfile (s @ s') (t @ t')"
proof (rule rendersI)
  fix n r assume r: "is_cstr r" "follows r" and n: "length (s @ s') \<le> n"
  obtain zs where zs: "\<forall>z\<in>set zs. z < length s"
      "proc_tag optfile n (s @ s' @ r) = append_result t zs (length s) (proc_tag optfile (n - length s) (s' @ r))"
    using rendersD [OF s, of "s' @ r" n] r n assms(3,4) by auto
  obtain zs' where zs': "\<forall>z\<in>set zs'. z < length s'"
      "proc_tag optfile (n - length s) (s' @ r) = append_result t' zs' (length s') (proc_tag optfile (n - length s - length s') r)"
    using rendersD [OF s' r, of "n - length s"] n by fastforce
  have "\<forall>z\<in>set (zs @ map (\<lambda>z. length s + z) zs'). z < length (s @ s')" using zs(1) zs'(1) by auto
  moreover have "proc_tag optfile n ((s @ s') @ r) =
      append_result (t @ t') (zs @ map (\<lambda>z. length s + z) zs') (length (s @ s')) (proc_tag optfile (n - length (s @ s')) r)"
    by (simp add: zs(2) zs'(2))
  ultimately show "\<exists>zs. (\<forall>z\<in>set zs. z < length (s @ s')) \<and> proc_tag optfile n ((s @ s') @ r) =
      append_result (t @ t') zs (length (s @ s')) (proc_tag optfile (n - length (s @ s')) r)" by blast
qed

lemma renders_nil: "renders optfile [] []"
  by (rule rendersI) (auto intro: exI [of _ "[]"])

lemma renders_items:
  "(\<And>it. it \<in> set is \<Longrightarrow> item_ok it \<Longrightarrow> renders optfile (print_item it) (render optfile it)) \<Longrightarrow> list_all item_ok is \<Longrightarrow>
    renders optfile (print_items is) (concat (map (render optfile) is))"
proof (induction "is")
  case (Cons it "is")
  have "renders optfile (print_item it @ print_items is) (render optfile it @ concat (map (render optfile) is))"
    using Cons by (intro renders_append) (auto simp: cstr_items follows_items)
  then show ?case by simp
qed (simp add: renders_nil)

lemma renders_mark: "v = fst (real_tags y) \<or> v = snd (real_tags y) \<Longrightarrow> renders optfile v []"
  by (rule rendersI, rule exI [of _ "[]"]) (simp add: proc_tag_mark)

lemma renders_option:
  assumes ok: "opt_name_ok name" "list_all item_ok is" and body: "renders optfile (print_items is) t"
  shows "renders optfile (print_item (Opt y negated name is)) (if opt_taken optfile negated name then t else [])"
proof (rule rendersI)
  fix n r
  assume r: "is_cstr r" "follows r" and n: "length (print_item (Opt y negated name is)) \<le> n"
  define j where "j = length (opt_begin y) + length (opt_mark negated) + length name + length (opt_tail y)"
  define c where "c = j + length (print_items is)"
  define s where "s = opt_begin y @ opt_mark negated @ name @ opt_tail y @ print_items is @ opt_end y @ r"
  have 1: "match_end y s (length (opt_begin y)) (length (opt_begin y)) = Some c"
    using match_end_option [OF ok r, of y negated] by (simp only: s_def c_def j_def)
  have "is_cstr (print_items is @ opt_end y @ r)" using r cstr_items [OF ok(2)] by simp
  from opt_name_option [OF ok(1) this, of y negated]
  have 2: "opt_name (opt_tail y) s (length (opt_begin y)) = Some (negated, name, j)" by (simp only: s_def j_def)
  have 3: "drop j s = print_items is @ opt_end y @ r" "c - j = length (print_items is)" "drop (c + length (opt_end y)) s = r"
    by (simp_all add: s_def j_def c_def)
  obtain zs where zs: "\<forall>z\<in>set zs. z < length (print_items is)"
      "proc_tag optfile (length (print_items is)) (print_items is @ opt_end y @ r) = Inr (t, zs)"
    using rendersD [OF body, of "opt_end y @ r" "length (print_items is)"] r by auto
  define zs' where "zs' = (j - length (opt_tail y)) # map (\<lambda>z. j + z) (if opt_taken optfile negated name then zs else [])"
  have in_zs: "\<forall>z\<in>set zs'. z < c + length (opt_end y)" using zs(1) by (fastforce simp: zs'_def c_def j_def)
  have "n \<noteq> 0" using n by (cases y; simp add: lit_simps)
  then have "proc_tag optfile n s = proc_opt optfile y n s" by (simp add: s_def proc_tag_opt)
  also have "\<dots> = append_result (if opt_taken optfile negated name then t else []) zs' (c + length (opt_end y))
      (proc_tag optfile (n - (c + length (opt_end y))) r)"
    using drop_zero_at [OF in_zs, of s] by (subst proc_opt.simps) (simp add: 1 2 3 zs(2) zs'_def split: if_splits)
  finally show "\<exists>zs. (\<forall>z\<in>set zs. z < length (print_item (Opt y negated name is))) \<and>
      proc_tag optfile n (print_item (Opt y negated name is) @ r) = append_result (if opt_taken optfile negated name then t else []) zs
        (length (print_item (Opt y negated name is))) (proc_tag optfile (n - length (print_item (Opt y negated name is))) r)"
    using in_zs by (intro exI [of _ zs']) (simp add: s_def c_def j_def add.assoc)
qed

lemma renders_item: "item_ok it \<Longrightarrow> renders optfile (print_item it) (render optfile it)"
proof (induction it)
  case (Text t)
  then show ?case using text_apart [of t] by (intro rendersI exI [of _ "[]"]) (simp add: proc_tag_text)
next
  case (Demo y t)
  then show ?case using proc_tag_demo [of t _ y _ optfile] by (intro rendersI exI [of _ "[]"]) simp
next
  case (Real y "is")
  then have body: "renders optfile (print_items is) (concat (map (render optfile) is))" by (intro renders_items) auto
  have "renders optfile (fst (real_tags y) @ print_items is @ snd (real_tags y)) ([] @ concat (map (render optfile) is) @ [])"
    using Real.prems by (intro renders_append body renders_mark [of _ y]) (simp_all add: cstr_items follows_items)
  then show ?case by simp
next
  case (Opt y negated name "is")
  then have "renders optfile (print_items is) (concat (map (render optfile) is))" by (intro renders_items) auto
  then show ?case using renders_option [of name "is" optfile _ y negated] Opt.prems by simp
qed


section \<open>Data and inline C of a page\<close>

datatype part = Data bytes | Inner bytes | Outer bytes

fun print_part :: "part \<Rightarrow> bytes" where
  "print_part (Data h) = h"
| "print_part (Inner c) = [60, 37] @ c @ [37, 62]"
| "print_part (Outer c) = [60, 37, 43] @ c @ [43, 37, 62]"

text \<open>What a page must become: the data file holds the data of all parts; the file in front of the page
  function holds the code marked with \<open>+\<close>; the page function holds the other code, and for every piece of
  data the call that sends it: its offset is the length of the data in front of it (\<open>pre\<close>).\<close>

fun page_data :: "part list \<Rightarrow> bytes" where
  "page_data [] = []"
| "page_data (Data h # ps) = h @ page_data ps"
| "page_data (_ # ps) = page_data ps"

fun page_head :: "part list \<Rightarrow> bytes" where
  "page_head [] = []"
| "page_head (Outer c # ps) = c @ [10, 10] @ page_head ps"
| "page_head (_ # ps) = page_head ps"

fun page_body :: "bytes \<Rightarrow> part list \<Rightarrow> bytes" where
  "page_body pre [] = []"
| "page_body pre (Data h # ps) = [9] @ lit ''WEB_write_blk(req, datap, '' @ dec_nat (length pre) @ lit '', '' @
     dec_nat (length h) @ lit '');'' @ [10, 10] @ page_body (pre @ h) ps"
| "page_body pre (Inner c # ps) = c @ [10, 10] @ page_body pre ps"
| "page_body pre (Outer c # ps) = page_body pre ps"

fun part_ok :: "part \<Rightarrow> bool" where
  "part_ok (Data h) \<longleftrightarrow> h \<noteq> [] \<and> strstr h [60, 37] = None"
| "part_ok (Inner c) \<longleftrightarrow> strstr c [37, 62] = None \<and> (c \<noteq> [] \<longrightarrow> hd c \<noteq> 43)"
| "part_ok (Outer c) \<longleftrightarrow> strstr c [37, 62] = None"

fun is_data :: "part \<Rightarrow> bool" where
  "is_data (Data h) = True"
| "is_data (Inner c) = False"
| "is_data (Outer c) = False"

fun parts_ok :: "part list \<Rightarrow> bool" where
  "parts_ok [] = True"
| "parts_ok [p] = part_ok p"
| "parts_ok (p # q # ps) \<longleftrightarrow> part_ok p \<and> (is_data p \<longrightarrow> \<not> is_data q) \<and> parts_ok (q # ps)"

lemma strstr_stop: "strstr h [a, b] = None \<Longrightarrow> a \<noteq> b \<Longrightarrow> strstr (h @ [a, b] @ r) [a, b] = Some (length h)"
proof (induction h)
  case (Cons c h)
  then show ?case by (cases h) (auto split: if_splits)
qed simp

lemma split_data:
  assumes "strstr h [60, 37] = None" "h \<noteq> []"
  shows "split_page (h @ [60, 37] @ r) x = split_page ([60, 37] @ r) (emit h x)"
  using strstr_stop [OF assms(1), of r] assms(2)
  by (simp add: split_page.simps [of "h @ _"] split_page.simps [of "60 # 37 # r"] lit_simps Let_def cong: option.case_cong if_cong)

lemma split_last: "strstr h [60, 37] = None \<Longrightarrow> h \<noteq> [] \<Longrightarrow> split_page h x = Some (True, put_data h x)"
  by (simp add: split_page.simps [of h] lit_simps)

lemma split_inner:
  assumes "part_ok (Inner c)"
  shows "split_page (print_part (Inner c) @ r) x = split_page r (x\<lparr>c1_out := c1_out x @ c @ [10, 10]\<rparr>)"
proof -
  have "\<not> is_prefix [43] (c @ [37, 62] @ r)" using assms by (cases c) auto
  then show ?thesis
    using strstr_stop [of c 37 62 r] assms by (subst split_page.simps) (simp add: lit_simps Let_def)
qed

lemma split_outer:
  assumes "part_ok (Outer c)"
  shows "split_page (print_part (Outer c) @ r) x = split_page r (x\<lparr>c_out := c_out x @ c @ [10, 10]\<rparr>)"
proof -
  have "strstr (c @ [43]) [37, 62] = None" using assms
  proof (induction c)
    case (Cons b c)
    then show ?case by (cases c) (auto split: if_splits)
  qed simp
  from strstr_stop [OF this, of r] show ?thesis
    by (subst split_page.simps) (simp add: lit_simps Let_def nth_append)
qed

lemma split_empty: "split_page [] x = Some (True, x)"
  by (simp add: split_page.simps lit_simps)

lemma print_part_opens: "\<not> is_data p \<Longrightarrow> \<exists>r. print_part p = [60, 37] @ r"
  by (cases p) auto


lemma page_data_append: "page_data (ps @ qs) = page_data ps @ page_data qs"
  by (induction ps rule: page_data.induct) auto

lemma split_parts:
  assumes "parts_ok ps" and "dbg_out x = pre" and "outbytes x = length pre"
  shows "\<exists>y. split_page (concat (map print_part ps)) x = Some (True, y) \<and> c_out y = c_out x @ page_head ps \<and>
    c1_out y = c1_out x @ page_body pre ps \<and> dbg_out y = pre @ page_data ps"
  using assms
proof (induction ps arbitrary: x pre rule: parts_ok.induct)
  case 1
  then show ?case by (simp add: split_empty)
next
  case (2 p)
  show ?case
  proof (cases p)
    case (Data h)
    then show ?thesis using 2 split_last [of h x] by (simp add: put_data_def write_blk_def)
  next
    case (Inner c)
    then show ?thesis using 2 split_inner [of c "[]" x] by (simp add: split_empty)
  next
    case (Outer c)
    then show ?thesis using 2 split_outer [of c "[]" x] by (simp add: split_empty)
  qed
next
  case (3 p q ps)
  have ok: "part_ok p" "parts_ok (q # ps)" using "3.prems"(1) by simp_all
  show ?case
  proof (cases p)
    case (Data h)
    then obtain r where r: "concat (map print_part (q # ps)) = [60, 37] @ r"
      using "3.prems"(1) print_part_opens [of q] by auto
    have "split_page (concat (map print_part (p # q # ps))) x = split_page (concat (map print_part (q # ps))) (emit h x)"
      using Data ok(1) split_data [of h r x] r by simp
    moreover have "dbg_out (emit h x) = pre @ h" "outbytes (emit h x) = length (pre @ h)" "c_out (emit h x) = c_out x"
      "c1_out (emit h x) = c1_out x @ page_body pre [Data h]"
      using "3.prems"(2,3) by (simp_all add: emit_def put_data_def write_blk_def)
    ultimately show ?thesis using "3.IH" [OF ok(2), of "emit h x" "pre @ h"] Data by auto
  next
    case (Inner c)
    let ?x = "x\<lparr>c1_out := c1_out x @ c @ [10, 10]\<rparr>"
    have "split_page (concat (map print_part (p # q # ps))) x = split_page (concat (map print_part (q # ps))) ?x"
      using Inner ok(1) split_inner [of c _ x] by simp
    then show ?thesis using "3.IH" [OF ok(2), of ?x pre] "3.prems"(2,3) Inner by auto
  next
    case (Outer c)
    let ?x = "x\<lparr>c_out := c_out x @ c @ [10, 10]\<rparr>"
    have "split_page (concat (map print_part (p # q # ps))) x = split_page (concat (map print_part (q # ps))) ?x"
      using Outer ok(1) split_outer [of c _ x] by simp
    then show ?thesis using "3.IH" [OF ok(2), of ?x pre] "3.prems"(2,3) Outer by auto
  qed
qed

section \<open>Properties\<close>

text \<open>
  C37. The filter turns the text of every well-formed page into the page without its demo parts and tags: real parts stay,
  and of the optional parts, nested to any depth and in both comment styles, exactly those that the option file selects.
\<close>

theorem proc_tag_renders:
  assumes "list_all item_ok is"
  shows "map_sum id fst (proc_tag optfile (length (print_items is)) (print_items is)) = Inr (concat (map (render optfile) is))"
proof -
  obtain zs where "proc_tag optfile (length (print_items is)) (print_items is) = Inr (concat (map (render optfile) is), zs)"
    using rendersD [OF renders_items [OF renders_item assms], of "[]" "length (print_items is)" optfile] by auto
  then show ?thesis by simp
qed

theorem proc_tag_renders_witness:
  "map_sum id fst (proc_tag (Some (lit ''#define WSC'' @ [10]))
     (length (print_items [Text (lit ''a''), Opt Js False (lit ''WSC'') [Opt Js True (lit ''WSC'') [], Text (lit ''b'')], Demo Html (lit ''c'')]))
     (print_items [Text (lit ''a''), Opt Js False (lit ''WSC'') [Opt Js True (lit ''WSC'') [], Text (lit ''b'')], Demo Html (lit ''c'')])) =
   Inr (lit ''ab'')"
proof -
  have "opt_taken (Some (lit ''#define WSC'' @ [10])) False (lit ''WSC'')"
    by (simp add: opt_taken_def option_match_def fgets_lines.simps has_sub_def lit_simps)
  then show ?thesis
    by (subst proc_tag_renders) (simp_all add: text_ok_def opt_name_ok_def tags_def apart_def removed_blocks_def removed_tags_def lit_simps page_option_def)
qed

text \<open>
  C38. A page of data and inline C is split completely: the data file holds the data of the page; inline C goes into the
  page function, in its place between the calls that send the data, and inline C marked with \<open>+\<close> in front of the function;
  and the offset and length of every call select exactly its piece of data in the data file.
\<close>

theorem split_page_parts:
  assumes "parts_ok ps" and "dbg_out x = []" and "outbytes x = 0"
  shows "\<exists>y. split_page (concat (map print_part ps)) x = Some (True, y) \<and> c_out y = c_out x @ page_head ps \<and>
    c1_out y = c1_out x @ page_body [] ps \<and> dbg_out y = page_data ps \<and>
    (\<forall>before h behind. ps = before @ Data h # behind \<longrightarrow>
       take (length h) (drop (length (page_data before)) (dbg_out y)) = h)"
proof -
  have "take (length h) (drop (length (page_data before)) (page_data (before @ Data h # behind))) = h" for before h behind
    by (simp add: page_data_append)
  then show ?thesis using split_parts [OF assms(1,2)] assms(3) by auto
qed

theorem split_page_parts_witness:
  "\<exists>y. split_page (lit ''a<b><% f(); %>c<%+ int i; +%>'') \<lparr>c_out = [], c1_out = [], dbg_out = [], outbytes = 0\<rparr> = Some (True, y) \<and>
     c_out y = lit '' int i; '' @ [10, 10] \<and> dbg_out y = lit ''a<b>c'' \<and>
     c1_out y = [9] @ lit ''WEB_write_blk(req, datap, 0, 4);'' @ [10, 10] @ lit '' f(); '' @ [10, 10, 9] @
       lit ''WEB_write_blk(req, datap, 4, 1);'' @ [10, 10]"
proof -
  let ?ps = "[Data (lit ''a<b>''), Inner (lit '' f(); ''), Data (lit ''c''), Outer (lit '' int i; '')]"
  let ?x = "\<lparr>c_out = [], c1_out = [], dbg_out = [], outbytes = 0\<rparr>"
  have "lit ''a<b><% f(); %>c<%+ int i; +%>'' = concat (map print_part ?ps)" by (simp add: lit_simps)
  moreover have "parts_ok ?ps" by (simp add: lit_simps)
  moreover have "dec_nat 0 = lit ''0''" "dec_nat (Suc 0) = lit ''1''" "dec_nat (Suc (Suc (Suc (Suc 0)))) = lit ''4''" by (simp_all add: dec_nat.simps lit_simps)
  ultimately show ?thesis using split_page_parts [of ?ps ?x] by (auto simp: lit_simps)
qed

end
