(* ===== verification/WebAuth.thy ===== *)
theory WebAuth
  imports Prelude
begin

text \<open>
  Users of the web page (\<^verbatim>\<open>src/websrc/auth/auth_v2/auth_check.c\<close>): the table \<open>userinfo\<close> with the session of each
  user. \<open>user_config\<close> brings it in line with the configuration, \<open>HTTP_logout\<close> ends sessions, \<open>auth_check\<close> is asked for
  every request. It begins with \<open>return 0\<close>, so that the check behind it is never reached and is not modelled.

  Members and arrays are their strings, with their sizes checked; \<open>None\<close> is a string that does not fit, or a null pointer.
  The configuration and \<open>base64_decode\<close> of the SDK are parameters; log messages are left out.
\<close>

section \<open>Sessions\<close>

record userinfo_t =
  username :: bytes
  passwd :: bytes
  admin_addr :: int
  logout_time :: int
  listenif :: byte

text \<open>\<open>strcpy\<close> into an array of \<open>n\<close> bytes.\<close>

definition copied :: "nat \<Rightarrow> bytes \<Rightarrow> bytes option" where
  "copied n v = (if length v < n then Some v else None)"

definition logout :: "userinfo_t \<Rightarrow> userinfo_t" where
  "logout user = user\<lparr>admin_addr := 0, logout_time := 0, listenif := 0\<rparr>"

text \<open>One round of the loop; \<open>CFG_get\<close> gives the configured name and password.\<close>

definition configure_user :: "bool \<Rightarrow> bool \<Rightarrow> bytes \<times> bytes \<Rightarrow> userinfo_t \<Rightarrow> userinfo_t option" where
  "configure_user lan_updated wan_updated = (\<lambda>(name, pass) u. do {
     name \<leftarrow> copied 50 name;
     pass \<leftarrow> copied 50 pass;
     if name \<noteq> username u \<or> pass \<noteq> passwd u \<or> lan_updated \<and> listenif u = 0 \<or> wan_updated \<and> listenif u = 1
     then do {
       name \<leftarrow> copied 16 name;
       pass \<leftarrow> copied 16 pass;
       Some \<lparr>username = name, passwd = pass, admin_addr = 0, logout_time = 0, listenif = 0\<rparr> }
     else Some u })"

definition user_config :: "(nat \<Rightarrow> bytes \<times> bytes) \<Rightarrow> bool \<Rightarrow> bool \<Rightarrow> userinfo_t list \<Rightarrow> userinfo_t list option" where
  "user_config CFG_get lan_updated wan_updated us =
    those (map (\<lambda>i. configure_user lan_updated wan_updated (CFG_get i) (us ! i)) [0..<length us])"

definition auth_check :: "'req \<Rightarrow> userinfo_t list \<Rightarrow> int \<times> userinfo_t list" where
  "auth_check req us = (0, us)"

section \<open>Logging out\<close>

text \<open>The request is \<open>None\<close> for a null pointer, and so is its \<open>authorization\<close>.\<close>

primrec logout_named :: "bytes \<Rightarrow> userinfo_t list \<Rightarrow> userinfo_t list" where
  "logout_named name [] = []"
| "logout_named name (u # us) = (if username u = name then logout u # us else u # logout_named name us)"

definition HTTP_logout :: "(bytes \<Rightarrow> nat \<Rightarrow> bytes) \<Rightarrow> bytes option option \<Rightarrow> userinfo_t list \<Rightarrow> userinfo_t list option" where
  "HTTP_logout base64_decode req us = (case req of
     None \<Rightarrow> Some (map logout us)
   | Some authorization \<Rightarrow> do {
       a \<leftarrow> authorization;
       if length a < 6 then None
       else do {
         authinfo \<leftarrow> copied 50 (base64_decode (drop 6 a) 50);
         let authinfo = takeWhile (\<lambda>b. b \<noteq> 0) authinfo;
         ch \<leftarrow> strchr 58 authinfo;
         Some (logout_named (take ch authinfo) us) } })"

section \<open>Properties\<close>

lemma those_map_Some: "(\<And>x. x \<in> set xs \<Longrightarrow> f x = Some (g x)) \<Longrightarrow> those (map f xs) = Some (map g xs)"
  by (induction xs) auto

definition no_session :: "userinfo_t \<Rightarrow> bool" where
  "no_session u \<longleftrightarrow> admin_addr u = 0 \<and> logout_time u = 0 \<and> listenif u = 0"

definition unaffected :: "bool \<Rightarrow> bool \<Rightarrow> bytes \<times> bytes \<Rightarrow> userinfo_t \<Rightarrow> bool" where
  "unaffected lan_updated wan_updated c u \<longleftrightarrow> c = (username u, passwd u) \<and>
     \<not> (lan_updated \<and> listenif u = 0) \<and> \<not> (wan_updated \<and> listenif u = 1)"

lemma configure_user_total:
  assumes "length (fst c) < 16" "length (snd c) < 16"
  shows "\<exists>v. configure_user lan wan c u = Some v \<and> (username v, passwd v) = c \<and>
    (if unaffected lan wan c u then v = u else no_session v)"
  using assms by (cases c) (auto simp: configure_user_def copied_def unaffected_def no_session_def)

text \<open>
  C40. When the configured names and passwords fit the table, it holds them afterwards; the session of a user goes on exactly
  when neither the name nor the password has changed and the interface it came from has not been reconfigured.
\<close>

theorem user_config_sessions:
  assumes "\<forall>i<length us. length (fst (CFG_get i)) < 16 \<and> length (snd (CFG_get i)) < 16"
  shows "\<exists>vs. user_config CFG_get lan wan us = Some vs \<and> length vs = length us \<and>
    (\<forall>i<length us. (username (vs ! i), passwd (vs ! i)) = CFG_get i \<and>
      (if unaffected lan wan (CFG_get i) (us ! i) then vs ! i = us ! i else no_session (vs ! i)))"
proof -
  define v where "v i = the (configure_user lan wan (CFG_get i) (us ! i))" for i
  have v: "configure_user lan wan (CFG_get i) (us ! i) = Some (v i) \<and> (username (v i), passwd (v i)) = CFG_get i \<and>
      (if unaffected lan wan (CFG_get i) (us ! i) then v i = us ! i else no_session (v i))" if "i < length us" for i
    using configure_user_total [of "CFG_get i" lan wan "us ! i"] assms that by (auto simp: v_def)
  have "user_config CFG_get lan wan us = Some (map v [0..<length us])"
    unfolding user_config_def using v by (intro those_map_Some) simp
  then show ?thesis using v by (intro exI [of _ "map v [0..<length us]"]) simp
qed

theorem user_config_sessions_witness:
  "\<exists>vs. user_config (\<lambda>_. (lit ''admin'', lit ''1'')) True False [\<lparr>username = lit ''admin'', passwd = lit ''1'', admin_addr = 7, logout_time = 9, listenif = 1\<rparr>] = Some vs \<and>
    vs ! 0 = \<lparr>username = lit ''admin'', passwd = lit ''1'', admin_addr = 7, logout_time = 9, listenif = 1\<rparr>"
  using user_config_sessions [of "[\<lparr>username = lit ''admin'', passwd = lit ''1'', admin_addr = 7, logout_time = 9, listenif = 1\<rparr>]" "\<lambda>_. (lit ''admin'', lit ''1'')" True False]
  by (auto simp: unaffected_def)

lemma logout_named_nth: "length (logout_named name us) = length us" "i < length us \<Longrightarrow> logout_named name us ! i =
    (if username (us ! i) = name \<and> (\<forall>j<i. username (us ! j) \<noteq> name) then logout (us ! i) else us ! i)"
proof -
  show "length (logout_named name us) = length us" by (induction us) simp_all
  show "i < length us \<Longrightarrow> logout_named name us ! i =
      (if username (us ! i) = name \<and> (\<forall>j<i. username (us ! j) \<noteq> name) then logout (us ! i) else us ! i)"
  proof (induction us arbitrary: i)
    case (Cons u us)
    then show ?case by (cases i) (auto simp: All_less_Suc2)
  qed simp
qed

text \<open>
  A request to log out with the credentials \<open>name:password\<close>, decoded into at most 49 bytes, ends the session of the first
  user of that name, whatever the password, and leaves every other user as it is.
\<close>

theorem logout_ends_session:
  assumes "base64_decode (drop 6 a) 50 = name @ 58 # pass" and "length name + length pass < 49" and "6 \<le> length a"
    and "0 \<notin> set name" and "58 \<notin> set name"
  shows "\<exists>vs. HTTP_logout base64_decode (Some (Some a)) us = Some vs \<and> length vs = length us \<and>
    (\<forall>i<length us. vs ! i = (if username (us ! i) = name \<and> (\<forall>j<i. username (us ! j) \<noteq> name) then logout (us ! i) else us ! i))"
proof -
  have "takeWhile (\<lambda>b. b \<noteq> 0) (name @ 58 # pass) = name @ 58 # takeWhile (\<lambda>b. b \<noteq> 0) pass"
    using assms(4) by (subst takeWhile_append2) auto
  then have "HTTP_logout base64_decode (Some (Some a)) us = Some (logout_named name us)"
    using assms strchr_append [OF assms(5)] by (simp add: HTTP_logout_def copied_def)
  then show ?thesis by (auto simp: logout_named_nth)
qed

theorem logout_ends_session_witness:
  "\<exists>vs. HTTP_logout (\<lambda>_ _. lit ''a:b'') (Some (Some (lit ''Basic YTpi'')))
      [\<lparr>username = lit ''a'', passwd = lit ''x'', admin_addr = 7, logout_time = 9, listenif = 1\<rparr>] = Some vs \<and> admin_addr (vs ! 0) = 0"
  using logout_ends_session [of "\<lambda>_ _. lit ''a:b''" "lit ''Basic YTpi''" "lit ''a''" "lit ''b''"
      "[\<lparr>username = lit ''a'', passwd = lit ''x'', admin_addr = 7, logout_time = 9, listenif = 1\<rparr>]"]
  by (auto simp: logout_def)

end
