(* ===== verification/Spec2Isabelle.thy ===== *)
theory Spec2Isabelle
  imports AtCommands E131 ArtNet Sacn Samd ClientSort Announce MainLoopFacts ImageTools Sha1Facts Upgrade RouterCommands SiteSurveyFacts PageCompilerFacts WebAuth
begin

text \<open>
  A verification library for the firmware of the Ratpac AKS lighting node (\<^verbatim>\<open>src/\<close>, an HF-A21 wireless module).

  \<^bold>\<open>The program.\<close> The node receives lighting data over WiFi, as Art-Net or as E1.31 (sACN), and hands it over a
  serial line to the SAMD, the microcontroller that drives the lamps. The nodes announce themselves to each other and list
  one another on their web pages; settings are made by AT commands or on the web page and kept in flash. Host programs
  built with the firmware finish its image and compile its web pages. All parts share the configuration record; the web
  page and the main loop use the serial link and the client list; the receiver of lighting data reads the configuration and
  merges the gaffer channels into what it passes on.

  \<^bold>\<open>The machine\<close> (\<open>Prelude\<close>). The target is a little-endian MIPS with signed plain \<open>char\<close>. A byte is
  \<open>8 word\<close>, a buffer is a list of bytes, and a write goes through \<open>mem_put\<close>, which is \<open>None\<close> outside the
  buffer; strings end at the first NUL. In every theory \<open>None\<close> stands for undefined behaviour: an access outside an object,
  a null pointer, a freed block, a lock that blocks for ever. Return codes and error values of the source are ordinary values.
  So a theorem that a function is \<open>Some\<close> says that it stays inside its memory and returns. What is not under
  \<^verbatim>\<open>src/\<close> (SDK, eCos, sockets, flash driver, the answers of peers) is a parameter or an argument; hypotheses about
  such parameters are named definitions (\<open>flash_ok\<close>, \<open>settings_taken\<close>, \<open>routes\<close>, ...), and witnesses apply every
  theorem that has hypotheses to concrete data.

  \<^bold>\<open>Contracts.\<close> \<open>SettingStore\<close> (a store of settings; interpreted on packed records in general and on the
  configuration and the client entries, and on the options of a packet), \<open>Checksums\<close> (folds of cancellative operations; the checksums of the
  configuration and of a firmware image), \<open>Receiver\<close> (reacting to one message after the other inside the buffers; Art-Net
  and E1.31), and \<open>expiring_table\<close> in \<open>ClientTable\<close> (entries with a lifetime; the client list).
  \<open>PackedRecord\<close> holds structures of character arrays.

  \<^bold>\<open>Theories and code.\<close>
  \<^item> \<open>WebConfig\<close>, \<open>ConfigFlash\<close>, \<open>AtCommands\<close>: \<open>g_web_config\<close>, \<open>ratpac_get_str\<close>, \<open>ratpac_set_str\<close>, the
    copy in flash with its checksum, the factory values and the AT commands of \<^verbatim>\<open>src/user/UserMain.c\<close> and
    \<^verbatim>\<open>UserCfgData.c\<close>. A value that fits is stored, read back, saved and survives a reboot; a corrupted byte is noticed.
  \<^item> \<open>E131\<close>, \<open>ArtNet\<close>, \<open>Sacn\<close>: \<^verbatim>\<open>src/user/e131.c\<close>, \<^verbatim>\<open>e131.h\<close>, \<^verbatim>\<open>ArtPollReply.c\<close> and the
    gaffer functions. Validation and the sequence window, the forwarding of exactly the packets of the own universe, the
    merged channels, and that any sequence of datagrams is processed inside the buffers. \<open>sACN_main\<close> is a step relation.
  \<^item> \<open>Samd\<close>: the UART callback, \<open>Send_SAMD_CMD\<close> with at most two attempts, the commands and
    \<open>SAMD_firmware_download\<close>. Every command returns with the mutex released, whatever the peer does.
  \<^item> \<open>ClientList\<close>, \<open>ClientTable\<close>, \<open>Announce\<close>, \<open>ClientSort\<close>: the 24 entries of the client list, a refinement
    of a table of announcements with a lifetime of three steps, the round trip of an announcement, and the sorting.
  \<^item> \<open>MainLoop\<close>, \<open>MainLoopFacts\<close>: the thread \<open>UserMain\<close>: mode, channels blocked for the WiFi, address, colour.
  \<^item> \<open>WebPage\<close>, \<open>WebCommands\<close>, \<open>RouterCommands\<close>, \<open>FactoryReset\<close>, \<open>Upgrade\<close>, \<open>SiteSurvey\<close> with their
    \<open>Facts\<close>: the page variables, \<open>CGI_do_cmd\<close> with every function of its tables, the reset to factory settings, ping,
    uploads and the list of networks of \<^verbatim>\<open>src/websrc/cgi/cgi_v2/cgi_api.c\<close>. \<open>WebAuth\<close>: \<^verbatim>\<open>auth_v2/auth_check.c\<close>.
  \<^item> \<open>ImageTools\<close>, \<open>Sha1\<close>, \<open>Sha1Facts\<close>, \<open>PageCompiler\<close>, \<open>PageCompilerFacts\<close>: the host programs
    \<^verbatim>\<open>imghdr.c\<close>, \<^verbatim>\<open>imghdr_bn.c\<close>, \<^verbatim>\<open>HfMkImage.c\<close>, \<^verbatim>\<open>sha1.c\<close>, \<^verbatim>\<open>signature.c\<close> and
    \<^verbatim>\<open>src/websrc/scripts/webcomp_sin.c\<close>. The sum of a finished image is zero, the streaming hash is the standard's, and
    the page compiler renders every well-formed page, with optional parts nested to any depth.

  \<^bold>\<open>State.\<close> The global variables of \<^verbatim>\<open>UserMain.c\<close> are the fields of records that extend each other in the order in which
  the components use them: \<open>cfg_state\<close>, the node, the serial link, the client list, the web server (\<open>web_state\<close>). What
  leaves the node is part of the state: \<open>outputs\<close> (datagrams, UART), \<open>sent\<close> (commands), \<open>sdk_calls\<close> (calls into the
  SDK). Parameters are records that extend each other in the same way. Text written to a page is a result.

  \<^bold>\<open>Loops and bounds.\<close> Loops over arrays are structural recursion over their indices: 50 \<open>SET\<close> parameters of a request,
  24 client entries, 5 pings, the columns of a scan of 8192 bytes. Where the program's own argument for termination is a
  position in a string (\<open>match_end\<close>, \<open>proc_tag\<close>, \<open>split_page\<close>, \<open>fgets_lines\<close>), the function has a termination proof.
  Loops that need not end are partial functions; that they end is part of the theorems about them (\<open>sc_convert\<close>,
  \<open>survey_loop\<close>, \<open>free_route\<close>), or depends on how the SDK deletes a route (\<open>delete_routes\<close>). No model uses fuel. Threads that run for ever (\<open>sACN_main\<close>, the server thread, the main
  loop) are steps or rounds, and the theorems are about every sequence of them.

  \<^bold>\<open>Not modelled.\<close> Interleavings of the threads, which share the client list without a lock, delays, priorities and
  debug output. The remaining pages of the SDK in \<^verbatim>\<open>cgi_api.c\<close>, which print structures of binary libraries, or
  have no caller; \<^verbatim>\<open>src/lib/rt_ap_channel.c\<close>, which dumps the memory of the driver; the boot loader with its vendored
  decompressors in \<^verbatim>\<open>src/zload\<close>; the check behind the first \<open>return\<close> of \<open>auth_check\<close>; headers and binaries of
  the SDK in \<^verbatim>\<open>src/include\<close> and \<^verbatim>\<open>src/lib\<close>, the tool chain in \<^verbatim>\<open>src/tools\<close>, scripts and the web pages
  themselves.
\<close>

end
